(* ===== verification/Prelude.thy ===== *)
theory Prelude
  imports Main "HOL-Library.Word" "HOL-Library.Sublist"
begin

text \<open>
  The vocabulary the components share: bytes and machine integers, the I/O error kinds and the
  result type of the fallible functions, little-endian encodings of words, the UTF-8 check of
  \<^verbatim>\<open>std::str::from_utf8\<close>, and the operations on text (\<^verbatim>\<open>split\<close>, \<^verbatim>\<open>join\<close>,
  \<^verbatim>\<open>trim\<close>, \<^verbatim>\<open>find\<close>) that the path and filter code is written with.

  A Rust string is modelled by the list of its UTF-8 bytes, as a \<open>string\<close> (an Isabelle
  character is one byte). Every separator the code looks for is ASCII, so searching bytes and
  searching characters agree.
\<close>

section \<open>Bytes, machine integers, results\<close>

type_synonym byte = "8 word"
type_synonym u16 = "16 word"
type_synonym u32 = "32 word"
type_synonym u64 = "64 word"

text \<open>The error kinds of \<^verbatim>\<open>std::io::ErrorKind\<close> the code constructs or tests for.\<close>

datatype io_error =
    InvalidInput
  | InvalidData
  | UnexpectedEof
  | NotFound
  | OtherError

type_synonym 'a io = "io_error + 'a"

named_theorems codec_simps \<open>equations of the byte-level encoders and decoders\<close>
named_theorems path_simps \<open>rewriting of logical paths to their components\<close>

text \<open>The \<^verbatim>\<open>?\<close> operator of Rust: leave with the error, or go on with the value.\<close>

fun andThen :: "'e + 'a \<Rightarrow> ('a \<Rightarrow> 'e + 'b) \<Rightarrow> 'e + 'b" where
  "andThen (Inl e) f = Inl e"
| "andThen (Inr a) f = f a"

lemma andThen_Inr_iff: "andThen m f = Inr b \<longleftrightarrow> (\<exists>a. m = Inr a \<and> f a = Inr b)"
  by (cases m) auto

lemma andThen_assoc: "andThen (andThen m f) g = andThen m (\<lambda>a. andThen (f a) g)"
  by (cases m) auto

lemma andThen_cong [fundef_cong]:
  "m = m' \<Longrightarrow> (\<And>a. m' = Inr a \<Longrightarrow> f a = g a) \<Longrightarrow> andThen m f = andThen m' g"
  by (cases m) auto

section \<open>Little-endian encodings\<close>

text \<open>
  \<open>le_bytes n v\<close> is the first \<open>n\<close> bytes of \<^verbatim>\<open>to_le_bytes\<close>, \<open>le_val\<close> the number
  that \<^verbatim>\<open>from_le_bytes\<close> reads.
\<close>

primrec le_bytes :: "nat \<Rightarrow> nat \<Rightarrow> byte list" where
  "le_bytes 0 v = []"
| "le_bytes (Suc n) v = of_nat (v mod 256) # le_bytes n (v div 256)"

fun le_val :: "byte list \<Rightarrow> nat" where
  "le_val [] = 0"
| "le_val (b # bs) = unat b + 256 * le_val bs"

lemma length_le_bytes [simp]: "length (le_bytes n v) = n"
  by (induction n arbitrary: v) auto

lemma unat_of_nat_byte: "unat (of_nat n :: byte) = n mod 256"
  by (simp add: unat_of_nat)

lemma le_val_le_bytes: "le_val (le_bytes n v) = v mod 256 ^ n"
proof (induction n arbitrary: v)
  case 0
  then show ?case by simp
next
  case (Suc n)
  have "v mod 256 + 256 * (v div 256 mod 256 ^ n) = v mod (256 * 256 ^ n)"
    by (simp add: mod_mult2_eq)
  then show ?case
    by (simp add: Suc unat_of_nat_byte)
qed

lemma le_val_bound: "le_val bs < 256 ^ length bs"
proof (induction bs)
  case Nil
  then show ?case by simp
next
  case (Cons b bs)
  have "unat b < 256"
    using unsigned_less [of b, where ?'a = nat] by simp
  with Cons show ?case by simp
qed

lemma le_bytes_le_val: "le_bytes (length bs) (le_val bs) = bs"
proof (induction bs)
  case Nil
  then show ?case by simp
next
  case (Cons b bs)
  have b: "unat b < 256"
    using unsigned_less [of b, where ?'a = nat] by simp
  then have "(unat b + 256 * le_val bs) mod 256 = unat b"
    and "(unat b + 256 * le_val bs) div 256 = le_val bs"
    by simp_all
  with Cons show ?case by simp
qed

lemma of_nat_mod_len: "2 ^ LENGTH('a) = m \<Longrightarrow> of_nat (n mod m) = (of_nat n :: 'a::len word)"
  by (auto simp: word_of_nat_eq_iff take_bit_eq_mod)

lemma le_val_words [codec_simps]:
  "of_nat (le_val (le_bytes 2 n)) = (of_nat n :: u16)"
  "of_nat (le_val (le_bytes 4 n)) = (of_nat n :: u32)"
  "of_nat (le_val (le_bytes 8 n)) = (of_nat n :: u64)"
  by (simp_all add: le_val_le_bytes of_nat_mod_len)

section \<open>Strings as UTF-8 bytes\<close>

definition str_bytes :: "string \<Rightarrow> byte list" where
  "str_bytes s = map (\<lambda>c. of_nat (of_char c)) s"

definition bytes_str :: "byte list \<Rightarrow> string" where
  "bytes_str bs = map (\<lambda>b. char_of (unat b)) bs"

lemma length_str_bytes [simp]: "length (str_bytes s) = length s"
  by (simp add: str_bytes_def)

lemma of_char_less_256: "(of_char c :: nat) < 256"
  using of_char_mod_256 [of c] by (metis mod_less_divisor zero_less_numeral)

lemma bytes_str_bytes [simp]: "bytes_str (str_bytes s) = s"
proof -
  have "char_of (unat (of_nat (of_char c) :: byte)) = c" for c
    by (simp add: unat_of_nat_byte of_char_less_256)
  then show ?thesis
    by (simp add: bytes_str_def str_bytes_def comp_def)
qed

lemma str_bytes_str [simp]: "str_bytes (bytes_str bs) = bs"
proof -
  have "(of_nat (of_char (char_of (unat b))) :: byte) = b" for b
    using unsigned_less [of b, where ?'a = nat] by simp
  then show ?thesis
    by (simp add: bytes_str_def str_bytes_def comp_def)
qed

text \<open>
  The well-formed byte sequences of UTF-8 (Unicode table 3-7), which is what
  \<^verbatim>\<open>std::str::from_utf8\<close> accepts: no overlong form, no surrogate, nothing above U+10FFFF.
\<close>

definition cont_byte :: "byte \<Rightarrow> bool" where
  "cont_byte b \<longleftrightarrow> 0x80 \<le> b \<and> b \<le> 0xBF"

text \<open>The width of the character a byte string starts with, if it starts with one.\<close>

fun utf8_width :: "byte list \<Rightarrow> nat option" where
  "utf8_width [] = None"
| "utf8_width (a # bs) =
    (if a \<le> 0x7F then Some 1
     else if 0xC2 \<le> a \<and> a \<le> 0xDF then
       (case bs of b # _ \<Rightarrow> if cont_byte b then Some 2 else None | _ \<Rightarrow> None)
     else if 0xE0 \<le> a \<and> a \<le> 0xEF then
       (case bs of b # c # _ \<Rightarrow>
          if (if a = 0xE0 then 0xA0 \<le> b \<and> b \<le> 0xBF
              else if a = 0xED then 0x80 \<le> b \<and> b \<le> 0x9F else cont_byte b)
             \<and> cont_byte c then Some 3 else None
        | _ \<Rightarrow> None)
     else if 0xF0 \<le> a \<and> a \<le> 0xF4 then
       (case bs of b # c # d # _ \<Rightarrow>
          if (if a = 0xF0 then 0x90 \<le> b \<and> b \<le> 0xBF
              else if a = 0xF4 then 0x80 \<le> b \<and> b \<le> 0x8F else cont_byte b)
             \<and> cont_byte c \<and> cont_byte d then Some 4 else None
        | _ \<Rightarrow> None)
     else None)"

lemma utf8_width_append:
  "utf8_width xs = Some n \<Longrightarrow> utf8_width (xs @ ys) = Some n \<and> 0 < n \<and> n \<le> length xs"
  by (cases xs) (auto split: list.splits if_splits)

lemma utf8_width_shrinks: "utf8_width xs = Some n \<Longrightarrow> length xs - n < length xs"
  by (drule utf8_width_append [of xs n "[]"]) linarith

function utf8_valid :: "byte list \<Rightarrow> bool" where
  "utf8_valid bs =
    (bs = [] \<or> (case utf8_width bs of None \<Rightarrow> False | Some n \<Rightarrow> utf8_valid (drop n bs)))"
  by pat_completeness auto
termination
  by (relation "measure length") (auto dest: utf8_width_shrinks)

declare utf8_width.simps(2) [simp del] utf8_valid.simps [simp del]

lemma utf8_valid_Nil [simp]: "utf8_valid []"
  by (simp add: utf8_valid.simps)

lemma utf8_valid_append: "utf8_valid xs \<Longrightarrow> utf8_valid (xs @ ys) = utf8_valid ys"
proof (induction xs rule: utf8_valid.induct)
  case (1 xs)
  show ?case
  proof (cases "xs = []")
    case True
    then show ?thesis by simp
  next
    case False
    with 1(2) obtain n where n: "utf8_width xs = Some n" and v: "utf8_valid (drop n xs)"
      by (subst (asm) utf8_valid.simps) (auto split: option.splits)
    from 1(1) [OF n v] utf8_width_append [OF n, of ys] False show ?thesis
      by (subst utf8_valid.simps) simp
  qed
qed

text \<open>A value of Rust's type \<^verbatim>\<open>String\<close>: its bytes are UTF-8, by the type's invariant.\<close>

definition rust_string :: "string \<Rightarrow> bool" where
  "rust_string s \<longleftrightarrow> utf8_valid (str_bytes s)"

definition from_utf8 :: "byte list \<Rightarrow> string io" where
  "from_utf8 bs = (if utf8_valid bs then Inr (bytes_str bs) else Inl InvalidData)"

lemma from_utf8_str_bytes [codec_simps]: "rust_string s \<Longrightarrow> from_utf8 (str_bytes s) = Inr s"
  by (simp add: from_utf8_def rust_string_def)

lemma from_utf8_Inr: "from_utf8 bs = Inr s \<Longrightarrow> rust_string s \<and> str_bytes s = bs"
  by (auto simp: from_utf8_def rust_string_def split: if_splits)

text \<open>An ASCII string is a Rust string, and so is the concatenation of two.\<close>

lemma utf8_valid_ascii: "\<forall>b \<in> set bs. b \<le> 0x7F \<Longrightarrow> utf8_valid bs"
proof (induction bs)
  case Nil
  then show ?case by simp
next
  case (Cons b bs)
  then show ?case
    by (subst utf8_valid.simps) (simp add: utf8_width.simps)
qed

lemma str_bytes_append [simp]: "str_bytes (s @ t) = str_bytes s @ str_bytes t"
  by (simp add: str_bytes_def)

lemma rust_string_append: "rust_string s \<Longrightarrow> rust_string t \<Longrightarrow> rust_string (s @ t)"
  by (simp add: rust_string_def utf8_valid_append)

lemma rust_string_ascii:
  assumes "\<forall>c \<in> set s. (of_char c :: nat) < 128"
  shows "rust_string s"
proof -
  have "(of_nat (of_char c) :: byte) \<le> 0x7F" if "c \<in> set s" for c
  proof -
    have "(of_char c :: nat) \<le> 127"
      using assms that by fastforce
    then show ?thesis
      by (simp add: word_le_nat_alt unat_of_nat_byte of_char_less_256)
  qed
  then show ?thesis
    unfolding rust_string_def by (intro utf8_valid_ascii) (auto simp: str_bytes_def)
qed

lemma str_bytes_nonzero:
  assumes "CHR 0x00 \<notin> set s"
  shows "\<forall>b \<in> set (str_bytes s). b \<noteq> 0"
proof -
  have "c = CHR 0x00" if "(of_nat (of_char c) :: byte) = 0" for c
  proof -
    from that have "(of_char c :: nat) mod 256 = 0"
      by (metis unat_of_nat_byte unat_0)
    then have "of_char c = (of_char CHR 0x00 :: nat)"
      by (simp add: of_char_less_256)
    then show ?thesis by (simp only: of_char_eq_iff)
  qed
  with assms show ?thesis by (auto simp: str_bytes_def)
qed
end
