(* ===== verification/RustStr.thy ===== *)
theory RustStr
  imports Prelude
begin

text \<open>
  The operations of Rust's \<^verbatim>\<open>str\<close> that the path, filter and header code uses, on byte
  strings, with the lemmas the components share: splitting at a separator and joining are inverse,
  a prefix that ends at a separator is a prefix of the component list, and decimal numbers are read
  back as they were printed.
\<close>

section \<open>Splitting and joining\<close>

text \<open>\<^verbatim>\<open>s.split(c)\<close>: there is always at least one piece.\<close>

fun split_on :: "char \<Rightarrow> string \<Rightarrow> string list" where
  "split_on c [] = [[]]"
| "split_on c (x # xs) =
    (if x = c then [] # split_on c xs
     else (case split_on c xs of [] \<Rightarrow> [[x]] | p # ps \<Rightarrow> (x # p) # ps))"

text \<open>\<^verbatim>\<open>parts.join(sep)\<close> for a one-character separator.\<close>

fun join_with :: "char \<Rightarrow> string list \<Rightarrow> string" where
  "join_with c [] = []"
| "join_with c [p] = p"
| "join_with c (p # q # ps) = p @ c # join_with c (q # ps)"

lemma split_on_nonempty [simp]: "split_on c s \<noteq> []"
  by (induction s) (auto split: list.splits)

lemma split_on_no_sep: "p \<in> set (split_on c s) \<Longrightarrow> c \<notin> set p"
  by (induction s arbitrary: p) (auto split: list.splits if_splits)

lemma split_on_subset: "p \<in> set (split_on c s) \<Longrightarrow> set p \<subseteq> set s"
proof (induction s arbitrary: p)
  case Nil
  then show ?case by simp
next
  case (Cons x xs)
  show ?case
  proof (cases "x = c")
    case True
    with Cons show ?thesis by auto
  next
    case False
    obtain q qs where q: "split_on c xs = q # qs"
      by (cases "split_on c xs") auto
    with False Cons.prems have "p = x # q \<or> p \<in> set qs"
      by auto
    with q Cons.IH [of q] Cons.IH [of p] show ?thesis
      by auto
  qed
qed

lemma join_split [simp]: "join_with c (split_on c s) = s"
proof (induction s)
  case Nil
  then show ?case by simp
next
  case (Cons x xs)
  obtain q qs where q: "split_on c xs = q # qs"
    by (cases "split_on c xs") auto
  with Cons show ?case
    by (cases qs) auto
qed

lemma split_on_append_sep: "c \<notin> set p \<Longrightarrow> split_on c (p @ c # s) = p # split_on c s"
  by (induction p) auto

lemma split_on_id: "c \<notin> set p \<Longrightarrow> split_on c p = [p]"
  by (induction p) auto

lemma split_join:
  "ps \<noteq> [] \<Longrightarrow> \<forall>p \<in> set ps. c \<notin> set p \<Longrightarrow> split_on c (join_with c ps) = ps"
  by (induction c ps rule: join_with.induct) (auto simp: split_on_id split_on_append_sep)

lemma split_on_append_join:
  "\<forall>p \<in> set ps. c \<notin> set p \<Longrightarrow> ps \<noteq> [] \<Longrightarrow>
   split_on c (join_with c ps @ c # s) = ps @ split_on c s"
  by (induction c ps rule: join_with.induct) (auto simp: split_on_append_sep)

lemma split_on_at: "split_on c (s @ c # t) = split_on c s @ split_on c t"
  using split_on_append_join [of "split_on c s" c t] by (auto dest: split_on_no_sep)

text \<open>The last part of a text that ends without a separator.\<close>

lemma split_on_tail: "c \<notin> set ys \<Longrightarrow> \<exists>front b. split_on c (xs @ ys) = front @ [b @ ys]"
proof (cases "c \<in> set xs")
  case True
  assume ys: "c \<notin> set ys"
  obtain a b where xs: "xs = a @ c # b" "c \<notin> set b" using split_list_last [OF True] by blast
  have "split_on c (xs @ ys) = split_on c a @ [b @ ys]"
    using split_on_at [of c a "b @ ys"] split_on_id [of c "b @ ys"] ys xs by simp
  then show ?thesis by blast
next
  case False
  assume "c \<notin> set ys"
  then have "split_on c (xs @ ys) = [] @ [xs @ ys]" using False by (simp add: split_on_id)
  then show ?thesis by blast
qed

lemma join_with_Cons: "ps \<noteq> [] \<Longrightarrow> join_with c (p # ps) = p @ c # join_with c ps"
  by (cases ps) auto

lemma join_with_append:
  "ps \<noteq> [] \<Longrightarrow> qs \<noteq> [] \<Longrightarrow> join_with c (ps @ qs) = join_with c ps @ c # join_with c qs"
  by (induction c ps rule: join_with.induct) (auto simp: join_with_Cons)

lemma join_with_eq_Nil: "join_with c ps = [] \<longleftrightarrow> ps = [] \<or> ps = [[]]"
  by (induction c ps rule: join_with.induct) auto

lemma join_with_set: "set (join_with c ps) \<subseteq> insert c (\<Union> (set ` set ps))"
  by (induction c ps rule: join_with.induct) auto

section \<open>Prefixes, suffixes, searching\<close>

text \<open>\<^verbatim>\<open>s.strip_prefix(p)\<close>, \<^verbatim>\<open>s.strip_suffix(p)\<close>.\<close>

definition strip_prefix :: "string \<Rightarrow> string \<Rightarrow> string option" where
  "strip_prefix p s = (if prefix p s then Some (drop (length p) s) else None)"

definition strip_suffix :: "string \<Rightarrow> string \<Rightarrow> string option" where
  "strip_suffix p s = (if suffix p s then Some (take (length s - length p) s) else None)"

lemma strip_prefix_Some: "strip_prefix p s = Some r \<longleftrightarrow> s = p @ r"
  by (auto simp: strip_prefix_def prefix_def split: if_splits)

lemma strip_prefix_append [simp]: "strip_prefix p (p @ r) = Some r"
  by (simp add: strip_prefix_Some)

text \<open>\<^verbatim>\<open>s.find(p)\<close>: the first index at which \<open>p\<close> occurs.\<close>

fun str_find :: "string \<Rightarrow> string \<Rightarrow> nat option" where
  "str_find p [] = (if p = [] then Some 0 else None)"
| "str_find p (x # xs) =
    (if prefix p (x # xs) then Some 0 else map_option Suc (str_find p xs))"

definition str_contains :: "string \<Rightarrow> string \<Rightarrow> bool" where
  "str_contains s p = (str_find p s \<noteq> None)"

lemma str_find_None: "str_find p s = None \<longleftrightarrow> (\<nexists>u v. s = u @ p @ v)"
proof (induction s)
  case Nil
  then show ?case by auto
next
  case (Cons x xs)
  show ?case
  proof (cases "prefix p (x # xs)")
    case True
    then have "\<exists>u v. x # xs = u @ p @ v"
      by (metis append_Nil prefixE)
    moreover from True have "str_find p (x # xs) \<noteq> None"
      by simp
    ultimately show ?thesis by blast
  next
    case False
    then have "(\<exists>u v. x # xs = u @ p @ v) \<longleftrightarrow> (\<exists>u v. xs = u @ p @ v)"
      by (metis append_Cons append_Nil list.inject neq_Nil_conv prefixI)
    with False Cons show ?thesis by simp
  qed
qed

lemma str_find_Some:
  "str_find p s = Some i \<Longrightarrow> \<exists>v. s = take i s @ p @ v \<and> i \<le> length s"
proof (induction s arbitrary: i)
  case Nil
  then show ?case by (auto split: if_splits)
next
  case (Cons x xs)
  then show ?case
    by (fastforce simp: prefix_def split: if_splits)
qed

text \<open>No occurrence starts before the one that is found.\<close>

lemma str_find_least: "str_find p s = Some i \<Longrightarrow> s = u @ p @ v \<Longrightarrow> i \<le> length u"
proof (induction s arbitrary: i u)
  case Nil
  then show ?case by (auto split: if_splits)
next
  case (Cons x xs)
  show ?case
  proof (cases "prefix p (x # xs)")
    case True
    then have "str_find p (x # xs) = Some 0" by simp
    with Cons.prems(1) show ?thesis by simp
  next
    case False
    with Cons.prems obtain u' where u: "u = x # u'" and xs: "xs = u' @ p @ v"
      by (cases u) auto
    from False Cons.prems(1) obtain j where "str_find p xs = Some j" and "i = Suc j"
      by auto
    with Cons.IH [of j u'] xs u show ?thesis by simp
  qed
qed

section \<open>Trimming\<close>

definition trim_start :: "char \<Rightarrow> string \<Rightarrow> string" where
  "trim_start c s = dropWhile (\<lambda>x. x = c) s"

definition trim_end :: "char \<Rightarrow> string \<Rightarrow> string" where
  "trim_end c s = rev (dropWhile (\<lambda>x. x = c) (rev s))"

text \<open>\<^verbatim>\<open>s.trim_matches(c)\<close>\<close>

definition trim_both :: "char \<Rightarrow> string \<Rightarrow> string" where
  "trim_both c s = trim_end c (trim_start c s)"

lemma trim_end_snoc [simp]: "trim_end c (s @ [x]) = (if x = c then trim_end c s else s @ [x])"
  by (simp add: trim_end_def)

lemma trim_end_id: "s = [] \<or> last s \<noteq> c \<Longrightarrow> trim_end c s = s"
  by (cases s rule: rev_cases) (auto simp: trim_end_def)

lemma trim_start_id: "s = [] \<or> hd s \<noteq> c \<Longrightarrow> trim_start c s = s"
  by (cases s) (auto simp: trim_start_def)

lemma trim_start_Cons [simp]: "trim_start c (x # s) = (if x = c then trim_start c s else x # s)"
  by (simp add: trim_start_def)

lemma trim_end_decomp: "\<exists>n. s = trim_end c s @ replicate n c"
proof (induction s rule: rev_induct)
  case Nil
  then show ?case by (simp add: trim_end_def)
next
  case (snoc x xs)
  then obtain n where "xs = trim_end c xs @ replicate n c" by blast
  then have "x = c \<Longrightarrow> xs @ [x] = trim_end c (xs @ [x]) @ replicate (Suc n) c"
    by (metis append_assoc replicate_Suc replicate_append_same trim_end_snoc)
  moreover have "x \<noteq> c \<Longrightarrow> xs @ [x] = trim_end c (xs @ [x]) @ replicate 0 c"
    by simp
  ultimately show ?case by blast
qed

lemma trim_start_decomp: "\<exists>n. s = replicate n c @ trim_start c s"
proof (induction s)
  case Nil
  then show ?case by (simp add: trim_start_def)
next
  case (Cons x xs)
  then obtain n where n: "xs = replicate n c @ trim_start c xs" by blast
  show ?case
  proof (cases "x = c")
    case True
    with n have "x # xs = replicate (Suc n) c @ trim_start c (x # xs)" by simp
    then show ?thesis by blast
  next
    case False
    then have "x # xs = replicate 0 c @ trim_start c (x # xs)" by simp
    then show ?thesis by blast
  qed
qed

section \<open>Decimal numbers\<close>

definition digit_char :: "nat \<Rightarrow> char" where
  "digit_char d = char_of (48 + d)"

text \<open>\<^verbatim>\<open>n.to_string()\<close> for an unsigned integer.\<close>

fun nat_str :: "nat \<Rightarrow> string" where
  "nat_str n = (if n < 10 then [digit_char n] else nat_str (n div 10) @ [digit_char (n mod 10)])"

declare nat_str.simps [simp del]

fun digits_val :: "nat \<Rightarrow> string \<Rightarrow> nat option" where
  "digits_val acc [] = Some acc"
| "digits_val acc (c # cs) =
    (let d = of_char c in
     if 48 \<le> d \<and> d \<le> 57 then digits_val (10 * acc + (d - 48)) cs else None)"

text \<open>\<^verbatim>\<open>s.parse\<close> at an unsigned width: an optional plus sign, digits, no overflow.\<close>

definition parse_uint :: "nat \<Rightarrow> string \<Rightarrow> nat option" where
  "parse_uint width s =
    (let ds = (case s of c # cs \<Rightarrow> if c = CHR ''+'' then cs else s | [] \<Rightarrow> [])
     in if ds = [] then None
        else (case digits_val 0 ds of
                Some n \<Rightarrow> if n < 2 ^ width then Some n else None
              | None \<Rightarrow> None))"

definition is_digit :: "char \<Rightarrow> bool" where
  "is_digit c \<longleftrightarrow> 48 \<le> (of_char c :: nat) \<and> (of_char c :: nat) \<le> 57"

lemma of_char_digit: "d < 10 \<Longrightarrow> of_char (digit_char d) = (48 + d :: nat)"
  by (simp add: digit_char_def)

lemma digit_char_is_digit: "d < 10 \<Longrightarrow> is_digit (digit_char d)"
  by (simp add: is_digit_def of_char_digit)

lemma nat_str_digits: "\<forall>c \<in> set (nat_str n). is_digit c"
proof (induction n rule: nat_str.induct)
  case (1 n)
  then show ?case
    by (subst nat_str.simps) (auto simp: digit_char_is_digit)
qed

lemma nat_str_nonempty [simp]: "nat_str n \<noteq> []"
  by (subst nat_str.simps) simp

lemma digits_val_append:
  "digits_val acc (s @ [c]) =
    (case digits_val acc s of None \<Rightarrow> None | Some n \<Rightarrow> digits_val n [c])"
  by (induction s arbitrary: acc) (auto simp: Let_def)

lemma digits_val_nat_str: "digits_val 0 (nat_str n) = Some n"
proof (induction n rule: nat_str.induct)
  case (1 n)
  show ?case
  proof (cases "n < 10")
    case True
    then show ?thesis by (subst nat_str.simps) (simp add: of_char_digit)
  next
    case False
    with 1 show ?thesis
      by (subst nat_str.simps) (simp add: digits_val_append of_char_digit)
  qed
qed

lemma parse_nat_str:
  assumes "n < 2 ^ width"
  shows "parse_uint width (nat_str n) = Some n"
proof -
  have "hd (nat_str n) \<in> set (nat_str n)"
    by (rule hd_in_set) simp
  then have "is_digit (hd (nat_str n))"
    using nat_str_digits by blast
  then have "hd (nat_str n) \<noteq> CHR ''+''"
    by (auto simp: is_digit_def)
  then have "(case nat_str n of c # cs \<Rightarrow> if c = CHR ''+'' then cs else nat_str n | [] \<Rightarrow> []) = nat_str n"
    by (cases "nat_str n") auto
  then show ?thesis
    using assms by (simp add: parse_uint_def digits_val_nat_str Let_def)
qed

section \<open>White space and lines\<close>

text \<open>The UTF-8 forms of the characters with the property \<^verbatim>\<open>White_Space\<close>.\<close>

definition ws_chars :: "string list" where
  "ws_chars =
    map (\<lambda>c. [c]) [CHR 0x09, CHR 0x0A, CHR 0x0B, CHR 0x0C, CHR 0x0D, CHR 0x20]
    @ [[CHR 0xC2, CHR 0x85], [CHR 0xC2, CHR 0xA0], [CHR 0xE1, CHR 0x9A, CHR 0x80]]
    @ map (\<lambda>c. [CHR 0xE2, CHR 0x80, c])
        [CHR 0x80, CHR 0x81, CHR 0x82, CHR 0x83, CHR 0x84, CHR 0x85, CHR 0x86, CHR 0x87,
         CHR 0x88, CHR 0x89, CHR 0x8A, CHR 0xA8, CHR 0xA9, CHR 0xAF]
    @ [[CHR 0xE2, CHR 0x81, CHR 0x9F], [CHR 0xE3, CHR 0x80, CHR 0x80]]"

definition strip_ws :: "string \<Rightarrow> string option" where
  "strip_ws s = (case find (\<lambda>w. prefix w s) ws_chars of
      Some w \<Rightarrow> Some (drop (length w) s) | None \<Rightarrow> None)"

definition strip_ws_end :: "string \<Rightarrow> string option" where
  "strip_ws_end s = (case find (\<lambda>w. suffix w s) ws_chars of
      Some w \<Rightarrow> Some (take (length s - length w) s) | None \<Rightarrow> None)"

lemma ws_chars_nonempty: "w \<in> set ws_chars \<Longrightarrow> w \<noteq> []"
  by (auto simp: ws_chars_def)

lemma find_SomeD: "find P xs = Some x \<Longrightarrow> x \<in> set xs \<and> P x"
  by (induction xs) (auto split: if_splits)

lemma strip_ws_shorter:
  assumes "strip_ws s = Some r"
  shows "length r < length s"
proof -
  from assms obtain w where w: "w \<in> set ws_chars" "prefix w s" and r: "r = drop (length w) s"
    by (auto simp: strip_ws_def split: option.splits dest!: find_SomeD)
  with ws_chars_nonempty [OF w(1)] show ?thesis
    by (auto simp: prefix_def)
qed

lemma strip_ws_end_shorter:
  assumes "strip_ws_end s = Some r"
  shows "length r < length s"
proof -
  from assms obtain w where w: "w \<in> set ws_chars" "suffix w s"
    and r: "r = take (length s - length w) s"
    by (auto simp: strip_ws_end_def split: option.splits dest!: find_SomeD)
  with ws_chars_nonempty [OF w(1)] show ?thesis
    by (auto simp: suffix_def)
qed

function trim_ws_start :: "string \<Rightarrow> string" where
  "trim_ws_start s = (case strip_ws s of Some r \<Rightarrow> trim_ws_start r | None \<Rightarrow> s)"
  by pat_completeness auto
termination
  by (relation "measure length") (auto simp: strip_ws_shorter)

function trim_ws_end :: "string \<Rightarrow> string" where
  "trim_ws_end s = (case strip_ws_end s of Some r \<Rightarrow> trim_ws_end r | None \<Rightarrow> s)"
  by pat_completeness auto
termination
  by (relation "measure length") (auto simp: strip_ws_end_shorter)

declare trim_ws_start.simps [simp del] trim_ws_end.simps [simp del]

text \<open>\<^verbatim>\<open>s.trim()\<close>\<close>

definition trim_ws :: "string \<Rightarrow> string" where
  "trim_ws s = trim_ws_end (trim_ws_start s)"

text \<open>The first token of a string and what follows it; \<^verbatim>\<open>s.split_whitespace().nth(1)\<close>.\<close>

fun ws_token :: "string \<Rightarrow> string \<times> string" where
  "ws_token [] = ([], [])"
| "ws_token (c # s) =
    (if strip_ws (c # s) \<noteq> None then ([], c # s)
     else (let (t, r) = ws_token s in (c # t, r)))"

definition second_token :: "string \<Rightarrow> string option" where
  "second_token s =
    (let rest = trim_ws_start (snd (ws_token (trim_ws_start s)))
     in if rest = [] then None else Some (fst (ws_token rest)))"

text \<open>\<^verbatim>\<open>s.lines()\<close>: a terminator is \<open>\n\<close>, with an optional \<open>\r\<close> before it.\<close>

definition strip_cr :: "string \<Rightarrow> string" where
  "strip_cr s = (case strip_suffix [CHR 0x0D] s of Some r \<Rightarrow> r | None \<Rightarrow> s)"

definition str_lines :: "string \<Rightarrow> string list" where
  "str_lines s =
    (let ps = split_on CHR 0x0A s
     in map strip_cr (butlast ps) @ (if last ps = [] then [] else [last ps]))"

text \<open>\<^verbatim>\<open>s.split_once(c)\<close>\<close>

fun split_once :: "char \<Rightarrow> string \<Rightarrow> (string \<times> string) option" where
  "split_once c [] = None"
| "split_once c (x # xs) =
    (if x = c then Some ([], xs)
     else map_option (\<lambda>(k, v). (x # k, v)) (split_once c xs))"

lemma split_once_append: "c \<notin> set k \<Longrightarrow> split_once c (k @ c # v) = Some (k, v)"
  by (induction k) auto

text \<open>Printable ASCII characters are no white space.\<close>

definition graph_char :: "char \<Rightarrow> bool" where
  "graph_char c \<longleftrightarrow> 33 \<le> (of_char c :: nat) \<and> (of_char c :: nat) \<le> 126"

lemma ws_chars_ends: "w \<in> set ws_chars \<Longrightarrow> \<not> graph_char (hd w) \<and> \<not> graph_char (last w)"
  by (auto simp: ws_chars_def graph_char_def)

lemma strip_ws_graph:
  assumes "graph_char c"
  shows "strip_ws (c # s) = None"
proof -
  have "\<not> prefix w (c # s)" if w: "w \<in> set ws_chars" for w
    using ws_chars_nonempty [OF w] ws_chars_ends [OF w] assms by (auto simp: prefix_Cons)
  then have "find (\<lambda>w. prefix w (c # s)) ws_chars = None"
    by (simp add: find_None_iff)
  then show ?thesis by (simp add: strip_ws_def)
qed

lemma strip_ws_end_graph:
  assumes "graph_char c"
  shows "strip_ws_end (s @ [c]) = None"
proof -
  have "find (\<lambda>w. suffix w (s @ [c])) ws_chars = None"
    unfolding find_None_iff
  proof
    assume "\<exists>w. w \<in> set ws_chars \<and> suffix w (s @ [c])"
    then obtain w where w: "w \<in> set ws_chars" and "suffix w (s @ [c])" by blast
    then have "last w = c"
      using ws_chars_nonempty [OF w] by (auto simp: suffix_def) (metis last_appendR last_snoc)
    with ws_chars_ends [OF w] assms show False by simp
  qed
  then show ?thesis by (simp add: strip_ws_end_def)
qed

lemma trim_ws_start_graph: "graph_char c \<Longrightarrow> trim_ws_start (c # s) = c # s"
  by (subst trim_ws_start.simps) (simp add: strip_ws_graph)

lemma trim_ws_end_graph: "graph_char c \<Longrightarrow> trim_ws_end (s @ [c]) = s @ [c]"
  by (subst trim_ws_end.simps) (simp add: strip_ws_end_graph)

lemma trim_ws_graph:
  assumes "s \<noteq> []" and "graph_char (hd s)" and "graph_char (last s)"
  shows "trim_ws s = s"
proof -
  have "trim_ws_start s = s"
    using assms trim_ws_start_graph [of "hd s" "tl s"] by simp
  moreover have "trim_ws_end s = s"
    using assms trim_ws_end_graph [of "last s" "butlast s"] by simp
  ultimately show ?thesis by (simp add: trim_ws_def)
qed

lemma ws_token_graph:
  "\<forall>c \<in> set t. graph_char c \<Longrightarrow> r = [] \<or> strip_ws r \<noteq> None \<Longrightarrow> ws_token (t @ r) = (t, r)"
proof (induction t)
  case Nil
  then show ?case by (cases r) auto
next
  case (Cons c t)
  then show ?case by (simp add: strip_ws_graph)
qed

lemma digit_graph: "is_digit c \<Longrightarrow> graph_char c"
  by (simp add: is_digit_def graph_char_def)

lemma strip_cr_id: "s = [] \<or> last s \<noteq> CHR 0x0D \<Longrightarrow> strip_cr s = s"
  by (auto simp: strip_cr_def strip_suffix_def suffix_def split: option.splits)

lemma str_lines_Cons:
  assumes "CHR 0x0A \<notin> set l" and "l = [] \<or> last l \<noteq> CHR 0x0D"
  shows "str_lines (l @ CHR 0x0A # s) = l # str_lines s"
  using assms by (simp add: str_lines_def split_on_append_sep strip_cr_id Let_def)

lemma str_lines_Nil [simp]: "str_lines [] = []"
  by (simp add: str_lines_def)
end
