(* ===== verification/PathUtil.thy ===== *)
theory PathUtil
  imports RustStr
begin

text \<open>
  \<^verbatim>\<open>utility/path_util.rs\<close>: logical paths are strings with \<open>/\<close> as separator. The
  definitions follow the Rust functions on a Unix target, where the native separator is also
  \<open>/\<close>. The lemmas give a logical path its meaning, the list of its components
  (\<open>norm_parts\<close>), and read every string operation as an operation on that list.
\<close>

section \<open>Normalisation\<close>

definition to_slash :: "string \<Rightarrow> string" where
  "to_slash s = map (\<lambda>c. if c = CHR 0x5C then CHR ''/'' else c) s"

definition to_logical_string :: "string \<Rightarrow> string" where
  "to_logical_string path = to_slash path"

text \<open>One pass of the loop over \<^verbatim>\<open>normalized.split('/')\<close>.\<close>

definition norm_step :: "string list \<Rightarrow> string \<Rightarrow> string list" where
  "norm_step parts part =
    (if part = [] \<or> part = ''.'' then parts
     else if part = ''..'' then butlast parts
     else parts @ [part])"

definition norm_parts :: "string \<Rightarrow> string list" where
  "norm_parts raw = foldl norm_step [] (split_on CHR ''/'' (to_slash raw))"

text \<open>The text a list of components stands for.\<close>

definition render :: "string list \<Rightarrow> string" where
  "render parts = (if parts = [] then ''/'' else CHR ''/'' # join_with CHR ''/'' parts)"

definition normalize_logical :: "string \<Rightarrow> string" where
  "normalize_logical raw = render (norm_parts raw)"

definition join_logical :: "string \<Rightarrow> string \<Rightarrow> string" where
  "join_logical base name =
    (if base = ''/'' then normalize_logical (''/'' @ name)
     else normalize_logical (trim_end CHR ''/'' base @ ''/'' @ name))"

definition is_root_entry :: "string \<Rightarrow> bool" where
  "is_root_entry logical_path = (CHR ''/'' \<notin> set (drop 1 (normalize_logical logical_path)))"

definition normalize_relative_path :: "string \<Rightarrow> string" where
  "normalize_relative_path path = trim_both CHR ''/'' (to_slash path)"

definition join_relative :: "string \<Rightarrow> string \<Rightarrow> string" where
  "join_relative base child =
    (let child = normalize_relative_path child
     in if base = [] then child
        else if child = [] then base
        else base @ ''/'' @ child)"

section \<open>The components of a path\<close>

text \<open>A component that normalisation keeps as it is.\<close>

definition clean_part :: "string \<Rightarrow> bool" where
  "clean_part p \<longleftrightarrow> p \<noteq> [] \<and> p \<noteq> ''.'' \<and> p \<noteq> ''..'' \<and> CHR ''/'' \<notin> set p \<and> CHR 0x5C \<notin> set p"

lemma norm_step_clean: "clean_part p \<Longrightarrow> norm_step ps p = ps @ [p]"
  by (simp add: norm_step_def clean_part_def)

lemma to_slash_id: "CHR 0x5C \<notin> set s \<Longrightarrow> to_slash s = s"
  by (induction s) (auto simp: to_slash_def)

lemma to_slash_no_backslash: "CHR 0x5C \<notin> set (to_slash s)"
  by (induction s) (auto simp: to_slash_def)

lemma to_slash_append [simp]: "to_slash (s @ t) = to_slash s @ to_slash t"
  by (simp add: to_slash_def)

lemma to_slash_Cons [simp]:
  "to_slash (c # s) = (if c = CHR 0x5C then CHR ''/'' else c) # to_slash s"
  by (simp add: to_slash_def)

lemma to_slash_Nil [simp]: "to_slash [] = []"
  by (simp add: to_slash_def)

lemma foldl_norm_step_clean:
  "\<forall>p \<in> set ps. clean_part p \<Longrightarrow> foldl norm_step acc ps = acc @ ps"
  by (induction ps arbitrary: acc) (auto simp: norm_step_clean)

lemma foldl_norm_step_keeps_clean:
  "\<forall>p \<in> set acc. clean_part p \<Longrightarrow>
   \<forall>p \<in> set ps. CHR ''/'' \<notin> set p \<and> CHR 0x5C \<notin> set p \<Longrightarrow>
   \<forall>p \<in> set (foldl norm_step acc ps). clean_part p"
proof (induction ps arbitrary: acc)
  case Nil
  then show ?case by simp
next
  case (Cons p ps)
  have "\<forall>q \<in> set (norm_step acc p). clean_part q"
    using Cons.prems by (auto simp: norm_step_def clean_part_def dest: in_set_butlastD)
  with Cons show ?case by simp
qed

lemma norm_parts_clean: "\<forall>p \<in> set (norm_parts raw). clean_part p"
  unfolding norm_parts_def
  using to_slash_no_backslash [of raw] split_on_subset [of _ "CHR ''/''" "to_slash raw"]
  by (intro foldl_norm_step_keeps_clean) (auto dest: split_on_no_sep)

text \<open>The split of a string whose front ends at a separator: the front is normalised first.\<close>

lemma norm_parts_append_sep:
  "norm_parts (s @ CHR ''/'' # t) = foldl norm_step (norm_parts s) (split_on CHR ''/'' (to_slash t))"
proof -
  have "split_on CHR ''/'' (to_slash s @ CHR ''/'' # to_slash t) =
      split_on CHR ''/'' (to_slash s) @ split_on CHR ''/'' (to_slash t)"
    using split_on_append_join [of "split_on CHR ''/'' (to_slash s)" "CHR ''/''" "to_slash t"]
    by (auto dest: split_on_no_sep)
  then show ?thesis
    by (simp add: norm_parts_def)
qed

lemma norm_parts_Nil [simp]: "norm_parts [] = []"
  by (simp add: norm_parts_def norm_step_def)

lemma norm_parts_slash [simp]: "norm_parts (CHR ''/'' # s) = norm_parts s"
  by (simp add: norm_parts_def norm_step_def)

lemma norm_parts_trailing_slash [simp]: "norm_parts (s @ ''/'') = norm_parts s"
  using norm_parts_append_sep [of s "[]"] by (simp add: norm_step_def)

lemma norm_parts_trim_end [simp]: "norm_parts (trim_end CHR ''/'' s) = norm_parts s"
proof -
  obtain n where n: "s = trim_end CHR ''/'' s @ replicate n CHR ''/''"
    using trim_end_decomp by blast
  have "norm_parts (u @ replicate n CHR ''/'') = norm_parts u" for u
  proof (induction n arbitrary: u)
    case 0
    then show ?case by simp
  next
    case (Suc n)
    from Suc [of "u @ ''/''"] show ?case
      by (simp del: append_assoc add: append_assoc [symmetric])
         (metis append.assoc append_Cons append_Nil norm_parts_trailing_slash)
  qed
  with n show ?thesis by metis
qed

lemma norm_parts_trim_start [simp]: "norm_parts (trim_start CHR ''/'' s) = norm_parts s"
  by (induction s) (auto simp: trim_start_def)

lemma norm_parts_clean_part: "clean_part p \<Longrightarrow> norm_parts p = [p]"
  by (simp add: norm_parts_def clean_part_def to_slash_id split_on_id norm_step_def)

lemma to_slash_render: "\<forall>p \<in> set ps. clean_part p \<Longrightarrow> to_slash (render ps) = render ps"
  using join_with_set [of "CHR ''/''" ps]
  by (intro to_slash_id) (auto simp: render_def clean_part_def)

lemma norm_parts_render [path_simps]: "\<forall>p \<in> set ps. clean_part p \<Longrightarrow> norm_parts (render ps) = ps"
proof (cases "ps = []")
  case True
  then show ?thesis by (simp add: render_def)
next
  case False
  assume clean: "\<forall>p \<in> set ps. clean_part p"
  with False have "split_on CHR ''/'' (join_with CHR ''/'' ps) = ps"
    by (intro split_join) (auto simp: clean_part_def)
  moreover have "to_slash (join_with CHR ''/'' ps) = join_with CHR ''/'' ps"
    using to_slash_render [OF clean] False by (simp add: render_def)
  ultimately show ?thesis
    using False clean by (simp add: render_def norm_parts_def norm_step_def foldl_norm_step_clean)
qed

lemma norm_parts_normalize [path_simps, simp]: "norm_parts (normalize_logical s) = norm_parts s"
  by (simp add: normalize_logical_def norm_parts_render norm_parts_clean)

lemma render_inj:
  "\<forall>p \<in> set ps. clean_part p \<Longrightarrow> \<forall>p \<in> set qs. clean_part p \<Longrightarrow> render ps = render qs \<longleftrightarrow> ps = qs"
  by (metis norm_parts_render)

lemma normalize_eq_iff [path_simps]:
  "normalize_logical s = normalize_logical t \<longleftrightarrow> norm_parts s = norm_parts t"
  by (simp add: normalize_logical_def render_inj norm_parts_clean)

lemma normalize_eq_root [path_simps]: "normalize_logical s = ''/'' \<longleftrightarrow> norm_parts s = []"
  by (auto simp: normalize_logical_def render_def join_with_eq_Nil clean_part_def
      dest: bspec [OF norm_parts_clean])
     (metis clean_part_def list.set_intros(1) norm_parts_clean)

text \<open>A string is canonical when it is the text of a list of clean components.\<close>

definition canonical :: "string \<Rightarrow> bool" where
  "canonical s \<longleftrightarrow> normalize_logical s = s"

lemma canonical_render: "\<forall>p \<in> set ps. clean_part p \<Longrightarrow> canonical (render ps)"
  by (simp add: canonical_def normalize_logical_def norm_parts_render)

lemma canonical_normalize [simp]: "canonical (normalize_logical s)"
  by (simp add: canonical_def normalize_logical_def norm_parts_render norm_parts_clean)

lemma canonicalE:
  assumes "canonical s"
  obtains ps where "s = render ps" and "\<forall>p \<in> set ps. clean_part p" and "norm_parts s = ps"
  using assms norm_parts_clean [of s] unfolding canonical_def normalize_logical_def by metis

lemma normalize_idempotent: "normalize_logical (normalize_logical s) = normalize_logical s"
  using canonical_normalize by (simp add: canonical_def)

section \<open>String prefixes are component prefixes\<close>

lemma render_eq_join: "ps \<noteq> [] \<Longrightarrow> render ps = join_with CHR ''/'' ([] # ps)"
  by (simp add: render_def join_with_Cons)

lemma split_render:
  "ps \<noteq> [] \<Longrightarrow> \<forall>p \<in> set ps. clean_part p \<Longrightarrow> split_on CHR ''/'' (render ps) = [] # ps"
  by (simp add: render_eq_join split_join clean_part_def)

text \<open>
  A canonical path starts with another one \<^emph>\<open>followed by a slash\<close> exactly when the other one's
  components are a proper prefix of its own. This is what makes the string test of the code a test
  on directories, and \<open>/d1\<close> no ancestor of \<open>/d10\<close>.
\<close>

lemma render_slash_prefix_iff:
  assumes "ps \<noteq> []" and ps: "\<forall>p \<in> set ps. clean_part p" and qs: "\<forall>p \<in> set qs. clean_part p"
  shows "prefix (render ps @ ''/'') (render qs) \<longleftrightarrow> strict_prefix ps qs"
proof
  assume "prefix (render ps @ ''/'') (render qs)"
  then obtain t where t: "render qs = render ps @ CHR ''/'' # t"
    by (auto simp: prefix_def)
  have "qs \<noteq> []"
    using t \<open>ps \<noteq> []\<close> by (auto simp: render_def join_with_eq_Nil split: if_splits)
  have "split_on CHR ''/'' (render qs) = ([] # ps) @ split_on CHR ''/'' t"
    unfolding t render_eq_join [OF \<open>ps \<noteq> []\<close>]
    using ps by (intro split_on_append_join) (auto simp: clean_part_def)
  with \<open>qs \<noteq> []\<close> qs have "qs = ps @ split_on CHR ''/'' t"
    by (simp add: split_render)
  then show "strict_prefix ps qs"
    by (simp add: strict_prefix_def)
next
  assume "strict_prefix ps qs"
  then obtain r rs where "qs = ps @ r # rs"
    by (auto elim: strict_prefixE')
  then have "render qs = (render ps @ ''/'') @ join_with CHR ''/'' (r # rs)"
    using \<open>ps \<noteq> []\<close> by (simp add: render_def join_with_append)
  then show "prefix (render ps @ ''/'') (render qs)"
    by (simp add: prefix_def)
qed

section \<open>Joining a name\<close>

lemma norm_parts_join_logical [path_simps]:
  "norm_parts (join_logical base name) = foldl norm_step (norm_parts base) (split_on CHR ''/'' (to_slash name))"
proof (cases "base = ''/''")
  case True
  then show ?thesis by (simp add: join_logical_def) (simp add: norm_parts_def)
next
  case False
  then show ?thesis
    by (simp add: join_logical_def norm_parts_append_sep)
qed

lemma norm_parts_join_logical_clean [path_simps]:
  "clean_part name \<Longrightarrow> norm_parts (join_logical base name) = norm_parts base @ [name]"
  by (simp add: norm_parts_join_logical clean_part_def to_slash_id split_on_id norm_step_def)

lemma canonical_join_logical: "canonical (join_logical base name)"
  by (simp add: join_logical_def)

lemma join_logical_eq_iff:
  assumes "clean_part m" and "clean_part n"
  shows "join_logical a m = join_logical b n \<longleftrightarrow> norm_parts a = norm_parts b \<and> m = n"
  using assms canonical_join_logical
  by (metis append1_eq_conv canonical_def norm_parts_join_logical_clean normalize_eq_iff)

lemma is_root_entry_iff: "is_root_entry s \<longleftrightarrow> length (norm_parts s) \<le> 1"
proof (cases "norm_parts s")
  case Nil
  then show ?thesis by (simp add: is_root_entry_def normalize_logical_def render_def)
next
  case (Cons p ps)
  then have p: "CHR ''/'' \<notin> set p"
    using norm_parts_clean [of s] by (auto simp: clean_part_def)
  with Cons show ?thesis
    by (cases ps) (auto simp: is_root_entry_def normalize_logical_def render_def join_with_Cons)
qed

section \<open>Native paths\<close>

text \<open>
  \<^verbatim>\<open>std::path::Path::components\<close> on Unix: a leading \<open>/\<close> is the root, empty pieces and
  inner \<open>.\<close> pieces are dropped, a leading \<open>.\<close> and every \<open>..\<close> are kept.
\<close>

datatype comp = RootDir | CurDir | ParentDir | Normal string

definition piece_comp :: "bool \<Rightarrow> string \<Rightarrow> comp list" where
  "piece_comp leading p =
    (if p = [] then [] else if p = ''.'' then (if leading then [CurDir] else [])
     else if p = ''..'' then [ParentDir] else [Normal p])"

definition path_components :: "string \<Rightarrow> comp list" where
  "path_components s =
    (if prefix ''/'' s then RootDir # concat (map (piece_comp False) (split_on CHR ''/'' s))
     else (case split_on CHR ''/'' s of
             [] \<Rightarrow> []
           | p # ps \<Rightarrow> piece_comp True p @ concat (map (piece_comp False) ps)))"

fun comp_str :: "comp \<Rightarrow> string" where
  "comp_str RootDir = ''/''"
| "comp_str CurDir = ''.''"
| "comp_str ParentDir = ''..''"
| "comp_str (Normal p) = p"

text \<open>The rest of a path after some of its components, as text with single separators.\<close>

fun comps_path :: "comp list \<Rightarrow> string" where
  "comps_path (RootDir # cs) = CHR ''/'' # join_with CHR ''/'' (map comp_str cs)"
| "comps_path cs = join_with CHR ''/'' (map comp_str cs)"

definition path_starts_with :: "string \<Rightarrow> string \<Rightarrow> bool" where
  "path_starts_with p base = prefix (path_components base) (path_components p)"

definition path_strip_prefix :: "string \<Rightarrow> string \<Rightarrow> string option" where
  "path_strip_prefix p base =
    (if path_starts_with p base
     then Some (comps_path (drop (length (path_components base)) (path_components p))) else None)"

text \<open>\<^verbatim>\<open>Path::file_name\<close>: the last component, when it is a normal one.\<close>

definition path_file_name :: "string \<Rightarrow> string option" where
  "path_file_name p =
    (case rev (path_components p) of Normal n # _ \<Rightarrow> Some n | _ \<Rightarrow> None)"

text \<open>\<^verbatim>\<open>Path::parent\<close>\<close>

definition path_parent :: "string \<Rightarrow> string option" where
  "path_parent p =
    (case rev (path_components p) of [] \<Rightarrow> None | RootDir # _ \<Rightarrow> None | _ # front \<Rightarrow> Some (comps_path (rev front)))"

text \<open>\<^verbatim>\<open>Path::join\<close>: an absolute second path replaces the first.\<close>

definition path_join :: "string \<Rightarrow> string \<Rightarrow> string" where
  "path_join base p =
    (if prefix ''/'' p then p
     else if base = [] \<or> last base = CHR ''/'' then base @ p
     else base @ ''/'' @ p)"

text \<open>
  On Unix the separator of native paths is the slash. A single letter in front is taken for a drive
  there, too.
\<close>

definition ascii_alpha :: "char \<Rightarrow> bool" where
  "ascii_alpha c \<longleftrightarrow> (let n = of_char c :: nat in (65 \<le> n \<and> n \<le> 90) \<or> (97 \<le> n \<and> n \<le> 122))"

definition logical_to_native :: "string \<Rightarrow> string" where
  "logical_to_native logical =
    (let normalized = normalize_logical logical;
         stripped = (case strip_prefix ''/'' normalized of Some s \<Rightarrow> s | None \<Rightarrow> normalized)
     in case normalized of
          a # b # c # rest \<Rightarrow>
            if a = CHR ''/'' \<and> c = CHR ''/'' \<and> ascii_alpha b then b # CHR '':'' # c # rest else stripped
        | _ \<Rightarrow> stripped)"

definition strip_source_base :: "string \<Rightarrow> string \<Rightarrow> string option" where
  "strip_source_base logical_path source_base =
    (let native = logical_to_native logical_path
     in case path_strip_prefix native source_base of
          None \<Rightarrow> None
        | Some rel \<Rightarrow>
            (let rel = to_logical_string rel;
                 trimmed = (case strip_prefix ''/'' rel of Some s \<Rightarrow> s | None \<Rightarrow> rel)
             in if trimmed = [] then None else Some trimmed))"

text \<open>\<^verbatim>\<open>Path::with_extension\<close>: the last component keeps its stem and gets a new extension.\<close>

definition file_stem :: "string \<Rightarrow> string" where
  "file_stem n =
    (case dropWhile (\<lambda>c. c \<noteq> CHR ''.'') (rev n) of
       _ # front \<Rightarrow> if front = [] then n else rev front
     | [] \<Rightarrow> n)"

definition path_with_extension :: "string \<Rightarrow> string \<Rightarrow> string" where
  "path_with_extension p ext =
    (case dropWhile (\<lambda>x. x = [] \<or> x = ''.'') (rev (split_on CHR ''/'' p)) of
       [] \<Rightarrow> p
     | n # front \<Rightarrow>
         if n = ''..'' then p else join_with CHR ''/'' (rev front @ [file_stem n @ ''.'' @ ext]))"

definition target_relative_path :: "string \<Rightarrow> string \<Rightarrow> string \<Rightarrow> string" where
  "target_relative_path base target_prefix path =
    (let rel =
       (case path_strip_prefix path base of
          Some r \<Rightarrow> r
        | None \<Rightarrow>
            (let first_segment =
               (case path_strip_prefix path ''/'' of
                  None \<Rightarrow> None
                | Some r \<Rightarrow> (case path_components r of [] \<Rightarrow> None | c # _ \<Rightarrow> Some (comp_str c)))
             in if path_file_name base \<noteq> None \<and> path_file_name base = first_segment
                then (case path_strip_prefix path ''/'' of Some r \<Rightarrow> r | None \<Rightarrow> path)
                else (case path_file_name path of Some n \<Rightarrow> n | None \<Rightarrow> path)));
       prefixed = (if target_prefix = [] then rel else path_join target_prefix rel)
     in normalize_relative_path prefixed)"

text \<open>
  The target path of a metadata path. The native separator is \<open>/\<close>, so the replacement of
  separators in \<open>rel\<close> changes nothing.
\<close>

definition make_relative_and_join :: "string \<Rightarrow> string \<Rightarrow> string \<Rightarrow> bool \<Rightarrow> string" where
  "make_relative_and_join source_base target_base metadata_path logical_paths =
    (let logical_path = normalize_logical metadata_path;
         logical_source = normalize_logical (to_logical_string source_base);
         whole = (case strip_prefix ''/'' logical_path of Some r \<Rightarrow> r | None \<Rightarrow> logical_path)
     in if logical_paths then path_join target_base whole
        else (case strip_prefix logical_source logical_path of
                Some rel \<Rightarrow>
                  (let rel = (case strip_prefix ''/'' rel of Some r \<Rightarrow> r | None \<Rightarrow> rel)
                   in if rel \<noteq> [] then path_join target_base rel else path_join target_base whole)
              | None \<Rightarrow> path_join target_base whole))"

subsection \<open>What the mapping to the target computes\<close>

lemma to_slash_idem [simp]: "to_slash (to_slash s) = to_slash s"
  by (simp add: to_slash_id to_slash_no_backslash)

lemma norm_parts_to_slash [simp]: "norm_parts (to_slash s) = norm_parts s"
  by (simp add: norm_parts_def)

lemma normalize_to_logical [simp]:
  "normalize_logical (to_logical_string s) = normalize_logical s"
  by (simp add: to_logical_string_def normalize_logical_def)

lemma strip_slash_render [simp]: "strip_prefix ''/'' (render ps) = Some (join_with CHR ''/'' ps)"
  by (auto simp: strip_prefix_Some render_def)

lemma strip_slash_join:
  assumes "\<forall>p \<in> set ps. clean_part p"
  shows "strip_prefix ''/'' (join_with CHR ''/'' ps) = None"
proof (cases ps)
  case Nil
  then show ?thesis by (simp add: strip_prefix_def)
next
  case (Cons p qs)
  with assms obtain c cs where "p = c # cs" and "c \<noteq> CHR ''/''"
    by (cases p) (auto simp: clean_part_def)
  with Cons show ?thesis
    by (cases qs) (auto simp: strip_prefix_def)
qed

lemma join_clean_nonempty:
  assumes "\<forall>p \<in> set ps. clean_part p"
  shows "join_with CHR ''/'' ps = [] \<longleftrightarrow> ps = []"
proof -
  have "ps \<noteq> [[]]"
    using assms by (cases ps) (simp_all add: clean_part_def)
  then show ?thesis
    by (simp add: join_with_eq_Nil)
qed

lemma render_append: "ss \<noteq> [] \<Longrightarrow> rs \<noteq> [] \<Longrightarrow> render (ss @ rs) = render ss @ CHR ''/'' # join_with CHR ''/'' rs"
  by (simp add: render_def join_with_append)

lemma make_rel_logical [path_simps]:
  "make_relative_and_join src tgt meta True = path_join tgt (join_with CHR ''/'' (norm_parts meta))"
  by (simp add: make_relative_and_join_def normalize_logical_def Let_def)

lemma make_rel_below:
  assumes "norm_parts meta = norm_parts src @ rs" and "rs \<noteq> []"
  shows "make_relative_and_join src tgt meta False = path_join tgt (join_with CHR ''/'' rs)"
proof -
  have clean: "\<forall>p \<in> set rs. clean_part p"
    using norm_parts_clean [of meta] assms(1) by simp
  note j = strip_slash_join [OF clean] join_clean_nonempty [OF clean]
  show ?thesis
  proof (cases "norm_parts src = []")
    case True
    with assms have "normalize_logical meta = normalize_logical src @ join_with CHR ''/'' rs"
      by (simp add: normalize_logical_def render_def)
    then show ?thesis
      using assms(2) by (simp add: make_relative_and_join_def j Let_def)
  next
    case False
    with assms have "normalize_logical meta = normalize_logical src @ CHR ''/'' # join_with CHR ''/'' rs"
      by (simp add: normalize_logical_def render_append)
    then show ?thesis
      using assms(2) by (simp add: make_relative_and_join_def j strip_prefix_def Let_def)
  qed
qed

text \<open>
  The string prefix test has no component boundary: a path whose first differing component merely
  begins with the last component of the source loses that beginning.
\<close>

lemma make_rel_sibling:
  assumes "norm_parts src = ss @ [a]" and "norm_parts meta = ss @ (a @ x) # rs" and "x \<noteq> []"
  shows "make_relative_and_join src tgt meta False = path_join tgt (join_with CHR ''/'' (x # rs))"
proof -
  have ax: "clean_part (a @ x)" and rs: "\<forall>p \<in> set rs. clean_part p"
    using norm_parts_clean [of meta] assms(2) by simp_all
  have x: "CHR ''/'' \<notin> set x"
    using ax by (simp add: clean_part_def)
  obtain c cs where c: "x = c # cs" "c \<noteq> CHR ''/''"
    using x assms(3) by (cases x) auto
  have join: "join_with CHR ''/'' ((a @ x) # rs) = a @ join_with CHR ''/'' (x # rs)"
    by (cases rs) auto
  have "normalize_logical meta = normalize_logical src @ join_with CHR ''/'' (x # rs)"
  proof (cases "ss = []")
    case True
    with assms(1,2) join show ?thesis
      by (simp add: normalize_logical_def render_def)
  next
    case False
    then have "join_with CHR ''/'' (ss @ (a @ x) # rs) =
        join_with CHR ''/'' (ss @ [a]) @ join_with CHR ''/'' (x # rs)"
      by (simp add: join_with_append join)
    with assms(1,2) show ?thesis
      by (simp add: normalize_logical_def render_def)
  qed
  moreover have "strip_prefix ''/'' (join_with CHR ''/'' (x # rs)) = None"
    using c by (cases rs) (auto simp: strip_prefix_def)
  moreover have "join_with CHR ''/'' (x # rs) \<noteq> []"
    using c by (cases rs) auto
  ultimately show ?thesis
    by (simp add: make_relative_and_join_def Let_def)
qed

text \<open>A path the source is no string prefix of is taken as relative to the target.\<close>

lemma make_rel_outside:
  assumes "\<not> prefix (normalize_logical src) (normalize_logical meta)"
  shows "make_relative_and_join src tgt meta False = path_join tgt (join_with CHR ''/'' (norm_parts meta))"
proof -
  have "strip_prefix (normalize_logical src) (normalize_logical meta) = None"
    using assms by (simp add: strip_prefix_def)
  moreover have "strip_prefix ''/'' (normalize_logical meta) = Some (join_with CHR ''/'' (norm_parts meta))"
    by (simp add: normalize_logical_def)
  ultimately show ?thesis
    by (simp add: make_relative_and_join_def)
qed

subsection \<open>Properties\<close>

section \<open>The components of clean paths\<close>

lemma piece_comp_clean: "clean_part p \<Longrightarrow> piece_comp leading p = [Normal p]"
  by (simp add: piece_comp_def clean_part_def)

lemma concat_pieces_clean: "\<forall>p \<in> set ps. clean_part p \<Longrightarrow> concat (map (piece_comp False) ps) = map Normal ps"
  by (induction ps) (simp_all add: piece_comp_clean)

lemma path_components_render:
  "\<forall>p \<in> set ps. clean_part p \<Longrightarrow> path_components (render ps) = RootDir # map Normal ps"
proof (cases "ps = []")
  case True
  then show ?thesis by (simp add: path_components_def render_def piece_comp_def)
next
  case False
  assume ps: "\<forall>p \<in> set ps. clean_part p"
  have "prefix ''/'' (render ps)" by (simp add: render_def)
  moreover have "concat (map (piece_comp False) (split_on CHR ''/'' (render ps))) = map Normal ps"
    using split_render [OF False ps] concat_pieces_clean [OF ps] by (simp add: piece_comp_def)
  ultimately show ?thesis by (simp add: path_components_def)
qed

lemma path_components_join:
  "\<forall>p \<in> set ps. clean_part p \<Longrightarrow> path_components (join_with CHR ''/'' ps) = map Normal ps"
proof (cases ps)
  case Nil
  then show ?thesis by (simp add: path_components_def piece_comp_def)
next
  case (Cons p qs)
  assume ps: "\<forall>p \<in> set ps. clean_part p"
  have "\<not> prefix ''/'' (join_with CHR ''/'' ps)"
    using strip_slash_join [OF ps] by (auto simp: strip_prefix_def split: if_splits)
  moreover have "split_on CHR ''/'' (join_with CHR ''/'' ps) = ps"
    using ps Cons by (intro split_join) (auto simp: clean_part_def)
  ultimately show ?thesis
    using ps Cons by (simp add: path_components_def piece_comp_clean concat_pieces_clean)
qed

lemma comps_path_Normal: "comps_path (map Normal ps) = join_with CHR ''/'' ps"
  by (cases ps) (simp_all add: comp_def)

lemma path_strip_join:
  assumes "\<forall>p \<in> set ps. clean_part p" and "\<forall>p \<in> set rs. clean_part p"
  shows "path_strip_prefix (join_with CHR ''/'' ps) (join_with CHR ''/'' rs) =
    (if prefix rs ps then Some (join_with CHR ''/'' (drop (length rs) ps)) else None)"
proof -
  have "prefix (map Normal rs) (map Normal ps) \<longleftrightarrow> prefix rs ps"
    by (auto simp: prefix_def map_eq_append_conv inj_map_eq_map [of Normal] inj_def)
  then show ?thesis
    using assms by (simp add: path_strip_prefix_def path_starts_with_def path_components_join
        comps_path_Normal drop_map)
qed

lemma path_strip_render_root:
  assumes "\<forall>p \<in> set ps. clean_part p"
  shows "path_strip_prefix (render ps) ''/'' = Some (join_with CHR ''/'' ps)"
proof -
  have "path_components ''/'' = [RootDir]"
    using path_components_render [of "[]"] by (simp add: render_def)
  then show ?thesis
    using assms by (simp add: path_strip_prefix_def path_starts_with_def path_components_render comps_path_Normal)
qed

text \<open>
  Normalisation of a logical path yields \<open>/\<close> followed by components that are non-empty, are
  neither \<open>.\<close> nor \<open>..\<close> and contain no separator (so it never escapes its root), and
  normalising again changes nothing.
\<close>

theorem normalize_logical_clean:
  "(\<exists>ps. normalize_logical raw = render ps \<and> list_all clean_part ps \<and> norm_parts raw = ps)
   \<and> normalize_logical (normalize_logical raw) = normalize_logical raw"
proof (intro conjI exI)
  show "normalize_logical raw = render (norm_parts raw)"
    by (rule normalize_logical_def)
  show "list_all clean_part (norm_parts raw)"
    using norm_parts_clean by (simp add: list_all_iff)
qed (rule refl normalize_idempotent)+

text \<open>
  A metadata path below the source directory is mapped to the same relative path below the
  target directory, whether or not the two arguments are normalised.
\<close>

theorem make_relative_and_join_below:
  assumes "norm_parts metadata_path = norm_parts source_base @ rel" and "rel \<noteq> []"
  shows "make_relative_and_join source_base target_base metadata_path False =
    path_join target_base (join_with CHR ''/'' rel)"
  using assms by (rule make_rel_below)

theorem make_relative_and_join_below_witness:
  "norm_parts ''/home/user//src/docs/./f.txt'' = norm_parts ''/home/user/src/'' @ [''docs'', ''f.txt'']
   \<and> make_relative_and_join ''/home/user/src/'' ''/backup'' ''/home/user//src/docs/./f.txt'' False
     = ''/backup/docs/f.txt''"
proof -
  have h: "norm_parts ''/home/user//src/docs/./f.txt'' = norm_parts ''/home/user/src/'' @ [''docs'', ''f.txt'']"
    by code_simp
  show ?thesis
    using h make_relative_and_join_below [OF h] by (simp add: path_join_def)
qed

text \<open>
  The mapping tests for the source with a string prefix, not with a component prefix: for a
  path in which the last source component \<open>a\<close> is followed by more characters \<open>x\<close> in the same
  component, the result lies at \<open>x\<close> below the target, a place that belongs to another file.
\<close>

theorem make_relative_and_join_sibling:
  assumes "norm_parts source_base = ss @ [a]"
    and "norm_parts metadata_path = ss @ (a @ x) # rest" and "x \<noteq> []"
  shows "make_relative_and_join source_base target_base metadata_path False =
    path_join target_base (join_with CHR ''/'' (x # rest))"
  using assms by (rule make_rel_sibling)

theorem make_relative_and_join_sibling_witness:
  "make_relative_and_join ''/data'' ''/backup'' ''/database/f'' False = ''/backup/base/f''"
proof -
  have s: "norm_parts ''/data'' = [] @ [''data'']"
    by code_simp
  have m: "norm_parts ''/database/f'' = [] @ (''data'' @ ''base'') # [''f'']"
    by code_simp
  show ?thesis
    using make_relative_and_join_sibling [OF s m] by (simp add: path_join_def)
qed

text \<open>The native form of a logical path is relative, so an absolute base is never a prefix of it.\<close>

lemma strip_source_base_absolute: "prefix ''/'' base \<Longrightarrow> strip_source_base logical base = None"
proof -
  assume base: "prefix ''/'' base"
  obtain ps where ps: "normalize_logical logical = render ps" "\<forall>p \<in> set ps. clean_part p"
    using norm_parts_clean [of logical] by (auto simp: normalize_logical_def)
  have "\<not> prefix ''/'' (join_with CHR ''/'' ps)"
  proof (cases ps)
    case (Cons p qs)
    with ps(2) have "p \<noteq> []" "CHR ''/'' \<notin> set p" by (simp_all add: clean_part_def)
    with Cons show ?thesis by (cases p; cases qs) auto
  qed simp
  moreover have "strip_prefix ''/'' (normalize_logical logical) = Some (join_with CHR ''/'' ps)"
    by (simp add: ps(1))
  ultimately have "\<not> prefix ''/'' (logical_to_native logical)"
    unfolding logical_to_native_def Let_def by (auto simp: ascii_alpha_def split: list.splits)
  then have "RootDir \<notin> set (path_components (logical_to_native logical))"
    by (auto simp: path_components_def piece_comp_def split: list.splits if_splits)
  moreover have "RootDir \<in> set (path_components base)" using base by (simp add: path_components_def)
  ultimately have "\<not> prefix (path_components base) (path_components (logical_to_native logical))"
    by (auto dest: set_mono_prefix)
  then show ?thesis
    by (simp add: strip_source_base_def Let_def path_strip_prefix_def path_starts_with_def)
qed

end
