(* ===== verification/ControlCodec.thy ===== *)
theory ControlCodec
  imports RustStr
begin

text \<open>
  \<^verbatim>\<open>scanner/metadata/control_codec.rs\<close>, the record layer of the binary control files: the
  \<^verbatim>\<open>put_*\<close> and \<^verbatim>\<open>take_*\<close> primitives with their cursor, length-prefixed records, and
  the iterator that the four control-file readers share. A file is the list of its bytes; an
  open reader is the list of the bytes it has not consumed. Failures of the disk itself are not
  modelled: every error here is one the code raises about the data.
\<close>

section \<open>Primitives\<close>

definition put_u8 :: "byte list \<Rightarrow> byte \<Rightarrow> byte list" where
  "put_u8 buf v = buf @ [v]"

definition put_u16 :: "byte list \<Rightarrow> u16 \<Rightarrow> byte list" where
  "put_u16 buf v = buf @ le_bytes 2 (unat v)"

definition put_u32 :: "byte list \<Rightarrow> u32 \<Rightarrow> byte list" where
  "put_u32 buf v = buf @ le_bytes 4 (unat v)"

definition put_u64 :: "byte list \<Rightarrow> u64 \<Rightarrow> byte list" where
  "put_u64 buf v = buf @ le_bytes 8 (unat v)"

definition put_bytes :: "byte list \<Rightarrow> byte list \<Rightarrow> byte list" where
  "put_bytes buf v = buf @ v"

text \<open>A \<^verbatim>\<open>take_*\<close> function returns the value and the advanced cursor.\<close>

definition take_u8 :: "byte list \<Rightarrow> nat \<Rightarrow> (byte \<times> nat) io" where
  "take_u8 buf cursor =
    (if cursor + 1 > length buf then Inl UnexpectedEof
     else Inr (buf ! cursor, cursor + 1))"

definition take_u16 :: "byte list \<Rightarrow> nat \<Rightarrow> (u16 \<times> nat) io" where
  "take_u16 buf cursor =
    (if cursor + 2 > length buf then Inl UnexpectedEof
     else Inr (of_nat (le_val (take 2 (drop cursor buf))), cursor + 2))"

definition take_u32 :: "byte list \<Rightarrow> nat \<Rightarrow> (u32 \<times> nat) io" where
  "take_u32 buf cursor =
    (if cursor + 4 > length buf then Inl UnexpectedEof
     else Inr (of_nat (le_val (take 4 (drop cursor buf))), cursor + 4))"

definition take_u64 :: "byte list \<Rightarrow> nat \<Rightarrow> (u64 \<times> nat) io" where
  "take_u64 buf cursor =
    (if cursor + 8 > length buf then Inl UnexpectedEof
     else Inr (of_nat (le_val (take 8 (drop cursor buf))), cursor + 8))"

definition take_bytes :: "byte list \<Rightarrow> nat \<Rightarrow> nat \<Rightarrow> (byte list \<times> nat) io" where
  "take_bytes buf cursor len =
    (if cursor + len > length buf then Inl UnexpectedEof
     else Inr (take len (drop cursor buf), cursor + len))"

lemmas put_defs [codec_simps] = put_u8_def put_u16_def put_u32_def put_u64_def put_bytes_def

text \<open>
  A \<^verbatim>\<open>take_*\<close> at a cursor where the matching \<^verbatim>\<open>put_*\<close> wrote returns what was put.
  The premise is solved by simplifying \<open>drop\<close> over the appended fields.
\<close>

lemma drop_eq_length: "drop c buf = xs @ post \<Longrightarrow> xs \<noteq> [] \<Longrightarrow> c + length xs \<le> length buf"
  by (metis drop_all length_append length_drop le_add1 le_diff_conv2 append_is_Nil_conv nat_le_linear add.commute)

lemma take_u8_at [codec_simps]:
  "drop cursor buf = v # post \<Longrightarrow> take_u8 buf cursor = Inr (v, cursor + 1)"
proof -
  assume d: "drop cursor buf = v # post"
  then have "cursor < length buf"
    by (metis drop_eq_Nil leI list.distinct(1))
  moreover from this d have "buf ! cursor = v"
    by (metis hd_drop_conv_nth list.sel(1))
  ultimately show ?thesis
    by (simp add: take_u8_def)
qed

lemma take_u16_at [codec_simps]:
  "drop cursor buf = le_bytes 2 n @ post \<Longrightarrow> take_u16 buf cursor = Inr (of_nat n, cursor + 2)"
  using drop_eq_length [of cursor buf "le_bytes 2 n" post]
  by (simp add: take_u16_def codec_simps flip: length_0_conv)

lemma take_u32_at [codec_simps]:
  "drop cursor buf = le_bytes 4 n @ post \<Longrightarrow> take_u32 buf cursor = Inr (of_nat n, cursor + 4)"
  using drop_eq_length [of cursor buf "le_bytes 4 n" post]
  by (simp add: take_u32_def codec_simps flip: length_0_conv)

lemma take_u64_at [codec_simps]:
  "drop cursor buf = le_bytes 8 n @ post \<Longrightarrow> take_u64 buf cursor = Inr (of_nat n, cursor + 8)"
  using drop_eq_length [of cursor buf "le_bytes 8 n" post]
  by (simp add: take_u64_def codec_simps flip: length_0_conv)

lemma take_bytes_at [codec_simps]:
  "drop cursor buf = xs @ post \<Longrightarrow> cursor \<le> length buf \<Longrightarrow> n = length xs \<Longrightarrow>
   take_bytes buf cursor n = Inr (xs, cursor + n)"
  using drop_eq_length [of cursor buf xs post]
  by (cases "xs = []") (auto simp: take_bytes_def)

text \<open>No \<^verbatim>\<open>take_*\<close> function reads past the end, and each moves the cursor by its width.\<close>

lemma take_bounds:
  "take_u8 buf c = Inr (a, c') \<Longrightarrow> c' = c + 1 \<and> c' \<le> length buf"
  "take_u16 buf c = Inr (b, c') \<Longrightarrow> c' = c + 2 \<and> c' \<le> length buf"
  "take_u32 buf c = Inr (d, c') \<Longrightarrow> c' = c + 4 \<and> c' \<le> length buf"
  "take_u64 buf c = Inr (e, c') \<Longrightarrow> c' = c + 8 \<and> c' \<le> length buf"
  "take_bytes buf c n = Inr (f, c') \<Longrightarrow> c' = c + n \<and> c' \<le> length buf \<and> length f = n"
  by (auto simp: take_u8_def take_u16_def take_u32_def take_u64_def take_bytes_def split: if_splits)

section \<open>Records\<close>

text \<open>\<^verbatim>\<open>u32::try_from(len)\<close>\<close>

definition u32_try_from :: "nat \<Rightarrow> u32 io" where
  "u32_try_from n = (if n < 2 ^ 32 then Inr (of_nat n) else Inl InvalidInput)"

lemma u32_try_from_Inr: "u32_try_from n = Inr w \<Longrightarrow> unat w = n \<and> n < 2 ^ 32"
  by (auto simp: u32_try_from_def unat_of_nat split: if_splits)

lemma u32_try_from_ok [codec_simps]: "n < 2 ^ 32 \<Longrightarrow> u32_try_from n = Inr (of_nat n)"
  by (simp add: u32_try_from_def)

text \<open>\<open>write_record\<close> appends the length and the payload to what the writer has written.\<close>

definition write_record :: "byte list \<Rightarrow> byte list \<Rightarrow> byte list io" where
  "write_record out payload =
    andThen (u32_try_from (length payload)) (\<lambda>len.
      Inr (out @ le_bytes 4 (unat len) @ payload))"

text \<open>
  \<open>read_record\<close> returns its result and the bytes left. A length or a payload that is cut short
  consumes the rest of the file.
\<close>

definition read_record :: "byte list \<Rightarrow> byte list option io \<times> byte list" where
  "read_record rest =
    (if rest = [] then (Inr None, [])
     else if length rest < 4 then (Inl UnexpectedEof, [])
     else let len = le_val (take 4 rest)
          in if length rest - 4 < len then (Inl UnexpectedEof, [])
             else (Inr (Some (take len (drop 4 rest))), drop (4 + len) rest))"

lemma read_record_shrinks:
  "read_record rest = (r, rest') \<Longrightarrow> r \<noteq> Inr None \<Longrightarrow> length rest' < length rest"
  by (auto simp: read_record_def Let_def split: if_splits)

lemma read_write_record [codec_simps]:
  assumes "length payload < 2 ^ 32"
  shows "read_record (le_bytes 4 (length payload) @ payload @ rest) = (Inr (Some payload), rest)"
proof -
  have "le_bytes 4 (length payload) \<noteq> []"
    using length_le_bytes [of 4 "length payload"] by (metis list.size(3) zero_neq_numeral)
  with assms show ?thesis
    by (simp add: read_record_def le_val_le_bytes Let_def)
qed

lemma write_record_Inr:
  "write_record out payload = Inr out' \<longleftrightarrow>
   length payload < 2 ^ 32 \<and> out' = out @ le_bytes 4 (length payload) @ payload"
  by (auto simp: write_record_def u32_try_from_def unat_of_nat)

section \<open>The record iterator\<close>

text \<open>
  \<^verbatim>\<open>Iterator::next\<close> of the four readers: read a record, then decode its payload. An error
  is an item of the iteration, which the callers log and skip.
\<close>

definition next_entry :: "(byte list \<Rightarrow> 'a io) \<Rightarrow> byte list \<Rightarrow> 'a io option \<times> byte list" where
  "next_entry decode rest =
    (case read_record rest of
       (Inr (Some payload), rest') \<Rightarrow> (Some (decode payload), rest')
     | (Inr None, rest') \<Rightarrow> (None, rest')
     | (Inl err, rest') \<Rightarrow> (Some (Inl err), rest'))"

lemma next_entry_shrinks: "next_entry decode rest = (Some r, rest') \<Longrightarrow> length rest' < length rest"
  by (auto simp: next_entry_def split: prod.splits sum.splits option.splits
      dest: read_record_shrinks)

text \<open>Iterating to the end; every item consumes bytes, so the iteration ends.\<close>

function read_entries :: "(byte list \<Rightarrow> 'a io) \<Rightarrow> byte list \<Rightarrow> 'a io list" where
  "read_entries decode rest =
    (case next_entry decode rest of
       (None, _) \<Rightarrow> []
     | (Some r, rest') \<Rightarrow> r # read_entries decode rest')"
  by pat_completeness auto
termination
  by (relation "measure (\<lambda>(decode, rest). length rest)") (auto dest!: sym [of "(Some _, _)"] next_entry_shrinks)

declare read_entries.simps [simp del]

lemma read_entries_Nil [simp]: "read_entries decode [] = []"
  by (subst read_entries.simps) (simp add: next_entry_def read_record_def)

lemma read_entries_record:
  assumes "length payload < 2 ^ 32"
  shows "read_entries decode (le_bytes 4 (length payload) @ payload @ rest)
    = decode payload # read_entries decode rest"
  using assms by (subst read_entries.simps) (simp add: next_entry_def codec_simps)

text \<open>No file yields more items than it has bytes.\<close>

lemma length_read_entries: "length (read_entries decode rest) \<le> length rest"
proof (induction decode rest rule: read_entries.induct)
  case (1 decode rest)
  show ?case
  proof (cases "next_entry decode rest")
    case (Pair r rest')
    show ?thesis
    proof (cases r)
      case None
      with Pair show ?thesis by (subst read_entries.simps) simp
    next
      case (Some x)
      with Pair have "length rest' < length rest"
        by (simp add: next_entry_shrinks)
      with 1 [OF Pair [symmetric] Some] Pair Some show ?thesis
        by (subst read_entries.simps) simp
    qed
  qed
qed

text \<open>A length-prefixed text field: the bytes, then \<^verbatim>\<open>std::str::from_utf8\<close>.\<close>

definition take_text :: "byte list \<Rightarrow> nat \<Rightarrow> nat \<Rightarrow> (string \<times> nat) io" where
  "take_text buf cursor len =
    andThen (take_bytes buf cursor len) (\<lambda>(bytes, cursor).
    andThen (from_utf8 bytes) (\<lambda>s. Inr (s, cursor)))"

lemma take_text_at [codec_simps]:
  "drop cursor buf = str_bytes s @ post \<Longrightarrow> cursor \<le> length buf \<Longrightarrow> n = length s \<Longrightarrow>
   rust_string s \<Longrightarrow> take_text buf cursor n = Inr (s, cursor + n)"
  by (simp add: take_text_def take_bytes_at from_utf8_str_bytes)

lemma take_text_end [codec_simps]:
  "drop cursor buf = str_bytes s \<Longrightarrow> cursor \<le> length buf \<Longrightarrow> n = length s \<Longrightarrow>
   rust_string s \<Longrightarrow> take_text buf cursor n = Inr (s, cursor + n)"
  by (rule take_text_at [where post = "[]"]) simp_all

text \<open>A cut inside a record makes the reader report the cut and stop.\<close>

lemma read_entries_cut:
  assumes "length payload < 2 ^ 32" and "k < 4 + length payload" and "0 < k"
  shows "read_entries decode (take k (le_bytes 4 (length payload) @ payload @ rest)) = [Inl UnexpectedEof]"
proof -
  let ?r = "le_bytes 4 (length payload) @ payload @ rest"
  have "take k ?r \<noteq> []"
    using assms(3) by (metis append_is_Nil_conv length_0_conv length_le_bytes take_eq_Nil neq0_conv zero_neq_numeral)
  moreover have "take 4 (take k ?r) = le_bytes 4 (length payload)" if "4 \<le> k"
    using that by (simp add: min_def)
  ultimately have "read_record (take k ?r) = (Inl UnexpectedEof, [])"
    using assms by (cases "k < 4") (auto simp: read_record_def Let_def le_val_le_bytes min_def)
  then show ?thesis
    by (subst read_entries.simps) (simp add: next_entry_def)
qed

end
