(* ===== verification/ControlHeader.thy ===== *)
theory ControlHeader
  imports ControlCodec
begin

text \<open>
  The text header of the control files, the rest of \<^verbatim>\<open>control_codec.rs\<close>: a block of 4096
  bytes with a magic line, \<open>KEY=value\<close> lines and \<open>END\<close>, padded with zero bytes. The two text
  fields go through serde's JSON, which is not under \<^verbatim>\<open>src/\<close>: its printer and parser are
  the arguments \<open>enc\<close> and \<open>dec\<close>.
\<close>

section \<open>The header and its writer\<close>

record control_file_header =
  version :: u32
  file_count :: u64
  dir_count :: u64
  inode_count :: u64
  record_count :: u64
  time :: u64
  source_kind :: string
  source_root :: string
  header_size :: u32

definition CONTROL_HEADER_SIZE :: nat where
  "CONTROL_HEADER_SIZE = 4096"

definition CONTROL_VERSION_V3 :: u32 where
  "CONTROL_VERSION_V3 = 3"

text \<open>\<^verbatim>\<open>ControlFileHeader::default()\<close>, at the clock value \<open>now\<close>.\<close>

definition default_header :: "u64 \<Rightarrow> control_file_header" where
  "default_header now =
    \<lparr>version = CONTROL_VERSION_V3, file_count = 0, dir_count = 0, inode_count = 0,
     record_count = 0, time = now, source_kind = ''local'', source_root = ''/'',
     header_size = of_nat CONTROL_HEADER_SIZE\<rparr>"

type_synonym json_enc = "string \<Rightarrow> string io"
type_synonym json_dec = "string \<Rightarrow> string io"

definition field_line :: "string \<Rightarrow> string \<Rightarrow> string" where
  "field_line key val = key @ ''='' @ val @ [CHR 0x0A]"

definition header_text :: "string \<Rightarrow> control_file_header \<Rightarrow> string \<Rightarrow> string \<Rightarrow> string" where
  "header_text magic h kind root =
    (magic @ '' V'' @ nat_str (unat (version h))) @ [CHR 0x0A]
    @ field_line ''HEADER_SIZE'' (nat_str (unat (header_size h)))
    @ field_line ''FILE_COUNT'' (nat_str (unat (file_count h)))
    @ field_line ''DIR_COUNT'' (nat_str (unat (dir_count h)))
    @ field_line ''INODE_COUNT'' (nat_str (unat (inode_count h)))
    @ field_line ''RECORD_COUNT'' (nat_str (unat (record_count h)))
    @ field_line ''TIME'' (nat_str (unat (time h)))
    @ field_line ''SOURCE_KIND'' kind
    @ field_line ''SOURCE_ROOT'' root
    @ ''END'' @ [CHR 0x0A]"

definition write_header_block :: "json_enc \<Rightarrow> string \<Rightarrow> control_file_header \<Rightarrow> byte list io" where
  "write_header_block enc magic h =
    andThen (enc (source_kind h)) (\<lambda>kind.
    andThen (enc (source_root h)) (\<lambda>root.
      let bytes = str_bytes (header_text magic h kind root)
      in if length bytes > CONTROL_HEADER_SIZE then Inl InvalidInput
         else Inr (bytes @ replicate (CONTROL_HEADER_SIZE - length bytes) 0)))"

section \<open>The header reader\<close>

text \<open>The loop over the lines after the first: a later line for a key replaces an earlier one.\<close>

fun read_kv :: "(string \<rightharpoonup> string) \<Rightarrow> string list \<Rightarrow> (string \<rightharpoonup> string)" where
  "read_kv kv [] = kv"
| "read_kv kv (line # rest) =
    (if line = ''END'' then kv
     else (case split_once CHR ''='' line of
             Some (k, v) \<Rightarrow> read_kv (kv(trim_ws k \<mapsto> trim_ws v)) rest
           | None \<Rightarrow> read_kv kv rest))"

definition kv_uint :: "nat \<Rightarrow> (string \<rightharpoonup> string) \<Rightarrow> string \<Rightarrow> nat \<Rightarrow> nat" where
  "kv_uint width kv key dflt =
    (case kv key of
       None \<Rightarrow> dflt
     | Some v \<Rightarrow> (case parse_uint width v of Some n \<Rightarrow> n | None \<Rightarrow> dflt))"

definition kv_text :: "json_dec \<Rightarrow> (string \<rightharpoonup> string) \<Rightarrow> string \<Rightarrow> string \<Rightarrow> string io" where
  "kv_text dec kv key dflt = (case kv key of None \<Rightarrow> Inr dflt | Some v \<Rightarrow> dec v)"

definition first_line_version :: "string \<Rightarrow> u32" where
  "first_line_version first =
    (case second_token first of
       None \<Rightarrow> CONTROL_VERSION_V3
     | Some tok \<Rightarrow>
         (case strip_prefix ''V'' tok of
            None \<Rightarrow> CONTROL_VERSION_V3
          | Some v \<Rightarrow> (case parse_uint 32 v of None \<Rightarrow> CONTROL_VERSION_V3 | Some n \<Rightarrow> of_nat n)))"

definition header_of_kv ::
  "json_dec \<Rightarrow> u32 \<Rightarrow> (string \<rightharpoonup> string) \<Rightarrow> control_file_header io" where
  "header_of_kv dec ver kv =
    andThen (kv_text dec kv ''SOURCE_KIND'' ''local'') (\<lambda>kind.
    andThen (kv_text dec kv ''SOURCE_ROOT'' ''/'') (\<lambda>root.
      Inr \<lparr>version = ver,
           file_count = of_nat (kv_uint 64 kv ''FILE_COUNT'' 0),
           dir_count = of_nat (kv_uint 64 kv ''DIR_COUNT'' 0),
           inode_count = of_nat (kv_uint 64 kv ''INODE_COUNT'' 0),
           record_count = of_nat (kv_uint 64 kv ''RECORD_COUNT'' 0),
           time = of_nat (kv_uint 64 kv ''TIME'' 0),
           source_kind = kind, source_root = root,
           header_size = of_nat (kv_uint 32 kv ''HEADER_SIZE'' CONTROL_HEADER_SIZE)\<rparr>))"

definition read_header_block :: "json_dec \<Rightarrow> byte list \<Rightarrow> string \<Rightarrow> control_file_header io" where
  "read_header_block dec file expected_magic =
    (if length file < CONTROL_HEADER_SIZE then Inl UnexpectedEof
     else let content = takeWhile (\<lambda>b. b \<noteq> 0) (take CONTROL_HEADER_SIZE file)
          in andThen (from_utf8 content) (\<lambda>txt.
               case str_lines txt of
                 [] \<Rightarrow> Inl InvalidData
               | first # lines \<Rightarrow>
                   if \<not> prefix expected_magic first then Inl InvalidData
                   else header_of_kv dec (first_line_version first) (read_kv Map.empty lines)))"

section \<open>Control files as a whole\<close>

text \<open>
  A record writer is the bytes it has written after the header, with the header whose counts it
  keeps. \<open>finish_record_writer\<close> writes the final header over the first block.
\<close>

record control_writer =
  records :: "byte list"
  header :: control_file_header

definition create_record_writer ::
  "json_enc \<Rightarrow> string \<Rightarrow> control_file_header \<Rightarrow> control_writer io" where
  "create_record_writer enc magic h =
    andThen (write_header_block enc magic h) (\<lambda>_. Inr \<lparr>records = [], header = h\<rparr>)"

definition finish_record_writer :: "json_enc \<Rightarrow> string \<Rightarrow> control_writer \<Rightarrow> byte list io" where
  "finish_record_writer enc magic w =
    andThen (write_header_block enc magic (header w)) (\<lambda>block. Inr (block @ records w))"

definition open_record_reader ::
  "json_dec \<Rightarrow> byte list \<Rightarrow> string \<Rightarrow> (byte list \<times> control_file_header) io" where
  "open_record_reader dec file expected_magic =
    andThen (read_header_block dec file expected_magic) (\<lambda>h.
      Inr (drop (unat (header_size h)) file, h))"

section \<open>The header block round trip\<close>

text \<open>
  What the code relies on of serde's JSON: a string is printed as one quoted token of UTF-8 text
  without raw control characters, and the parser undoes the printer.
\<close>

definition json_token :: "string \<Rightarrow> bool" where
  "json_token t \<longleftrightarrow> rust_string t \<and> t \<noteq> [] \<and> hd t = CHR 0x22 \<and> last t = CHR 0x22
     \<and> CHR 0x00 \<notin> set t \<and> CHR 0x0A \<notin> set t"

definition json_codec :: "json_enc \<Rightarrow> json_dec \<Rightarrow> bool" where
  "json_codec enc dec \<longleftrightarrow> (\<forall>s t. enc s = Inr t \<longrightarrow> json_token t \<and> dec t = Inr s)"

definition header_lines :: "string \<Rightarrow> control_file_header \<Rightarrow> string \<Rightarrow> string \<Rightarrow> string list" where
  "header_lines magic h kind root =
    [magic @ CHR '' '' # CHR ''V'' # nat_str (unat (version h)),
     ''HEADER_SIZE'' @ CHR ''='' # nat_str (unat (header_size h)),
     ''FILE_COUNT'' @ CHR ''='' # nat_str (unat (file_count h)),
     ''DIR_COUNT'' @ CHR ''='' # nat_str (unat (dir_count h)),
     ''INODE_COUNT'' @ CHR ''='' # nat_str (unat (inode_count h)),
     ''RECORD_COUNT'' @ CHR ''='' # nat_str (unat (record_count h)),
     ''TIME'' @ CHR ''='' # nat_str (unat (time h)),
     ''SOURCE_KIND'' @ CHR ''='' # kind,
     ''SOURCE_ROOT'' @ CHR ''='' # root,
     ''END'']"

lemma header_text_lines:
  "header_text magic h kind root = concat (map (\<lambda>l. l @ [CHR 0x0A]) (header_lines magic h kind root))"
  by (simp add: header_text_def header_lines_def field_line_def)

lemma str_lines_concat:
  "\<forall>l \<in> set ls. CHR 0x0A \<notin> set l \<and> (l = [] \<or> last l \<noteq> CHR 0x0D) \<Longrightarrow>
   str_lines (concat (map (\<lambda>l. l @ [CHR 0x0A]) ls)) = ls"
  by (induction ls) (auto simp: str_lines_Cons)

text \<open>Decimal numbers are made of printable characters, and so are nowhere a separator.\<close>

lemma nat_str_graph: "c \<in> set (nat_str n) \<Longrightarrow> graph_char c"
  using nat_str_digits by (blast intro: digit_graph)

lemma nat_str_plain [simp]:
  "CHR 0x0A \<notin> set (nat_str n)" "CHR 0x00 \<notin> set (nat_str n)" "CHR 0x0D \<notin> set (nat_str n)"
  by (auto dest!: nat_str_graph simp: graph_char_def)

lemma nat_str_last_plain [simp]: "last (nat_str n) \<noteq> CHR 0x0D"
  using last_in_set [OF nat_str_nonempty, of n] nat_str_plain(3) by metis

lemma nat_str_ends: "graph_char (hd (nat_str n)) \<and> graph_char (last (nat_str n))"
  by (intro conjI nat_str_graph [of _ n] hd_in_set last_in_set nat_str_nonempty)

lemma graph_plain:
  "\<forall>c \<in> set s. graph_char c \<Longrightarrow> CHR 0x0A \<notin> set s \<and> CHR 0x00 \<notin> set s \<and> CHR 0x0D \<notin> set s"
  by (auto simp: graph_char_def)

lemma rust_string_graph: "\<forall>c \<in> set s. graph_char c \<Longrightarrow> rust_string s"
  by (rule rust_string_ascii) (auto simp: graph_char_def)

lemma rust_string_nat_str [simp]: "rust_string (nat_str n)"
  by (rule rust_string_graph) (auto dest: nat_str_graph)

lemma rust_string_Cons_ascii:
  "(of_char c :: nat) < 128 \<Longrightarrow> rust_string s \<Longrightarrow> rust_string (c # s)"
  using rust_string_append [of "[c]" s] rust_string_ascii [of "[c]"] by simp

lemma rust_string_lines:
  "\<forall>l \<in> set ls. rust_string l \<Longrightarrow> rust_string (concat (map (\<lambda>l. l @ [CHR 0x0A]) ls))"
proof (induction ls)
  case Nil
  then show ?case by (simp add: rust_string_ascii)
next
  case (Cons l ls)
  have "rust_string [CHR 0x0A]"
    by (rule rust_string_ascii) simp
  with Cons show ?case by (simp add: rust_string_append rust_string_Cons_ascii)
qed

lemma header_lines_wf:
  assumes "\<forall>c \<in> set magic. graph_char c" and "json_token kind" and "json_token root"
    and "l \<in> set (header_lines magic h kind root)"
  shows "rust_string l \<and> CHR 0x00 \<notin> set l \<and> CHR 0x0A \<notin> set l \<and> (l = [] \<or> last l \<noteq> CHR 0x0D)"
  using assms graph_plain [of magic]
  by (auto simp: header_lines_def json_token_def rust_string_append rust_string_Cons_ascii
      rust_string_graph rust_string_ascii)

lemma header_text_wf:
  assumes "\<forall>c \<in> set magic. graph_char c" and "json_token kind" and "json_token root"
  shows "rust_string (header_text magic h kind root)"
    and "CHR 0x00 \<notin> set (header_text magic h kind root)"
    and "str_lines (header_text magic h kind root) = header_lines magic h kind root"
  using header_lines_wf [OF assms, of _ h]
  by (auto simp: header_text_lines intro!: rust_string_lines str_lines_concat)

definition kv_key :: "string \<Rightarrow> bool" where
  "kv_key k \<longleftrightarrow> CHR ''='' \<notin> set k \<and> k \<noteq> [] \<and> graph_char (hd k) \<and> graph_char (last k)"

lemma kv_keys:
  "kv_key ''HEADER_SIZE''" "kv_key ''FILE_COUNT''" "kv_key ''DIR_COUNT''" "kv_key ''INODE_COUNT''"
  "kv_key ''RECORD_COUNT''" "kv_key ''TIME''" "kv_key ''SOURCE_KIND''" "kv_key ''SOURCE_ROOT''"
  by (simp_all add: kv_key_def graph_char_def)

lemma read_kv_field:
  assumes "kv_key k" and "v \<noteq> []" "graph_char (hd v)" "graph_char (last v)"
  shows "read_kv kv ((k @ CHR ''='' # v) # rest) = read_kv (kv(k \<mapsto> v)) rest"
proof -
  have "k @ CHR ''='' # v \<noteq> ''END''"
  proof
    assume "k @ CHR ''='' # v = ''END''"
    then have "CHR ''='' \<in> set ''END''" by (metis in_set_conv_decomp)
    then show False by simp
  qed
  with assms show ?thesis
    by (simp add: split_once_append trim_ws_graph kv_key_def)
qed

lemma read_kv_END: "read_kv kv (''END'' # rest) = kv"
  by simp

lemma read_kv_number:
  "kv_key k \<Longrightarrow> read_kv kv ((k @ CHR ''='' # nat_str n) # rest) = read_kv (kv(k \<mapsto> nat_str n)) rest"
  by (rule read_kv_field) (simp_all add: nat_str_ends)

lemma read_kv_token:
  "json_token t \<Longrightarrow> kv_key k \<Longrightarrow>
   read_kv kv ((k @ CHR ''='' # t) # rest) = read_kv (kv(k \<mapsto> t)) rest"
  by (rule read_kv_field) (simp_all add: json_token_def graph_char_def)

lemma first_line_version_magic:
  assumes "\<forall>c \<in> set magic. graph_char c" and "magic \<noteq> []"
  shows "first_line_version (magic @ CHR '' '' # CHR ''V'' # nat_str (unat v)) = v"
proof -
  let ?t = "CHR ''V'' # nat_str (unat v)"
  have sp: "strip_ws (CHR '' '' # ?t) = Some ?t"
    by (simp add: strip_ws_def ws_chars_def)
  have gt: "\<forall>c \<in> set ?t. graph_char c"
    by (auto dest: nat_str_graph simp: graph_char_def)
  have "trim_ws_start (magic @ CHR '' '' # ?t) = magic @ CHR '' '' # ?t"
    using assms by (cases magic) (auto simp: trim_ws_start_graph)
  moreover have "ws_token (magic @ CHR '' '' # ?t) = (magic, CHR '' '' # ?t)"
    using assms sp by (intro ws_token_graph) auto
  moreover have "trim_ws_start (CHR '' '' # ?t) = ?t"
    using sp gt by (subst trim_ws_start.simps) (simp add: trim_ws_start_graph)
  moreover have "ws_token (?t @ []) = (?t, [])"
    using gt by (intro ws_token_graph) auto
  ultimately have "second_token (magic @ CHR '' '' # ?t) = Some ?t"
    by (simp add: second_token_def)
  moreover have "strip_prefix ''V'' ?t = Some (nat_str (unat v))"
    by (simp add: strip_prefix_Some)
  moreover have "unat v < 2 ^ 32"
    using unsigned_less [of v, where ?'a = nat] by simp
  ultimately show ?thesis
    by (simp add: first_line_version_def parse_nat_str)
qed

lemma kv_uint_word:
  "kv k = Some (nat_str (unat (w :: 'a::len word))) \<Longrightarrow> width = LENGTH('a) \<Longrightarrow>
   of_nat (kv_uint width kv k d) = w"
  by (simp add: kv_uint_def parse_nat_str unsigned_less)

lemma header_of_lines:
  assumes "json_token kind" "json_token root"
    and "dec kind = Inr (source_kind h)" "dec root = Inr (source_root h)"
  shows "header_of_kv dec (version h) (read_kv Map.empty (tl (header_lines magic h kind root))) = Inr h"
proof -
  have kv: "read_kv Map.empty (tl (header_lines magic h kind root)) =
    [''HEADER_SIZE'' \<mapsto> nat_str (unat (header_size h)), ''FILE_COUNT'' \<mapsto> nat_str (unat (file_count h)),
     ''DIR_COUNT'' \<mapsto> nat_str (unat (dir_count h)), ''INODE_COUNT'' \<mapsto> nat_str (unat (inode_count h)),
     ''RECORD_COUNT'' \<mapsto> nat_str (unat (record_count h)), ''TIME'' \<mapsto> nat_str (unat (time h)),
     ''SOURCE_KIND'' \<mapsto> kind, ''SOURCE_ROOT'' \<mapsto> root]"
    (is "?lhs = ?kv")
    unfolding header_lines_def list.sel
    by (simp only: read_kv_number kv_keys read_kv_token [OF assms(1)] read_kv_token [OF assms(2)]
        read_kv_END)
  have nums: "of_nat (kv_uint 64 ?kv ''FILE_COUNT'' 0) = file_count h"
    "of_nat (kv_uint 64 ?kv ''DIR_COUNT'' 0) = dir_count h"
    "of_nat (kv_uint 64 ?kv ''INODE_COUNT'' 0) = inode_count h"
    "of_nat (kv_uint 64 ?kv ''RECORD_COUNT'' 0) = record_count h"
    "of_nat (kv_uint 64 ?kv ''TIME'' 0) = time h"
    "of_nat (kv_uint 32 ?kv ''HEADER_SIZE'' CONTROL_HEADER_SIZE) = header_size h"
    by (rule kv_uint_word; simp)+
  show ?thesis
    unfolding kv header_of_kv_def nums using assms by (simp add: kv_text_def)
qed

lemma read_header_block_written:
  assumes "json_codec enc dec" and "\<forall>c \<in> set magic. graph_char c" and "magic \<noteq> []"
    and "write_header_block enc magic h = Inr block"
  shows "length block = CONTROL_HEADER_SIZE \<and> read_header_block dec (block @ rest) magic = Inr h"
proof -
  from assms(4) obtain kind root where k: "enc (source_kind h) = Inr kind"
    and r: "enc (source_root h) = Inr root"
    and len: "length (header_text magic h kind root) \<le> CONTROL_HEADER_SIZE"
    and block: "block = str_bytes (header_text magic h kind root)
        @ replicate (CONTROL_HEADER_SIZE - length (header_text magic h kind root)) 0"
    by (auto simp: write_header_block_def andThen_Inr_iff Let_def split: if_splits)
  let ?txt = "header_text magic h kind root"
  from assms(1) k r have jk: "json_token kind" "dec kind = Inr (source_kind h)"
    and jr: "json_token root" "dec root = Inr (source_root h)"
    by (auto simp: json_codec_def)
  note wf = header_text_wf [OF assms(2) jk(1) jr(1), of h]
  from len have length: "length block = CONTROL_HEADER_SIZE"
    by (simp add: block)
  have "takeWhile (\<lambda>b. b \<noteq> 0) block = str_bytes ?txt"
    unfolding block using str_bytes_nonzero [OF wf(2)]
    by (subst takeWhile_append2) auto
  moreover have "take CONTROL_HEADER_SIZE (block @ rest) = block"
    using length by simp
  moreover have "str_lines ?txt = hd (header_lines magic h kind root) # tl (header_lines magic h kind root)"
    unfolding wf(3) by (simp add: header_lines_def)
  moreover have "hd (header_lines magic h kind root) = magic @ CHR '' '' # CHR ''V'' # nat_str (unat (version h))"
    by (simp add: header_lines_def)
  ultimately show ?thesis
    using length from_utf8_str_bytes [OF wf(1)] header_of_lines [OF jk(1) jr(1) jk(2) jr(2), of magic]
      first_line_version_magic [OF assms(2,3), of "version h"]
    by (simp add: read_header_block_def)
qed


section \<open>The contract of a control-file format\<close>

text \<open>Writing a list of items one after the other.\<close>

fun write_all :: "('w \<Rightarrow> 'a \<Rightarrow> 'w io) \<Rightarrow> 'w \<Rightarrow> 'a list \<Rightarrow> 'w io" where
  "write_all put w [] = Inr w"
| "write_all put w (e # es) = andThen (put w e) (\<lambda>w'. write_all put w' es)"

lemma write_all_append:
  "write_all put w (xs @ ys) = andThen (write_all put w xs) (\<lambda>w. write_all put w ys)"
  by (induction xs arbitrary: w) (auto simp: andThen_assoc)

text \<open>
  A format has a magic word, a writer operation \<open>put\<close> for an item, the decoder of a record
  payload, the effect \<open>count\<close> of an item on the header's counts, and the entry \<open>view\<close> that the
  reader is to return for an item. The law: an item is written as one record that decodes to it.
\<close>

locale record_file =
  fixes magic :: string
    and put :: "control_writer \<Rightarrow> 'a \<Rightarrow> control_writer io"
    and decode :: "byte list \<Rightarrow> 'b io"
    and count :: "'a \<Rightarrow> control_file_header \<Rightarrow> control_file_header"
    and view :: "'a \<Rightarrow> 'b"
    and wf :: "'a \<Rightarrow> bool"
  assumes magic_graph: "magic \<noteq> [] \<and> (\<forall>c \<in> set magic. graph_char c)"
    and count_size: "header_size (count e h) = header_size h"
    and write_record_law: "wf e \<Longrightarrow> put w e = Inr w' \<Longrightarrow>
      \<exists>payload. length payload < 2 ^ 32
        \<and> w' = \<lparr>records = records w @ le_bytes 4 (length payload) @ payload,
               header = count e (header w)\<rparr>
        \<and> decode payload = Inr (view e)"
begin

lemma write_all_header:
  "write_all put w es = Inr w' \<Longrightarrow> \<forall>e \<in> set es. wf e \<Longrightarrow>
   header w' = fold count es (header w) \<and> header_size (header w') = header_size (header w)"
proof (induction es arbitrary: w)
  case Nil
  then show ?case by simp
next
  case (Cons e es)
  then obtain w1 where w1: "put w e = Inr w1" "write_all put w1 es = Inr w'"
    by (auto simp: andThen_Inr_iff)
  have "wf e" using Cons.prems by simp
  from write_record_law [OF this w1(1)] have "header w1 = count e (header w)" by auto
  with Cons.IH [OF w1(2)] Cons.prems show ?case by (auto simp: count_size)
qed

text \<open>The records written, read to the end or to a cut at \<open>k\<close>.\<close>

lemma write_all_records:
  "write_all put w es = Inr w' \<Longrightarrow> \<forall>e \<in> set es. wf e \<Longrightarrow>
   \<exists>written. records w' = records w @ written
     \<and> read_entries decode written = map (\<lambda>e. Inr (view e)) es
     \<and> (\<forall>k. \<exists>j. read_entries decode (take k written) = map (\<lambda>e. Inr (view e)) (take j es)
           \<or> read_entries decode (take k written)
             = map (\<lambda>e. Inr (view e)) (take j es) @ [Inl UnexpectedEof])"
proof (induction es arbitrary: w)
  case Nil
  then show ?case by (auto intro!: exI [of _ "[]"])
next
  case (Cons e es)
  then obtain w1 where w1: "put w e = Inr w1" "write_all put w1 es = Inr w'"
    by (auto simp: andThen_Inr_iff)
  have "wf e" using Cons.prems by simp
  from write_record_law [OF this w1(1)] obtain payload where len: "length payload < 2 ^ 32"
    and r1: "records w1 = records w @ le_bytes 4 (length payload) @ payload"
    and dec: "decode payload = Inr (view e)"
    by auto
  from Cons.IH [OF w1(2)] Cons.prems obtain tl where tl: "records w' = records w1 @ tl"
      "read_entries decode tl = map (\<lambda>e. Inr (view e)) es"
    and cut: "\<And>k. \<exists>j. read_entries decode (take k tl) = map (\<lambda>e. Inr (view e)) (take j es)
           \<or> read_entries decode (take k tl)
             = map (\<lambda>e. Inr (view e)) (take j es) @ [Inl UnexpectedEof]"
    by auto
  let ?rec = "le_bytes 4 (length payload) @ payload @ tl"
  have "\<exists>j. read_entries decode (take k ?rec) = map (\<lambda>e. Inr (view e)) (take j (e # es))
         \<or> read_entries decode (take k ?rec)
           = map (\<lambda>e. Inr (view e)) (take j (e # es)) @ [Inl UnexpectedEof]" for k
  proof (cases "k < 4 + length payload")
    case True
    show ?thesis
    proof (cases "k = 0")
      case True
      then show ?thesis by (auto intro: exI [of _ 0])
    next
      case False
      with read_entries_cut [OF len True, of decode tl] show ?thesis
        by (auto intro!: exI [of _ 0])
    qed
  next
    case False
    define m where "m = k - 4 - length payload"
    from False have "take k ?rec = le_bytes 4 (length payload) @ payload @ take m tl"
      by (simp add: m_def)
    then have step: "read_entries decode (take k ?rec) = Inr (view e) # read_entries decode (take m tl)"
      using len by (simp add: read_entries_record dec)
    obtain j where
      "read_entries decode (take m tl) = map (\<lambda>e. Inr (view e)) (take j es)
         \<or> read_entries decode (take m tl) = map (\<lambda>e. Inr (view e)) (take j es) @ [Inl UnexpectedEof]"
      using cut [of m] by blast
    then show ?thesis
      unfolding step by (auto intro!: exI [of _ "Suc j"])
  qed
  then show ?case
    using tl len by (auto simp: r1 read_entries_record dec intro!: exI [of _ ?rec])
qed

lemma finished_file:
  assumes "json_codec enc dec" and "create_record_writer enc magic h = Inr w"
    and "header_size h = of_nat CONTROL_HEADER_SIZE"
    and "write_all put w es = Inr w'" and "\<forall>e \<in> set es. wf e"
    and "finish_record_writer enc magic w' = Inr file"
  shows "open_record_reader dec file magic = Inr (records w', fold count es h)"
proof -
  from assms(6) obtain block where block: "write_header_block enc magic (header w') = Inr block"
    and f: "file = block @ records w'"
    by (auto simp: finish_record_writer_def andThen_Inr_iff)
  from assms(2) have "header w = h"
    by (auto simp: create_record_writer_def andThen_Inr_iff)
  with write_all_header [OF assms(4,5)] have h': "header w' = fold count es h"
    and size: "header_size (header w') = of_nat CONTROL_HEADER_SIZE"
    using assms(3) by auto
  from read_header_block_written [OF assms(1) _ _ block, of "records w'"] magic_graph
  have "length block = CONTROL_HEADER_SIZE" "read_header_block dec file magic = Inr (header w')"
    by (auto simp: f)
  with h' size show ?thesis
    by (simp add: open_record_reader_def f CONTROL_HEADER_SIZE_def)
qed

lemma create_records: "create_record_writer enc magic h = Inr w \<Longrightarrow> records w = []"
  by (auto simp: create_record_writer_def andThen_Inr_iff)

lemma file_roundtrip:
  assumes "json_codec enc dec" and "create_record_writer enc magic h = Inr w"
    and "header_size h = of_nat CONTROL_HEADER_SIZE"
    and "write_all put w es = Inr w'" and "\<forall>e \<in> set es. wf e"
    and "finish_record_writer enc magic w' = Inr file"
  shows "\<exists>rest. open_record_reader dec file magic = Inr (rest, fold count es h)
    \<and> read_entries decode rest = map (\<lambda>e. Inr (view e)) es"
  using finished_file [OF assms] write_all_records [OF assms(4,5)] create_records [OF assms(2)]
  by auto

lemma truncated_file:
  assumes "create_record_writer enc magic h = Inr w" and "write_all put w es = Inr w'"
    and "\<forall>e \<in> set es. wf e"
  shows "\<exists>j. read_entries decode (take k (records w')) = map (\<lambda>e. Inr (view e)) (take j es)
    \<or> read_entries decode (take k (records w'))
      = map (\<lambda>e. Inr (view e)) (take j es) @ [Inl UnexpectedEof]"
  using write_all_records [OF assms(2,3)] create_records [OF assms(1)] by auto

end

section \<open>Instances for concrete files\<close>

text \<open>
  \<^verbatim>\<open>ControlFileHeader { source_kind, source_root, ..default() }\<close>, with which the delete,
  mtime and hardlink writers start.
\<close>

definition source_header :: "u64 \<Rightarrow> string \<Rightarrow> string \<Rightarrow> control_file_header" where
  "source_header now kind root = (default_header now)\<lparr>source_kind := kind, source_root := root\<rparr>"

lemma source_header_size [simp]: "header_size (source_header now kind root) = of_nat CONTROL_HEADER_SIZE"
  by (simp add: source_header_def default_header_def)

text \<open>JSON on the text that needs no escape; for other text this printer fails.\<close>

definition plain_json_char :: "char \<Rightarrow> bool" where
  "plain_json_char c \<longleftrightarrow> graph_char c \<and> c \<noteq> CHR 0x22 \<and> c \<noteq> CHR 0x5C"

definition plain_json_enc :: json_enc where
  "plain_json_enc s =
    (if list_all plain_json_char s then Inr (CHR 0x22 # s @ [CHR 0x22]) else Inl OtherError)"

definition plain_json_dec :: json_dec where
  "plain_json_dec t =
    (if 2 \<le> length t \<and> list_all plain_json_char (butlast (tl t)) then Inr (butlast (tl t))
     else Inl OtherError)"

lemma plain_json_token: "list_all plain_json_char s \<Longrightarrow> json_token (CHR 0x22 # s @ [CHR 0x22])"
proof -
  assume s: "list_all plain_json_char s"
  then have "\<forall>c \<in> set s. graph_char c"
    by (simp add: list_all_iff plain_json_char_def)
  moreover have "graph_char (CHR 0x22)"
    by (simp add: graph_char_def)
  ultimately have g: "\<forall>c \<in> set (CHR 0x22 # s @ [CHR 0x22]). graph_char c"
    by simp
  from rust_string_graph [OF g] graph_plain [OF g] show ?thesis
    by (simp add: json_token_def)
qed

lemma plain_json_codec: "json_codec plain_json_enc plain_json_dec"
  by (auto simp: json_codec_def plain_json_enc_def plain_json_dec_def plain_json_token
      split: if_splits)

text \<open>Whether a header fits its block depends only on the length of its text.\<close>

lemma write_header_block_fits:
  "enc (source_kind h) = Inr kind \<Longrightarrow> enc (source_root h) = Inr root \<Longrightarrow>
   length (header_text magic h kind root) \<le> CONTROL_HEADER_SIZE \<Longrightarrow>
   write_header_block enc magic h = Inr (str_bytes (header_text magic h kind root)
     @ replicate (CONTROL_HEADER_SIZE - length (header_text magic h kind root)) 0)"
  by (simp add: write_header_block_def Let_def)

text \<open>The numbers of a header are short, so that a block holds any source root of ordinary length.\<close>

lemma length_nat_str: "n < 10 ^ k \<Longrightarrow> 0 < k \<Longrightarrow> length (nat_str n) \<le> k"
proof (induction n arbitrary: k rule: nat_str.induct)
  case (1 n)
  show ?case
  proof (cases "n < 10")
    case True
    with 1(3) show ?thesis by (subst nat_str.simps) simp
  next
    case False
    with 1(2) have "k \<noteq> 1" by auto
    with 1(3) obtain j where j: "k = Suc j" "0 < j" by (cases k) auto
    with 1(2) have "n div 10 < 10 ^ j" by auto
    with 1(1) [OF False _ j(2)] have "length (nat_str (n div 10)) \<le> j" by blast
    with False j show ?thesis by (subst nat_str.simps) simp
  qed
qed

lemma length_nat_str_word:
  "length (nat_str (unat (v :: u32))) \<le> 10" "length (nat_str (unat (w :: u64))) \<le> 20"
  using unsigned_less [of v, where ?'a = nat] unsigned_less [of w, where ?'a = nat]
  by (intro length_nat_str; simp)+

lemma length_header_text:
  "length (header_text magic h kind root) \<le> 222 + length magic + length kind + length root"
  using length_nat_str_word(1) [of "version h"] length_nat_str_word(1) [of "header_size h"]
    length_nat_str_word(2) [of "file_count h"] length_nat_str_word(2) [of "dir_count h"]
    length_nat_str_word(2) [of "inode_count h"] length_nat_str_word(2) [of "record_count h"]
    length_nat_str_word(2) [of "time h"]
  by (simp add: header_text_def field_line_def)

lemma write_header_block_short:
  assumes "enc (source_kind h) = Inr kind" and "enc (source_root h) = Inr root"
    and "length magic + length kind + length root \<le> 3874"
  shows "\<exists>block. write_header_block enc magic h = Inr block"
  using write_header_block_fits [of enc h kind root magic] assms length_header_text [of magic h kind root]
  by (simp add: CONTROL_HEADER_SIZE_def)

text \<open>
  The header block of a control file can be written whenever its magic word and its two JSON
  texts together have at most 3874 bytes. The block is then exactly 4096 bytes long, whatever the
  counts in it, and reading it back from the front of a file returns the header.
\<close>

theorem header_block_roundtrip:
  assumes "json_codec enc dec" and "magic \<noteq> []" and "\<forall>c \<in> set magic. graph_char c"
    and "enc (source_kind h) = Inr kind" and "enc (source_root h) = Inr root"
    and "length magic + length kind + length root \<le> 3874"
  shows "\<exists>block. write_header_block enc magic h = Inr block
    \<and> length block = CONTROL_HEADER_SIZE
    \<and> (\<forall>rest. read_header_block dec (block @ rest) magic = Inr h)"
proof -
  from write_header_block_short [of enc h, OF assms(4-6)] obtain block
    where "write_header_block enc magic h = Inr block" by blast
  with read_header_block_written [OF assms(1,3,2)] show ?thesis by blast
qed

theorem header_block_roundtrip_witness:
  "\<exists>block. write_header_block plain_json_enc ''#FPT'' (source_header 7 ''local'' ''/srv'') = Inr block
    \<and> length block = CONTROL_HEADER_SIZE
    \<and> (\<forall>rest. read_header_block plain_json_dec (block @ rest) ''#FPT''
          = Inr (source_header 7 ''local'' ''/srv''))"
  using header_block_roundtrip [OF plain_json_codec, of "''#FPT''" "source_header 7 ''local'' ''/srv''"
      "CHR 0x22 # ''local'' @ [CHR 0x22]" "CHR 0x22 # ''/srv'' @ [CHR 0x22]"]
  by (simp add: source_header_def plain_json_enc_def plain_json_char_def graph_char_def)

text \<open>
  Creating, filling and finishing a file never fails for a short magic word and a writer operation
  that accepts the items; the concrete runs of the formats rest on this.
\<close>

definition sample_header :: control_file_header where
  "sample_header = source_header 7 ''local'' ''/srv''"

lemma sample_header_simps [simp]:
  "source_kind sample_header = ''local''" "source_root sample_header = ''/srv''"
  "header_size sample_header = of_nat CONTROL_HEADER_SIZE"
  "file_count sample_header = 0" "dir_count sample_header = 0" "inode_count sample_header = 0"
  "record_count sample_header = 0"
  by (simp_all add: sample_header_def source_header_def default_header_def)

lemma sample_header_fits:
  assumes "length magic \<le> 100" and "source_kind h = ''local''" and "source_root h = ''/srv''"
  shows "\<exists>block. write_header_block plain_json_enc magic h = Inr block"
  by (rule write_header_block_short [where kind = "CHR 0x22 # ''local'' @ [CHR 0x22]"
        and root = "CHR 0x22 # ''/srv'' @ [CHR 0x22]"])
    (use assms in \<open>simp_all add: plain_json_enc_def plain_json_char_def graph_char_def\<close>)

lemma write_all_total:
  assumes "\<And>w i. i \<in> set items \<Longrightarrow>
      \<exists>w'. put w i = Inr w' \<and> source_kind (header w') = source_kind (header w)
        \<and> source_root (header w') = source_root (header w)"
  shows "\<exists>w'. write_all put w items = Inr w' \<and> source_kind (header w') = source_kind (header w)
    \<and> source_root (header w') = source_root (header w)"
  using assms
proof (induction items arbitrary: w)
  case Nil
  then show ?case by simp
next
  case (Cons i items)
  obtain w1 where w1: "put w i = Inr w1" "source_kind (header w1) = source_kind (header w)"
      "source_root (header w1) = source_root (header w)"
    using Cons.prems [of i w] by auto
  have "\<exists>w'. write_all put w1 items = Inr w' \<and> source_kind (header w') = source_kind (header w1)
      \<and> source_root (header w') = source_root (header w1)"
    by (rule Cons.IH) (simp add: Cons.prems)
  with w1 show ?case by simp
qed

lemma sample_run:
  assumes "length magic \<le> 100"
    and "\<And>w i. i \<in> set items \<Longrightarrow>
      \<exists>w'. put w i = Inr w' \<and> source_kind (header w') = source_kind (header w)
        \<and> source_root (header w') = source_root (header w)"
  shows "\<exists>w w' f. create_record_writer plain_json_enc magic sample_header = Inr w
    \<and> write_all put w items = Inr w' \<and> finish_record_writer plain_json_enc magic w' = Inr f"
proof -
  let ?w = "\<lparr>records = [], header = sample_header\<rparr>"
  have "create_record_writer plain_json_enc magic sample_header = Inr ?w"
    using sample_header_fits [OF assms(1), of sample_header]
    by (auto simp: create_record_writer_def)
  moreover obtain w' where w': "write_all put ?w items = Inr w'"
      "source_kind (header w') = ''local''" "source_root (header w') = ''/srv''"
    using write_all_total [where put = put and w = ?w and items = items] assms(2) by auto
  moreover obtain f where "finish_record_writer plain_json_enc magic w' = Inr f"
    using sample_header_fits [OF assms(1) w'(2,3)] by (auto simp: finish_record_writer_def)
  ultimately show ?thesis by blast
qed

end
