(* ===== verification/CopyControl.thy ===== *)
theory CopyControl
  imports ControlHeader
begin

text \<open>
  \<^verbatim>\<open>scanner/metadata/filecontrol.rs\<close>: the copy control file, which lists the directories
  and files a backup has to copy. The writer's state is the generic \<open>control_writer\<close>; the reader
  iterates with \<open>read_entries copy_decode\<close>.
\<close>

section \<open>Entries\<close>

datatype file_diff = FileNew | FileDataModified | FileMetaModified | FileDeleted

datatype dir_diff = DirNew | DirMetaModified | DirDeleted

record file_control_entry =
  fc_name :: string
  fc_diff :: file_diff
  fc_meta_fid :: u32
  fc_meta_offset :: u32

record dir_control_entry =
  dc_path :: string
  dc_diff :: dir_diff
  dc_meta_fid :: u32
  dc_meta_offset :: u32
  dc_files_count :: u32

datatype control_entry = EntryDir dir_control_entry | EntryFile file_control_entry

text \<open>\<^verbatim>\<open>BatchInfo\<close> of \<^verbatim>\<open>sharded_control.rs\<close>\<close>

record batch_info =
  batch_num :: u32
  total_batches :: u32
  is_continuation :: bool
  is_last :: bool

definition COPY_MAGIC :: string where
  "COPY_MAGIC = ''#FPT_BACKUP_CTRL_FILE''"

definition RECORD_TYPE_DIR :: byte where
  "RECORD_TYPE_DIR = 1"

definition RECORD_TYPE_FILE :: byte where
  "RECORD_TYPE_FILE = 2"

section \<open>Diff codes\<close>

fun encode_file_diff :: "file_diff \<Rightarrow> byte" where
  "encode_file_diff FileNew = 1"
| "encode_file_diff FileDataModified = 2"
| "encode_file_diff FileMetaModified = 3"
| "encode_file_diff FileDeleted = 4"

definition decode_file_diff :: "byte \<Rightarrow> file_diff io" where
  "decode_file_diff v =
    (if v = 1 then Inr FileNew
     else if v = 2 then Inr FileDataModified
     else if v = 3 then Inr FileMetaModified
     else if v = 4 then Inr FileDeleted
     else Inl InvalidData)"

fun encode_dir_diff :: "dir_diff \<Rightarrow> byte" where
  "encode_dir_diff DirNew = 1"
| "encode_dir_diff DirMetaModified = 2"
| "encode_dir_diff DirDeleted = 3"

definition decode_dir_diff :: "byte \<Rightarrow> dir_diff io" where
  "decode_dir_diff v =
    (if v = 1 then Inr DirNew
     else if v = 2 then Inr DirMetaModified
     else if v = 3 then Inr DirDeleted
     else Inl InvalidData)"

lemma decode_encode_file_diff [codec_simps]: "decode_file_diff (encode_file_diff d) = Inr d"
  by (cases d) (simp_all add: decode_file_diff_def)

lemma decode_encode_dir_diff [codec_simps]: "decode_dir_diff (encode_dir_diff d) = Inr d"
  by (cases d) (simp_all add: decode_dir_diff_def)

section \<open>Writer\<close>

definition copy_writer_new :: "json_enc \<Rightarrow> control_file_header \<Rightarrow> control_writer io" where
  "copy_writer_new enc h = create_record_writer enc COPY_MAGIC h"

definition file_payload :: "file_control_entry \<Rightarrow> u32 \<Rightarrow> byte list" where
  "file_payload entry name_len =
    (let p = put_u8 [] RECORD_TYPE_FILE;
         p = put_u8 p (encode_file_diff (fc_diff entry));
         p = put_u16 p 0;
         p = put_u32 p (fc_meta_fid entry);
         p = put_u32 p (fc_meta_offset entry);
         p = put_u32 p name_len
     in put_bytes p (str_bytes (fc_name entry)))"

definition copy_write_file :: "control_writer \<Rightarrow> file_control_entry \<Rightarrow> control_writer io" where
  "copy_write_file w entry =
    andThen (u32_try_from (length (str_bytes (fc_name entry)))) (\<lambda>name_len.
    andThen (write_record (records w) (file_payload entry name_len)) (\<lambda>out.
      Inr \<lparr>records = out,
           header = (header w)\<lparr>file_count := file_count (header w) + 1,
                               record_count := record_count (header w) + 1\<rparr>\<rparr>))"

definition dir_flags :: "batch_info \<Rightarrow> byte" where
  "dir_flags b =
    (let flags = 0;
         flags = (if is_continuation b then or flags 0x01 else flags);
         flags = (if is_last b then or flags 0x02 else flags)
     in if 1 < total_batches b then or flags 0x04 else flags)"

definition dir_payload :: "dir_control_entry \<Rightarrow> batch_info \<Rightarrow> u32 \<Rightarrow> byte list" where
  "dir_payload entry b path_len =
    (let p = put_u8 [] RECORD_TYPE_DIR;
         p = put_u8 p (encode_dir_diff (dc_diff entry));
         p = put_u16 p (ucast (dir_flags b));
         p = put_u32 p (dc_meta_fid entry);
         p = put_u32 p (dc_meta_offset entry);
         p = put_u32 p (dc_files_count entry);
         p = put_u32 p (batch_num b);
         p = put_u32 p (total_batches b);
         p = put_u32 p path_len
     in put_bytes p (str_bytes (dc_path entry)))"

definition copy_write_dir_with_batch ::
  "control_writer \<Rightarrow> dir_control_entry \<Rightarrow> batch_info \<Rightarrow> control_writer io" where
  "copy_write_dir_with_batch w entry b =
    andThen (u32_try_from (length (str_bytes (dc_path entry)))) (\<lambda>path_len.
    andThen (write_record (records w) (dir_payload entry b path_len)) (\<lambda>out.
      Inr \<lparr>records = out,
           header = (header w)\<lparr>dir_count := dir_count (header w) + 1,
                               record_count := record_count (header w) + 1\<rparr>\<rparr>))"

definition copy_write_dir :: "control_writer \<Rightarrow> dir_control_entry \<Rightarrow> control_writer io" where
  "copy_write_dir w entry =
    copy_write_dir_with_batch w entry
      \<lparr>batch_num = 0, total_batches = 1, is_continuation = False, is_last = True\<rparr>"

definition copy_finish :: "json_enc \<Rightarrow> control_writer \<Rightarrow> byte list io" where
  "copy_finish enc w = finish_record_writer enc COPY_MAGIC w"

section \<open>Reader\<close>

definition copy_reader_open :: "json_dec \<Rightarrow> byte list \<Rightarrow> (byte list \<times> control_file_header) io" where
  "copy_reader_open dec f = open_record_reader dec f COPY_MAGIC"

text \<open>The body of \<^verbatim>\<open>next\<close> after \<open>read_record\<close>.\<close>

definition copy_decode_file :: "byte list \<Rightarrow> nat \<Rightarrow> byte \<Rightarrow> u32 \<Rightarrow> u32 \<Rightarrow> control_entry io" where
  "copy_decode_file p c diff fid off =
    andThen (take_u32 p c) (\<lambda>(path_len, c).
    andThen (take_text p c (unat path_len)) (\<lambda>(name, c).
    andThen (decode_file_diff diff) (\<lambda>d.
      Inr (EntryFile \<lparr>fc_name = name, fc_diff = d, fc_meta_fid = fid, fc_meta_offset = off\<rparr>))))"

definition copy_decode_dir ::
  "byte list \<Rightarrow> nat \<Rightarrow> byte \<Rightarrow> u16 \<Rightarrow> u32 \<Rightarrow> u32 \<Rightarrow> control_entry io" where
  "copy_decode_dir p c diff flags fid off =
    andThen (take_u32 p c) (\<lambda>(files_count, c).
    andThen (if and flags 0x04 \<noteq> 0
             then andThen (take_u32 p c) (\<lambda>(_, c). take_u32 p c)
             else andThen (take_u32 p c) (\<lambda>(_, c). take_u32 p c)) (\<lambda>(_, c).
    andThen (take_u32 p c) (\<lambda>(path_len, c).
    andThen (take_text p c (unat path_len)) (\<lambda>(path, c).
    andThen (decode_dir_diff diff) (\<lambda>d.
      Inr (EntryDir \<lparr>dc_path = path, dc_diff = d, dc_meta_fid = fid, dc_meta_offset = off,
                     dc_files_count = files_count\<rparr>))))))"

definition copy_decode :: "byte list \<Rightarrow> control_entry io" where
  "copy_decode p =
    andThen (take_u8 p 0) (\<lambda>(record_type, c).
    andThen (take_u8 p c) (\<lambda>(diff, c).
    andThen (take_u16 p c) (\<lambda>(flags, c).
    andThen (take_u32 p c) (\<lambda>(fid, c).
    andThen (take_u32 p c) (\<lambda>(off, c).
      if record_type = RECORD_TYPE_FILE then copy_decode_file p c diff fid off
      else if record_type = RECORD_TYPE_DIR then copy_decode_dir p c diff flags fid off
      else Inl InvalidData)))))"

definition copy_next :: "byte list \<Rightarrow> control_entry io option \<times> byte list" where
  "copy_next = next_entry copy_decode"

section \<open>The format keeps the contract of a control file\<close>

lemma copy_decode_file_payload:
  "length (fc_name entry) < 2 ^ 32 \<Longrightarrow> rust_string (fc_name entry) \<Longrightarrow>
   copy_decode (file_payload entry (of_nat (length (fc_name entry)))) = Inr (EntryFile entry)"
  by (simp add: copy_decode_def copy_decode_file_def file_payload_def codec_simps Let_def
      RECORD_TYPE_FILE_def unat_of_nat)

lemma copy_decode_dir_payload:
  "length (dc_path entry) < 2 ^ 32 \<Longrightarrow> rust_string (dc_path entry) \<Longrightarrow>
   copy_decode (dir_payload entry b (of_nat (length (dc_path entry)))) = Inr (EntryDir entry)"
  by (simp add: copy_decode_def copy_decode_dir_def dir_payload_def codec_simps Let_def
      RECORD_TYPE_FILE_def RECORD_TYPE_DIR_def unat_of_nat)

text \<open>What a caller of the writer asks for, and what the reader is to return for it.\<close>

datatype copy_item = PutFile file_control_entry | PutDir dir_control_entry batch_info

fun copy_put :: "control_writer \<Rightarrow> copy_item \<Rightarrow> control_writer io" where
  "copy_put w (PutFile e) = copy_write_file w e"
| "copy_put w (PutDir e b) = copy_write_dir_with_batch w e b"

fun copy_view :: "copy_item \<Rightarrow> control_entry" where
  "copy_view (PutFile e) = EntryFile e"
| "copy_view (PutDir e b) = EntryDir e"

fun copy_count :: "copy_item \<Rightarrow> control_file_header \<Rightarrow> control_file_header" where
  "copy_count (PutFile e) h = h\<lparr>file_count := file_count h + 1, record_count := record_count h + 1\<rparr>"
| "copy_count (PutDir e b) h = h\<lparr>dir_count := dir_count h + 1, record_count := record_count h + 1\<rparr>"

fun copy_item_wf :: "copy_item \<Rightarrow> bool" where
  "copy_item_wf (PutFile e) = rust_string (fc_name e)"
| "copy_item_wf (PutDir e b) = rust_string (dc_path e)"

fun is_put_file :: "copy_item \<Rightarrow> bool" where
  "is_put_file (PutFile e) = True"
| "is_put_file (PutDir e b) = False"

interpretation copy: record_file COPY_MAGIC copy_put copy_decode copy_count copy_view copy_item_wf
proof unfold_locales
  show "COPY_MAGIC \<noteq> [] \<and> (\<forall>c \<in> set COPY_MAGIC. graph_char c)"
    by (simp add: COPY_MAGIC_def graph_char_def)
next
  fix e h
  show "header_size (copy_count e h) = header_size h"
    by (cases e) auto
next
  fix e w w'
  assume wf: "copy_item_wf e" and put: "copy_put w e = Inr w'"
  show "\<exists>payload. length payload < 2 ^ 32
        \<and> w' = \<lparr>records = records w @ le_bytes 4 (length payload) @ payload,
               header = copy_count e (header w)\<rparr>
        \<and> copy_decode payload = Inr (copy_view e)"
  proof (cases e)
    case (PutFile f)
    with wf put show ?thesis
      by (auto simp: copy_write_file_def andThen_Inr_iff write_record_Inr u32_try_from_def
          copy_decode_file_payload intro!: exI [of _ "file_payload f (of_nat (length (fc_name f)))"]
          split: if_splits)
  next
    case (PutDir d b)
    with wf put show ?thesis
      by (auto simp: copy_write_dir_with_batch_def andThen_Inr_iff write_record_Inr u32_try_from_def
          copy_decode_dir_payload intro!: exI [of _ "dir_payload d b (of_nat (length (dc_path d)))"]
          split: if_splits)
  qed
qed

lemma copy_counts:
  "file_count (fold copy_count items h) = file_count h + of_nat (length (filter is_put_file items))"
  "dir_count (fold copy_count items h)
     = dir_count h + of_nat (length (filter (\<lambda>i. \<not> is_put_file i) items))"
  "record_count (fold copy_count items h) = record_count h + of_nat (length items)"
proof (induction items arbitrary: h)
  case (Cons i items)
  { case 1 show ?case using Cons.IH(1) by (cases i) auto }
  { case 2 show ?case using Cons.IH(2) by (cases i) auto }
  { case 3 show ?case using Cons.IH(3) by (cases i) auto }
qed auto

section \<open>Properties\<close>

text \<open>
  C10. A copy control file that was created, filled with any sequence of file and directory entries
  (with any batch information) and finished is read back as exactly these entries in order, with no
  error item, and its header carries the numbers of files, directories and records written. Paths
  and names may hold any text, line breaks included.
\<close>

theorem copy_file_roundtrip:
  assumes "json_codec enc dec"
    and "copy_writer_new enc h = Inr w" and "header_size h = of_nat CONTROL_HEADER_SIZE"
    and "write_all copy_put w items = Inr w'" and "\<forall>i \<in> set items. copy_item_wf i"
    and "copy_finish enc w' = Inr f"
  shows "\<exists>rest h'. copy_reader_open dec f = Inr (rest, h')
    \<and> read_entries copy_decode rest = map (\<lambda>i. Inr (copy_view i)) items
    \<and> file_count h' = file_count h + of_nat (length (filter is_put_file items))
    \<and> dir_count h' = dir_count h + of_nat (length (filter (\<lambda>i. \<not> is_put_file i) items))
    \<and> record_count h' = record_count h + of_nat (length items)"
  using copy.file_roundtrip [OF assms(1) assms(2) [unfolded copy_writer_new_def] assms(3-5)
      assms(6) [unfolded copy_finish_def]]
  by (auto simp: copy_reader_open_def copy_counts)

definition sample_items :: "copy_item list" where
  "sample_items =
    [PutDir \<lparr>dc_path = ''/tmp/a dir'', dc_diff = DirNew, dc_meta_fid = 1, dc_meta_offset = 2,
             dc_files_count = 1\<rparr>
        \<lparr>batch_num = 1, total_batches = 2, is_continuation = True, is_last = False\<rparr>,
     PutFile \<lparr>fc_name = '' x.txt'', fc_diff = FileDeleted, fc_meta_fid = 4, fc_meta_offset = 5\<rparr>]"

lemma sample_items_wf: "\<forall>i \<in> set sample_items. copy_item_wf i"
  by (auto simp: sample_items_def intro!: rust_string_ascii)

lemma copy_put_short:
  "length (case i of PutFile e \<Rightarrow> fc_name e | PutDir e b \<Rightarrow> dc_path e) < 1000 \<Longrightarrow>
   \<exists>w'. copy_put w i = Inr w' \<and> source_kind (header w') = source_kind (header w)
     \<and> source_root (header w') = source_root (header w)"
  by (cases i) (auto simp: copy_write_file_def copy_write_dir_with_batch_def codec_simps
      write_record_def file_payload_def dir_payload_def Let_def)

lemma copy_sample_run:
  "\<exists>w w' f. copy_writer_new plain_json_enc sample_header = Inr w
    \<and> write_all copy_put w sample_items = Inr w' \<and> copy_finish plain_json_enc w' = Inr f"
  unfolding copy_writer_new_def copy_finish_def
  by (rule sample_run; (rule copy_put_short)?) (auto simp: COPY_MAGIC_def sample_items_def)

theorem copy_file_roundtrip_witness:
  "\<exists>w w' f rest h'. copy_writer_new plain_json_enc sample_header = Inr w
    \<and> write_all copy_put w sample_items = Inr w' \<and> copy_finish plain_json_enc w' = Inr f
    \<and> copy_reader_open plain_json_dec f = Inr (rest, h')
    \<and> read_entries copy_decode rest = map (\<lambda>i. Inr (copy_view i)) sample_items
    \<and> file_count h' = 1 \<and> dir_count h' = 1 \<and> record_count h' = 2"
proof -
  from copy_sample_run obtain w w' f where run: "copy_writer_new plain_json_enc sample_header = Inr w"
    "write_all copy_put w sample_items = Inr w'" "copy_finish plain_json_enc w' = Inr f"
    by blast
  from copy_file_roundtrip [OF plain_json_codec run(1) _ run(2) sample_items_wf run(3)] run
  show ?thesis by (fastforce simp: sample_items_def)
qed



end
