(* ===== verification/DeleteControl.thy ===== *)
theory DeleteControl
  imports ControlHeader
begin

text \<open>
  \<^verbatim>\<open>scanner/metadata/delete.rs\<close>: the delete control file, which lists the paths that an
  incremental backup has to remove.
\<close>

datatype delete_entry_type = DeleteDir | DeleteFile

record delete_entry =
  de_type :: delete_entry_type
  de_path :: string

definition DELETE_MAGIC :: string where
  "DELETE_MAGIC = ''#FPT_DELETE_CTRL_FILE''"

section \<open>Writer\<close>

definition delete_writer_new ::
  "json_enc \<Rightarrow> u64 \<Rightarrow> string \<Rightarrow> string \<Rightarrow> control_writer io" where
  "delete_writer_new enc now kind root =
    create_record_writer enc DELETE_MAGIC (source_header now kind root)"

fun delete_type_code :: "delete_entry_type \<Rightarrow> byte" where
  "delete_type_code DeleteDir = 1"
| "delete_type_code DeleteFile = 2"

definition delete_payload :: "delete_entry \<Rightarrow> u32 \<Rightarrow> byte list" where
  "delete_payload entry path_len =
    (let p = put_u8 [] (delete_type_code (de_type entry));
         p = put_u8 p 0; p = put_u8 p 0; p = put_u8 p 0;
         p = put_u32 p path_len
     in put_bytes p (str_bytes (de_path entry)))"

fun delete_count :: "delete_entry \<Rightarrow> control_file_header \<Rightarrow> control_file_header" where
  "delete_count entry h =
    (let h = (case de_type entry of
                DeleteDir \<Rightarrow> h\<lparr>dir_count := dir_count h + 1\<rparr>
              | DeleteFile \<Rightarrow> h\<lparr>file_count := file_count h + 1\<rparr>)
     in h\<lparr>record_count := record_count h + 1\<rparr>)"

definition delete_write_entry :: "control_writer \<Rightarrow> delete_entry \<Rightarrow> control_writer io" where
  "delete_write_entry w entry =
    andThen (u32_try_from (length (str_bytes (de_path entry)))) (\<lambda>path_len.
    andThen (write_record (records w) (delete_payload entry path_len)) (\<lambda>out.
      Inr \<lparr>records = out, header = delete_count entry (header w)\<rparr>))"

definition delete_write_file :: "control_writer \<Rightarrow> string \<Rightarrow> control_writer io" where
  "delete_write_file w path = delete_write_entry w \<lparr>de_type = DeleteFile, de_path = path\<rparr>"

definition delete_write_dir :: "control_writer \<Rightarrow> string \<Rightarrow> control_writer io" where
  "delete_write_dir w path = delete_write_entry w \<lparr>de_type = DeleteDir, de_path = path\<rparr>"

definition delete_finish :: "json_enc \<Rightarrow> control_writer \<Rightarrow> byte list io" where
  "delete_finish enc w = finish_record_writer enc DELETE_MAGIC w"

section \<open>Reader\<close>

definition delete_reader_open :: "json_dec \<Rightarrow> byte list \<Rightarrow> (byte list \<times> control_file_header) io" where
  "delete_reader_open dec f = open_record_reader dec f DELETE_MAGIC"

definition delete_decode :: "byte list \<Rightarrow> delete_entry io" where
  "delete_decode p =
    andThen (take_u8 p 0) (\<lambda>(code, c).
    andThen (if code = 1 then Inr DeleteDir else if code = 2 then Inr DeleteFile
             else Inl InvalidData) (\<lambda>entry_type.
    andThen (take_u8 p c) (\<lambda>(_, c).
    andThen (take_u8 p c) (\<lambda>(_, c).
    andThen (take_u8 p c) (\<lambda>(_, c).
    andThen (take_u32 p c) (\<lambda>(path_len, c).
    andThen (take_text p c (unat path_len)) (\<lambda>(path, c).
      Inr \<lparr>de_type = entry_type, de_path = path\<rparr>)))))))"

section \<open>The format keeps the contract of a control file\<close>

lemma delete_decode_payload:
  "length (de_path entry) < 2 ^ 32 \<Longrightarrow> rust_string (de_path entry) \<Longrightarrow>
   delete_decode (delete_payload entry (of_nat (length (de_path entry)))) = Inr entry"
  by (cases "de_type entry")
    (simp_all add: delete_decode_def delete_payload_def codec_simps Let_def unat_of_nat)

definition delete_wf :: "delete_entry \<Rightarrow> bool" where
  "delete_wf entry \<longleftrightarrow> rust_string (de_path entry)"

interpretation del: record_file DELETE_MAGIC delete_write_entry delete_decode delete_count
  "\<lambda>e. e" delete_wf
proof unfold_locales
  show "DELETE_MAGIC \<noteq> [] \<and> (\<forall>c \<in> set DELETE_MAGIC. graph_char c)"
    by (simp add: DELETE_MAGIC_def graph_char_def)
next
  fix e h
  show "header_size (delete_count e h) = header_size h"
    by (cases "de_type e") (simp_all add: Let_def)
next
  fix e w w'
  assume "delete_wf e" and "delete_write_entry w e = Inr w'"
  then show "\<exists>payload. length payload < 2 ^ 32
        \<and> w' = \<lparr>records = records w @ le_bytes 4 (length payload) @ payload,
               header = delete_count e (header w)\<rparr>
        \<and> delete_decode payload = Inr e"
    by (auto simp: delete_write_entry_def andThen_Inr_iff write_record_Inr u32_try_from_def delete_wf_def
        delete_decode_payload simp del: delete_count.simps
        intro!: exI [of _ "delete_payload e (of_nat (length (de_path e)))"] split: if_splits)
qed

lemma delete_counts:
  "file_count (fold delete_count es h) = file_count h + of_nat (length (filter (\<lambda>e. de_type e = DeleteFile) es))"
  "dir_count (fold delete_count es h) = dir_count h + of_nat (length (filter (\<lambda>e. de_type e = DeleteDir) es))"
  "record_count (fold delete_count es h) = record_count h + of_nat (length es)"
proof (induction es arbitrary: h)
  case (Cons e es)
  { case 1 show ?case using Cons.IH(1) by (cases "de_type e") (auto simp: Let_def) }
  { case 2 show ?case using Cons.IH(2) by (cases "de_type e") (auto simp: Let_def) }
  { case 3 show ?case using Cons.IH(3) by (cases "de_type e") (auto simp: Let_def) }
qed auto

section \<open>Properties\<close>

text \<open>
  A delete control file is read back as exactly the entries written to it, in order, and its
  header counts the files, the directories and the records.
\<close>

theorem delete_file_roundtrip:
  assumes "json_codec enc dec"
    and "delete_writer_new enc now kind root = Inr w"
    and "write_all delete_write_entry w es = Inr w'" and "\<forall>e \<in> set es. delete_wf e"
    and "delete_finish enc w' = Inr f"
  shows "\<exists>rest h'. delete_reader_open dec f = Inr (rest, h')
    \<and> read_entries delete_decode rest = map Inr es
    \<and> file_count h' = of_nat (length (filter (\<lambda>e. de_type e = DeleteFile) es))
    \<and> dir_count h' = of_nat (length (filter (\<lambda>e. de_type e = DeleteDir) es))
    \<and> record_count h' = of_nat (length es)"
  using del.file_roundtrip [OF assms(1) assms(2) [unfolded delete_writer_new_def] source_header_size
      assms(3,4) assms(5) [unfolded delete_finish_def]]
  by (auto simp: delete_reader_open_def delete_counts source_header_def default_header_def)

definition sample_deletes :: "delete_entry list" where
  "sample_deletes = [\<lparr>de_type = DeleteFile, de_path = '' weird file.txt''\<rparr>,
                     \<lparr>de_type = DeleteDir, de_path = ''/tmp/old_dir''\<rparr>]"

lemma delete_write_short:
  "length (de_path e) < 1000 \<Longrightarrow>
   \<exists>w'. delete_write_entry w e = Inr w' \<and> source_kind (header w') = source_kind (header w)
     \<and> source_root (header w') = source_root (header w)"
  by (cases "de_type e") (auto simp: delete_write_entry_def codec_simps write_record_def
      delete_payload_def Let_def)

theorem delete_file_roundtrip_witness:
  "\<exists>w w' f rest h'. delete_writer_new plain_json_enc 7 ''local'' ''/srv'' = Inr w
    \<and> write_all delete_write_entry w sample_deletes = Inr w' \<and> delete_finish plain_json_enc w' = Inr f
    \<and> delete_reader_open plain_json_dec f = Inr (rest, h')
    \<and> read_entries delete_decode rest = map Inr sample_deletes
    \<and> file_count h' = 1 \<and> dir_count h' = 1 \<and> record_count h' = 2"
proof -
  have "\<exists>w w' f. create_record_writer plain_json_enc DELETE_MAGIC sample_header = Inr w
    \<and> write_all delete_write_entry w sample_deletes = Inr w'
    \<and> finish_record_writer plain_json_enc DELETE_MAGIC w' = Inr f"
    by (rule sample_run; (rule delete_write_short)?) (auto simp: DELETE_MAGIC_def sample_deletes_def)
  then obtain w w' f where run: "delete_writer_new plain_json_enc 7 ''local'' ''/srv'' = Inr w"
    "write_all delete_write_entry w sample_deletes = Inr w'" "delete_finish plain_json_enc w' = Inr f"
    by (auto simp: delete_writer_new_def delete_finish_def sample_header_def)
  have "\<forall>e \<in> set sample_deletes. delete_wf e"
    by (auto simp: sample_deletes_def delete_wf_def intro!: rust_string_ascii)
  from delete_file_roundtrip [OF plain_json_codec run(1,2) this run(3)] run
  show ?thesis by (fastforce simp: sample_deletes_def)
qed

end
