(* ===== verification/MtimeControl.thy ===== *)
theory MtimeControl
  imports ControlHeader
begin

text \<open>
  \<^verbatim>\<open>scanner/metadata/mtime.rs\<close>: the mtime control file, which lists the directories whose
  attributes a restore has to set after their content.
\<close>

record mtime_dir_entry =
  md_path :: string
  md_mode :: u32
  md_uid :: u32
  md_gid :: u32
  md_atime :: u64
  md_mtime :: u64

definition MTIME_MAGIC :: string where
  "MTIME_MAGIC = ''#FPT_MTIME_CTRL_FILE''"

definition mtime_writer_new ::
  "json_enc \<Rightarrow> u64 \<Rightarrow> string \<Rightarrow> string \<Rightarrow> control_writer io" where
  "mtime_writer_new enc now kind root =
    create_record_writer enc MTIME_MAGIC (source_header now kind root)"

definition mtime_payload :: "mtime_dir_entry \<Rightarrow> u32 \<Rightarrow> byte list" where
  "mtime_payload entry path_len =
    (let p = put_u32 [] (md_mode entry);
         p = put_u32 p (md_uid entry);
         p = put_u32 p (md_gid entry);
         p = put_u32 p path_len;
         p = put_u64 p (md_atime entry);
         p = put_u64 p (md_mtime entry)
     in put_bytes p (str_bytes (md_path entry)))"

definition mtime_count :: "mtime_dir_entry \<Rightarrow> control_file_header \<Rightarrow> control_file_header" where
  "mtime_count entry h = h\<lparr>dir_count := dir_count h + 1, record_count := record_count h + 1\<rparr>"

definition mtime_write_dir :: "control_writer \<Rightarrow> mtime_dir_entry \<Rightarrow> control_writer io" where
  "mtime_write_dir w entry =
    andThen (u32_try_from (length (str_bytes (md_path entry)))) (\<lambda>path_len.
    andThen (write_record (records w) (mtime_payload entry path_len)) (\<lambda>out.
      Inr \<lparr>records = out, header = mtime_count entry (header w)\<rparr>))"

definition mtime_finish :: "json_enc \<Rightarrow> control_writer \<Rightarrow> byte list io" where
  "mtime_finish enc w = finish_record_writer enc MTIME_MAGIC w"

definition mtime_reader_open :: "json_dec \<Rightarrow> byte list \<Rightarrow> (byte list \<times> control_file_header) io" where
  "mtime_reader_open dec f = open_record_reader dec f MTIME_MAGIC"

definition mtime_decode :: "byte list \<Rightarrow> mtime_dir_entry io" where
  "mtime_decode p =
    andThen (take_u32 p 0) (\<lambda>(mode, c).
    andThen (take_u32 p c) (\<lambda>(uid, c).
    andThen (take_u32 p c) (\<lambda>(gid, c).
    andThen (take_u32 p c) (\<lambda>(path_len, c).
    andThen (take_u64 p c) (\<lambda>(atime, c).
    andThen (take_u64 p c) (\<lambda>(mtime, c).
    andThen (take_text p c (unat path_len)) (\<lambda>(path, c).
      Inr \<lparr>md_path = path, md_mode = mode, md_uid = uid, md_gid = gid,
           md_atime = atime, md_mtime = mtime\<rparr>)))))))"

lemma mtime_decode_payload:
  "length (md_path entry) < 2 ^ 32 \<Longrightarrow> rust_string (md_path entry) \<Longrightarrow>
   mtime_decode (mtime_payload entry (of_nat (length (md_path entry)))) = Inr entry"
  by (simp add: mtime_decode_def mtime_payload_def codec_simps Let_def unat_of_nat)

definition mtime_wf :: "mtime_dir_entry \<Rightarrow> bool" where
  "mtime_wf entry \<longleftrightarrow> rust_string (md_path entry)"

interpretation mt: record_file MTIME_MAGIC mtime_write_dir mtime_decode mtime_count "\<lambda>e. e" mtime_wf
proof unfold_locales
  show "MTIME_MAGIC \<noteq> [] \<and> (\<forall>c \<in> set MTIME_MAGIC. graph_char c)"
    by (simp add: MTIME_MAGIC_def graph_char_def)
next
  fix e h
  show "header_size (mtime_count e h) = header_size h"
    by (simp add: mtime_count_def)
next
  fix e w w'
  assume "mtime_wf e" and "mtime_write_dir w e = Inr w'"
  then show "\<exists>payload. length payload < 2 ^ 32
        \<and> w' = \<lparr>records = records w @ le_bytes 4 (length payload) @ payload,
               header = mtime_count e (header w)\<rparr>
        \<and> mtime_decode payload = Inr e"
    by (auto simp: mtime_write_dir_def andThen_Inr_iff write_record_Inr u32_try_from_def mtime_wf_def
        mtime_decode_payload
        intro!: exI [of _ "mtime_payload e (of_nat (length (md_path e)))"] split: if_splits)
qed

lemma mtime_counts:
  "dir_count (fold mtime_count es h) = dir_count h + of_nat (length es)"
  "record_count (fold mtime_count es h) = record_count h + of_nat (length es)"
  by (induction es arbitrary: h) (auto simp: mtime_count_def)

section \<open>Properties\<close>

text \<open>
  An mtime control file is read back as exactly the directory entries written to it, in order,
  with modes, owners and times unchanged, and its header counts them.
\<close>

theorem mtime_file_roundtrip:
  assumes "json_codec enc dec"
    and "mtime_writer_new enc now kind root = Inr w"
    and "write_all mtime_write_dir w es = Inr w'" and "\<forall>e \<in> set es. mtime_wf e"
    and "mtime_finish enc w' = Inr f"
  shows "\<exists>rest h'. mtime_reader_open dec f = Inr (rest, h')
    \<and> read_entries mtime_decode rest = map Inr es
    \<and> dir_count h' = of_nat (length es) \<and> record_count h' = of_nat (length es)"
  using mt.file_roundtrip [OF assms(1) assms(2) [unfolded mtime_writer_new_def] source_header_size
      assms(3,4) assms(5) [unfolded mtime_finish_def]]
  by (auto simp: mtime_reader_open_def mtime_counts source_header_def default_header_def)

definition sample_mtimes :: "mtime_dir_entry list" where
  "sample_mtimes =
    [\<lparr>md_path = '' weird path'', md_mode = 493, md_uid = 1000, md_gid = 1000, md_atime = 123, md_mtime = 456\<rparr>]"

lemma mtime_write_short:
  "length (md_path e) < 1000 \<Longrightarrow>
   \<exists>w'. mtime_write_dir w e = Inr w' \<and> source_kind (header w') = source_kind (header w)
     \<and> source_root (header w') = source_root (header w)"
  by (auto simp: mtime_write_dir_def codec_simps write_record_def mtime_payload_def Let_def mtime_count_def)

theorem mtime_file_roundtrip_witness:
  "\<exists>w w' f rest h'. mtime_writer_new plain_json_enc 7 ''local'' ''/srv'' = Inr w
    \<and> write_all mtime_write_dir w sample_mtimes = Inr w' \<and> mtime_finish plain_json_enc w' = Inr f
    \<and> mtime_reader_open plain_json_dec f = Inr (rest, h')
    \<and> read_entries mtime_decode rest = map Inr sample_mtimes
    \<and> dir_count h' = 1 \<and> record_count h' = 1"
proof -
  have "\<exists>w w' f. create_record_writer plain_json_enc MTIME_MAGIC sample_header = Inr w
    \<and> write_all mtime_write_dir w sample_mtimes = Inr w'
    \<and> finish_record_writer plain_json_enc MTIME_MAGIC w' = Inr f"
    by (rule sample_run; (rule mtime_write_short)?) (auto simp: MTIME_MAGIC_def sample_mtimes_def)
  then obtain w w' f where run: "mtime_writer_new plain_json_enc 7 ''local'' ''/srv'' = Inr w"
    "write_all mtime_write_dir w sample_mtimes = Inr w'" "mtime_finish plain_json_enc w' = Inr f"
    by (auto simp: mtime_writer_new_def mtime_finish_def sample_header_def)
  have "\<forall>e \<in> set sample_mtimes. mtime_wf e"
    by (auto simp: sample_mtimes_def mtime_wf_def intro!: rust_string_ascii)
  from mtime_file_roundtrip [OF plain_json_codec run(1,2) this run(3)] run
  show ?thesis by (fastforce simp: sample_mtimes_def)
qed

end
