(* ===== verification/HardlinkControl.thy ===== *)
theory HardlinkControl
  imports ControlHeader
begin

text \<open>
  \<^verbatim>\<open>scanner/metadata/hardlink.rs\<close>: the hardlink control file and the index that groups the
  names of an inode while a scan runs.
\<close>

section \<open>Entries, writer, reader\<close>

record hardlink_inode_entry =
  hi_inode :: u64
  hi_device :: u64
  hi_link_count :: u32

record hardlink_file_entry =
  hf_meta_fid :: u32
  hf_meta_offset :: u32
  hf_path :: string

datatype hardlink_entry = HardInode hardlink_inode_entry | HardFile hardlink_file_entry

definition HARDLINK_MAGIC :: string where
  "HARDLINK_MAGIC = ''#FPT_HARDLINK_CTRL_FILE''"

definition HARD_TYPE_INODE :: byte where
  "HARD_TYPE_INODE = 1"

definition HARD_TYPE_FILE :: byte where
  "HARD_TYPE_FILE = 2"

definition hardlink_writer_new ::
  "json_enc \<Rightarrow> u64 \<Rightarrow> string \<Rightarrow> string \<Rightarrow> control_writer io" where
  "hardlink_writer_new enc now kind root =
    create_record_writer enc HARDLINK_MAGIC (source_header now kind root)"

definition hard_inode_payload :: "hardlink_inode_entry \<Rightarrow> byte list" where
  "hard_inode_payload entry =
    (let p = put_u8 [] HARD_TYPE_INODE;
         p = put_u64 p (hi_inode entry);
         p = put_u64 p (hi_device entry)
     in put_u32 p (hi_link_count entry))"

definition hardlink_write_inode :: "control_writer \<Rightarrow> hardlink_inode_entry \<Rightarrow> control_writer io" where
  "hardlink_write_inode w entry =
    andThen (write_record (records w) (hard_inode_payload entry)) (\<lambda>out.
      Inr \<lparr>records = out,
           header = (header w)\<lparr>inode_count := inode_count (header w) + 1,
                               record_count := record_count (header w) + 1\<rparr>\<rparr>)"

definition hard_file_payload :: "hardlink_file_entry \<Rightarrow> u32 \<Rightarrow> byte list" where
  "hard_file_payload entry path_len =
    (let p = put_u8 [] HARD_TYPE_FILE;
         p = put_u32 p (hf_meta_fid entry);
         p = put_u32 p (hf_meta_offset entry);
         p = put_u32 p path_len
     in put_bytes p (str_bytes (hf_path entry)))"

definition hardlink_write_file :: "control_writer \<Rightarrow> hardlink_file_entry \<Rightarrow> control_writer io" where
  "hardlink_write_file w entry =
    andThen (u32_try_from (length (str_bytes (hf_path entry)))) (\<lambda>path_len.
    andThen (write_record (records w) (hard_file_payload entry path_len)) (\<lambda>out.
      Inr \<lparr>records = out,
           header = (header w)\<lparr>file_count := file_count (header w) + 1,
                               record_count := record_count (header w) + 1\<rparr>\<rparr>))"

definition hardlink_finish :: "json_enc \<Rightarrow> control_writer \<Rightarrow> byte list io" where
  "hardlink_finish enc w = finish_record_writer enc HARDLINK_MAGIC w"

definition hardlink_reader_open ::
  "json_dec \<Rightarrow> byte list \<Rightarrow> (byte list \<times> control_file_header) io" where
  "hardlink_reader_open dec f = open_record_reader dec f HARDLINK_MAGIC"

definition hardlink_decode :: "byte list \<Rightarrow> hardlink_entry io" where
  "hardlink_decode p =
    andThen (take_u8 p 0) (\<lambda>(record_type, c).
      if record_type = HARD_TYPE_INODE then
        andThen (take_u64 p c) (\<lambda>(inode, c).
        andThen (take_u64 p c) (\<lambda>(device, c).
        andThen (take_u32 p c) (\<lambda>(links, c).
          Inr (HardInode \<lparr>hi_inode = inode, hi_device = device, hi_link_count = links\<rparr>))))
      else if record_type = HARD_TYPE_FILE then
        andThen (take_u32 p c) (\<lambda>(fid, c).
        andThen (take_u32 p c) (\<lambda>(off, c).
        andThen (take_u32 p c) (\<lambda>(path_len, c).
        andThen (take_text p c (unat path_len)) (\<lambda>(path, c).
          Inr (HardFile \<lparr>hf_meta_fid = fid, hf_meta_offset = off, hf_path = path\<rparr>)))))
      else Inl InvalidData)"

text \<open>A drop that ends exactly at the last field leaves that field without a remainder.\<close>

lemma take_u32_end [codec_simps]:
  "drop cursor buf = le_bytes 4 n \<Longrightarrow> take_u32 buf cursor = Inr (of_nat n, cursor + 4)"
  by (rule take_u32_at [where post = "[]"]) simp

lemma hardlink_decode_inode_payload:
  "hardlink_decode (hard_inode_payload e) = Inr (HardInode e)"
  by (simp add: hardlink_decode_def hard_inode_payload_def codec_simps Let_def HARD_TYPE_INODE_def)

lemma hardlink_decode_file_payload:
  "length (hf_path e) < 2 ^ 32 \<Longrightarrow> rust_string (hf_path e) \<Longrightarrow>
   hardlink_decode (hard_file_payload e (of_nat (length (hf_path e)))) = Inr (HardFile e)"
  by (simp add: hardlink_decode_def hard_file_payload_def codec_simps Let_def HARD_TYPE_INODE_def
      HARD_TYPE_FILE_def unat_of_nat)

fun hardlink_put :: "control_writer \<Rightarrow> hardlink_entry \<Rightarrow> control_writer io" where
  "hardlink_put w (HardInode e) = hardlink_write_inode w e"
| "hardlink_put w (HardFile e) = hardlink_write_file w e"

fun hardlink_count :: "hardlink_entry \<Rightarrow> control_file_header \<Rightarrow> control_file_header" where
  "hardlink_count (HardInode e) h =
    h\<lparr>inode_count := inode_count h + 1, record_count := record_count h + 1\<rparr>"
| "hardlink_count (HardFile e) h =
    h\<lparr>file_count := file_count h + 1, record_count := record_count h + 1\<rparr>"

fun hardlink_wf :: "hardlink_entry \<Rightarrow> bool" where
  "hardlink_wf (HardInode e) = True"
| "hardlink_wf (HardFile e) = rust_string (hf_path e)"

interpretation hl: record_file HARDLINK_MAGIC hardlink_put hardlink_decode hardlink_count
  "\<lambda>e. e" hardlink_wf
proof unfold_locales
  show "HARDLINK_MAGIC \<noteq> [] \<and> (\<forall>c \<in> set HARDLINK_MAGIC. graph_char c)"
    by (simp add: HARDLINK_MAGIC_def graph_char_def)
next
  fix e h
  show "header_size (hardlink_count e h) = header_size h"
    by (cases e) simp_all
next
  fix e w w'
  assume wf: "hardlink_wf e" and put: "hardlink_put w e = Inr w'"
  show "\<exists>payload. length payload < 2 ^ 32
        \<and> w' = \<lparr>records = records w @ le_bytes 4 (length payload) @ payload,
               header = hardlink_count e (header w)\<rparr>
        \<and> hardlink_decode payload = Inr e"
  proof (cases e)
    case (HardInode i)
    with put show ?thesis
      by (auto simp: hardlink_write_inode_def andThen_Inr_iff write_record_Inr
          hardlink_decode_inode_payload intro!: exI [of _ "hard_inode_payload i"])
  next
    case (HardFile f)
    with wf put show ?thesis
      by (auto simp: hardlink_write_file_def andThen_Inr_iff write_record_Inr u32_try_from_def
          hardlink_decode_file_payload
          intro!: exI [of _ "hard_file_payload f (of_nat (length (hf_path f)))"] split: if_splits)
  qed
qed

section \<open>The index\<close>

record hardlink_group =
  hg_inode :: u64
  hg_device :: u64
  hg_link_count :: u32
  hg_files :: "(u32 \<times> u32 \<times> string) list"

record hardlink_index =
  inode_map :: "(u64 \<times> u64) \<rightharpoonup> nat"
  groups :: "hardlink_group list"

definition index_new :: hardlink_index where
  "index_new = \<lparr>inode_map = Map.empty, groups = []\<rparr>"

text \<open>The arguments of \<^verbatim>\<open>add_file\<close>.\<close>

record scanned_file =
  sf_inode :: u64
  sf_device :: u64
  sf_link_count :: u32
  sf_meta_fid :: u32
  sf_meta_offset :: u32
  sf_path :: string

definition add_file :: "hardlink_index \<Rightarrow> scanned_file \<Rightarrow> hardlink_index \<times> bool" where
  "add_file idx f =
    (if sf_link_count f \<le> 1 then (idx, False)
     else let key = (sf_device f, sf_inode f);
              entry = (sf_meta_fid f, sf_meta_offset f, sf_path f)
          in case inode_map idx key of
               Some i \<Rightarrow>
                 (idx\<lparr>groups := (groups idx)[i := (groups idx ! i)
                        \<lparr>hg_files := hg_files (groups idx ! i) @ [entry]\<rparr>]\<rparr>, True)
             | None \<Rightarrow>
                 (\<lparr>inode_map = (inode_map idx)(key \<mapsto> length (groups idx)),
                   groups = groups idx @ [\<lparr>hg_inode = sf_inode f, hg_device = sf_device f,
                      hg_link_count = sf_link_count f, hg_files = [entry]\<rparr>]\<rparr>, True))"

definition group_count :: "hardlink_index \<Rightarrow> nat" where
  "group_count idx = length (groups idx)"

definition total_file_count :: "hardlink_index \<Rightarrow> nat" where
  "total_file_count idx = sum_list (map (\<lambda>g. length (hg_files g)) (groups idx))"

definition add_files :: "scanned_file list \<Rightarrow> hardlink_index" where
  "add_files fs = fold (\<lambda>f idx. fst (add_file idx f)) fs index_new"

text \<open>The nested loops of \<^verbatim>\<open>write_to_file_with_source\<close>.\<close>

definition hardlink_write_group :: "control_writer \<Rightarrow> hardlink_group \<Rightarrow> control_writer io" where
  "hardlink_write_group w g =
    andThen (hardlink_write_inode w \<lparr>hi_inode = hg_inode g, hi_device = hg_device g,
                                     hi_link_count = hg_link_count g\<rparr>) (\<lambda>w.
      write_all hardlink_write_file w
        (map (\<lambda>(fid, off, path). \<lparr>hf_meta_fid = fid, hf_meta_offset = off, hf_path = path\<rparr>) (hg_files g)))"

definition index_write_to_file ::
  "json_enc \<Rightarrow> u64 \<Rightarrow> string \<Rightarrow> string \<Rightarrow> hardlink_index \<Rightarrow> byte list io" where
  "index_write_to_file enc now kind root idx =
    andThen (hardlink_writer_new enc now kind root) (\<lambda>w.
    andThen (write_all hardlink_write_group w (groups idx)) (\<lambda>w.
      hardlink_finish enc w))"

section \<open>What the index holds\<close>

definition group_key :: "hardlink_group \<Rightarrow> u64 \<times> u64" where
  "group_key g = (hg_device g, hg_inode g)"

definition file_key :: "scanned_file \<Rightarrow> u64 \<times> u64" where
  "file_key f = (sf_device f, sf_inode f)"

text \<open>The map finds exactly the groups, each under its key.\<close>

definition index_inv :: "hardlink_index \<Rightarrow> bool" where
  "index_inv idx \<longleftrightarrow>
    (\<forall>k i. inode_map idx k = Some i \<longleftrightarrow> i < length (groups idx) \<and> group_key (groups idx ! i) = k)"

lemma index_inv_new: "index_inv index_new"
  by (simp add: index_inv_def index_new_def)

lemma index_inv_iff:
  "index_inv idx \<Longrightarrow>
   inode_map idx k = Some i \<longleftrightarrow> i < length (groups idx) \<and> group_key (groups idx ! i) = k"
  unfolding index_inv_def by blast

text \<open>The three branches of \<open>add_file\<close>.\<close>

lemma add_file_single: "sf_link_count f \<le> 1 \<Longrightarrow> add_file idx f = (idx, False)"
  by (simp add: add_file_def)

definition file_ref :: "scanned_file \<Rightarrow> u32 \<times> u32 \<times> string" where
  "file_ref f = (sf_meta_fid f, sf_meta_offset f, sf_path f)"

lemma add_file_known:
  "1 < sf_link_count f \<Longrightarrow> inode_map idx (file_key f) = Some i \<Longrightarrow>
   fst (add_file idx f) = idx\<lparr>groups := (groups idx)[i := (groups idx ! i)
     \<lparr>hg_files := hg_files (groups idx ! i) @ [file_ref f]\<rparr>]\<rparr>"
  by (simp add: add_file_def file_key_def file_ref_def Let_def not_le [symmetric])

lemma add_file_fresh:
  "1 < sf_link_count f \<Longrightarrow> inode_map idx (file_key f) = None \<Longrightarrow>
   fst (add_file idx f) = \<lparr>inode_map = (inode_map idx)(file_key f \<mapsto> length (groups idx)),
     groups = groups idx @ [\<lparr>hg_inode = sf_inode f, hg_device = sf_device f,
       hg_link_count = sf_link_count f, hg_files = [file_ref f]\<rparr>]\<rparr>"
  by (simp add: add_file_def file_key_def file_ref_def Let_def not_le [symmetric])

lemma index_inv_add: "index_inv idx \<Longrightarrow> index_inv (fst (add_file idx f))"
proof (cases "1 < sf_link_count f")
  case False
  assume "index_inv idx"
  with False show ?thesis by (simp add: add_file_single not_less)
next
  case many: True
  assume inv: "index_inv idx"
  show ?thesis
  proof (cases "inode_map idx (file_key f)")
    case None
    have fresh: "group_key (groups idx ! i) \<noteq> file_key f" if "i < length (groups idx)" for i
      using index_inv_iff [OF inv, of "file_key f" i] None that by auto
    then show ?thesis
      unfolding add_file_fresh [OF many None] index_inv_def
      by (auto simp: index_inv_iff [OF inv] nth_append less_Suc_eq group_key_def file_key_def)
  next
    case (Some i)
    have "group_key ((groups idx)[i := (groups idx ! i)\<lparr>hg_files := fs\<rparr>] ! j) = group_key (groups idx ! j)"
      if "j < length (groups idx)" for j fs
      using that by (cases "i = j") (auto simp: group_key_def)
    then show ?thesis
      unfolding add_file_known [OF many Some] index_inv_def
      by (auto simp: index_inv_iff [OF inv])
  qed
qed

lemma index_inv_add_files: "index_inv (add_files fs)"
proof -
  have "index_inv idx \<Longrightarrow> index_inv (fold (\<lambda>f idx. fst (add_file idx f)) fs idx)" for idx
    by (induction fs arbitrary: idx) (auto simp: index_inv_add)
  then show ?thesis by (simp add: add_files_def index_inv_new)
qed

lemma group_keys_distinct: "index_inv idx \<Longrightarrow> distinct (map group_key (groups idx))"
  unfolding distinct_conv_nth by (metis index_inv_iff length_map nth_map option.inject)

definition files_of :: "hardlink_index \<Rightarrow> u64 \<times> u64 \<Rightarrow> (u32 \<times> u32 \<times> string) list" where
  "files_of idx k = (case inode_map idx k of None \<Rightarrow> [] | Some i \<Rightarrow> hg_files (groups idx ! i))"

definition linked_under :: "u64 \<times> u64 \<Rightarrow> scanned_file \<Rightarrow> bool" where
  "linked_under k f \<longleftrightarrow> 1 < sf_link_count f \<and> file_key f = k"

lemma files_of_add:
  assumes "index_inv idx"
  shows "files_of (fst (add_file idx f)) k
    = files_of idx k @ (if linked_under k f then [file_ref f] else [])"
proof (cases "1 < sf_link_count f")
  case False
  then show ?thesis by (simp add: add_file_single not_less linked_under_def)
next
  case many: True
  show ?thesis
  proof (cases "inode_map idx (file_key f)")
    case None
    have "i < length (groups idx)" if "inode_map idx k = Some i" for i
      using that by (simp add: index_inv_iff [OF assms])
    then show ?thesis
      unfolding files_of_def add_file_fresh [OF many None]
      using None many by (auto simp: linked_under_def nth_append split: option.splits)
  next
    case (Some i)
    then have i: "i < length (groups idx)" "group_key (groups idx ! i) = file_key f"
      by (auto simp: index_inv_iff [OF assms])
    have "j \<noteq> i" if "inode_map idx k = Some j" "k \<noteq> file_key f" for j
      using that i by (auto simp: index_inv_iff [OF assms])
    then show ?thesis
      unfolding files_of_def add_file_known [OF many Some]
      using Some many i by (auto simp: linked_under_def split: option.splits)
  qed
qed

lemma files_of_add_files: "files_of (add_files fs) k = map file_ref (filter (linked_under k) fs)"
proof -
  have "index_inv idx \<Longrightarrow> files_of (fold (\<lambda>f idx. fst (add_file idx f)) fs idx) k
      = files_of idx k @ map file_ref (filter (linked_under k) fs)" for idx
    by (induction fs arbitrary: idx) (auto simp: index_inv_add files_of_add)
  from this [OF index_inv_new] show ?thesis
    by (simp add: add_files_def files_of_def index_new_def)
qed

lemma group_files: "index_inv idx \<Longrightarrow> g \<in> set (groups idx) \<Longrightarrow> hg_files g = files_of idx (group_key g)"
proof -
  assume inv: "index_inv idx" and "g \<in> set (groups idx)"
  then obtain i where "i < length (groups idx)" "g = groups idx ! i"
    by (auto simp: in_set_conv_nth)
  with inv have "inode_map idx (group_key g) = Some i"
    by (simp add: index_inv_iff)
  with \<open>g = groups idx ! i\<close> show ?thesis by (simp add: files_of_def)
qed

lemma add_file_nonempty:
  assumes "\<forall>g \<in> set (groups idx). hg_files g \<noteq> []"
  shows "\<forall>g \<in> set (groups (fst (add_file idx f))). hg_files g \<noteq> []"
proof (cases "1 < sf_link_count f")
  case False
  with assms show ?thesis by (simp add: add_file_single not_less)
next
  case many: True
  show ?thesis
  proof (cases "inode_map idx (file_key f)")
    case None
    with assms many show ?thesis by (simp add: add_file_fresh)
  next
    case (Some i)
    with assms many show ?thesis
      by (auto simp: add_file_known dest!: set_update_subset_insert [THEN subsetD])
  qed
qed

lemma add_files_nonempty: "\<forall>g \<in> set (groups (add_files fs)). hg_files g \<noteq> []"
proof -
  have "\<forall>g \<in> set (groups idx). hg_files g \<noteq> [] \<Longrightarrow>
      \<forall>g \<in> set (groups (fold (\<lambda>f idx. fst (add_file idx f)) fs idx)). hg_files g \<noteq> []" for idx
  proof (induction fs arbitrary: idx)
    case (Cons f fs)
    from Cons.IH [OF add_file_nonempty [OF Cons.prems, of f]] show ?case by simp
  qed simp
  from this [of index_new] show ?thesis
    by (simp add: add_files_def index_new_def)
qed

section \<open>Properties of the index\<close>

text \<open>
  The hardlink index groups names by device and inode: no two groups have the same key, a key
  has a group exactly when a file with more than one link was added under it, and the group's names
  are exactly those files, in the order in which they were added. Files with one link are left out.
\<close>

theorem hardlink_index_groups:
  "distinct (map group_key (groups (add_files fs)))
   \<and> group_key ` set (groups (add_files fs)) = file_key ` {f \<in> set fs. 1 < sf_link_count f}
   \<and> (\<forall>g \<in> set (groups (add_files fs)).
        hg_files g = map file_ref (filter (linked_under (group_key g)) fs) \<and> hg_files g \<noteq> [])"
proof (intro conjI)
  note inv = index_inv_add_files [of fs]
  show "distinct (map group_key (groups (add_files fs)))"
    by (rule group_keys_distinct [OF inv])
  show "\<forall>g \<in> set (groups (add_files fs)).
        hg_files g = map file_ref (filter (linked_under (group_key g)) fs) \<and> hg_files g \<noteq> []"
    using group_files [OF inv] files_of_add_files add_files_nonempty by metis
  show "group_key ` set (groups (add_files fs)) = file_key ` {f \<in> set fs. 1 < sf_link_count f}"
  proof (intro equalityI subsetI)
    fix k assume "k \<in> group_key ` set (groups (add_files fs))"
    then obtain g where g: "g \<in> set (groups (add_files fs))" "k = group_key g" by blast
    with add_files_nonempty group_files [OF inv] files_of_add_files have
      "filter (linked_under k) fs \<noteq> []" by (metis list.map_disc_iff)
    then show "k \<in> file_key ` {f \<in> set fs. 1 < sf_link_count f}"
      by (auto simp: filter_empty_conv linked_under_def)
  next
    fix k assume "k \<in> file_key ` {f \<in> set fs. 1 < sf_link_count f}"
    then have "files_of (add_files fs) k \<noteq> []"
      by (auto simp: files_of_add_files filter_empty_conv linked_under_def)
    then obtain i where "inode_map (add_files fs) k = Some i"
      by (auto simp: files_of_def split: option.splits)
    with index_inv_iff [OF inv, of k i] show "k \<in> group_key ` set (groups (add_files fs))"
      by (metis image_eqI nth_mem)
  qed
qed

section \<open>The index written out\<close>

definition ref_entry :: "u32 \<times> u32 \<times> string \<Rightarrow> hardlink_entry" where
  "ref_entry r = (case r of (fid, off, path) \<Rightarrow>
     HardFile \<lparr>hf_meta_fid = fid, hf_meta_offset = off, hf_path = path\<rparr>)"

definition group_entries :: "hardlink_group \<Rightarrow> hardlink_entry list" where
  "group_entries g =
    HardInode \<lparr>hi_inode = hg_inode g, hi_device = hg_device g, hi_link_count = hg_link_count g\<rparr>
    # map ref_entry (hg_files g)"

lemma hardlink_write_group_put: "hardlink_write_group w g = write_all hardlink_put w (group_entries g)"
proof -
  have "write_all hardlink_write_file w (map (\<lambda>(fid, off, path).
      \<lparr>hf_meta_fid = fid, hf_meta_offset = off, hf_path = path\<rparr>) rs)
    = write_all hardlink_put w (map ref_entry rs)" for w rs
    by (induction rs arbitrary: w) (auto simp: ref_entry_def)
  then show ?thesis
    by (simp add: hardlink_write_group_def group_entries_def)
qed

lemma write_groups_put:
  "write_all hardlink_write_group w gs = write_all hardlink_put w (concat (map group_entries gs))"
  by (induction gs arbitrary: w) (auto simp: write_all_append hardlink_write_group_put)

lemma add_files_wf:
  assumes "\<forall>f \<in> set fs. rust_string (sf_path f)" and "g \<in> set (groups (add_files fs))"
    and "e \<in> set (group_entries g)"
  shows "hardlink_wf e"
proof -
  from assms(2) have "hg_files g = map file_ref (filter (linked_under (group_key g)) fs)"
    using group_files [OF index_inv_add_files] files_of_add_files by metis
  with assms(1,3) show ?thesis
    by (auto simp: group_entries_def ref_entry_def file_ref_def)
qed

text \<open>
  The hardlink control file written from the index of a scan is read back, with no error, as
  the groups in order: for each group its inode entry, followed by the names of that inode.
\<close>

theorem hardlink_index_file_roundtrip:
  assumes "json_codec enc dec" and "\<forall>f \<in> set fs. rust_string (sf_path f)"
    and "index_write_to_file enc now kind root (add_files fs) = Inr f"
  shows "\<exists>rest h'. hardlink_reader_open dec f = Inr (rest, h')
    \<and> read_entries hardlink_decode rest = map Inr (concat (map group_entries (groups (add_files fs))))"
proof -
  from assms(3) obtain w w' where w: "create_record_writer enc HARDLINK_MAGIC (source_header now kind root) = Inr w"
    and all: "write_all hardlink_put w (concat (map group_entries (groups (add_files fs)))) = Inr w'"
    and fin: "finish_record_writer enc HARDLINK_MAGIC w' = Inr f"
    by (auto simp: index_write_to_file_def andThen_Inr_iff write_groups_put hardlink_writer_new_def
        hardlink_finish_def)
  have "\<forall>e \<in> set (concat (map group_entries (groups (add_files fs)))). hardlink_wf e"
    using add_files_wf [OF assms(2)] by auto
  from hl.file_roundtrip [OF assms(1) w source_header_size all this fin]
  show ?thesis by (auto simp: hardlink_reader_open_def)
qed

definition sample_links :: "scanned_file list" where
  "sample_links =
    [\<lparr>sf_inode = 5, sf_device = 1, sf_link_count = 2, sf_meta_fid = 0, sf_meta_offset = 10, sf_path = ''/a''\<rparr>,
     \<lparr>sf_inode = 6, sf_device = 1, sf_link_count = 1, sf_meta_fid = 0, sf_meta_offset = 20, sf_path = ''/b''\<rparr>,
     \<lparr>sf_inode = 5, sf_device = 1, sf_link_count = 2, sf_meta_fid = 0, sf_meta_offset = 30, sf_path = ''/c''\<rparr>]"

lemma sample_links_groups:
  "groups (add_files sample_links) =
    [\<lparr>hg_inode = 5, hg_device = 1, hg_link_count = 2, hg_files = [(0, 10, ''/a''), (0, 30, ''/c'')]\<rparr>]"
  by (simp add: add_files_def sample_links_def add_file_def index_new_def Let_def
      word_le_nat_alt)

theorem hardlink_index_groups_witness:
  "hg_files (groups (add_files sample_links) ! 0) = map file_ref (filter (linked_under (1, 5)) sample_links)
   \<and> length (filter (linked_under (1, 5)) sample_links) = 2"
proof -
  have key: "group_key (groups (add_files sample_links) ! 0) = (1, 5)"
    by (simp add: sample_links_groups group_key_def)
  have "length (filter (linked_under (1, 5)) sample_links) = 2"
    by (simp add: sample_links_def linked_under_def file_key_def word_less_nat_alt)
  with hardlink_index_groups [of sample_links] key show ?thesis
    by (simp add: sample_links_groups)
qed

lemma hardlink_put_short:
  "(case e of HardInode i \<Rightarrow> True | HardFile f \<Rightarrow> length (hf_path f) < 1000) \<Longrightarrow>
   \<exists>w'. hardlink_put w e = Inr w' \<and> source_kind (header w') = source_kind (header w)
     \<and> source_root (header w') = source_root (header w)"
  by (cases e) (auto simp: hardlink_write_file_def hardlink_write_inode_def codec_simps
      write_record_def hard_inode_payload_def hard_file_payload_def Let_def)

theorem hardlink_index_file_roundtrip_witness:
  "\<exists>f rest h'. index_write_to_file plain_json_enc 7 ''local'' ''/srv'' (add_files sample_links) = Inr f
    \<and> hardlink_reader_open plain_json_dec f = Inr (rest, h')
    \<and> read_entries hardlink_decode rest =
        map Inr (concat (map group_entries (groups (add_files sample_links))))
    \<and> length (read_entries hardlink_decode rest) = 3"
proof -
  have "\<exists>w w' f. create_record_writer plain_json_enc HARDLINK_MAGIC sample_header = Inr w
    \<and> write_all hardlink_put w (concat (map group_entries (groups (add_files sample_links)))) = Inr w'
    \<and> finish_record_writer plain_json_enc HARDLINK_MAGIC w' = Inr f"
    by (rule sample_run; (rule hardlink_put_short)?)
      (auto simp: HARDLINK_MAGIC_def sample_links_groups group_entries_def ref_entry_def)
  then obtain f where run:
    "index_write_to_file plain_json_enc 7 ''local'' ''/srv'' (add_files sample_links) = Inr f"
    by (auto simp: index_write_to_file_def hardlink_writer_new_def hardlink_finish_def
        sample_header_def write_groups_put)
  have "\<forall>f \<in> set sample_links. rust_string (sf_path f)"
    by (auto simp: sample_links_def intro!: rust_string_ascii)
  from hardlink_index_file_roundtrip [OF plain_json_codec this run] run
  show ?thesis by (fastforce simp: sample_links_groups group_entries_def)
qed

end
