(* ===== verification/SpillQueue.thy ===== *)
theory SpillQueue
  imports Prelude
begin

text \<open>
  \<^verbatim>\<open>utility/spill_queue.rs\<close>: the queue that keeps its items in memory up to a bound and
  the rest in batch files. The state is the record under the mutex, with the batch files of the
  cache directory (a list of ids and contents); every operation runs under the lock, so it is a
  function on that state. The counters are natural numbers: a 64-bit count of queued items cannot
  be exceeded. The printer and parser of bincode are the arguments \<open>ser\<close> and \<open>des\<close>.
\<close>

section \<open>State\<close>

datatype spill_error = SpillIo | SpillSerialization | SpillInvalidConfig

datatype 'a des_result = DesOk 'a "byte list" | DesEof | DesError

type_synonym 'a ser = "'a \<Rightarrow> byte list"
type_synonym 'a des = "byte list \<Rightarrow> 'a des_result"

record 'a spill_queue =
  memory_queue :: "'a list"
  unspilled_count :: nat
  in_disk_batch_count :: nat
  front_cache_id :: nat
  next_cache_id :: nat
  memory_upper_bound :: nat
  memory_lower_bound :: nat
  spill_load_batch_size :: nat
  item_count :: nat
  cache_files :: "(nat \<times> byte list) list"

definition valid_config :: "nat \<Rightarrow> nat \<Rightarrow> nat \<Rightarrow> bool" where
  "valid_config upper lower batch \<longleftrightarrow>
    \<not> lower \<ge> upper \<and> \<not> (batch = 0 \<or> batch > upper - lower)"

definition spill_queue_new ::
  "(nat \<times> byte list) list \<Rightarrow> nat \<Rightarrow> nat \<Rightarrow> nat \<Rightarrow> spill_error + 'a spill_queue" where
  "spill_queue_new cache upper lower batch =
    (if \<not> valid_config upper lower batch then Inl SpillInvalidConfig
     else if cache \<noteq> [] then Inl SpillInvalidConfig
     else Inr \<lparr>memory_queue = [], unspilled_count = 0, in_disk_batch_count = 0,
               front_cache_id = 0, next_cache_id = 0, memory_upper_bound = upper,
               memory_lower_bound = lower, spill_load_batch_size = batch, item_count = 0,
               cache_files = cache\<rparr>)"

section \<open>Spilling and loading\<close>

text \<open>Popping up to \<open>n\<close> items from the back, and putting them in queue order again.\<close>

definition split_back :: "nat \<Rightarrow> 'a list \<Rightarrow> 'a list \<times> 'a list" where
  "split_back n xs = (take (length xs - n) xs, drop (length xs - n) xs)"

definition spill_to_disk ::
  "'a ser \<Rightarrow> 'a spill_queue \<Rightarrow> 'a spill_queue \<times> (spill_error + unit)" where
  "spill_to_disk ser q =
    (if length (memory_queue q) < memory_upper_bound q then (q, Inl SpillInvalidConfig)
     else let spill_count = spill_load_batch_size q in
       if 0 < in_disk_batch_count q \<and> unspilled_count q < spill_count
       then (q, Inl SpillInvalidConfig)
       else let repush_count =
              (if 0 < in_disk_batch_count q then unspilled_count q - spill_count else 0);
            (mem, repush) = split_back repush_count (memory_queue q);
            unspilled = (if 0 < in_disk_batch_count q then unspilled_count q - spill_count
                         else unspilled_count q);
            (mem, to_spill) = split_back spill_count mem;
            file = (next_cache_id q, concat (map ser to_spill))
          in (q\<lparr>memory_queue := mem @ repush, unspilled_count := unspilled,
                cache_files := filter (\<lambda>f. fst f \<noteq> next_cache_id q) (cache_files q) @ [file],
                next_cache_id := next_cache_id q + 1,
                in_disk_batch_count := in_disk_batch_count q + 1\<rparr>, Inr ()))"

text \<open>
  The reading loop: at most \<open>n\<close> items, up to the end of the file. The flag is False when an
  item cannot be parsed.
\<close>

fun load_items :: "'a des \<Rightarrow> nat \<Rightarrow> byte list \<Rightarrow> 'a list \<times> bool" where
  "load_items des 0 bs = ([], True)"
| "load_items des (Suc n) bs =
    (case des bs of
       DesOk x rest \<Rightarrow> (let (xs, ok) = load_items des n rest in (x # xs, ok))
     | DesEof \<Rightarrow> ([], True)
     | DesError \<Rightarrow> ([], False))"

definition load_from_disk ::
  "'a des \<Rightarrow> 'a spill_queue \<Rightarrow> 'a spill_queue \<times> (spill_error + unit)" where
  "load_from_disk des q =
    (if length (memory_queue q) \<ge> memory_lower_bound q \<or> in_disk_batch_count q = 0
     then (q, Inl SpillInvalidConfig)
     else case filter (\<lambda>f. fst f = front_cache_id q) (cache_files q) of
       [earliest] \<Rightarrow>
         (let (mem, unspilled) = split_back (unspilled_count q) (memory_queue q);
              (items, ok) = load_items des (spill_load_batch_size q) (snd earliest)
          in if \<not> ok then (q\<lparr>memory_queue := mem @ items\<rparr>, Inl SpillSerialization)
             else let disk = in_disk_batch_count q - 1
               in (q\<lparr>memory_queue := mem @ items @ unspilled,
                     front_cache_id := front_cache_id q + 1,
                     in_disk_batch_count := disk,
                     unspilled_count := (if disk = 0 then 0 else unspilled_count q),
                     cache_files := filter (\<lambda>f. fst f \<noteq> front_cache_id q) (cache_files q)\<rparr>,
                   Inr ()))
     | _ \<Rightarrow> (q, Inl SpillInvalidConfig))"

section \<open>The queue operations\<close>

definition spill_push ::
  "'a ser \<Rightarrow> 'a spill_queue \<Rightarrow> 'a \<Rightarrow> 'a spill_queue \<times> (spill_error + unit)" where
  "spill_push ser q item =
    (let q = q\<lparr>memory_queue := memory_queue q @ [item], item_count := item_count q + 1\<rparr>;
         q = (if 0 < in_disk_batch_count q
              then q\<lparr>unspilled_count := unspilled_count q + 1\<rparr> else q)
     in if memory_upper_bound q < length (memory_queue q) then spill_to_disk ser q
        else (q, Inr ()))"

text \<open>The part of \<open>pop\<close> after the first load.\<close>

definition pop_front ::
  "'a des \<Rightarrow> 'a spill_queue \<Rightarrow> 'a spill_queue \<times> (spill_error + 'a option)" where
  "pop_front des q =
    (let (item, rest) = (case memory_queue q of [] \<Rightarrow> (None, []) | x # xs \<Rightarrow> (Some x, xs));
         q = q\<lparr>memory_queue := rest, item_count := item_count q - 1\<rparr>
     in if length (memory_queue q) < memory_lower_bound q \<and> 0 < in_disk_batch_count q
        then (case load_from_disk des q of
                (q, Inr _) \<Rightarrow> (q, Inr item)
              | (q, Inl e) \<Rightarrow> (q, Inl e))
        else (q, Inr item))"

definition spill_pop ::
  "'a des \<Rightarrow> 'a spill_queue \<Rightarrow> 'a spill_queue \<times> (spill_error + 'a option)" where
  "spill_pop des q =
    (if item_count q = 0 then (q, Inr None)
     else if memory_queue q = [] \<and> 0 < in_disk_batch_count q
     then (case load_from_disk des q of
             (q, Inr _) \<Rightarrow> pop_front des q
           | (q, Inl e) \<Rightarrow> (q, Inl e))
     else pop_front des q)"

definition spill_len :: "'a spill_queue \<Rightarrow> nat" where
  "spill_len q = item_count q"

definition spill_is_empty :: "'a spill_queue \<Rightarrow> bool" where
  "spill_is_empty q \<longleftrightarrow> spill_len q = 0"

definition spill_memory_usage :: "'a spill_queue \<Rightarrow> nat" where
  "spill_memory_usage q = length (memory_queue q)"

definition spill_disk_usage :: "'a spill_queue \<Rightarrow> nat" where
  "spill_disk_usage q = length (cache_files q) * spill_load_batch_size q"

definition spill_set_config ::
  "'a spill_queue \<Rightarrow> nat \<Rightarrow> nat \<Rightarrow> nat \<Rightarrow> 'a spill_queue \<times> (spill_error + unit)" where
  "spill_set_config q upper lower batch =
    (if \<not> valid_config upper lower batch then (q, Inl SpillInvalidConfig)
     else (q\<lparr>memory_upper_bound := upper, memory_lower_bound := lower,
             spill_load_batch_size := batch\<rparr>, Inr ()))"

section \<open>The abstract queue\<close>

text \<open>
  What the code relies on of bincode: an item read from the bytes it was written as is the item,
  with the rest of the bytes left, and the empty input is an end of file.
\<close>

definition bincode_ok :: "'a ser \<Rightarrow> 'a des \<Rightarrow> bool" where
  "bincode_ok ser des \<longleftrightarrow>
    (\<forall>x rest. des (ser x @ rest) = DesOk x rest) \<and> des [] = DesEof"

text \<open>
  The state stands for the queue of the old items in memory, then the batches on disk in the order
  of their ids, then the \<open>unspilled_count\<close> newest items in memory.
\<close>

definition old_part :: "'a spill_queue \<Rightarrow> 'a list" where
  "old_part q = fst (split_back (unspilled_count q) (memory_queue q))"

definition recent_part :: "'a spill_queue \<Rightarrow> 'a list" where
  "recent_part q = snd (split_back (unspilled_count q) (memory_queue q))"

definition queue_of :: "'a spill_queue \<Rightarrow> 'a list list \<Rightarrow> 'a list" where
  "queue_of q batches = old_part q @ concat batches @ recent_part q"

definition batch_files :: "'a ser \<Rightarrow> nat \<Rightarrow> 'a list list \<Rightarrow> (nat \<times> byte list) list" where
  "batch_files ser front batches =
    zip [front..<front + length batches] (map (\<lambda>b. concat (map ser b)) batches)"

definition spill_rep :: "'a ser \<Rightarrow> 'a spill_queue \<Rightarrow> 'a list list \<Rightarrow> bool" where
  "spill_rep ser q batches \<longleftrightarrow>
    0 < memory_lower_bound q
    \<and> valid_config (memory_upper_bound q) (memory_lower_bound q) (spill_load_batch_size q)
    \<and> cache_files q = batch_files ser (front_cache_id q) batches
    \<and> next_cache_id q = front_cache_id q + length batches
    \<and> in_disk_batch_count q = length batches
    \<and> (\<forall>b \<in> set batches. length b = spill_load_batch_size q)
    \<and> unspilled_count q \<le> length (memory_queue q)
    \<and> (batches = [] \<longrightarrow> unspilled_count q = 0)
    \<and> item_count q = length (memory_queue q) + length (concat batches)"

lemma batch_files_Cons:
  "batch_files ser front (b # bs) = (front, concat (map ser b)) # batch_files ser (Suc front) bs"
proof -
  have "[front..<front + length (b # bs)] = front # [Suc front..<Suc front + length bs]"
    by (simp add: upt_conv_Cons del: upt_Suc)
  then show ?thesis by (simp add: batch_files_def del: upt_Suc)
qed


lemma batch_files_ids: "f \<in> set (batch_files ser front bs) \<Longrightarrow> front \<le> fst f \<and> fst f < front + length bs"
  by (cases f) (auto simp: batch_files_def dest: set_zip_leftD)

lemma filter_batch_files [simp]:
  "filter (\<lambda>f. fst f \<noteq> front + length bs) (batch_files ser front bs) = batch_files ser front bs"
  "filter (\<lambda>f. fst f = front) (batch_files ser (Suc front) bs) = []"
  "filter (\<lambda>f. fst f \<noteq> front) (batch_files ser (Suc front) bs) = batch_files ser (Suc front) bs"
  by (auto simp: filter_id_conv filter_empty_conv dest!: batch_files_ids)

lemma load_items_batch:
  "bincode_ok ser des \<Longrightarrow> length b \<le> n \<Longrightarrow> load_items des n (concat (map ser b)) = (b, True)"
proof (induction b arbitrary: n)
  case Nil
  then show ?case by (cases n) (auto simp: bincode_ok_def)
next
  case (Cons x b)
  then obtain m where "n = Suc m" "length b \<le> m" by (cases n) auto
  with Cons show ?case by (simp add: bincode_ok_def)
qed


lemma memory_parts: "memory_queue q = old_part q @ recent_part q"
  by (simp add: old_part_def recent_part_def split_back_def)





text \<open>Loading succeeds whenever the front batch is there and memory is short.\<close>

lemma load_from_disk_ok:
  assumes "bincode_ok ser des" and "cache_files q = batch_files ser (front_cache_id q) (b # bs)"
    and "length b \<le> spill_load_batch_size q" and "0 < in_disk_batch_count q"
    and "length (memory_queue q) < memory_lower_bound q"
  shows "\<exists>q'. load_from_disk des q = (q', Inr ())"
  using assms load_items_batch [OF assms(1,3)]
  by (auto simp: load_from_disk_def batch_files_Cons case_prod_beta Let_def)










section \<open>Properties\<close>


text \<open>Concrete queues hold bytes, printed as themselves.\<close>

definition byte_ser :: "byte ser" where
  "byte_ser b = [b]"

fun byte_des :: "byte des" where
  "byte_des [] = DesEof"
| "byte_des (b # bs) = DesOk b bs"

lemma byte_bincode: "bincode_ok byte_ser byte_des"
  by (simp add: bincode_ok_def byte_ser_def)

datatype spill_op = Push byte | Pop

text \<open>The answers of the pops of a run, and the state after it.\<close>

fun spill_run :: "byte spill_queue \<Rightarrow> spill_op list \<Rightarrow> byte spill_queue \<times> byte option list" where
  "spill_run q [] = (q, [])"
| "spill_run q (Push b # ops) = spill_run (fst (spill_push byte_ser q b)) ops"
| "spill_run q (Pop # ops) =
    (let (q, r) = spill_pop byte_des q; (q', rs) = spill_run q ops
     in (q', (case r of Inr x \<Rightarrow> x # rs | Inl e \<Rightarrow> rs)))"

definition empty_queue :: "nat \<Rightarrow> nat \<Rightarrow> nat \<Rightarrow> byte spill_queue" where
  "empty_queue upper lower batch =
    \<lparr>memory_queue = [], unspilled_count = 0, in_disk_batch_count = 0, front_cache_id = 0,
     next_cache_id = 0, memory_upper_bound = upper, memory_lower_bound = lower,
     spill_load_batch_size = batch, item_count = 0, cache_files = []\<rparr>"

lemma empty_queue_new: "valid_config u l b \<Longrightarrow> spill_queue_new [] u l b = Inr (empty_queue u l b)"
  by (simp add: spill_queue_new_def empty_queue_def)

lemmas spill_eval = spill_run.simps spill_push_def spill_pop_def spill_to_disk_def load_from_disk_def
  pop_front_def split_back_def empty_queue_def byte_ser_def Let_def





text \<open>
  The queue does not keep the order it promises: in a state where the old items are used up, while
  recent items are in memory and batches are on disk, a pop returns the first recent item, ahead of
  all the items on disk, of which there is at least one.
\<close>

theorem spill_pop_overtakes:
  assumes "bincode_ok ser des" and "spill_rep ser q (b # bs)"
    and "old_part q = []" and "recent_part q = x # items"
  shows "queue_of q (b # bs) = (b @ concat bs) @ x # items \<and> b \<noteq> []
    \<and> (\<exists>q'. spill_pop des q = (q', Inr (Some x)))"
proof -
  have mem: "memory_queue q = x # items"
    using memory_parts [of q] assms(3,4) by simp
  have nz: "item_count q \<noteq> 0" and ne: "b \<noteq> []"
    using assms(2) mem by (auto simp: spill_rep_def valid_config_def)
  let ?q = "q\<lparr>memory_queue := items, item_count := item_count q - 1\<rparr>"
  have "\<exists>q'. pop_front des q = (q', Inr (Some x))"
  proof (cases "length items < memory_lower_bound q")
    case True
    obtain q' where "load_from_disk des ?q = (q', Inr ())"
      using load_from_disk_ok [OF assms(1), of ?q b bs] assms(2) True by (auto simp: spill_rep_def)
    then show ?thesis
      using True assms(2) by (simp add: pop_front_def mem spill_rep_def)
  next
    case False
    then show ?thesis by (simp add: pop_front_def mem)
  qed
  then show ?thesis
    using assms(3,4) nz ne mem by (simp add: queue_of_def spill_pop_def)
qed

definition overtaken_queue :: "byte spill_queue" where
  "overtaken_queue = fst (spill_run (empty_queue 3 1 2)
     [Push 0, Push 1, Push 2, Push 3, Push 4, Pop, Pop])"

lemma overtaken_queue_eq: "overtaken_queue =
  \<lparr>memory_queue = [4], unspilled_count = 1, in_disk_batch_count = 1, front_cache_id = 0,
   next_cache_id = 1, memory_upper_bound = 3, memory_lower_bound = 1, spill_load_batch_size = 2,
   item_count = 3, cache_files = [(0, [2, 3])]\<rparr>"
  by (simp add: overtaken_queue_def spill_eval)

theorem spill_pop_overtakes_witness:
  "queue_of overtaken_queue [[2, 3]] = [2, 3, 4]
   \<and> (\<exists>q'. spill_pop byte_des overtaken_queue = (q', Inr (Some 4)))"
proof -
  have "spill_rep byte_ser overtaken_queue [[2, 3]]"
    by (simp add: spill_rep_def overtaken_queue_eq valid_config_def batch_files_def byte_ser_def)
  moreover have "old_part overtaken_queue = []" "recent_part overtaken_queue = [4]"
    by (simp_all add: old_part_def recent_part_def split_back_def overtaken_queue_eq)
  ultimately show ?thesis
    using spill_pop_overtakes [OF byte_bincode, of overtaken_queue "[2, 3]" "[]" 4 "[]"] by simp
qed

text \<open>
  The queue can lose an item: on a new queue with bounds 2, 1 and batches of 1, a run of nine
  pushes and nine pops answers eight of the items and once nothing, and leaves the queue empty by
  its own count while the item 5 is still in memory, where no further pop returns it.
\<close>

theorem spill_queue_loses_item:
  "spill_queue_new [] 2 1 1 = Inr (empty_queue 2 1 1)
   \<and> (case spill_run (empty_queue 2 1 1)
        [Push 0, Push 1, Push 2, Pop, Push 3, Pop, Push 4, Pop, Push 5, Push 6, Pop,
         Push 7, Push 8, Pop, Pop, Pop, Pop, Pop] of
      (q, answers) \<Rightarrow>
        answers = [Some 0, Some 1, Some 3, Some 4, Some 6, Some 7, Some 8, Some 2, None]
        \<and> spill_is_empty q \<and> memory_queue q = [5] \<and> spill_pop byte_des q = (q, Inr None))"
  by (simp add: spill_queue_new_def valid_config_def spill_eval spill_is_empty_def spill_len_def
      numeral_2_eq_2)

text \<open>
  A lower bound of zero is accepted as a configuration, but then batches are never loaded: once
  memory is empty while items are on disk, every pop fails and leaves the state as it is.
\<close>

theorem spill_zero_lower_bound_stuck:
  assumes "memory_lower_bound q = 0" and "memory_queue q = []"
    and "0 < in_disk_batch_count q" and "0 < item_count q"
  shows "spill_pop des q = (q, Inl SpillInvalidConfig)"
  using assms by (simp add: spill_pop_def load_from_disk_def)

definition stuck_queue :: "byte spill_queue" where
  "stuck_queue = fst (spill_run (empty_queue 2 0 1) [Push 0, Push 1, Push 2, Pop, Pop])"

theorem spill_zero_lower_bound_stuck_witness:
  "spill_queue_new [] 2 0 1 = Inr (empty_queue 2 0 1) \<and> spill_len stuck_queue = 1
   \<and> spill_pop byte_des stuck_queue = (stuck_queue, Inl SpillInvalidConfig)"
proof -
  have "memory_lower_bound stuck_queue = 0" "memory_queue stuck_queue = []"
    "in_disk_batch_count stuck_queue = 1" "item_count stuck_queue = 1"
    by (simp_all add: stuck_queue_def spill_eval)
  with spill_zero_lower_bound_stuck [of stuck_queue byte_des] show ?thesis
    by (simp add: spill_queue_new_def valid_config_def spill_len_def empty_queue_def)
qed

end
