(* ===== verification/ScanFilter.thy ===== *)
theory ScanFilter
  imports PathUtil
begin

text \<open>
  \<^verbatim>\<open>scanner/filter.rs\<close>: the include and exclude patterns of a scan. A pattern is split at
  \<open>/\<close> into segment patterns; a segment pattern is split at its stars. The lemmas compare a
  segment pattern with the usual meaning of a star, and show what the filter prunes.
\<close>

section \<open>Segment patterns\<close>

record segment_pattern =
  parts :: "string list"
  leading_wildcard :: bool
  trailing_wildcard :: bool

definition segment_new :: "string \<Rightarrow> segment_pattern" where
  "segment_new raw =
    \<lparr>parts = filter (\<lambda>p. p \<noteq> []) (split_on CHR ''*'' raw),
     leading_wildcard = prefix ''*'' raw, trailing_wildcard = suffix ''*'' raw\<rparr>"

text \<open>
  The loop over the parts: \<open>rest\<close> is \<^verbatim>\<open>candidate[pos..]\<close>, and \<open>anchored\<close> holds for the
  first part when the pattern does not start with a star.
\<close>

fun match_loop :: "bool \<Rightarrow> string list \<Rightarrow> string \<Rightarrow> bool" where
  "match_loop anchored [] rest = True"
| "match_loop anchored (p # ps) rest =
    (if anchored
     then prefix p rest \<and> match_loop False ps (drop (length p) rest)
     else (case str_find p rest of
             Some found \<Rightarrow> match_loop False ps (drop (found + length p) rest)
           | None \<Rightarrow> False))"

definition segment_matches :: "segment_pattern \<Rightarrow> string \<Rightarrow> bool" where
  "segment_matches pat candidate =
    (if parts pat = [] then True
     else match_loop (\<not> leading_wildcard pat) (parts pat) candidate
       \<and> (trailing_wildcard pat \<or> suffix (last (parts pat)) candidate))"

section \<open>The meaning of a star\<close>

text \<open>The reference: a star stands for any text, any other character for itself.\<close>

fun glob :: "string \<Rightarrow> string \<Rightarrow> bool" where
  "glob [] s = (s = [])"
| "glob (c # p) [] = (c = CHR ''*'' \<and> glob p [])"
| "glob (c # p) (x # s) =
    (if c = CHR ''*'' then glob p (x # s) \<or> glob (c # p) s else c = x \<and> glob p s)"

lemma glob_star: "glob (CHR ''*'' # p) s \<longleftrightarrow> (\<exists>u v. s = u @ v \<and> glob p v)"
proof (induction s)
  case Nil
  then show ?case by simp
next
  case (Cons x s)
  have "(\<exists>u v. x # s = u @ v \<and> glob p v) \<longleftrightarrow> glob p (x # s) \<or> (\<exists>u v. s = u @ v \<and> glob p v)"
    by (auto simp: Cons_eq_append_conv)
  with Cons show ?case by simp
qed

lemma glob_char: "c \<noteq> CHR ''*'' \<Longrightarrow> glob (c # p) s \<longleftrightarrow> (\<exists>t. s = c # t \<and> glob p t)"
  by (cases s) auto

text \<open>The same on the pieces between the stars.\<close>

fun glob_pieces :: "string list \<Rightarrow> string \<Rightarrow> bool" where
  "glob_pieces [] s = False"
| "glob_pieces [q] s = (s = q)"
| "glob_pieces (q # q' # qs) s =
    (\<exists>u v. s = q @ u @ v \<and> glob_pieces (q' # qs) v)"

lemma glob_pieces_Cons_char:
  "glob_pieces ((c # q) # qs) s \<longleftrightarrow> (\<exists>t. s = c # t \<and> glob_pieces (q # qs) t)"
  by (cases qs) auto

lemma glob_split: "glob raw s \<longleftrightarrow> glob_pieces (split_on CHR ''*'' raw) s"
proof (induction raw arbitrary: s)
  case Nil
  then show ?case by simp
next
  case (Cons c raw)
  obtain q qs where q: "split_on CHR ''*'' raw = q # qs"
    using split_on_nonempty [of "CHR ''*''" raw] by (cases "split_on CHR ''*'' raw") auto
  show ?case
  proof (cases "c = CHR ''*''")
    case True
    then show ?thesis using Cons q by (simp add: glob_star)
  next
    case False
    then show ?thesis
      using Cons q by (simp add: glob_char glob_pieces_Cons_char)
  qed
qed

definition glob_after_star :: "string list \<Rightarrow> string \<Rightarrow> bool" where
  "glob_after_star qs s \<longleftrightarrow> (\<exists>u v. s = u @ v \<and> glob_pieces qs v)"

lemma glob_after_star_suffix: "glob_after_star [q] s \<longleftrightarrow> suffix q s"
  by (auto simp: glob_after_star_def suffix_def)

lemma glob_after_star_more: "glob_after_star qs s \<Longrightarrow> glob_after_star qs (u @ s)"
  unfolding glob_after_star_def by (metis append_assoc)

text \<open>The leftmost occurrence of a piece is as good as any other.\<close>

lemma glob_after_star_find:
  "glob_after_star (q # q' # qs) s \<longleftrightarrow>
    (case str_find q s of None \<Rightarrow> False | Some i \<Rightarrow> glob_after_star (q' # qs) (drop (i + length q) s))"
proof (cases "str_find q s")
  case None
  then have "\<nexists>u v. s = u @ q @ v" by (simp add: str_find_None)
  with None show ?thesis
    by (auto simp: glob_after_star_def)
next
  case (Some i)
  then obtain w where s: "s = take i s @ q @ w" and i: "i \<le> length s"
    using str_find_Some by blast
  then have w: "drop (i + length q) s = w"
    by (metis append.assoc append_eq_conv_conj length_append length_take min.absorb2)
  have "glob_after_star (q' # qs) w" if "glob_after_star (q # q' # qs) s"
  proof -
    from that obtain u v z where z: "s = u @ q @ z" "glob_after_star (q' # qs) z"
      by (auto simp: glob_after_star_def)
    from str_find_least [OF Some z(1)] have "i \<le> length u" .
    then have "length z \<le> length w"
      using z(1) i by (simp flip: w)
    moreover have "suffix z s" "suffix w s"
      using z(1) s unfolding suffix_def by (metis append.assoc)+
    ultimately obtain d where "w = d @ z"
      using suffix_length_suffix unfolding suffix_def by metis
    with z(2) show ?thesis by (simp add: glob_after_star_more)
  qed
  moreover have "glob_after_star (q # q' # qs) s" if "glob_after_star (q' # qs) w"
    using that s unfolding glob_after_star_def by (metis append.assoc glob_pieces.simps(3))
  ultimately show ?thesis
    using Some w by auto
qed

lemma match_loop_length: "match_loop False ps s \<Longrightarrow> ps \<noteq> [] \<Longrightarrow> length (last ps) \<le> length s"
proof (induction ps arbitrary: s)
  case Nil
  then show ?case by simp
next
  case (Cons p ps)
  then obtain i where i: "str_find p s = Some i" "match_loop False ps (drop (i + length p) s)"
    by (auto split: option.splits)
  from str_find_Some [OF i(1)] have "length p \<le> length s"
    by (metis length_append le_add1 le_add2 le_trans)
  with Cons.IH [OF i(2)] show ?case
    by (auto intro: le_trans)
qed

lemma suffix_of_drop: "length p \<le> length (drop n s) \<Longrightarrow> suffix p (drop n s) \<longleftrightarrow> suffix p s"
  by (metis suffix_drop suffix_length_suffix suffix_order.trans)

text \<open>The greedy loop decides the pieces after a star.\<close>

lemma glob_after_star_loop:
  assumes "qs \<noteq> []"
  shows "glob_after_star qs s \<longleftrightarrow>
    (let ps = filter (\<lambda>p. p \<noteq> []) qs
     in ps = [] \<or> match_loop False ps s \<and> (last qs = [] \<or> suffix (last ps) s))"
  using assms
proof (induction qs arbitrary: s rule: list_nonempty_induct)
  case (single q)
  have "suffix q s \<Longrightarrow> str_find q s \<noteq> None"
    unfolding str_find_None suffix_def by (metis append.right_neutral)
  then show ?case
    by (auto simp: glob_after_star_suffix Let_def split: option.splits)
next
  case (cons q qs)
  then obtain q' rest where qs: "qs = q' # rest" by (cases qs) auto
  define ps where "ps = filter (\<lambda>p. p \<noteq> []) qs"
  show ?case
  proof (cases "q = []")
    case True
    have "str_find [] s = Some 0" by (cases s) auto
    then have "glob_after_star (q # qs) s = glob_after_star qs s"
      using True glob_after_star_find [of q q' rest s] qs by simp
    with cons show ?thesis by (simp add: True)
  next
    case False
    show ?thesis
    proof (cases "str_find q s")
      case None
      with False show ?thesis
        using glob_after_star_find [of q q' rest s] qs by (simp add: Let_def)
    next
      case (Some i)
      let ?s = "drop (i + length q) s"
      have "glob_after_star (q # qs) s = glob_after_star qs ?s"
        using glob_after_star_find [of q q' rest s] qs Some by simp
      also have "\<dots> \<longleftrightarrow> ps = [] \<or> match_loop False ps ?s \<and> (last qs = [] \<or> suffix (last ps) ?s)"
        using cons.IH [of ?s] by (simp add: ps_def Let_def)
      also have "\<dots> \<longleftrightarrow> match_loop False (q # ps) s \<and> (last qs = [] \<or> suffix (last (q # ps)) s)"
      proof (cases "ps = []")
        case True
        then have "last qs = []"
          using cons.hyps by (metis (mono_tags, lifting) filter_empty_conv last_in_set ps_def)
        with True Some show ?thesis by simp
      next
        case nonempty: False
        have "suffix (last ps) ?s \<longleftrightarrow> suffix (last ps) s" if "match_loop False ps ?s"
          using suffix_of_drop match_loop_length [OF that nonempty] by blast
        with nonempty Some show ?thesis by auto
      qed
      finally show ?thesis
        using False cons.hyps by (simp add: Let_def ps_def)
    qed
  qed
qed

lemma split_on_star_nonempty: "CHR ''*'' \<in> set raw \<Longrightarrow> \<exists>q q' qs. split_on CHR ''*'' raw = q # q' # qs"
proof (rule ccontr)
  assume star: "CHR ''*'' \<in> set raw" and no: "\<nexists>q q' qs. split_on CHR ''*'' raw = q # q' # qs"
  then obtain q where "split_on CHR ''*'' raw = [q]"
    using split_on_nonempty [of "CHR ''*''" raw] by (metis neq_Nil_conv)
  then have "raw = q" "CHR ''*'' \<notin> set q"
    using join_split [of "CHR ''*''" raw] split_on_no_sep [of q "CHR ''*''" raw] by simp_all
  with star show False by simp
qed

lemma leading_split: "prefix ''*'' raw \<longleftrightarrow> CHR ''*'' \<in> set raw \<and> hd (split_on CHR ''*'' raw) = []"
  by (cases raw) (auto split: list.splits)

lemma trailing_split: "suffix ''*'' raw \<longleftrightarrow> CHR ''*'' \<in> set raw \<and> last (split_on CHR ''*'' raw) = []"
proof (induction raw)
  case Nil
  then show ?case by simp
next
  case (Cons c raw)
  have s: "suffix ''*'' (c # raw) \<longleftrightarrow> (if raw = [] then c = CHR ''*'' else suffix ''*'' raw)"
    by (auto simp: suffix_Cons)
  obtain q qs where q: "split_on CHR ''*'' raw = q # qs"
    using split_on_nonempty [of "CHR ''*''" raw] by (cases "split_on CHR ''*'' raw") auto
  show ?case
  proof (cases "raw = []")
    case True
    with s show ?thesis by simp
  next
    case False
    with s have "suffix ''*'' (c # raw) = suffix ''*'' raw" by simp
    then show ?thesis
      using Cons q False by (cases "CHR ''*'' \<in> set raw")
        (auto simp: split_on_id dest: split_on_star_nonempty)
  qed
qed

lemma segment_matches_starred:
  assumes "CHR ''*'' \<in> set raw"
  shows "segment_matches (segment_new raw) s = glob raw s"
proof -
  from split_on_star_nonempty [OF assms] obtain q q' qs
    where sp: "split_on CHR ''*'' raw = q # q' # qs" by blast
  have lead: "prefix ''*'' raw \<longleftrightarrow> q = []" and trail: "suffix ''*'' raw \<longleftrightarrow> last (q' # qs) = []"
    using leading_split [of raw] trailing_split [of raw] assms sp by simp_all
  define ps where "ps = filter (\<lambda>p. p \<noteq> []) (q' # qs)"
  have loop: "glob_after_star (q' # qs) t \<longleftrightarrow>
      ps = [] \<or> match_loop False ps t \<and> (last (q' # qs) = [] \<or> suffix (last ps) t)" for t
    using glob_after_star_loop [of "q' # qs" t] by (simp add: ps_def Let_def)
  have "glob raw s \<longleftrightarrow> (\<exists>t. s = q @ t \<and> glob_after_star (q' # qs) t)"
    by (auto simp: glob_split sp glob_after_star_def)
  then have g: "glob raw s \<longleftrightarrow> prefix q s \<and> glob_after_star (q' # qs) (drop (length q) s)"
    by (auto simp: prefix_def)
  show ?thesis
  proof (cases "q = []")
    case True
    have parts: "parts (segment_new raw) = ps" "leading_wildcard (segment_new raw)"
      "trailing_wildcard (segment_new raw) \<longleftrightarrow> last (q' # qs) = []"
      using True lead trail by (simp_all add: segment_new_def sp ps_def)
    have "glob raw s \<longleftrightarrow> glob_after_star (q' # qs) s"
      using g True by simp
    then show ?thesis
      unfolding segment_matches_def parts(1,3) loop using parts(2) by (cases "ps = []") simp_all
  next
    case False
    have parts: "parts (segment_new raw) = q # ps"
      using False by (simp add: segment_new_def sp ps_def)
    have suf: "suffix (last ps) (drop (length q) s) \<longleftrightarrow> suffix (last ps) s"
      if "match_loop False ps (drop (length q) s)" "ps \<noteq> []"
      using suffix_of_drop match_loop_length [OF that] by blast
    have nil: "ps = [] \<Longrightarrow> last (q' # qs) = []"
      by (metis (mono_tags, lifting) filter_empty_conv last_in_set list.distinct(1) ps_def)
    have "segment_matches (segment_new raw) s \<longleftrightarrow>
        prefix q s \<and> match_loop False ps (drop (length q) s)
        \<and> (last (q' # qs) = [] \<or> suffix (last (q # ps)) s)"
      using False lead trail by (simp add: segment_matches_def parts) (simp add: segment_new_def)
    also have "\<dots> \<longleftrightarrow> glob raw s"
      unfolding g loop using suf nil by (cases "ps = []") auto
    finally show ?thesis .
  qed
qed

lemma segment_matches_plain:
  assumes "CHR ''*'' \<notin> set raw" and "raw \<noteq> []"
  shows "segment_matches (segment_new raw) s \<longleftrightarrow> prefix raw s \<and> suffix raw s"
proof -
  have "\<not> prefix ''*'' raw" "\<not> suffix ''*'' raw"
    using assms by (auto simp: leading_split trailing_split)
  with assms show ?thesis
    by (simp add: segment_matches_def segment_new_def split_on_id)
qed

section \<open>Path patterns\<close>

record path_pattern =
  segments :: "segment_pattern list"

definition all_match :: "segment_pattern list \<Rightarrow> string list \<Rightarrow> bool" where
  "all_match pats segs = list_all (\<lambda>(pat, seg). segment_matches pat seg) (zip pats segs)"

definition matches_exact :: "path_pattern \<Rightarrow> string list \<Rightarrow> bool" where
  "matches_exact p segs \<longleftrightarrow> length (segments p) = length segs \<and> all_match (segments p) segs"

definition matches_dir_subtree :: "path_pattern \<Rightarrow> string list \<Rightarrow> bool" where
  "matches_dir_subtree p segs \<longleftrightarrow> length segs \<ge> length (segments p) \<and> all_match (segments p) segs"

definition matches_file_under_dir_subtree :: "path_pattern \<Rightarrow> string list \<Rightarrow> bool" where
  "matches_file_under_dir_subtree p segs = matches_dir_subtree p segs"

definition can_reach_dir_match :: "path_pattern \<Rightarrow> string list \<Rightarrow> bool" where
  "can_reach_dir_match p segs =
    (if length segs \<le> length (segments p)
     then all_match (take (length segs) (segments p)) segs
     else matches_dir_subtree p segs)"

definition can_reach_file_match :: "path_pattern \<Rightarrow> string list \<Rightarrow> bool" where
  "can_reach_file_match p segs =
    (if segments p = [] then False
     else let parent_len = length (segments p) - 1
       in if length segs > parent_len then False
          else all_match (take (length segs) (segments p)) segs)"

definition split_logical_path :: "string \<Rightarrow> string list" where
  "split_logical_path path = filter (\<lambda>p. p \<noteq> []) (split_on CHR ''/'' (trim_both CHR ''/'' path))"

definition compile_pattern :: "string \<Rightarrow> string + path_pattern" where
  "compile_pattern pattern =
    (let normalized = normalize_logical pattern;
         segs = map segment_new (split_logical_path normalized)
     in if normalized \<noteq> ''/'' \<and> segs = []
        then Inl (''invalid empty filter pattern: '' @ pattern)
        else Inr \<lparr>segments = segs\<rparr>)"

fun compile_patterns :: "string list \<Rightarrow> string + path_pattern list" where
  "compile_patterns [] = Inr []"
| "compile_patterns (p # ps) =
    andThen (compile_pattern p) (\<lambda>q. andThen (compile_patterns ps) (\<lambda>qs. Inr (q # qs)))"

section \<open>The filter set\<close>

record scan_path_filter_set =
  include_dirs :: "path_pattern list"
  include_files :: "path_pattern list"
  exclude_dirs :: "path_pattern list"
  exclude_files :: "path_pattern list"
  has_includes :: bool

definition filter_is_empty :: "scan_path_filter_set \<Rightarrow> bool" where
  "filter_is_empty f \<longleftrightarrow> \<not> has_includes f \<and> exclude_dirs f = [] \<and> exclude_files f = []"

definition compile_filter ::
  "string list \<Rightarrow> string list \<Rightarrow> string list \<Rightarrow> string list \<Rightarrow> string + scan_path_filter_set option"
where
  "compile_filter inc_dirs inc_files exc_dirs exc_files =
    andThen (compile_patterns inc_dirs) (\<lambda>in_dirs.
    andThen (compile_patterns inc_files) (\<lambda>in_files.
    andThen (compile_patterns exc_dirs) (\<lambda>ex_dirs.
    andThen (compile_patterns exc_files) (\<lambda>ex_files.
      let f = \<lparr>include_dirs = in_dirs, include_files = in_files,
               exclude_dirs = ex_dirs, exclude_files = ex_files,
               has_includes = \<not> (inc_dirs = [] \<and> inc_files = [])\<rparr>
      in Inr (if filter_is_empty f then None else Some f)))))"

definition matches_excluded_dir :: "scan_path_filter_set \<Rightarrow> string \<Rightarrow> bool" where
  "matches_excluded_dir f path =
    list_ex (\<lambda>p. matches_dir_subtree p (split_logical_path path)) (exclude_dirs f)"

definition matches_excluded_file :: "scan_path_filter_set \<Rightarrow> string \<Rightarrow> bool" where
  "matches_excluded_file f path =
    list_ex (\<lambda>p. matches_exact p (split_logical_path path)) (exclude_files f)"

definition dir_is_included_subtree :: "scan_path_filter_set \<Rightarrow> string \<Rightarrow> bool" where
  "dir_is_included_subtree f path =
    list_ex (\<lambda>p. matches_dir_subtree p (split_logical_path path)) (include_dirs f)"

definition file_in_included_dir_subtree :: "scan_path_filter_set \<Rightarrow> string \<Rightarrow> bool" where
  "file_in_included_dir_subtree f path =
    list_ex (\<lambda>p. matches_file_under_dir_subtree p (split_logical_path path)) (include_dirs f)"

definition file_matches_include :: "scan_path_filter_set \<Rightarrow> string \<Rightarrow> bool" where
  "file_matches_include f path =
    list_ex (\<lambda>p. matches_exact p (split_logical_path path)) (include_files f)"

definition dir_can_reach_include :: "scan_path_filter_set \<Rightarrow> string \<Rightarrow> bool" where
  "dir_can_reach_include f path \<longleftrightarrow>
    list_ex (\<lambda>p. can_reach_dir_match p (split_logical_path path)) (include_dirs f)
    \<or> list_ex (\<lambda>p. can_reach_file_match p (split_logical_path path)) (include_files f)"

definition should_emit_dir :: "scan_path_filter_set \<Rightarrow> string \<Rightarrow> bool" where
  "should_emit_dir f path =
    (if matches_excluded_dir f path then False
     else if \<not> has_includes f then True
     else dir_is_included_subtree f path \<or> dir_can_reach_include f path)"

definition should_descend_dir :: "scan_path_filter_set \<Rightarrow> string \<Rightarrow> bool" where
  "should_descend_dir f path =
    (if matches_excluded_dir f path then False
     else if \<not> has_includes f then True
     else dir_is_included_subtree f path \<or> dir_can_reach_include f path)"

definition should_emit_file :: "scan_path_filter_set \<Rightarrow> string \<Rightarrow> bool" where
  "should_emit_file f path =
    (if matches_excluded_dir f path \<or> matches_excluded_file f path then False
     else if \<not> has_includes f then True
     else file_in_included_dir_subtree f path \<or> file_matches_include f path)"

text \<open>\<^verbatim>\<open>ControlPathOption\<close>, and the logical path of a scanned native path.\<close>

record control_path_option =
  physical_base :: string
  source_root_path :: string
  source_kind_name :: string

definition logical_path_from_physical :: "control_path_option \<Rightarrow> string \<Rightarrow> string" where
  "logical_path_from_physical control physical_path =
    (if \<not> path_starts_with physical_path (physical_base control)
        \<and> path_starts_with physical_path (source_root_path control)
     then normalize_logical physical_path
     else let rel = (case path_strip_prefix physical_path (physical_base control) of
                       Some r \<Rightarrow> r | None \<Rightarrow> physical_path)
       in normalize_logical (''/'' @ trim_start CHR ''/'' rel))"

section \<open>What the filter prunes\<close>

lemma zip_take_long: "length xs \<le> n \<Longrightarrow> zip (take n ps) xs = zip ps xs"
proof (induction xs arbitrary: n ps)
  case Nil
  then show ?case by simp
next
  case (Cons x xs)
  then show ?case by (cases n; cases ps) simp_all
qed

lemma all_match_take [simp]: "length xs \<le> n \<Longrightarrow> all_match (take n pats) xs = all_match pats xs"
  by (simp add: all_match_def zip_take_long)

lemma all_match_append:
  "all_match pats (xs @ ys) \<longleftrightarrow> all_match pats xs \<and> all_match (drop (length xs) pats) ys"
  by (simp add: all_match_def zip_append2 zip_take_long)

lemma all_match_Nil [simp]: "all_match [] xs" "all_match pats []"
  by (simp_all add: all_match_def)

lemma subtree_below: "matches_dir_subtree p xs \<Longrightarrow> matches_dir_subtree p (xs @ ys)"
  by (auto simp: matches_dir_subtree_def all_match_append)

lemma subtree_reached:
  "matches_dir_subtree p (xs @ ys) \<Longrightarrow> matches_dir_subtree p xs \<or> can_reach_dir_match p xs"
  by (auto simp: matches_dir_subtree_def can_reach_dir_match_def all_match_append)

lemma reach_dir_above: "can_reach_dir_match p (xs @ ys) \<Longrightarrow> can_reach_dir_match p xs"
  by (auto simp: matches_dir_subtree_def can_reach_dir_match_def all_match_append
      split: if_splits)

lemma reach_file_above: "can_reach_file_match p (xs @ ys) \<Longrightarrow> can_reach_file_match p xs"
  by (auto simp: can_reach_file_match_def all_match_append Let_def split: if_splits)

lemma exact_reached: "matches_exact p (xs @ ys) \<Longrightarrow> ys \<noteq> [] \<Longrightarrow> can_reach_file_match p xs"
  by (cases ys) (auto simp: matches_exact_def can_reach_file_match_def all_match_append Let_def)

lemma excluded_dir_below:
  "matches_excluded_dir f d \<Longrightarrow> prefix (split_logical_path d) (split_logical_path path) \<Longrightarrow>
   matches_excluded_dir f path"
  by (auto simp: matches_excluded_dir_def list_ex_iff prefix_def) (blast intro: subtree_below)

lemma split_logical_normalized: "split_logical_path (normalize_logical s) = norm_parts s"
proof -
  have clean: "\<forall>p \<in> set (norm_parts s). clean_part p" by (rule norm_parts_clean)
  then have ne: "\<forall>p \<in> set (norm_parts s). p \<noteq> [] \<and> CHR ''/'' \<notin> set p"
    by (auto simp: clean_part_def)
  show ?thesis
  proof (cases "norm_parts s")
    case Nil
    then show ?thesis
      by (simp add: split_logical_path_def normalize_logical_def render_def trim_both_def
          trim_start_def trim_end_def)
  next
    case (Cons p ps)
    let ?j = "join_with CHR ''/'' (norm_parts s)"
    have "?j = [] \<or> hd ?j \<noteq> CHR ''/''"
      using ne Cons by (cases p; cases ps) auto
    then have start: "trim_start CHR ''/'' (CHR ''/'' # ?j) = ?j"
      by (simp add: trim_start_id)
    obtain l where l: "norm_parts s = butlast (norm_parts s) @ [l]" "l \<noteq> []" "CHR ''/'' \<notin> set l"
      using ne Cons by (metis append_butlast_last_id last_in_set list.distinct(1))
    have "last ?j = last l"
      using l by (cases "butlast (norm_parts s) = []") (metis append_Nil join_with.simps(2),
        metis join_with_append join_with.simps(2) last_append last_ConsR list.distinct(1))
    then have "last ?j \<noteq> CHR ''/''"
      using l(2,3) last_in_set by metis
    then have "trim_end CHR ''/'' ?j = ?j"
      by (simp add: trim_end_id)
    with start Cons ne show ?thesis
      by (simp add: split_logical_path_def normalize_logical_def render_def trim_both_def split_join
          filter_id_conv)
  qed
qed

section \<open>Properties\<close>

text \<open>
  On a segment pattern with a star, the greedy matching loop decides the usual meaning of the
  pattern: the stars can be replaced by texts so that the pattern becomes the candidate.
\<close>

theorem segment_matches_glob:
  assumes "CHR ''*'' \<in> set raw"
  shows "segment_matches (segment_new raw) candidate = glob raw candidate"
  using assms by (rule segment_matches_starred)

theorem segment_matches_glob_witness:
  "segment_matches (segment_new ''a*b*'') ''axxbb'' \<and> \<not> segment_matches (segment_new ''*.t'') ''a.tb''"
  using segment_matches_glob [of "''a*b*''" "''axxbb''"] segment_matches_glob [of "''*.t''" "''a.tb''"]
  by simp

text \<open>
  A segment pattern without a star does not select its own text only: it matches every candidate
  that begins and ends with the text, such as the text repeated with anything between.
\<close>

theorem segment_plain_matches_repeats:
  assumes "CHR ''*'' \<notin> set raw" and "raw \<noteq> []"
  shows "(segment_matches (segment_new raw) candidate \<longleftrightarrow> prefix raw candidate \<and> suffix raw candidate)
    \<and> segment_matches (segment_new raw) (raw @ mid @ raw)"
  using segment_matches_plain [OF assms] by (auto simp: suffix_def)

theorem segment_plain_matches_repeats_witness:
  "segment_matches (segment_new ''a'') ''aba''"
  using segment_plain_matches_repeats [of "''a''" "[]" "''b''"] by simp

text \<open>
  C40. Pruning is sound: every directory above an entry that the filter lets through is itself listed
  and descended into, so that the scanner reaches the entry.
\<close>

theorem filter_pruning_sound:
  assumes "should_emit_file f path \<or> should_emit_dir f path"
    and "strict_prefix (split_logical_path d) (split_logical_path path)"
  shows "should_descend_dir f d \<and> should_emit_dir f d"
proof -
  from assms(2) obtain ys where ys: "split_logical_path path = split_logical_path d @ ys" "ys \<noteq> []"
    by (auto simp: strict_prefix_def prefix_def)
  have keep: "\<not> matches_excluded_dir f d"
    using assms excluded_dir_below [of f d path]
    by (auto simp: should_emit_file_def should_emit_dir_def strict_prefix_def split: if_splits)
  have "dir_is_included_subtree f d \<or> dir_can_reach_include f d" if "has_includes f"
    using assms(1) that ys(2)
    by (auto simp: should_emit_file_def should_emit_dir_def dir_is_included_subtree_def
        dir_can_reach_include_def file_in_included_dir_subtree_def file_matches_include_def
        matches_file_under_dir_subtree_def list_ex_iff ys(1) split: if_splits
        dest: subtree_reached reach_dir_above reach_file_above exact_reached)
  with keep show ?thesis
    by (simp add: should_descend_dir_def should_emit_dir_def)
qed

definition sample_filter :: scan_path_filter_set where
  "sample_filter = \<lparr>include_dirs = [], include_files = [\<lparr>segments = map segment_new [''dir'', ''*'', ''*.txt'']\<rparr>],
     exclude_dirs = [\<lparr>segments = map segment_new [''dir'', ''tmp'']\<rparr>], exclude_files = [], has_includes = True\<rparr>"

theorem filter_pruning_sound_witness:
  "should_emit_file sample_filter ''/dir/a/1.txt'' \<and> should_descend_dir sample_filter ''/dir/a''"
proof -
  have "should_emit_file sample_filter ''/dir/a/1.txt''"
    by code_simp
  moreover have "strict_prefix (split_logical_path ''/dir/a'') (split_logical_path ''/dir/a/1.txt'')"
    by code_simp
  ultimately show ?thesis
    using filter_pruning_sound [of sample_filter "''/dir/a/1.txt''" "''/dir/a''"] by simp
qed

text \<open>
  An excluded directory takes its whole subtree with it: nothing at or below it is listed, and the
  scanner descends into none of it.
\<close>

theorem filter_excludes_subtree:
  assumes "matches_excluded_dir f d" and "prefix (split_logical_path d) (split_logical_path path)"
  shows "\<not> should_emit_file f path \<and> \<not> should_emit_dir f path \<and> \<not> should_descend_dir f path"
  using excluded_dir_below [OF assms]
  by (simp add: should_emit_file_def should_emit_dir_def should_descend_dir_def)

theorem filter_excludes_subtree_witness:
  "\<not> should_emit_file sample_filter ''/dir/tmp/1.txt''"
proof -
  have "matches_excluded_dir sample_filter ''/dir/tmp''"
    by code_simp
  moreover have "prefix (split_logical_path ''/dir/tmp'') (split_logical_path ''/dir/tmp/1.txt'')"
    by code_simp
  ultimately show ?thesis
    using filter_excludes_subtree [of sample_filter "''/dir/tmp''" "''/dir/tmp/1.txt''"] by simp
qed

lemma compile_pattern_parts: "compile_pattern p = Inr \<lparr>segments = map segment_new (norm_parts p)\<rparr>"
  by (simp add: compile_pattern_def split_logical_normalized normalize_eq_root Let_def)

lemma compile_patterns_parts:
  "compile_patterns ps = Inr (map (\<lambda>p. \<lparr>segments = map segment_new (norm_parts p)\<rparr>) ps)"
  by (induction ps) (simp_all add: compile_pattern_parts)

text \<open>
  Compiling a filter never fails: its error branch is unreachable. There is no filter exactly
  when there are no patterns, and otherwise each pattern is compiled to the segment patterns of its
  normalised components.
\<close>

theorem compile_filter_total:
  "compile_filter inc_dirs inc_files exc_dirs exc_files =
    (if inc_dirs = [] \<and> inc_files = [] \<and> exc_dirs = [] \<and> exc_files = [] then Inr None
     else let pats = map (\<lambda>p. \<lparr>segments = map segment_new (norm_parts p)\<rparr>)
       in Inr (Some \<lparr>include_dirs = pats inc_dirs, include_files = pats inc_files,
                     exclude_dirs = pats exc_dirs, exclude_files = pats exc_files,
                     has_includes = (inc_dirs @ inc_files \<noteq> [])\<rparr>))"
  by (auto simp: compile_filter_def compile_patterns_parts filter_is_empty_def Let_def)

section \<open>The logical path of a scanned file\<close>

text \<open>
  A file below the physical base of a scan gets the logical path that its components below the
  base spell.
\<close>

theorem logical_path_below_base:
  assumes "physical_base control = render base" and "\<forall>p \<in> set (base @ rel). clean_part p"
  shows "logical_path_from_physical control (render (base @ rel)) = render rel"
proof -
  have comps: "path_components (render (base @ rel)) = RootDir # map Normal base @ map Normal rel"
    "path_components (render base) = RootDir # map Normal base"
    using assms(2) path_components_render [of base] path_components_render [of "base @ rel"] by auto
  then have "path_starts_with (render (base @ rel)) (physical_base control)"
    "path_strip_prefix (render (base @ rel)) (physical_base control) = Some (join_with CHR ''/'' rel)"
    by (simp_all add: path_starts_with_def path_strip_prefix_def assms(1) comps_path_Normal)
  moreover have "normalize_logical (CHR ''/'' # trim_start CHR ''/'' (join_with CHR ''/'' rel)) = render rel"
  proof -
    have "norm_parts (join_with CHR ''/'' rel) = rel"
      using norm_parts_render [of rel] assms(2) by (cases "rel = []") (auto simp: render_def)
    then show ?thesis by (simp add: normalize_logical_def)
  qed
  ultimately show ?thesis
    by (simp add: logical_path_from_physical_def)
qed

theorem logical_path_below_base_witness:
  "logical_path_from_physical
     \<lparr>physical_base = ''/mnt/nfs'', source_root_path = ''/ds2'', source_kind_name = ''nfs''\<rparr> ''/mnt/nfs/a/b''
   = ''/a/b''"
  using logical_path_below_base [of "\<lparr>physical_base = ''/mnt/nfs'', source_root_path = ''/ds2'',
      source_kind_name = ''nfs''\<rparr>" "[''mnt'', ''nfs'']" "[''a'', ''b'']"]
  by (simp add: render_def clean_part_def)

end
