(* ===== verification/Files.thy ===== *)
theory Files
  imports RustStr "HOL-Library.AList"
begin

text \<open>
  The files of one directory: names and contents, in the order in which the directory is listed.
  Only what the storage code asks of the file system is here: opening for append creates a missing
  file, appending extends a file, and creating replaces a file by an empty one.
\<close>

type_synonym files = "(string \<times> byte list) list"

definition file_content :: "files \<Rightarrow> string \<Rightarrow> byte list option" where
  "file_content fs name = map_of fs name"

definition file_set :: "files \<Rightarrow> string \<Rightarrow> byte list \<Rightarrow> files" where
  "file_set fs name content = AList.update name content fs"

definition file_open_append :: "files \<Rightarrow> string \<Rightarrow> files" where
  "file_open_append fs name = (if file_content fs name = None then file_set fs name [] else fs)"

definition file_append :: "files \<Rightarrow> string \<Rightarrow> byte list \<Rightarrow> files" where
  "file_append fs name bytes =
    (case file_content fs name of
       Some content \<Rightarrow> file_set fs name (content @ bytes)
     | None \<Rightarrow> file_set fs name bytes)"

lemma file_content_set [simp]:
  "file_content (file_set fs name content) n = (if n = name then Some content else file_content fs n)"
  by (simp add: file_content_def file_set_def update_conv')

lemma file_content_open_append [simp]:
  "file_content (file_open_append fs name) n =
    (if n = name then Some (case file_content fs name of None \<Rightarrow> [] | Some c \<Rightarrow> c) else file_content fs n)"
  by (auto simp: file_open_append_def split: option.splits)

lemma file_content_append [simp]:
  "file_content (file_append fs name bytes) n =
    (if n = name then Some ((case file_content fs name of None \<Rightarrow> [] | Some c \<Rightarrow> c) @ bytes)
     else file_content fs n)"
  by (auto simp: file_append_def split: option.splits)

text \<open>Decimal file numbers keep file names apart.\<close>

lemma nat_str_inj: "nat_str m = nat_str n \<longleftrightarrow> m = n"
  by (metis digits_val_nat_str option.inject)

lemma nat_str_no_char: "\<not> is_digit c \<Longrightarrow> c \<notin> set (nat_str n)"
  using nat_str_digits by blast

end
