(* ===== verification/MetaStorage.thy ===== *)
theory MetaStorage
  imports Files
begin

text \<open>
  \<^verbatim>\<open>scanner/metadata/meta_storage.rs\<close> with the models of \<^verbatim>\<open>filemeta.rs\<close>: the metadata
  of files and directories as tagged records in files that roll over at a size, found again by a
  locator of file number and offset. bincode is a parameter: its printers are total on these types,
  and \<^verbatim>\<open>serialized_size\<close> is the length of what they print. A writer is flushed before its
  files are read.
\<close>

section \<open>Metadata\<close>

record meta_common =
  mc_id :: u64
  mc_mode :: u32
  mc_attr :: u32
  mc_atime :: u32
  mc_ctime :: u32
  mc_mtime :: u32
  mc_devno :: u64
  mc_name :: string
  mc_security_descriptor :: "string option"
  mc_posix_access_acl :: "string option"
  mc_posix_default_acl :: "string option"
  mc_symlink_target_path :: "string option"
  mc_xattributes :: "string option"

record file_meta =
  fm_common :: meta_common
  fm_size :: u64
  fm_links :: u64
  fm_sparse_range :: "(u64 \<times> u64) list option"

record dir_meta =
  dm_common :: meta_common
  dm_path :: string

datatype meta_variant = MetaDir dir_meta | MetaFile file_meta

record meta_bincode =
  enc_dir :: "dir_meta \<Rightarrow> byte list"
  dec_dir :: "byte list \<Rightarrow> dir_meta option"
  enc_file :: "file_meta \<Rightarrow> byte list"
  dec_file :: "byte list \<Rightarrow> file_meta option"

text \<open>What the code relies on of bincode: it parses what it printed for the entry.\<close>

fun round_trips :: "meta_bincode \<Rightarrow> meta_variant \<Rightarrow> bool" where
  "round_trips bc (MetaDir d) = (dec_dir bc (enc_dir bc d) = Some d)"
| "round_trips bc (MetaFile f) = (dec_file bc (enc_file bc f) = Some f)"

text \<open>An operation fails with an I/O error, or panics.\<close>

datatype meta_error = MetaIo io_error | MetaPanic

type_synonym meta_locator = "u32 \<times> u32"

section \<open>File numbers\<close>

definition META_SHARD_BITS :: nat where
  "META_SHARD_BITS = 16"

definition META_SEGMENT_MASK :: u32 where
  "META_SEGMENT_MASK = push_bit META_SHARD_BITS 1 - 1"

definition encode_meta_file_id :: "u16 \<Rightarrow> u16 \<Rightarrow> u32" where
  "encode_meta_file_id writer_shard segment_id =
    or (push_bit META_SHARD_BITS (ucast writer_shard)) (ucast segment_id)"

definition decode_meta_file_id :: "u32 \<Rightarrow> u16 \<times> u16" where
  "decode_meta_file_id file_id =
    (ucast (drop_bit META_SHARD_BITS file_id), ucast (and file_id META_SEGMENT_MASK))"

definition meta_file_name :: "u32 \<Rightarrow> string" where
  "meta_file_name file_id =
    (case decode_meta_file_id file_id of (shard, segment) \<Rightarrow>
       ''meta_'' @ nat_str (unat shard) @ ''_'' @ nat_str (unat segment) @ ''.dat'')"

lemma segment_mask: "META_SEGMENT_MASK = mask 16"
  by (simp add: META_SEGMENT_MASK_def META_SHARD_BITS_def mask_eq_exp_minus_1)

lemma decode_encode_file_id: "decode_meta_file_id (encode_meta_file_id s g) = (s, g)"
  unfolding decode_meta_file_id_def encode_meta_file_id_def segment_mask META_SHARD_BITS_def
  by (intro arg_cong2 [where f = Pair] bit_word_eqI)
    (auto simp: bit_simps dest: bit_imp_le_length)

lemma encode_decode_file_id: "encode_meta_file_id (fst (decode_meta_file_id i)) (snd (decode_meta_file_id i)) = i"
  unfolding decode_meta_file_id_def encode_meta_file_id_def segment_mask META_SHARD_BITS_def
  by (rule bit_word_eqI) (auto simp: bit_simps)

lemma meta_file_name_inj: "meta_file_name i = meta_file_name j \<longleftrightarrow> i = j"
proof
  assume eq: "meta_file_name i = meta_file_name j"
  obtain s g where i: "decode_meta_file_id i = (s, g)" by fastforce
  obtain s' g' where j: "decode_meta_file_id j = (s', g')" by fastforce
  have nd: "CHR ''_'' \<notin> set (nat_str n)" for n
    by (rule nat_str_no_char) (simp add: is_digit_def)
  from eq have "nat_str (unat s) @ CHR ''_'' # nat_str (unat g)
      = nat_str (unat s') @ CHR ''_'' # nat_str (unat g')"
    by (simp add: meta_file_name_def i j)
  then have "split_once CHR ''_'' (nat_str (unat s) @ CHR ''_'' # nat_str (unat g))
      = split_once CHR ''_'' (nat_str (unat s') @ CHR ''_'' # nat_str (unat g'))"
    by (rule arg_cong)
  then have "unat s = unat s'" "unat g = unat g'"
    by (simp_all add: split_once_append nd nat_str_inj)
  then have "s = s'" "g = g'"
    by (auto intro: unsigned_word_eqI)
  with i j show "i = j"
    by (metis encode_decode_file_id)
qed simp

lemma meta_name_segment_inj:
  "meta_file_name (encode_meta_file_id s g) = meta_file_name (encode_meta_file_id s g') \<longleftrightarrow> g = g'"
  unfolding meta_file_name_inj by (metis decode_encode_file_id prod.inject)

section \<open>Writing one file\<close>

record meta_file_writer =
  mw_name :: string
  mw_offset :: u32

definition TAG_DIR :: byte where
  "TAG_DIR = 1"

definition TAG_FILE :: byte where
  "TAG_FILE = 2"

definition meta_writer_open :: "files \<Rightarrow> string \<Rightarrow> files \<times> meta_file_writer" where
  "meta_writer_open fs name = (file_open_append fs name, \<lparr>mw_name = name, mw_offset = 0\<rparr>)"

definition meta_writer_size :: "meta_file_writer \<Rightarrow> u32" where
  "meta_writer_size w = mw_offset w"

definition tlv :: "byte \<Rightarrow> byte list \<Rightarrow> byte list" where
  "tlv tag payload = tag # le_bytes 4 (length payload) @ payload"

definition write_entry ::
  "files \<Rightarrow> meta_file_writer \<Rightarrow> byte \<Rightarrow> byte list \<Rightarrow> meta_error + (files \<times> meta_file_writer)" where
  "write_entry fs w tag payload =
    (let record_size = 1 + 4 + length payload
     in if \<not> record_size \<le> 2 ^ 32 - 1 then Inl MetaPanic
        else Inr (file_append fs (mw_name w) (tlv tag payload),
                  w\<lparr>mw_offset := mw_offset w + of_nat record_size\<rparr>))"

definition writer_write_dirmeta ::
  "meta_bincode \<Rightarrow> files \<Rightarrow> meta_file_writer \<Rightarrow> dir_meta \<Rightarrow>
   meta_error + (files \<times> meta_file_writer) \<times> u32" where
  "writer_write_dirmeta bc fs w d =
    andThen (write_entry fs w TAG_DIR (enc_dir bc d)) (\<lambda>s. Inr (s, mw_offset w))"

definition writer_write_filemeta ::
  "meta_bincode \<Rightarrow> files \<Rightarrow> meta_file_writer \<Rightarrow> file_meta \<Rightarrow>
   meta_error + (files \<times> meta_file_writer) \<times> u32" where
  "writer_write_filemeta bc fs w f =
    andThen (write_entry fs w TAG_FILE (enc_file bc f)) (\<lambda>s. Inr (s, mw_offset w))"

section \<open>The repository writer\<close>

record meta_repo_writer =
  writer_shard :: u16
  max_size :: "u32 option"
  current_writer :: meta_file_writer
  current_segment_id :: u16

definition MAX_FILE_SIZE :: u32 where
  "MAX_FILE_SIZE = 2 * 1024 * 1024 * 1024"

definition current_file_id :: "meta_repo_writer \<Rightarrow> u32" where
  "current_file_id r = encode_meta_file_id (writer_shard r) (current_segment_id r)"

definition meta_repo_new :: "files \<Rightarrow> u16 \<Rightarrow> files \<times> meta_repo_writer" where
  "meta_repo_new fs shard =
    (let (fs, w) = meta_writer_open fs (meta_file_name (encode_meta_file_id shard 0))
     in (fs, \<lparr>writer_shard = shard, max_size = None, current_writer = w, current_segment_id = 0\<rparr>))"

definition set_max_size :: "meta_repo_writer \<Rightarrow> u32 \<Rightarrow> meta_repo_writer" where
  "set_max_size r limit = r\<lparr>max_size := Some limit\<rparr>"

definition check_room :: "files \<Rightarrow> meta_repo_writer \<Rightarrow> u32 \<Rightarrow> files \<times> meta_repo_writer" where
  "check_room fs r needed =
    (let max = (case max_size r of Some m \<Rightarrow> m | None \<Rightarrow> MAX_FILE_SIZE)
     in if max < meta_writer_size (current_writer r) + needed then
          (let r = r\<lparr>current_segment_id := current_segment_id r + 1\<rparr>;
               (fs, w) = meta_writer_open fs (meta_file_name (current_file_id r))
           in (fs, r\<lparr>current_writer := w\<rparr>))
        else (fs, r))"

definition repo_write_dirmeta ::
  "meta_bincode \<Rightarrow> files \<times> meta_repo_writer \<Rightarrow> dir_meta \<Rightarrow>
   meta_error + (files \<times> meta_repo_writer) \<times> meta_locator" where
  "repo_write_dirmeta bc s d =
    (let needed = 1 + 4 + of_nat (length (enc_dir bc d));
         (fs, r) = check_room (fst s) (snd s) needed
     in andThen (writer_write_dirmeta bc fs (current_writer r) d) (\<lambda>((fs, w), offset).
          Inr ((fs, r\<lparr>current_writer := w\<rparr>), (current_file_id r, offset))))"

definition repo_write_filemeta ::
  "meta_bincode \<Rightarrow> files \<times> meta_repo_writer \<Rightarrow> file_meta \<Rightarrow>
   meta_error + (files \<times> meta_repo_writer) \<times> meta_locator" where
  "repo_write_filemeta bc s f =
    (let needed = 1 + 4 + of_nat (length (enc_file bc f));
         (fs, r) = check_room (fst s) (snd s) needed
     in andThen (writer_write_filemeta bc fs (current_writer r) f) (\<lambda>((fs, w), offset).
          Inr ((fs, r\<lparr>current_writer := w\<rparr>), (current_file_id r, offset))))"

section \<open>Reading\<close>

text \<open>\<^verbatim>\<open>MetaFileReader::get_meta\<close> on the content of a file.\<close>

definition file_get_meta :: "meta_bincode \<Rightarrow> byte list \<Rightarrow> u32 \<Rightarrow> meta_error + meta_variant" where
  "file_get_meta bc content offset =
    (let rest = drop (unat offset) content
     in if length rest < 5 then Inl (MetaIo UnexpectedEof)
        else let tag = hd rest; payload_len = le_val (take 4 (drop 1 rest))
          in if length rest - 5 < payload_len then Inl (MetaIo UnexpectedEof)
             else let payload = take payload_len (drop 5 rest)
               in if tag = TAG_DIR then
                    (case dec_dir bc payload of Some d \<Rightarrow> Inr (MetaDir d) | None \<Rightarrow> Inl (MetaIo InvalidData))
                  else if tag = TAG_FILE then
                    (case dec_file bc payload of Some f \<Rightarrow> Inr (MetaFile f) | None \<Rightarrow> Inl (MetaIo InvalidData))
                  else Inl (MetaIo InvalidData))"

definition get_meta :: "meta_bincode \<Rightarrow> files \<Rightarrow> meta_locator \<Rightarrow> meta_error + meta_variant" where
  "get_meta bc fs loc =
    (case file_content fs (meta_file_name (fst loc)) of
       None \<Rightarrow> Inl MetaPanic
     | Some content \<Rightarrow> file_get_meta bc content (snd loc))"

definition get_fmeta :: "meta_bincode \<Rightarrow> files \<Rightarrow> meta_locator \<Rightarrow> meta_error + file_meta" where
  "get_fmeta bc fs loc =
    andThen (get_meta bc fs loc) (\<lambda>v.
      case v of MetaFile f \<Rightarrow> Inr f | _ \<Rightarrow> Inl (MetaIo InvalidData))"

definition get_dmeta :: "meta_bincode \<Rightarrow> files \<Rightarrow> meta_locator \<Rightarrow> meta_error + dir_meta" where
  "get_dmeta bc fs loc =
    andThen (get_meta bc fs loc) (\<lambda>v.
      case v of MetaDir d \<Rightarrow> Inr d | _ \<Rightarrow> Inl (MetaIo InvalidData))"

section \<open>How callers take a failed read\<close>

text \<open>\<^verbatim>\<open>if let Ok(x) = ...\<close> around a metadata read: an I/O error is skipped, a panic is not.\<close>

fun if_ok :: "meta_error + 'a \<Rightarrow> meta_error + 'a option" where
  "if_ok (Inr x) = Inr (Some x)"
| "if_ok (Inl (MetaIo e)) = Inr None"
| "if_ok (Inl MetaPanic) = Inl MetaPanic"

text \<open>\<^verbatim>\<open>?\<close> on an I/O operation in a function that may also panic.\<close>

fun lift_io :: "'a io \<Rightarrow> meta_error + 'a" where
  "lift_io (Inr x) = Inr x"
| "lift_io (Inl e) = Inl (MetaIo e)"

section \<open>Every locator finds its entry\<close>

fun variant_tag :: "meta_variant \<Rightarrow> byte" where
  "variant_tag (MetaDir d) = TAG_DIR"
| "variant_tag (MetaFile f) = TAG_FILE"

fun variant_payload :: "meta_bincode \<Rightarrow> meta_variant \<Rightarrow> byte list" where
  "variant_payload bc (MetaDir d) = enc_dir bc d"
| "variant_payload bc (MetaFile f) = enc_file bc f"

fun repo_write ::
  "meta_bincode \<Rightarrow> files \<times> meta_repo_writer \<Rightarrow> meta_variant \<Rightarrow>
   meta_error + (files \<times> meta_repo_writer) \<times> meta_locator" where
  "repo_write bc s (MetaDir d) = repo_write_dirmeta bc s d"
| "repo_write bc s (MetaFile f) = repo_write_filemeta bc s f"

text \<open>Writing a sequence of entries, collecting their locators.\<close>

fun repo_write_all ::
  "meta_bincode \<Rightarrow> files \<times> meta_repo_writer \<Rightarrow> meta_variant list \<Rightarrow>
   meta_error + (files \<times> meta_repo_writer) \<times> meta_locator list" where
  "repo_write_all bc s [] = Inr (s, [])"
| "repo_write_all bc s (v # vs) =
    andThen (repo_write bc s v) (\<lambda>(s, loc).
    andThen (repo_write_all bc s vs) (\<lambda>(s, locs). Inr (s, loc # locs)))"

lemma repo_write_cases:
  "repo_write bc (fs, r) v =
    (let (fs, r) = check_room fs r (5 + of_nat (length (variant_payload bc v)))
     in andThen (write_entry fs (current_writer r) (variant_tag v) (variant_payload bc v)) (\<lambda>(fs, w).
          Inr ((fs, r\<lparr>current_writer := w\<rparr>), (current_file_id r, mw_offset (current_writer r)))))"
  by (cases v) (simp_all add: repo_write_dirmeta_def repo_write_filemeta_def writer_write_dirmeta_def
      writer_write_filemeta_def andThen_assoc Let_def case_prod_unfold)

lemma file_get_meta_tlv:
  assumes "round_trips bc v" and "length content = unat offset"
    and "length (variant_payload bc v) < 2 ^ 32"
  shows "file_get_meta bc (content @ tlv (variant_tag v) (variant_payload bc v) @ extra) offset = Inr v"
proof -
  have "le_val (take 4 (le_bytes 4 n @ xs)) = n" if "n < 2 ^ 32" for n and xs :: "byte list"
    using that by (simp add: le_val_le_bytes)
  with assms show ?thesis
    by (cases v) (simp_all add: file_get_meta_def tlv_def Let_def TAG_DIR_def
        TAG_FILE_def le_val_le_bytes)
qed

lemma file_get_meta_append:
  assumes "file_get_meta bc content offset = Inr v"
  shows "file_get_meta bc (content @ extra) offset = Inr v"
proof -
  let ?rest = "drop (unat offset) content"
  have len: "5 \<le> length ?rest" and pay: "le_val (take 4 (drop 1 ?rest)) \<le> length ?rest - 5"
    using assms by (auto simp: file_get_meta_def Let_def split: if_splits)
  have d: "drop (unat offset) (content @ extra) = ?rest @ extra"
    using len by simp
  have "?rest \<noteq> []" using len by auto
  then have h: "hd (?rest @ extra) = hd ?rest" by (rule hd_append2)
  have t: "take 4 (drop 1 (?rest @ extra)) = take 4 (drop 1 ?rest)"
    using len by simp
  have p: "take n (drop 5 (?rest @ extra)) = take n (drop 5 ?rest)" if "n \<le> length ?rest - 5" for n
    using that len by simp
  show ?thesis
    using assms len pay unfolding file_get_meta_def d h t Let_def p [OF pay]
    by (auto split: if_splits)
qed

lemma get_meta_mono:
  assumes "get_meta bc fs loc = Inr v"
    and "\<And>name c. file_content fs name = Some c \<Longrightarrow> \<exists>extra. file_content fs' name = Some (c @ extra)"
  shows "get_meta bc fs' loc = Inr v"
proof -
  from assms(1) obtain c where c: "file_content fs (meta_file_name (fst loc)) = Some c"
    and g: "file_get_meta bc c (snd loc) = Inr v"
    by (auto simp: get_meta_def split: option.splits)
  from assms(2) [OF c] obtain extra where "file_content fs' (meta_file_name (fst loc)) = Some (c @ extra)"
    by blast
  with file_get_meta_append [OF g] show ?thesis
    by (simp add: get_meta_def)
qed

text \<open>
  The state of a writer that began in a directory without meta files of its shard: its offset is the
  length of the current file, and the files of later segments do not exist.
\<close>

definition repo_limit :: "meta_repo_writer \<Rightarrow> u32" where
  "repo_limit r = (case max_size r of Some m \<Rightarrow> m | None \<Rightarrow> MAX_FILE_SIZE)"

definition segment_name :: "meta_repo_writer \<Rightarrow> u16 \<Rightarrow> string" where
  "segment_name r g = meta_file_name (encode_meta_file_id (writer_shard r) g)"

definition repo_inv :: "files \<Rightarrow> meta_repo_writer \<Rightarrow> bool" where
  "repo_inv fs r \<longleftrightarrow>
    mw_name (current_writer r) = segment_name r (current_segment_id r)
    \<and> (\<exists>c. file_content fs (mw_name (current_writer r)) = Some c
          \<and> length c = unat (mw_offset (current_writer r)))
    \<and> (\<forall>g. current_segment_id r < g \<longrightarrow> file_content fs (segment_name r g) = None)
    \<and> mw_offset (current_writer r) \<le> repo_limit r"

definition no_meta_files :: "files \<Rightarrow> u16 \<Rightarrow> bool" where
  "no_meta_files fs shard \<longleftrightarrow>
    (\<forall>g. file_content fs (meta_file_name (encode_meta_file_id shard g)) = None)"

lemma repo_inv_new: "no_meta_files fs shard \<Longrightarrow> meta_repo_new fs shard = (fs', r) \<Longrightarrow>
    repo_inv fs' (r\<lparr>max_size := m\<rparr>) \<and> writer_shard r = shard \<and> current_segment_id r = 0"
  by (auto simp: repo_inv_def meta_repo_new_def meta_writer_open_def no_meta_files_def segment_name_def
      meta_name_segment_inj Let_def)

definition extends_files :: "files \<Rightarrow> files \<Rightarrow> bool" where
  "extends_files fs fs' \<longleftrightarrow>
    (\<forall>name c. file_content fs name = Some c \<longrightarrow> (\<exists>extra. file_content fs' name = Some (c @ extra)))"

lemma extends_files_trans: "extends_files a b \<Longrightarrow> extends_files b c \<Longrightarrow> extends_files a c"
  unfolding extends_files_def by (metis append.assoc)

lemma extends_files_open: "extends_files fs (file_open_append fs name)"
  by (auto simp: extends_files_def)

lemma extends_files_append: "extends_files fs (file_append fs name bytes)"
  by (auto simp: extends_files_def)

text \<open>A size that fits is one that \<open>check_room\<close> can add without wrapping.\<close>

lemma check_room_inv:
  assumes inv: "repo_inv fs r" and fits: "unat needed \<le> unat (repo_limit r)"
    and small: "unat (repo_limit r) + unat needed < 2 ^ 32"
    and seg: "unat (current_segment_id r) + 1 < 2 ^ 16"
    and room: "check_room fs r needed = (fs', r')"
  shows "repo_inv fs' r' \<and> extends_files fs fs'
    \<and> unat (mw_offset (current_writer r')) + unat needed \<le> unat (repo_limit r')
    \<and> repo_limit r' = repo_limit r \<and> writer_shard r' = writer_shard r
    \<and> unat (current_segment_id r') \<le> unat (current_segment_id r) + 1"
proof (cases "repo_limit r < mw_offset (current_writer r) + needed")
  case True
  have up: "unat (current_segment_id r + 1) = unat (current_segment_id r) + 1"
    using seg by (simp add: unat_word_ariths)
  then have later: "current_segment_id r < g \<and> current_segment_id r + 1 \<noteq> g" if "current_segment_id r + 1 < g" for g
    using that by (auto simp: word_less_nat_alt)
  have fresh: "file_content fs (segment_name r (current_segment_id r + 1)) = None"
    using inv up by (auto simp: repo_inv_def word_less_nat_alt)
  from True room have r': "r' = r\<lparr>current_segment_id := current_segment_id r + 1,
      current_writer := \<lparr>mw_name = segment_name r (current_segment_id r + 1), mw_offset = 0\<rparr>\<rparr>"
    and fs': "fs' = file_open_append fs (segment_name r (current_segment_id r + 1))"
    by (auto simp: check_room_def repo_limit_def meta_writer_open_def meta_writer_size_def
        current_file_id_def segment_name_def Let_def)
  have lim: "repo_limit r' = repo_limit r" and shard: "writer_shard r' = writer_shard r"
    by (simp_all add: r' repo_limit_def)
  have "repo_inv fs' r'"
    using inv fresh later unfolding repo_inv_def
    by (auto simp: r' fs' segment_name_def meta_name_segment_inj)
  with lim shard fits up show ?thesis
    by (auto simp: r' fs' extends_files_open)
next
  case False
  then have "check_room fs r needed = (fs, r)"
    by (simp add: check_room_def repo_limit_def meta_writer_size_def Let_def)
  with room have eq: "fs' = fs" "r' = r" by simp_all
  have "unat (mw_offset (current_writer r)) \<le> unat (repo_limit r)"
    using inv by (simp add: repo_inv_def word_le_nat_alt)
  then have "unat (mw_offset (current_writer r) + needed)
      = unat (mw_offset (current_writer r)) + unat needed"
    using small by (intro unat_add_lem [THEN iffD1]) simp
  with False have "unat (mw_offset (current_writer r)) + unat needed \<le> unat (repo_limit r)"
    by (simp add: word_less_nat_alt)
  with inv show ?thesis
    by (simp add: eq extends_files_def)
qed

text \<open>The conditions under which an entry can be written: it fits a file, and a segment is left.\<close>

definition entry_fits :: "meta_bincode \<Rightarrow> u32 \<Rightarrow> meta_variant \<Rightarrow> bool" where
  "entry_fits bc limit v \<longleftrightarrow>
    5 + length (variant_payload bc v) \<le> unat limit
    \<and> unat limit + 5 + length (variant_payload bc v) < 2 ^ 32"

lemma repo_write_ok:
  assumes bc: "round_trips bc v" and inv: "repo_inv fs r" and fits: "entry_fits bc (repo_limit r) v"
    and seg: "unat (current_segment_id r) + 1 < 2 ^ 16"
  shows "\<exists>fs' r' loc. repo_write bc (fs, r) v = Inr ((fs', r'), loc) \<and> repo_inv fs' r'
    \<and> extends_files fs fs' \<and> get_meta bc fs' loc = Inr v
    \<and> repo_limit r' = repo_limit r \<and> writer_shard r' = writer_shard r
    \<and> unat (current_segment_id r') \<le> unat (current_segment_id r) + 1"
proof -
  let ?p = "variant_payload bc v"
  let ?needed = "5 + of_nat (length ?p) :: u32"
  have len: "5 + length ?p < 2 ^ 32"
    using fits by (simp add: entry_fits_def)
  have "?needed = of_nat (5 + length ?p)" by simp
  then have needed: "unat ?needed = 5 + length ?p"
    using len by (simp only:) (subst unat_of_nat, simp)
  obtain fs1 r1 where room: "check_room fs r ?needed = (fs1, r1)"
    by fastforce
  from check_room_inv [OF inv _ _ seg room] fits needed have
    inv1: "repo_inv fs1 r1" and ext1: "extends_files fs fs1"
    and fit1: "unat (mw_offset (current_writer r1)) + (5 + length ?p) \<le> unat (repo_limit r1)"
    and same: "repo_limit r1 = repo_limit r" "writer_shard r1 = writer_shard r"
      "unat (current_segment_id r1) \<le> unat (current_segment_id r) + 1"
    by (auto simp: entry_fits_def)
  let ?w = "current_writer r1"
  let ?w' = "?w\<lparr>mw_offset := mw_offset ?w + ?needed\<rparr>"
  let ?fs = "file_append fs1 (mw_name ?w) (tlv (variant_tag v) ?p)"
  let ?r = "r1\<lparr>current_writer := ?w'\<rparr>"
  from inv1 obtain c where c: "file_content fs1 (mw_name ?w) = Some c" "length c = unat (mw_offset ?w)"
    and name: "mw_name ?w = segment_name r1 (current_segment_id r1)"
    by (auto simp: repo_inv_def)
  have wrote: "repo_write bc (fs, r) v = Inr ((?fs, ?r), (current_file_id r1, mw_offset ?w))"
    using len by (simp add: repo_write_cases room write_entry_def Let_def)
  have off: "unat (mw_offset ?w + ?needed) = unat (mw_offset ?w) + (5 + length ?p)"
  proof -
    have "unat (mw_offset ?w) + unat ?needed < 2 ^ 32"
      using fit1 fits same(1) needed by (simp add: entry_fits_def)
    then have "unat (mw_offset ?w + ?needed) = unat (mw_offset ?w) + unat ?needed"
      by (intro unat_add_lem [THEN iffD1]) simp
    then show ?thesis
      by (simp only: needed)
  qed
  have "get_meta bc ?fs (current_file_id r1, mw_offset ?w) = Inr v"
    using file_get_meta_tlv [OF bc c(2), of "[]"] c(1) name len
    by (simp add: get_meta_def current_file_id_def segment_name_def)
  moreover have "repo_inv ?fs ?r"
    using inv1 c fit1 off len unfolding repo_inv_def
    by (auto simp: repo_limit_def segment_name_def meta_name_segment_inj tlv_def word_le_nat_alt)
  moreover have "extends_files fs ?fs"
    using extends_files_trans [OF ext1 extends_files_append] .
  ultimately show ?thesis
    using wrote same by (auto simp: repo_limit_def)
qed

lemma get_meta_extends: "get_meta bc fs loc = Inr v \<Longrightarrow> extends_files fs fs' \<Longrightarrow> get_meta bc fs' loc = Inr v"
  by (rule get_meta_mono) (auto simp: extends_files_def)

lemma repo_write_all_ok:
  shows "repo_inv fs r \<Longrightarrow> \<forall>v \<in> set vs. round_trips bc v \<and> entry_fits bc (repo_limit r) v \<Longrightarrow>
    unat (current_segment_id r) + length vs < 2 ^ 16 \<Longrightarrow>
    \<exists>fs' r' locs. repo_write_all bc (fs, r) vs = Inr ((fs', r'), locs) \<and> extends_files fs fs'
      \<and> list_all2 (\<lambda>loc v. get_meta bc fs' loc = Inr v) locs vs"
proof (induction vs arbitrary: fs r)
  case Nil
  then show ?case by (simp add: extends_files_def)
next
  case (Cons v vs)
  have seg: "unat (current_segment_id r) + 1 < 2 ^ 16"
    using Cons.prems(3) by simp
  from Cons.prems have "round_trips bc v" "entry_fits bc (repo_limit r) v" by simp_all
  from repo_write_ok [OF this(1) Cons.prems(1) this(2) seg] obtain fs1 r1 loc where
    w: "repo_write bc (fs, r) v = Inr ((fs1, r1), loc)" and inv1: "repo_inv fs1 r1"
    and ext: "extends_files fs fs1" and got: "get_meta bc fs1 loc = Inr v"
    and same: "repo_limit r1 = repo_limit r" "unat (current_segment_id r1) \<le> unat (current_segment_id r) + 1"
    by blast
  from Cons.IH [OF inv1] Cons.prems same obtain fs' r' locs where
    "repo_write_all bc (fs1, r1) vs = Inr ((fs', r'), locs)" "extends_files fs1 fs'"
    "list_all2 (\<lambda>loc v. get_meta bc fs' loc = Inr v) locs vs"
    by auto
  with w ext got show ?case
    by (auto intro: extends_files_trans get_meta_extends)
qed

section \<open>Properties\<close>

text \<open>
  In a directory without metadata files of its shard, a repository writer accepts every sequence
  of entries that fit its files, rolling over to new files as they fill up, and afterwards every
  locator it returned finds exactly the entry it was returned for.
\<close>

theorem meta_repo_roundtrip:
  assumes "no_meta_files fs shard" and "meta_repo_new fs shard = (fs0, r)"
    and "\<forall>v \<in> set vs. round_trips bc v \<and> entry_fits bc limit v" and "length vs < 2 ^ 16"
  shows "\<exists>fs' r' locs. repo_write_all bc (fs0, set_max_size r limit) vs = Inr ((fs', r'), locs)
    \<and> list_all2 (\<lambda>loc v. get_meta bc fs' loc = Inr v) locs vs"
proof -
  let ?r = "set_max_size r limit"
  from repo_inv_new [OF assms(1,2), of "Some limit"] have inv: "repo_inv fs0 ?r"
    and "current_segment_id ?r = 0"
    by (simp_all add: set_max_size_def)
  moreover have "repo_limit ?r = limit"
    by (simp add: set_max_size_def repo_limit_def)
  ultimately show ?thesis
    using repo_write_all_ok [OF inv, of vs] assms(3,4) by fastforce
qed

text \<open>
  The packing of a metadata file number is a bijection: shard and segment come back unchanged, and
  every number is the packing of its two halves, so that no two files share a name.
\<close>

theorem meta_file_id_roundtrip:
  "decode_meta_file_id (encode_meta_file_id shard segment) = (shard, segment)
   \<and> encode_meta_file_id (fst (decode_meta_file_id i)) (snd (decode_meta_file_id i)) = i
   \<and> (meta_file_name i = meta_file_name j) = (i = j)"
  by (simp add: decode_encode_file_id encode_decode_file_id meta_file_name_inj)

text \<open>
  Opening an existing metadata file for appending does not continue its offsets: the first entry
  written to a file that already holds an entry gets the locator of that older entry, under which
  the older entry is read.
\<close>

theorem meta_writer_reopen_offset:
  assumes "round_trips bc old"
    and "file_content fs (meta_file_name i) = Some (tlv (variant_tag old) (variant_payload bc old) @ rest)"
    and "length (variant_payload bc old) < 2 ^ 32"
    and "meta_writer_open fs (meta_file_name i) = (fs1, w)"
    and "writer_write_filemeta bc fs1 w new = Inr ((fs2, w'), offset)"
  shows "offset = 0 \<and> get_meta bc fs2 (i, offset) = Inr old"
proof -
  have w: "w = \<lparr>mw_name = meta_file_name i, mw_offset = 0\<rparr>"
    and c1: "file_content fs1 (meta_file_name i) = file_content fs (meta_file_name i)"
    using assms(2,4) by (auto simp: meta_writer_open_def)
  have off: "offset = 0"
    and fs2: "fs2 = file_append fs1 (meta_file_name i) (tlv TAG_FILE (enc_file bc new))"
    using assms(5) by (auto simp: writer_write_filemeta_def andThen_Inr_iff write_entry_def w Let_def
        split: if_splits)
  have "file_get_meta bc ([] @ tlv (variant_tag old) (variant_payload bc old)
      @ rest @ tlv TAG_FILE (enc_file bc new)) 0 = Inr old"
    by (rule file_get_meta_tlv) (use assms(1,3) in simp_all)
  with assms(2) c1 fs2 off show ?thesis
    by (simp add: get_meta_def)
qed

text \<open>A printer that is enough for directories told apart by their path and files by their name.\<close>

definition sample_common :: "string \<Rightarrow> meta_common" where
  "sample_common name =
    \<lparr>mc_id = 0, mc_mode = 0, mc_attr = 0, mc_atime = 0, mc_ctime = 0, mc_mtime = 0, mc_devno = 0,
     mc_name = name, mc_security_descriptor = None, mc_posix_access_acl = None,
     mc_posix_default_acl = None, mc_symlink_target_path = None, mc_xattributes = None\<rparr>"

definition sample_dir :: "string \<Rightarrow> dir_meta" where
  "sample_dir path = \<lparr>dm_common = sample_common [], dm_path = path\<rparr>"

definition sample_file :: "string \<Rightarrow> file_meta" where
  "sample_file name = \<lparr>fm_common = sample_common name, fm_size = 0, fm_links = 1, fm_sparse_range = None\<rparr>"

definition sample_bincode :: meta_bincode where
  "sample_bincode =
    \<lparr>enc_dir = \<lambda>d. str_bytes (dm_path d), dec_dir = \<lambda>bs. Some (sample_dir (bytes_str bs)),
     enc_file = \<lambda>f. str_bytes (mc_name (fm_common f)), dec_file = \<lambda>bs. Some (sample_file (bytes_str bs))\<rparr>"

lemma sample_round_trips:
  "round_trips sample_bincode (MetaDir (sample_dir p))" "round_trips sample_bincode (MetaFile (sample_file n))"
  by (simp_all add: sample_bincode_def sample_dir_def sample_file_def sample_common_def)

theorem meta_repo_roundtrip_witness:
  "\<exists>fs' r' locs. repo_write_all sample_bincode
      (fst (meta_repo_new [] 3), set_max_size (snd (meta_repo_new [] 3)) 12)
      [MetaDir (sample_dir ''/a''), MetaFile (sample_file ''b.txt'')] = Inr ((fs', r'), locs)
    \<and> list_all2 (\<lambda>loc v. get_meta sample_bincode fs' loc = Inr v) locs
        [MetaDir (sample_dir ''/a''), MetaFile (sample_file ''b.txt'')]"
proof (rule meta_repo_roundtrip)
  show "no_meta_files [] 3"
    by (simp add: no_meta_files_def file_content_def)
  show "meta_repo_new [] 3 = (fst (meta_repo_new [] 3), snd (meta_repo_new [] 3))"
    by simp
  show "\<forall>v \<in> set [MetaDir (sample_dir ''/a''), MetaFile (sample_file ''b.txt'')].
      round_trips sample_bincode v \<and> entry_fits sample_bincode 12 v"
    using sample_round_trips(1) [of "''/a''"] sample_round_trips(2) [of "''b.txt''"]
    by (simp add: entry_fits_def sample_bincode_def sample_dir_def sample_file_def sample_common_def)
qed simp

theorem meta_writer_reopen_offset_witness:
  "\<exists>fs2 w' offset. writer_write_filemeta sample_bincode
       [(meta_file_name 0, tlv TAG_DIR (enc_dir sample_bincode (sample_dir ''/a'')))]
       \<lparr>mw_name = meta_file_name 0, mw_offset = 0\<rparr> (sample_file ''b.txt'') = Inr ((fs2, w'), offset)
     \<and> offset = 0 \<and> get_meta sample_bincode fs2 (0, offset) = Inr (MetaDir (sample_dir ''/a''))"
proof -
  let ?fs = "[(meta_file_name 0, tlv TAG_DIR (enc_dir sample_bincode (sample_dir ''/a'')))]"
  have c: "file_content ?fs (meta_file_name 0) =
      Some (tlv (variant_tag (MetaDir (sample_dir ''/a'')))
             (variant_payload sample_bincode (MetaDir (sample_dir ''/a''))) @ [])"
    by (simp add: file_content_def)
  have opened: "meta_writer_open ?fs (meta_file_name 0) = (?fs, \<lparr>mw_name = meta_file_name 0, mw_offset = 0\<rparr>)"
    by (simp add: meta_writer_open_def file_open_append_def file_content_def)
  obtain fs2 w' offset where written: "writer_write_filemeta sample_bincode ?fs
      \<lparr>mw_name = meta_file_name 0, mw_offset = 0\<rparr> (sample_file ''b.txt'') = Inr ((fs2, w'), offset)"
    by (simp add: writer_write_filemeta_def write_entry_def sample_bincode_def sample_file_def
        sample_common_def)
  have "length (variant_payload sample_bincode (MetaDir (sample_dir ''/a''))) < 2 ^ 32"
    by (simp add: sample_bincode_def sample_dir_def)
  from meta_writer_reopen_offset [OF sample_round_trips(1) c this opened written] written
  show ?thesis by auto
qed

end
