(* ===== verification/CacheStorage.thy ===== *)
theory CacheStorage
  imports MetaStorage PathUtil
begin

text \<open>
  \<^verbatim>\<open>scanner/metadata/filecache.rs\<close> and \<^verbatim>\<open>cache_storage.rs\<close>: the fixed-size index
  entries of files and directories, written densely one after the other and read by their index.
  The writer and the reader are generic in the entry type: its size, printer and parser (bincode)
  are arguments, as is SHA-256.
\<close>

section \<open>Entries\<close>

record file_cache_entry =
  fce_id :: u64
  fce_hash :: u32
  fce_meta_loc :: meta_locator

record dir_cache_entry =
  dce_id :: u64
  dce_hash :: u32
  dce_meta_loc :: meta_locator
  dce_files_count :: u32
  dce_fcache_fid :: u32
  dce_fcache_offset :: u32

definition FILE_CACHE_SIZE :: nat where
  "FILE_CACHE_SIZE = 20"

definition DIR_CACHE_SIZE :: nat where
  "DIR_CACHE_SIZE = 32"

text \<open>The first four bytes of the digest of the serialised metadata.\<close>

definition digest_hash :: "(byte list \<Rightarrow> byte list) \<Rightarrow> byte list \<Rightarrow> u32" where
  "digest_hash sha256 bytes = of_nat (le_val (take 4 (sha256 bytes)))"

definition file_cache_entry_from :: "(byte list \<Rightarrow> byte list) \<Rightarrow> meta_bincode \<Rightarrow> file_meta \<Rightarrow> file_cache_entry" where
  "file_cache_entry_from sha256 bc f =
    \<lparr>fce_id = mc_id (fm_common f), fce_hash = digest_hash sha256 (enc_file bc f), fce_meta_loc = (0, 0)\<rparr>"

definition dir_cache_entry_from :: "(byte list \<Rightarrow> byte list) \<Rightarrow> meta_bincode \<Rightarrow> dir_meta \<Rightarrow> dir_cache_entry" where
  "dir_cache_entry_from sha256 bc d =
    \<lparr>dce_id = mc_id (dm_common d), dce_hash = digest_hash sha256 (enc_dir bc d), dce_meta_loc = (0, 0),
     dce_files_count = 0, dce_fcache_fid = 0, dce_fcache_offset = 0\<rparr>"

definition file_cache_name :: "u32 \<Rightarrow> string" where
  "file_cache_name fid = ''fcache_'' @ nat_str (unat fid) @ ''.dat''"

definition dir_cache_name :: "u32 \<Rightarrow> string" where
  "dir_cache_name fid = ''dcache_'' @ nat_str (unat fid) @ ''.dat''"

definition file_cache_path :: "string \<Rightarrow> u32 \<Rightarrow> string" where
  "file_cache_path base_dir fid = path_join base_dir (file_cache_name fid)"

definition dir_cache_path :: "string \<Rightarrow> u32 \<Rightarrow> string" where
  "dir_cache_path base_dir fid = path_join base_dir (dir_cache_name fid)"

section \<open>The writer\<close>

record 'a fixed_codec =
  fixed_size :: nat
  fixed_enc :: "'a \<Rightarrow> byte list io"
  fixed_dec :: "byte list \<Rightarrow> 'a option"

record bin_writer =
  bw_name :: string
  bw_index :: u32
  bw_offset :: u32

definition bin_writer_open :: "'a fixed_codec \<Rightarrow> files \<Rightarrow> string \<Rightarrow> (files \<times> bin_writer) io" where
  "bin_writer_open cd fs name =
    (let fs = file_open_append fs name;
         file_size = length (the (file_content fs name))
     in if file_size mod fixed_size cd \<noteq> 0 then Inl InvalidData
        else Inr (fs, \<lparr>bw_name = name, bw_index = of_nat (file_size div fixed_size cd),
                       bw_offset = of_nat file_size\<rparr>))"

definition bin_write ::
  "'a fixed_codec \<Rightarrow> files \<times> bin_writer \<Rightarrow> 'a \<Rightarrow> ((files \<times> bin_writer) \<times> u32) io" where
  "bin_write cd s item =
    (let (fs, w) = s
     in andThen (fixed_enc cd item) (\<lambda>buffer.
          if length buffer \<noteq> fixed_size cd then Inl InvalidData
          else Inr ((file_append fs (bw_name w) buffer,
                     w\<lparr>bw_offset := bw_offset w + of_nat (fixed_size cd), bw_index := bw_index w + 1\<rparr>),
                    bw_index w)))"

definition bin_current :: "bin_writer \<Rightarrow> u32 \<times> u32" where
  "bin_current w = (bw_index w, bw_offset w)"

section \<open>The random reader and the iterator\<close>

text \<open>An open reader: the content of its file, and the size it had when it was opened.\<close>

record bin_reader =
  br_content :: "byte list"
  br_size :: nat

definition bin_reader_open :: "files \<Rightarrow> string \<Rightarrow> bin_reader io" where
  "bin_reader_open fs name =
    (case file_content fs name of
       None \<Rightarrow> Inl NotFound
     | Some c \<Rightarrow> Inr \<lparr>br_content = c, br_size = length c\<rparr>)"

definition read_object :: "'a fixed_codec \<Rightarrow> bin_reader \<Rightarrow> u32 \<Rightarrow> 'a io" where
  "read_object cd r index =
    (let offset = unat index * fixed_size cd
     in if offset \<ge> br_size r then Inl InvalidData
        else let payload = take (fixed_size cd) (drop offset (br_content r))
          in if length payload < fixed_size cd then Inl UnexpectedEof
             else (case fixed_dec cd payload of Some x \<Rightarrow> Inr x | None \<Rightarrow> Inl InvalidData))"

definition total_count :: "'a fixed_codec \<Rightarrow> bin_reader \<Rightarrow> u32" where
  "total_count cd r = of_nat (br_size r div fixed_size cd)"

record bin_iterator =
  it_index :: u32
  it_total_count :: u32
  it_reader :: bin_reader

definition bin_iterator_new :: "bin_reader \<Rightarrow> u32 \<Rightarrow> bin_iterator" where
  "bin_iterator_new r count = \<lparr>it_index = 0, it_total_count = count, it_reader = r\<rparr>"

definition bin_iterator_next :: "'a fixed_codec \<Rightarrow> bin_iterator \<Rightarrow> 'a option \<times> bin_iterator" where
  "bin_iterator_next cd it =
    (if it_total_count it = 0 then (None, it)
     else case read_object cd (it_reader it) (it_index it) of
       Inr item \<Rightarrow> (Some item, it\<lparr>it_index := it_index it + 1, it_total_count := it_total_count it - 1\<rparr>)
     | Inl _ \<Rightarrow> (None, it))"

lemma bin_iterator_next_less:
  assumes "bin_iterator_next cd it = (Some x, it')"
  shows "unat (it_total_count it') < unat (it_total_count it)"
proof -
  from assms have "it_total_count it' = it_total_count it - 1" and nz: "it_total_count it \<noteq> 0"
    by (auto simp: bin_iterator_next_def split: if_splits sum.splits)
  then show ?thesis
    using unat_gt_0 [of "it_total_count it"] by (simp add: unat_minus_one)
qed

text \<open>All items of an iterator: each lowers the count, so the iteration ends.\<close>

function bin_items :: "'a fixed_codec \<Rightarrow> bin_iterator \<Rightarrow> 'a list" where
  "bin_items cd it =
    (case bin_iterator_next cd it of
       (None, _) \<Rightarrow> []
     | (Some x, it') \<Rightarrow> x # bin_items cd it')"
  by pat_completeness auto
termination
  by (relation "measure (\<lambda>(cd, it). unat (it_total_count it))")
    (auto dest!: sym [of "(Some _, _)"] bin_iterator_next_less)

declare bin_items.simps [simp del]

section \<open>Written entries are found by their index\<close>

text \<open>What the code relies on of bincode for an entry type: the printed size, and parsing.\<close>

definition codec_ok :: "'a fixed_codec \<Rightarrow> 'a \<Rightarrow> bool" where
  "codec_ok cd x \<longleftrightarrow> 0 < fixed_size cd \<and>
    (\<exists>bs. fixed_enc cd x = Inr bs \<and> length bs = fixed_size cd \<and> fixed_dec cd bs = Some x)"

fun bin_write_all ::
  "'a fixed_codec \<Rightarrow> files \<times> bin_writer \<Rightarrow> 'a list \<Rightarrow> ((files \<times> bin_writer) \<times> u32 list) io" where
  "bin_write_all cd s [] = Inr (s, [])"
| "bin_write_all cd s (x # xs) =
    andThen (bin_write cd s x) (\<lambda>(s, i). andThen (bin_write_all cd s xs) (\<lambda>(s, is). Inr (s, i # is)))"

text \<open>A file that holds the items \<open>xs\<close>.\<close>

definition holds_items :: "'a fixed_codec \<Rightarrow> byte list \<Rightarrow> 'a list \<Rightarrow> bool" where
  "holds_items cd content xs \<longleftrightarrow>
    length content = length xs * fixed_size cd
    \<and> (\<forall>i < length xs. fixed_dec cd (take (fixed_size cd) (drop (i * fixed_size cd) content)) = Some (xs ! i))"

lemma holds_items_append:
  assumes "holds_items cd content xs" and "length bs = fixed_size cd" and "fixed_dec cd bs = Some x"
  shows "holds_items cd (content @ bs) (xs @ [x])"
proof -
  have inner: "take (fixed_size cd) (drop (i * fixed_size cd) (content @ bs))
      = take (fixed_size cd) (drop (i * fixed_size cd) content)" if "i < length xs" for i
  proof -
    have "(i + 1) * fixed_size cd \<le> length xs * fixed_size cd"
      using that by (intro mult_le_mono1) simp
    then show ?thesis
      using assms(1) by (simp add: holds_items_def algebra_simps)
  qed
  have len: "length content = length xs * fixed_size cd"
    using assms(1) by (simp add: holds_items_def)
  have "fixed_dec cd (take (fixed_size cd) (drop (i * fixed_size cd) (content @ bs))) = Some ((xs @ [x]) ! i)"
    if "i < length (xs @ [x])" for i
  proof (cases "i < length xs")
    case True
    with assms(1) show ?thesis
      unfolding inner [OF True] by (simp add: holds_items_def nth_append)
  next
    case False
    with that have "i = length xs" by simp
    with assms(2,3) show ?thesis by (simp add: len)
  qed
  then show ?thesis
    using len assms(2) by (simp add: holds_items_def)
qed

lemma read_object_held:
  assumes "holds_items cd content xs" and "0 < fixed_size cd" and "unat i < length xs"
  shows "read_object cd \<lparr>br_content = content, br_size = length content\<rparr> i = Inr (xs ! unat i)"
proof -
  have "(unat i + 1) * fixed_size cd \<le> length xs * fixed_size cd"
    using assms(3) by (intro mult_le_mono1) simp
  then have "unat i * fixed_size cd + fixed_size cd \<le> length content"
    using assms(1) by (simp add: holds_items_def algebra_simps)
  with assms show ?thesis
    by (simp add: read_object_def holds_items_def Let_def)
qed

lemma bin_write_all_ok:
  assumes "holds_items cd c xs" and "file_content fs (bw_name w) = Some c"
    and "bw_index w = of_nat (length xs)" and "\<forall>x \<in> set ys. codec_ok cd x"
  shows "\<exists>fs' w' is c'. bin_write_all cd (fs, w) ys = Inr ((fs', w'), is)
    \<and> file_content fs' (bw_name w) = Some c' \<and> holds_items cd c' (xs @ ys)
    \<and> is = map (\<lambda>k. of_nat (length xs + k)) [0..<length ys]"
  using assms
proof (induction ys arbitrary: fs w c xs)
  case Nil
  then show ?case by auto
next
  case (Cons y ys)
  from Cons.prems(4) obtain bs where bs: "fixed_enc cd y = Inr bs" "length bs = fixed_size cd"
      "fixed_dec cd bs = Some y"
    by (auto simp: codec_ok_def)
  let ?fs = "file_append fs (bw_name w) bs"
  let ?w = "w\<lparr>bw_offset := bw_offset w + of_nat (fixed_size cd), bw_index := bw_index w + 1\<rparr>"
  have step: "bin_write cd (fs, w) y = Inr ((?fs, ?w), bw_index w)"
    using bs by (simp add: bin_write_def)
  have "\<exists>fs' w' is c'. bin_write_all cd (?fs, ?w) ys = Inr ((fs', w'), is)
    \<and> file_content fs' (bw_name ?w) = Some c' \<and> holds_items cd c' ((xs @ [y]) @ ys)
    \<and> is = map (\<lambda>k. of_nat (length (xs @ [y]) + k)) [0..<length ys]"
    using Cons.prems bs by (intro Cons.IH [of "c @ bs"]) (auto intro: holds_items_append)
  then obtain fs' w' ks c' where rest: "bin_write_all cd (?fs, ?w) ys = Inr ((fs', w'), ks)"
    "file_content fs' (bw_name w) = Some c'" "holds_items cd c' (xs @ y # ys)"
    "ks = map (\<lambda>k. of_nat (length xs + Suc k)) [0..<length ys]"
    by auto
  have "map (\<lambda>k. of_nat (length xs + k)) [0..<length (y # ys)]
      = of_nat (length xs) # (map (\<lambda>k. of_nat (length xs + Suc k)) [0..<length ys] :: u32 list)"
    by (simp only: length_Cons map_upt_Suc) simp
  with step rest Cons.prems(3) show ?case by simp
qed

text \<open>The iterator over a file that holds \<open>xs\<close> lists \<open>xs\<close>.\<close>

lemma bin_items_held:
  assumes "holds_items cd c xs" and "0 < fixed_size cd" and "k \<le> length xs" and "length xs < 2 ^ 32"
  shows "bin_items cd \<lparr>it_index = of_nat k, it_total_count = of_nat (length xs - k),
      it_reader = \<lparr>br_content = c, br_size = length c\<rparr>\<rparr> = drop k xs"
  using assms(3)
proof (induction "length xs - k" arbitrary: k)
  case 0
  then show ?case by (subst bin_items.simps) (simp add: bin_iterator_next_def)
next
  case (Suc n)
  then have k: "k < length xs" by simp
  have nz: "(of_nat (length xs - k) :: u32) \<noteq> 0"
  proof
    assume "(of_nat (length xs - k) :: u32) = 0"
    then have "unat (of_nat (length xs - k) :: u32) = 0" by simp
    moreover have "unat (of_nat (length xs - k) :: u32) = length xs - k"
      using assms(4) by (subst unat_of_nat) simp
    ultimately show False using k by simp
  qed
  have uk: "unat (of_nat k :: u32) = k"
    using k assms(4) by (simp add: unat_of_nat)
  have less: "(of_nat (length xs - k) :: u32) - 1 = of_nat (length xs - Suc k)"
    using k by (simp add: of_nat_diff)
  have "read_object cd \<lparr>br_content = c, br_size = length c\<rparr> (of_nat k) = Inr (xs ! k)"
    using read_object_held [OF assms(1,2), of "of_nat k"] uk k by simp
  then have next_item: "bin_iterator_next cd \<lparr>it_index = of_nat k, it_total_count = of_nat (length xs - k),
      it_reader = \<lparr>br_content = c, br_size = length c\<rparr>\<rparr>
    = (Some (xs ! k), \<lparr>it_index = of_nat (Suc k), it_total_count = of_nat (length xs - Suc k),
        it_reader = \<lparr>br_content = c, br_size = length c\<rparr>\<rparr>)"
    using nz less by (simp add: bin_iterator_next_def add.commute)
  have "n = length xs - Suc k" "Suc k \<le> length xs"
    using Suc.hyps(2) k by simp_all
  from Suc.hyps(1) [OF this] next_item k show ?case
    by (subst bin_items.simps) (simp add: Cons_nth_drop_Suc)
qed

section \<open>The repository reader\<close>

text \<open>
  \<^verbatim>\<open>CacheRepoReader\<close> on a file system of full paths. A reader that was opened before is kept,
  which changes nothing for files that no longer change; \<^verbatim>\<open>expect\<close> panics when the file
  cannot be opened.
\<close>

type_synonym file_system = "string \<Rightarrow> byte list option"

definition fcache_reader_new :: "file_system \<Rightarrow> string \<Rightarrow> u32 \<Rightarrow> bin_reader io" where
  "fcache_reader_new fs base_dir fid =
    (case fs (file_cache_path base_dir fid) of
       None \<Rightarrow> Inl NotFound
     | Some c \<Rightarrow> Inr \<lparr>br_content = c, br_size = length c\<rparr>)"

definition dcache_reader_new :: "file_system \<Rightarrow> string \<Rightarrow> u32 \<Rightarrow> bin_reader io" where
  "dcache_reader_new fs base_dir fid =
    (case fs (dir_cache_path base_dir fid) of
       None \<Rightarrow> Inl NotFound
     | Some c \<Rightarrow> Inr \<lparr>br_content = c, br_size = length c\<rparr>)"

definition read_fcache ::
  "file_cache_entry fixed_codec \<Rightarrow> file_system \<Rightarrow> string \<Rightarrow> u32 \<Rightarrow> u32 \<Rightarrow> meta_error + file_cache_entry" where
  "read_fcache cd fs base_dir fid index =
    (let path = file_cache_path base_dir fid
     in case fcache_reader_new fs path fid of
          Inl _ \<Rightarrow> Inl MetaPanic
        | Inr r \<Rightarrow> (case read_object cd r index of Inl e \<Rightarrow> Inl (MetaIo e) | Inr x \<Rightarrow> Inr x))"

definition read_dcache ::
  "dir_cache_entry fixed_codec \<Rightarrow> file_system \<Rightarrow> string \<Rightarrow> u32 \<Rightarrow> u32 \<Rightarrow> meta_error + dir_cache_entry" where
  "read_dcache cd fs base_dir fid index =
    (let path = dir_cache_path base_dir fid
     in case dcache_reader_new fs path fid of
          Inl _ \<Rightarrow> Inl MetaPanic
        | Inr r \<Rightarrow> (case read_object cd r index of Inl e \<Rightarrow> Inl (MetaIo e) | Inr x \<Rightarrow> Inr x))"

section \<open>Properties\<close>

text \<open>
  Entries appended to a cache file, new or already holding entries, are each found under the index
  that writing returned, the indices count on from the entries already there, and iterating over
  the file lists the old entries and then the new ones.
\<close>

theorem cache_file_roundtrip:
  assumes "file_content fs name = None \<and> xs = [] \<or>
      (\<exists>c. file_content fs name = Some c \<and> holds_items cd c xs)"
    and "0 < fixed_size cd" and "\<forall>y \<in> set ys. codec_ok cd y" and "length (xs @ ys) < 2 ^ 32"
  shows "\<exists>fs1 w fs2 w' r. bin_writer_open cd fs name = Inr (fs1, w)
    \<and> bin_write_all cd (fs1, w) ys = Inr ((fs2, w'), map (\<lambda>k. of_nat (length xs + k)) [0..<length ys])
    \<and> bin_reader_open fs2 name = Inr r
    \<and> map (read_object cd r) (map of_nat [0..<length (xs @ ys)]) = map Inr (xs @ ys)
    \<and> bin_items cd (bin_iterator_new r (total_count cd r)) = xs @ ys"
proof -
  define c where "c = (case file_content fs name of None \<Rightarrow> [] | Some c \<Rightarrow> c)"
  have held: "holds_items cd c xs"
    using assms(1) by (auto simp: c_def holds_items_def)
  let ?fs1 = "file_open_append fs name"
  let ?w = "\<lparr>bw_name = name, bw_index = of_nat (length xs), bw_offset = of_nat (length c)\<rparr>"
  have len: "length c = length xs * fixed_size cd"
    using held by (simp add: holds_items_def)
  have opened: "bin_writer_open cd fs name = Inr (?fs1, ?w)"
    using len assms(2) by (simp add: bin_writer_open_def c_def [symmetric] Let_def)
  have "file_content ?fs1 (bw_name ?w) = Some c"
    by (simp add: c_def)
  from bin_write_all_ok [OF held this _ assms(3)] obtain fs2 w' c' where
    wrote: "bin_write_all cd (?fs1, ?w) ys = Inr ((fs2, w'), map (\<lambda>k. of_nat (length xs + k)) [0..<length ys])"
    and c': "file_content fs2 name = Some c'" and held': "holds_items cd c' (xs @ ys)"
    by auto
  let ?r = "\<lparr>br_content = c', br_size = length c'\<rparr>"
  have "read_object cd ?r (of_nat k) = Inr ((xs @ ys) ! k)" if "k < length (xs @ ys)" for k
  proof -
    have "unat (of_nat k :: u32) = k"
      using that assms(4) by (subst unat_of_nat) simp
    with read_object_held [OF held' assms(2), of "of_nat k"] that show ?thesis by simp
  qed
  then have reads: "map (read_object cd ?r) (map of_nat [0..<length (xs @ ys)]) = map Inr (xs @ ys)"
    by (intro nth_equalityI) (simp_all del: map_append)
  have "length c' = length (xs @ ys) * fixed_size cd"
    using held' by (simp add: holds_items_def)
  then have "total_count cd ?r = of_nat (length (xs @ ys))"
    using assms(2) by (simp add: total_count_def)
  then have "bin_items cd (bin_iterator_new ?r (total_count cd ?r)) = xs @ ys"
    using bin_items_held [OF held' assms(2) _ assms(4), of 0] by (simp add: bin_iterator_new_def)
  with opened wrote c' reads show ?thesis
    by (intro exI [of _ ?fs1] exI [of _ ?w] exI [of _ fs2] exI [of _ w'] exI [of _ ?r])
      (simp add: bin_reader_open_def)
qed

definition byte_codec :: "u32 fixed_codec" where
  "byte_codec = \<lparr>fixed_size = 4, fixed_enc = \<lambda>v. Inr (le_bytes 4 (unat v)),
     fixed_dec = \<lambda>bs. if length bs = 4 then Some (of_nat (le_val bs)) else None\<rparr>"

theorem cache_file_roundtrip_witness:
  "\<exists>fs1 w fs2 w' r. bin_writer_open byte_codec [] ''fcache_0.dat'' = Inr (fs1, w)
    \<and> bin_write_all byte_codec (fs1, w) [7, 9] = Inr ((fs2, w'), [0, 1])
    \<and> bin_reader_open fs2 ''fcache_0.dat'' = Inr r
    \<and> map (read_object byte_codec r) [0, 1] = [Inr 7, Inr 9]
    \<and> bin_items byte_codec (bin_iterator_new r (total_count byte_codec r)) = [7, 9]"
proof -
  have "\<forall>y \<in> set [7, 9 :: u32]. codec_ok byte_codec y"
    by (simp add: codec_ok_def byte_codec_def codec_simps)
  with cache_file_roundtrip [of "[]" "''fcache_0.dat''" "[]" byte_codec "[7, 9]"] show ?thesis
    by (simp add: file_content_def byte_codec_def upt_rec)
qed

text \<open>
  The repository reader cannot read any cache file: it appends the file name to the path of the
  file itself, so that it panics for every index of every cache file that exists.
\<close>

theorem read_fcache_panics:
  assumes "\<forall>path rest. fs path \<noteq> None \<longrightarrow> fs (path @ ''/'' @ rest) = None"
    and "fs (file_cache_path base_dir fid) \<noteq> None"
  shows "read_fcache cd fs base_dir fid index = Inl MetaPanic"
proof -
  let ?p = "file_cache_path base_dir fid"
  have no_slash: "\<not> prefix ''/'' (file_cache_name fid)" and dat: "suffix ''.dat'' (file_cache_name fid)"
    by (auto simp: file_cache_name_def suffix_def)
  have "suffix ''.dat'' ?p"
    using no_slash dat by (auto simp: file_cache_path_def path_join_def suffix_def)
  then have "?p \<noteq> [] \<and> last ?p \<noteq> CHR ''/''"
    by (auto simp: suffix_def)
  then have "file_cache_path ?p fid = ?p @ ''/'' @ file_cache_name fid"
    using no_slash by (simp add: file_cache_path_def [of ?p] path_join_def)
  with assms have "fs (file_cache_path ?p fid) = None"
    by metis
  then show ?thesis
    by (simp add: read_fcache_def fcache_reader_new_def)
qed

definition one_cache_file :: file_system where
  "one_cache_file p = (if p = ''/m/fcache_0.dat'' then Some [] else None)"

definition sample_file_codec :: "file_cache_entry fixed_codec" where
  "sample_file_codec = \<lparr>fixed_size = FILE_CACHE_SIZE, fixed_enc = \<lambda>_. Inr (replicate 20 0),
     fixed_dec = \<lambda>_. Some \<lparr>fce_id = 0, fce_hash = 0, fce_meta_loc = (0, 0)\<rparr>\<rparr>"

theorem read_fcache_panics_witness:
  "one_cache_file (file_cache_path ''/m'' 0) \<noteq> None
   \<and> read_fcache sample_file_codec one_cache_file ''/m'' 0 5 = Inl MetaPanic"
proof -
  have "nat_str 0 = ''0''"
    by code_simp
  then have path: "file_cache_path ''/m'' 0 = ''/m/fcache_0.dat''"
    by (simp add: file_cache_path_def path_join_def file_cache_name_def)
  have "\<forall>path rest. one_cache_file path \<noteq> None \<longrightarrow> one_cache_file (path @ ''/'' @ rest) = None"
    by (auto simp: one_cache_file_def)
  moreover have "one_cache_file (file_cache_path ''/m'' 0) \<noteq> None"
    unfolding path by (simp add: one_cache_file_def)
  ultimately show ?thesis
    using read_fcache_panics [of one_cache_file "''/m''" 0 sample_file_codec 5] by blast
qed

end
