(* ===== verification/BTree.thy ===== *)
theory BTree
  imports Prelude "HOL-Library.Char_ord" "HOL-Library.List_Lexorder"
begin

text \<open>
  \<^verbatim>\<open>std::collections::BTreeMap\<close> as the list of its entries in the order of the keys, which is
  the order it is iterated in; the order of strings is the order of their bytes. And the
  \<^verbatim>\<open>for\<close> loop whose body can leave with an error.
\<close>

fun bt_insert :: "'k::linorder \<Rightarrow> 'v \<Rightarrow> ('k \<times> 'v) list \<Rightarrow> ('k \<times> 'v) list" where
  "bt_insert k v [] = [(k, v)]"
| "bt_insert k v ((a, b) # m) =
    (if k < a then (k, v) # (a, b) # m
     else if k = a then (k, v) # m
     else (a, b) # bt_insert k v m)"

text \<open>The invariant of the map: strictly ascending keys.\<close>

definition bt_ok :: "('k::linorder \<times> 'v) list \<Rightarrow> bool" where
  "bt_ok m \<longleftrightarrow> sorted_wrt (<) (map fst m)"

lemma bt_lookup_insert [simp]: "map_of (bt_insert k v m) = (map_of m)(k \<mapsto> v)"
  by (induction k v m rule: bt_insert.induct) (auto simp: fun_upd_twist)

lemma bt_insert_keys: "fst ` set (bt_insert k v m) = insert k (fst ` set m)"
  by (induction k v m rule: bt_insert.induct) auto

lemma bt_ok_Nil [simp]: "bt_ok []"
  by (simp add: bt_ok_def)

lemma bt_ok_insert [simp]: "bt_ok m \<Longrightarrow> bt_ok (bt_insert k v m)"
proof (induction k v m rule: bt_insert.induct)
  case (2 k v a b m)
  show ?case
  proof (cases "k < a \<or> k = a")
    case True
    with "2.prems" show ?thesis by (auto simp: bt_ok_def)
  next
    case False
    then have "bt_ok (bt_insert k v m)"
      using 2 by (simp add: bt_ok_def)
    with False "2.prems" show ?thesis
      using bt_insert_keys [of k v m] by (auto simp: bt_ok_def)
  qed
qed (simp add: bt_ok_def)

lemma bt_ok_distinct: "bt_ok m \<Longrightarrow> distinct (map fst m)"
  unfolding bt_ok_def by (simp add: strict_sorted_iff)

lemma bt_ok_in_set: "bt_ok m \<Longrightarrow> (k, v) \<in> set m \<longleftrightarrow> map_of m k = Some v"
  by (simp add: bt_ok_distinct)

text \<open>A map filled from a list of entries: later entries replace earlier ones.\<close>

definition bt_of :: "('k::linorder \<times> 'v) list \<Rightarrow> ('k \<times> 'v) list" where
  "bt_of xs = fold (\<lambda>(k, v) m. bt_insert k v m) xs []"

lemma bt_ok_fold: "bt_ok m \<Longrightarrow> bt_ok (fold (\<lambda>(k, v) m. bt_insert k v m) xs m)"
  by (induction xs arbitrary: m) auto

lemma bt_ok_of [simp]: "bt_ok (bt_of xs)"
  by (simp add: bt_of_def bt_ok_fold)

lemma bt_fold_lookup:
  "map_of (fold (\<lambda>(k, v) m. bt_insert k v m) xs m) = map_of m ++ map_of (rev xs)"
  by (induction xs arbitrary: m) (auto simp: map_add_upd_left map_add_def split: option.splits)

lemma bt_of_lookup: "map_of (bt_of xs) = map_of (rev xs)"
  by (simp add: bt_of_def bt_fold_lookup)

lemma bt_of_distinct: "distinct (map fst xs) \<Longrightarrow> map_of (bt_of xs) = map_of xs"
  unfolding bt_of_lookup by (rule map_of_eqI) (auto simp: rev_map [symmetric])

lemma set_bt_of: "distinct (map fst xs) \<Longrightarrow> set (bt_of xs) = set xs"
  by (auto simp: bt_ok_in_set [OF bt_ok_of] bt_of_distinct)

section \<open>Loops that can fail\<close>

fun fold_err :: "('a \<Rightarrow> 's \<Rightarrow> 'e + 's) \<Rightarrow> 'a list \<Rightarrow> 's \<Rightarrow> 'e + 's" where
  "fold_err f [] s = Inr s"
| "fold_err f (x # xs) s = andThen (f x s) (fold_err f xs)"

lemma fold_err_append: "fold_err f (xs @ ys) s = andThen (fold_err f xs s) (fold_err f ys)"
proof (induction xs arbitrary: s)
  case (Cons x xs)
  then have "fold_err f (xs @ ys) = (\<lambda>s. andThen (fold_err f xs s) (fold_err f ys))"
    by (intro ext)
  then show ?case by (simp add: andThen_assoc)
qed simp

lemma fold_err_total: "(\<And>x s. x \<in> set xs \<Longrightarrow> f x s = Inr (g x s)) \<Longrightarrow> fold_err f xs s = Inr (fold g xs s)"
  by (induction xs arbitrary: s) simp_all

end
