(* ===== verification/Diff.thy ===== *)
theory Diff
  imports BTree CopyControl DeleteControl CacheStorage
begin

text \<open>
  \<^verbatim>\<open>scanner/metadata/diff.rs\<close>: the incremental diff. The directory caches of the previous
  and of the current scan are merged by inode number, the files of a directory that both have are
  compared by name and hash, and what changed goes to a copy control file and a delete control
  file. A metadata directory is its \<open>files\<close>; the formats of the stored entries, as far as they
  come from bincode and serde_json, are parameters.
\<close>

section \<open>Data\<close>

datatype diff_type = DiffNew | DiffDataModified | DiffMetaModified | DiffBothModified | DiffDeleted

datatype 'a diff_item = LeftOnly 'a | RightOnly 'a | Both 'a 'a

record diff_stats =
  ds_new_dirs :: u64
  ds_modified_dirs :: u64
  ds_deleted_dirs :: u64
  ds_new_files :: u64
  ds_modified_files :: u64
  ds_deleted_files :: u64

definition diff_stats_default :: diff_stats where
  "diff_stats_default =
    \<lparr>ds_new_dirs = 0, ds_modified_dirs = 0, ds_deleted_dirs = 0,
     ds_new_files = 0, ds_modified_files = 0, ds_deleted_files = 0\<rparr>"

record directory_file_diff =
  dfd_file_entries :: "file_control_entry list"
  dfd_delete_entries :: "delete_entry list"
  dfd_new_files :: u64
  dfd_modified_files :: u64
  dfd_deleted_files :: u64

definition has_changes :: "directory_file_diff \<Rightarrow> bool" where
  "has_changes d \<longleftrightarrow> 0 < dfd_new_files d \<or> 0 < dfd_modified_files d \<or> 0 < dfd_deleted_files d"

record incremental_diff =
  prev_dcache :: "(u64 \<times> dir_cache_entry) list"
  curr_dcache :: "(u64 \<times> dir_cache_entry) list"
  curr_meta_files :: files
  prev_meta_files :: "files option"

text \<open>The formats of the stored entries.\<close>

record diff_formats =
  fmt_meta :: meta_bincode
  fmt_dirs :: "dir_cache_entry fixed_codec"
  fmt_files :: "file_cache_entry fixed_codec"

section \<open>Loading the directory caches\<close>

definition load_dcache_file ::
  "diff_formats \<Rightarrow> files \<Rightarrow> string \<Rightarrow> (u64 \<times> dir_cache_entry) list \<Rightarrow> (u64 \<times> dir_cache_entry) list io" where
  "load_dcache_file fm fs name m =
    andThen (bin_reader_open fs name) (\<lambda>r.
      Inr (fold (\<lambda>i m. case read_object (fmt_dirs fm) r (of_nat i) of
                   Inr entry \<Rightarrow> bt_insert (dce_id entry) entry m
                 | Inl _ \<Rightarrow> m)
           [0..<unat (total_count (fmt_dirs fm) r)] m))"

definition load_all_dcache :: "diff_formats \<Rightarrow> files \<Rightarrow> (u64 \<times> dir_cache_entry) list io" where
  "load_all_dcache fm fs =
    fold_err (\<lambda>name m.
        if prefix ''dcache_'' name \<and> suffix ''.dat'' name then load_dcache_file fm fs name m else Inr m)
      (map fst fs) []"

definition from_dirs :: "diff_formats \<Rightarrow> files option \<Rightarrow> files \<Rightarrow> incremental_diff io" where
  "from_dirs fm prev_fs curr_fs =
    andThen (case prev_fs of Some fs \<Rightarrow> load_all_dcache fm fs | None \<Rightarrow> Inr []) (\<lambda>prev_map.
    andThen (load_all_dcache fm curr_fs) (\<lambda>curr_map.
      Inr \<lparr>prev_dcache = prev_map, curr_dcache = curr_map, curr_meta_files = curr_fs,
           prev_meta_files = prev_fs\<rparr>))"

section \<open>The merge\<close>

fun heap_diff :: "('a \<Rightarrow> 'k::linorder) \<Rightarrow> 'a list \<Rightarrow> 'a list \<Rightarrow> 'a diff_item list" where
  "heap_diff key (l # ls) (r # rs) =
    (if key l < key r then LeftOnly l # heap_diff key ls (r # rs)
     else if key r < key l then RightOnly r # heap_diff key (l # ls) rs
     else Both l r # heap_diff key ls rs)"
| "heap_diff key ls [] = map LeftOnly ls"
| "heap_diff key [] rs = map RightOnly rs"

fun diff_sorted_inodes :: "u64 list \<Rightarrow> u64 list \<Rightarrow> (u64 \<times> diff_type) list" where
  "diff_sorted_inodes (p # ps) (c # cs) =
    (if p < c then (p, DiffDeleted) # diff_sorted_inodes ps (c # cs)
     else if c < p then (c, DiffNew) # diff_sorted_inodes (p # ps) cs
     else diff_sorted_inodes ps cs)"
| "diff_sorted_inodes ps [] = map (\<lambda>p. (p, DiffDeleted)) ps"
| "diff_sorted_inodes [] cs = map (\<lambda>c. (c, DiffNew)) cs"

section \<open>The files of a directory\<close>

text \<open>
  The \<open>i\<close>-th entry of a directory whose files start at index \<open>start\<close>, with its name: the two
  nested \<^verbatim>\<open>if let Ok\<close> that both loops over a directory's files have.
\<close>

definition indexed_file ::
  "diff_formats \<Rightarrow> files \<Rightarrow> bin_reader \<Rightarrow> u32 \<Rightarrow> nat \<Rightarrow> meta_error + (string \<times> file_cache_entry) option" where
  "indexed_file fm fs r start i =
    (case read_object (fmt_files fm) r (start + of_nat i) of
       Inl _ \<Rightarrow> Inr None
     | Inr fe \<Rightarrow>
         andThen (if_ok (get_fmeta (fmt_meta fm) fs (fce_meta_loc fe))) (\<lambda>m.
           Inr (map_option (\<lambda>fmeta. (mc_name (fm_common fmeta), fe)) m)))"

definition start_idx :: "dir_cache_entry \<Rightarrow> u32" where
  "start_idx e = dce_fcache_offset e div of_nat FILE_CACHE_SIZE"

definition load_directory_files ::
  "diff_formats \<Rightarrow> incremental_diff \<Rightarrow> dir_cache_entry \<Rightarrow> bool \<Rightarrow> meta_error + (string \<times> file_cache_entry) list" where
  "load_directory_files fm d e is_prev =
    (let fs = (if is_prev then (case prev_meta_files d of Some p \<Rightarrow> p | None \<Rightarrow> curr_meta_files d)
               else curr_meta_files d)
     in case bin_reader_open fs (file_cache_name (dce_fcache_fid e)) of
          Inl _ \<Rightarrow> Inr []
        | Inr r \<Rightarrow>
            fold_err (\<lambda>i result.
                andThen (indexed_file fm fs r (start_idx e) i) (\<lambda>m.
                  Inr (case m of None \<Rightarrow> result | Some (name, fe) \<Rightarrow> bt_insert name fe result)))
              [0..<unat (dce_files_count e)] [])"

definition file_entry :: "string \<Rightarrow> file_diff \<Rightarrow> file_cache_entry \<Rightarrow> file_control_entry" where
  "file_entry name df fe =
    \<lparr>fc_name = name, fc_diff = df, fc_meta_fid = fst (fce_meta_loc fe), fc_meta_offset = snd (fce_meta_loc fe)\<rparr>"

definition diff_prev_file ::
  "string \<Rightarrow> (string \<times> file_cache_entry) list \<Rightarrow> string \<times> file_cache_entry \<Rightarrow> directory_file_diff \<Rightarrow> directory_file_diff" where
  "diff_prev_file dir_path curr_files = (\<lambda>(name, pe) d.
    (case map_of curr_files name of
       Some ce \<Rightarrow>
         if fce_hash pe \<noteq> fce_hash ce
         then d\<lparr>dfd_modified_files := dfd_modified_files d + 1,
                dfd_file_entries := dfd_file_entries d @ [file_entry name FileDataModified ce]\<rparr>
         else d
     | None \<Rightarrow>
         d\<lparr>dfd_deleted_files := dfd_deleted_files d + 1,
           dfd_delete_entries := dfd_delete_entries d
             @ [\<lparr>de_type = DeleteFile, de_path = join_logical dir_path name\<rparr>]\<rparr>))"

definition diff_curr_file ::
  "(string \<times> file_cache_entry) list \<Rightarrow> string \<times> file_cache_entry \<Rightarrow> directory_file_diff \<Rightarrow> directory_file_diff" where
  "diff_curr_file prev_files = (\<lambda>(name, ce) d.
    if map_of prev_files name = None
    then d\<lparr>dfd_new_files := dfd_new_files d + 1,
           dfd_file_entries := dfd_file_entries d @ [file_entry name FileNew ce]\<rparr>
    else d)"

definition compare_files ::
  "string \<Rightarrow> (string \<times> file_cache_entry) list \<Rightarrow> (string \<times> file_cache_entry) list \<Rightarrow> directory_file_diff" where
  "compare_files dir_path prev_files curr_files =
    fold (diff_curr_file prev_files) curr_files
      (fold (diff_prev_file dir_path curr_files) prev_files
        \<lparr>dfd_file_entries = [], dfd_delete_entries = [], dfd_new_files = 0, dfd_modified_files = 0,
         dfd_deleted_files = 0\<rparr>)"

definition diff_directory_files ::
  "diff_formats \<Rightarrow> incremental_diff \<Rightarrow> dir_cache_entry \<Rightarrow> dir_cache_entry \<Rightarrow> string \<Rightarrow>
   meta_error + directory_file_diff" where
  "diff_directory_files fm d prev_entry curr_entry dir_path =
    andThen (load_directory_files fm d prev_entry True) (\<lambda>prev_files.
    andThen (load_directory_files fm d curr_entry False) (\<lambda>curr_files.
      Inr (compare_files dir_path prev_files curr_files)))"

section \<open>The control files\<close>

record diff_run =
  run_copy :: control_writer
  run_delete :: control_writer
  run_stats :: diff_stats

definition write_all_directory_files ::
  "diff_formats \<Rightarrow> incremental_diff \<Rightarrow> dir_cache_entry \<Rightarrow> diff_run \<Rightarrow> meta_error + diff_run" where
  "write_all_directory_files fm d e s =
    (let fs = curr_meta_files d
     in case bin_reader_open fs (file_cache_name (dce_fcache_fid e)) of
          Inl _ \<Rightarrow> Inr s
        | Inr r \<Rightarrow>
            fold_err (\<lambda>i s.
                andThen (indexed_file fm fs r (start_idx e) i) (\<lambda>m.
                  case m of
                    None \<Rightarrow> Inr s
                  | Some (name, fe) \<Rightarrow>
                      let s = s\<lparr>run_stats := (run_stats s)\<lparr>ds_new_files := ds_new_files (run_stats s) + 1\<rparr>\<rparr>
                      in andThen (lift_io (copy_write_file (run_copy s) (file_entry name FileNew fe))) (\<lambda>w.
                           Inr (s\<lparr>run_copy := w\<rparr>))))
              [0..<unat (dce_files_count e)] s)"

text \<open>A delete entry that cannot be written is only logged.\<close>

definition write_delete :: "delete_entry \<Rightarrow> diff_run \<Rightarrow> diff_run" where
  "write_delete entry s =
    (case delete_write_entry (run_delete s) entry of
       Inr w \<Rightarrow> s\<lparr>run_delete := w\<rparr>
     | Inl _ \<Rightarrow> s)"

definition dir_entry :: "string \<Rightarrow> dir_diff \<Rightarrow> dir_cache_entry \<Rightarrow> dir_control_entry" where
  "dir_entry path df e =
    \<lparr>dc_path = path, dc_diff = df, dc_meta_fid = fst (dce_meta_loc e), dc_meta_offset = snd (dce_meta_loc e),
     dc_files_count = dce_files_count e\<rparr>"

definition deleted_dir_step ::
  "diff_formats \<Rightarrow> incremental_diff \<Rightarrow> dir_cache_entry \<Rightarrow> diff_run \<Rightarrow> meta_error + diff_run" where
  "deleted_dir_step fm d prev_entry s =
    (let s = s\<lparr>run_stats := (run_stats s)\<lparr>ds_deleted_dirs := ds_deleted_dirs (run_stats s) + 1\<rparr>\<rparr>
     in case prev_meta_files d of
          None \<Rightarrow> Inr s
        | Some fs \<Rightarrow>
            andThen (if_ok (get_dmeta (fmt_meta fm) fs (dce_meta_loc prev_entry))) (\<lambda>m.
              case m of
                None \<Rightarrow> Inr s
              | Some dmeta \<Rightarrow> Inr (write_delete \<lparr>de_type = DeleteDir, de_path = dm_path dmeta\<rparr> s)))"

definition new_dir_step ::
  "diff_formats \<Rightarrow> incremental_diff \<Rightarrow> dir_cache_entry \<Rightarrow> diff_run \<Rightarrow> meta_error + diff_run" where
  "new_dir_step fm d curr_entry s =
    (let s = s\<lparr>run_stats := (run_stats s)\<lparr>ds_new_dirs := ds_new_dirs (run_stats s) + 1\<rparr>\<rparr>
     in andThen (if_ok (get_dmeta (fmt_meta fm) (curr_meta_files d) (dce_meta_loc curr_entry))) (\<lambda>m.
          case m of
            None \<Rightarrow> Inr s
          | Some dmeta \<Rightarrow>
              andThen (lift_io (copy_write_dir (run_copy s) (dir_entry (dm_path dmeta) DirNew curr_entry))) (\<lambda>w.
                write_all_directory_files fm d curr_entry (s\<lparr>run_copy := w\<rparr>))))"

definition add_file_stats :: "directory_file_diff \<Rightarrow> diff_stats \<Rightarrow> diff_stats" where
  "add_file_stats fd st =
    st\<lparr>ds_new_files := ds_new_files st + dfd_new_files fd,
       ds_modified_files := ds_modified_files st + dfd_modified_files fd,
       ds_deleted_files := ds_deleted_files st + dfd_deleted_files fd\<rparr>"

definition kept_dir_step ::
  "diff_formats \<Rightarrow> incremental_diff \<Rightarrow> dir_cache_entry \<Rightarrow> dir_cache_entry \<Rightarrow> diff_run \<Rightarrow> meta_error + diff_run" where
  "kept_dir_step fm d prev_entry curr_entry s =
    andThen (if_ok (get_dmeta (fmt_meta fm) (curr_meta_files d) (dce_meta_loc curr_entry))) (\<lambda>m.
      case m of
        None \<Rightarrow> Inr s
      | Some dmeta \<Rightarrow>
          andThen (diff_directory_files fm d prev_entry curr_entry (dm_path dmeta)) (\<lambda>fd.
            let dir_meta_changed = (dce_hash prev_entry \<noteq> dce_hash curr_entry
                                    \<or> dce_files_count prev_entry \<noteq> dce_files_count curr_entry)
            in if dir_meta_changed \<or> has_changes fd then
                 let s = s\<lparr>run_stats := (run_stats s)\<lparr>ds_modified_dirs := ds_modified_dirs (run_stats s) + 1\<rparr>\<rparr>
                 in andThen (lift_io (copy_write_dir (run_copy s)
                        (dir_entry (dm_path dmeta) DirMetaModified curr_entry))) (\<lambda>w.
                    andThen (lift_io (fold_err (\<lambda>entry w. copy_write_file w entry) (dfd_file_entries fd) w)) (\<lambda>w.
                      let s = fold write_delete (dfd_delete_entries fd) (s\<lparr>run_copy := w\<rparr>)
                      in Inr (s\<lparr>run_stats := add_file_stats fd (run_stats s)\<rparr>)))
               else Inr s))"

fun diff_step ::
  "diff_formats \<Rightarrow> incremental_diff \<Rightarrow> dir_cache_entry diff_item \<Rightarrow> diff_run \<Rightarrow> meta_error + diff_run" where
  "diff_step fm d (LeftOnly p) s = deleted_dir_step fm d p s"
| "diff_step fm d (RightOnly c) s = new_dir_step fm d c s"
| "diff_step fm d (Both p c) s = kept_dir_step fm d p c s"

text \<open>The result: the copy control file, the delete control file and the statistics.\<close>

definition generate_control_files ::
  "diff_formats \<Rightarrow> json_enc \<Rightarrow> u64 \<Rightarrow> incremental_diff \<Rightarrow> string \<Rightarrow> string \<Rightarrow>
   meta_error + byte list \<times> byte list \<times> diff_stats" where
  "generate_control_files fm enc now d kind root =
    andThen (lift_io (copy_writer_new enc (source_header now kind root))) (\<lambda>cw.
    andThen (lift_io (delete_writer_new enc now kind root)) (\<lambda>dw.
    andThen (fold_err (diff_step fm d)
        (heap_diff dce_id (map snd (prev_dcache d)) (map snd (curr_dcache d)))
        \<lparr>run_copy = cw, run_delete = dw, run_stats = diff_stats_default\<rparr>) (\<lambda>s.
    andThen (lift_io (copy_finish enc (run_copy s))) (\<lambda>copy_file.
    andThen (lift_io (delete_finish enc (run_delete s))) (\<lambda>delete_file.
      Inr (copy_file, delete_file, run_stats s))))))"

definition generate_incremental_control_files ::
  "diff_formats \<Rightarrow> json_enc \<Rightarrow> u64 \<Rightarrow> files option \<Rightarrow> files \<Rightarrow> string \<Rightarrow> string \<Rightarrow>
   meta_error + byte list \<times> byte list \<times> diff_stats" where
  "generate_incremental_control_files fm enc now prev_fs curr_fs kind root =
    andThen (lift_io (from_dirs fm prev_fs curr_fs)) (\<lambda>d.
      generate_control_files fm enc now d kind root)"

section \<open>The merge finds what is on either side\<close>

fun item_key :: "('a \<Rightarrow> 'k) \<Rightarrow> 'a diff_item \<Rightarrow> 'k" where
  "item_key key (LeftOnly x) = key x"
| "item_key key (RightOnly x) = key x"
| "item_key key (Both x y) = key x"

lemma heap_diff_Nil [simp]: "heap_diff key [] rs = map RightOnly rs"
  by (cases rs) simp_all

definition ascending :: "('a \<Rightarrow> 'k::linorder) \<Rightarrow> 'a list \<Rightarrow> bool" where
  "ascending key xs \<longleftrightarrow> sorted_wrt (<) (map key xs)"

lemma ascending_Nil [simp]: "ascending key []"
  by (simp add: ascending_def)

lemma ascending_Cons [simp]:
  "ascending key (x # xs) \<longleftrightarrow> (\<forall>k \<in> key ` set xs. key x < k) \<and> ascending key xs"
  by (auto simp: ascending_def)

lemma heap_diff_keys:
  "d \<in> set (heap_diff key ls rs) \<Longrightarrow> item_key key d \<in> key ` set ls \<union> key ` set rs"
  by (induction key ls rs rule: heap_diff.induct) (auto split: if_splits)

lemma ascending_ConsI:
  "(\<And>y. y \<in> set xs \<Longrightarrow> key x < key y) \<Longrightarrow> ascending key xs \<Longrightarrow> ascending key (x # xs)"
  by auto

lemma heap_diff_ascending:
  "ascending key ls \<Longrightarrow> ascending key rs \<Longrightarrow> ascending (item_key key) (heap_diff key ls rs)"
proof (induction key ls rs rule: heap_diff.induct)
  case (1 key l ls r rs)
  from "1.prems" have below: "key l < key x" if "x \<in> set ls" for x
    using that by simp
  from "1.prems" have above: "key r < key x" if "x \<in> set rs" for x
    using that by simp
  consider "key l < key r" | "key r < key l" | "key l = key r"
    by (metis linorder_less_linear)
  then show ?case
  proof cases
    case 1
    have "key l < item_key key d" if "d \<in> set (heap_diff key ls (r # rs))" for d
      using heap_diff_keys [OF that] below above 1 by (auto intro: less_trans [OF 1])
    with 1 "1.IH"(1) "1.prems" show ?thesis
      by (auto intro!: ascending_ConsI simp del: ascending_Cons) (simp_all)
  next
    case 2
    have "key r < item_key key d" if "d \<in> set (heap_diff key (l # ls) rs)" for d
      using heap_diff_keys [OF that] below above 2 by (auto intro: less_trans [OF 2])
    with 2 "1.IH"(2) "1.prems" show ?thesis
      by (auto intro!: ascending_ConsI simp del: ascending_Cons) (simp_all)
  next
    case 3
    have "key l < item_key key d" if "d \<in> set (heap_diff key ls rs)" for d
      using heap_diff_keys [OF that] below above 3 by auto
    with 3 "1.IH"(3) "1.prems" show ?thesis
      by (auto intro!: ascending_ConsI simp del: ascending_Cons) (simp_all)
  qed
qed (auto simp: ascending_def comp_def)

lemma heap_diff_left: "ascending key ls \<Longrightarrow> ascending key rs \<Longrightarrow>
  LeftOnly x \<in> set (heap_diff key ls rs) \<longleftrightarrow> x \<in> set ls \<and> key x \<notin> key ` set rs"
  by (induction key ls rs rule: heap_diff.induct) (auto simp: not_less_iff_gr_or_eq)

lemma heap_diff_right: "ascending key ls \<Longrightarrow> ascending key rs \<Longrightarrow>
  RightOnly x \<in> set (heap_diff key ls rs) \<longleftrightarrow> x \<in> set rs \<and> key x \<notin> key ` set ls"
  by (induction key ls rs rule: heap_diff.induct) (auto simp: not_less_iff_gr_or_eq)

lemma heap_diff_both: "ascending key ls \<Longrightarrow> ascending key rs \<Longrightarrow>
  Both x y \<in> set (heap_diff key ls rs) \<longleftrightarrow> x \<in> set ls \<and> y \<in> set rs \<and> key x = key y"
  by (induction key ls rs rule: heap_diff.induct) (auto simp: not_less_iff_gr_or_eq)

text \<open>\<open>diff_sorted_inodes\<close> is the merge of the plain inode lists, without the common ones.\<close>

fun inode_change :: "u64 diff_item \<Rightarrow> (u64 \<times> diff_type) list" where
  "inode_change (LeftOnly i) = [(i, DiffDeleted)]"
| "inode_change (RightOnly i) = [(i, DiffNew)]"
| "inode_change (Both i j) = []"

lemma diff_sorted_inodes_merge:
  "diff_sorted_inodes ps cs = concat (map inode_change (heap_diff (\<lambda>i. i) ps cs))"
  by (induction ps cs rule: diff_sorted_inodes.induct) (auto simp: map_concat comp_def)

section \<open>The comparison of two directories\<close>

definition modified_entries ::
  "(string \<times> file_cache_entry) list \<Rightarrow> (string \<times> file_cache_entry) list \<Rightarrow> file_control_entry list" where
  "modified_entries prev_files curr_files = concat (map (\<lambda>(name, pe).
     case map_of curr_files name of
       Some ce \<Rightarrow> if fce_hash pe \<noteq> fce_hash ce then [file_entry name FileDataModified ce] else []
     | None \<Rightarrow> []) prev_files)"

definition new_entries ::
  "(string \<times> file_cache_entry) list \<Rightarrow> (string \<times> file_cache_entry) list \<Rightarrow> file_control_entry list" where
  "new_entries prev_files curr_files =
    concat (map (\<lambda>(name, ce). if map_of prev_files name = None then [file_entry name FileNew ce] else [])
      curr_files)"

definition deleted_entries ::
  "string \<Rightarrow> (string \<times> file_cache_entry) list \<Rightarrow> (string \<times> file_cache_entry) list \<Rightarrow> delete_entry list" where
  "deleted_entries dir_path prev_files curr_files =
    concat (map (\<lambda>(name, pe). if map_of curr_files name = None
        then [\<lparr>de_type = DeleteFile, de_path = join_logical dir_path name\<rparr>] else [])
      prev_files)"

lemma fold_diff_prev:
  "fold (diff_prev_file dir_path curr_files) prev_files d =
    d\<lparr>dfd_file_entries := dfd_file_entries d @ modified_entries prev_files curr_files,
      dfd_delete_entries := dfd_delete_entries d @ deleted_entries dir_path prev_files curr_files,
      dfd_modified_files := dfd_modified_files d + of_nat (length (modified_entries prev_files curr_files)),
      dfd_deleted_files := dfd_deleted_files d + of_nat (length (deleted_entries dir_path prev_files curr_files))\<rparr>"
proof (induction prev_files arbitrary: d)
  case Nil
  then show ?case by (simp add: modified_entries_def deleted_entries_def)
next
  case (Cons x xs)
  then show ?case
    by (cases x)
      (simp add: modified_entries_def deleted_entries_def diff_prev_file_def split: option.split)
qed

lemma fold_diff_curr:
  "fold (diff_curr_file prev_files) curr_files d =
    d\<lparr>dfd_file_entries := dfd_file_entries d @ new_entries prev_files curr_files,
      dfd_new_files := dfd_new_files d + of_nat (length (new_entries prev_files curr_files))\<rparr>"
proof (induction curr_files arbitrary: d)
  case Nil
  then show ?case by (simp add: new_entries_def)
next
  case (Cons x xs)
  then show ?case
    by (cases x) (simp add: new_entries_def diff_curr_file_def)
qed

lemma compare_files_eq:
  "compare_files dir_path prev_files curr_files =
    \<lparr>dfd_file_entries = modified_entries prev_files curr_files @ new_entries prev_files curr_files,
     dfd_delete_entries = deleted_entries dir_path prev_files curr_files,
     dfd_new_files = of_nat (length (new_entries prev_files curr_files)),
     dfd_modified_files = of_nat (length (modified_entries prev_files curr_files)),
     dfd_deleted_files = of_nat (length (deleted_entries dir_path prev_files curr_files))\<rparr>"
  by (simp add: compare_files_def fold_diff_prev fold_diff_curr)

lemma in_modified:
  "f \<in> set (modified_entries p c) \<longleftrightarrow>
    (\<exists>name pe ce. (name, pe) \<in> set p \<and> map_of c name = Some ce \<and> fce_hash pe \<noteq> fce_hash ce
      \<and> f = file_entry name FileDataModified ce)"
  by (force simp: modified_entries_def split: option.splits)

lemma in_new:
  "f \<in> set (new_entries p c) \<longleftrightarrow>
    (\<exists>name ce. (name, ce) \<in> set c \<and> map_of p name = None \<and> f = file_entry name FileNew ce)"
  by (force simp: new_entries_def)

lemma in_deleted:
  "e \<in> set (deleted_entries dir_path p c) \<longleftrightarrow>
    (\<exists>name pe. (name, pe) \<in> set p \<and> map_of c name = None
      \<and> e = \<lparr>de_type = DeleteFile, de_path = join_logical dir_path name\<rparr>)"
  by (force simp: deleted_entries_def)

lemma fc_name_file_entry [simp]: "fc_name (file_entry name df fe) = name"
  by (simp add: file_entry_def)

lemma in_modified_names:
  "bt_ok p \<Longrightarrow> name \<in> fc_name ` set (modified_entries p c) \<longleftrightarrow>
    (\<exists>pe ce. map_of p name = Some pe \<and> map_of c name = Some ce \<and> fce_hash pe \<noteq> fce_hash ce)"
  by (force simp: image_iff in_modified bt_ok_in_set)

lemma in_new_names:
  "bt_ok c \<Longrightarrow> name \<in> fc_name ` set (new_entries p c) \<longleftrightarrow>
    (\<exists>ce. map_of c name = Some ce \<and> map_of p name = None)"
  by (force simp: image_iff in_new bt_ok_in_set)

text \<open>Short lists, as those of a directory are, have changes exactly when an entry is listed.\<close>

lemma has_changes_iff:
  assumes "length prev_files < 2 ^ 64" and "length curr_files < 2 ^ 64"
  shows "has_changes (compare_files dir_path prev_files curr_files) \<longleftrightarrow>
    dfd_file_entries (compare_files dir_path prev_files curr_files) \<noteq> []
    \<or> dfd_delete_entries (compare_files dir_path prev_files curr_files) \<noteq> []"
proof -
  have len: "length (concat (map f xs)) \<le> length xs" if "\<And>x. length (f x) \<le> 1"
    for f :: "'x \<Rightarrow> 'y list" and xs
  proof (induction xs)
    case (Cons x xs)
    with that [of x] show ?case by simp
  qed simp
  have nz: "0 < (of_nat n :: u64) \<longleftrightarrow> 0 < n" if "n < 2 ^ 64" for n
    using that by (simp add: word_less_nat_alt unat_of_nat)
  have "length (new_entries prev_files curr_files) \<le> length curr_files"
    unfolding new_entries_def by (rule len) (simp split: prod.split)
  moreover have "length (modified_entries prev_files curr_files) \<le> length prev_files"
    unfolding modified_entries_def by (rule len) (simp split: prod.split option.split)
  moreover have "length (deleted_entries dir_path prev_files curr_files) \<le> length prev_files"
    unfolding deleted_entries_def by (rule len) (simp split: prod.split)
  ultimately show ?thesis
    using assms by (simp add: has_changes_def compare_files_eq nz)
qed

section \<open>Reading the entries of a directory\<close>

text \<open>The readable entries of a directory, in the order of the cache, and its path.\<close>

definition dir_files :: "diff_formats \<Rightarrow> files \<Rightarrow> dir_cache_entry \<Rightarrow> (string \<times> file_cache_entry) list" where
  "dir_files fm fs e =
    (case bin_reader_open fs (file_cache_name (dce_fcache_fid e)) of
       Inl _ \<Rightarrow> []
     | Inr r \<Rightarrow> concat (map (\<lambda>i. case indexed_file fm fs r (start_idx e) i of Inr (Some x) \<Rightarrow> [x] | _ \<Rightarrow> [])
         [0..<unat (dce_files_count e)]))"

definition dir_path :: "diff_formats \<Rightarrow> files \<Rightarrow> dir_cache_entry \<Rightarrow> string" where
  "dir_path fm fs e =
    (case get_dmeta (fmt_meta fm) fs (dce_meta_loc e) of Inr dmeta \<Rightarrow> dm_path dmeta | Inl _ \<Rightarrow> [])"

text \<open>No metadata file that the entries of the directory name is missing.\<close>

definition files_present :: "diff_formats \<Rightarrow> files \<Rightarrow> dir_cache_entry \<Rightarrow> bool" where
  "files_present fm fs e \<longleftrightarrow>
    (case bin_reader_open fs (file_cache_name (dce_fcache_fid e)) of
       Inl _ \<Rightarrow> True
     | Inr r \<Rightarrow> list_all (\<lambda>i. \<not> isl (indexed_file fm fs r (start_idx e) i)) [0..<unat (dce_files_count e)])"

text \<open>A loop over the entries of a directory is a fold over its readable entries.\<close>

lemma loop_over_files:
  assumes "list_all (\<lambda>i. \<not> isl (g i)) is"
  shows "fold_err (\<lambda>i s. andThen (g i) (\<lambda>m. case m of None \<Rightarrow> Inr s | Some x \<Rightarrow> body x s)) is s
    = fold_err body (concat (map (\<lambda>i. case g i of Inr (Some x) \<Rightarrow> [x] | _ \<Rightarrow> []) is)) s"
  using assms
proof (induction "is" arbitrary: s)
  case (Cons i "is")
  then have "(\<lambda>s. fold_err (\<lambda>i s. andThen (g i) (\<lambda>m. case m of None \<Rightarrow> Inr s | Some x \<Rightarrow> body x s)) is s)
    = (\<lambda>s. fold_err body (concat (map (\<lambda>i. case g i of Inr (Some x) \<Rightarrow> [x] | _ \<Rightarrow> []) is)) s)"
    by (intro ext) simp
  with Cons.prems show ?case
    by (cases "g i") (auto split: option.split simp: fold_err_append andThen_assoc)
qed simp

lemma load_directory_files_eq:
  assumes "files_present fm fs e"
    and "fs = (if is_prev then (case prev_meta_files d of Some p \<Rightarrow> p | None \<Rightarrow> curr_meta_files d)
               else curr_meta_files d)"
  shows "load_directory_files fm d e is_prev = Inr (bt_of (dir_files fm fs e))"
proof (cases "bin_reader_open fs (file_cache_name (dce_fcache_fid e))")
  case (Inl a)
  then show ?thesis
    unfolding load_directory_files_def dir_files_def assms(2) [symmetric] by (simp add: bt_of_def Let_def)
next
  case (Inr r)
  have body: "(\<lambda>i result. andThen (g i) (\<lambda>m. Inr (case m of None \<Rightarrow> result | Some (name, fe) \<Rightarrow> bt_insert name fe result)))
    = (\<lambda>i s. andThen (g i) (\<lambda>m. case m of None \<Rightarrow> Inr s | Some x \<Rightarrow> (Inr (case x of (name, fe) \<Rightarrow> bt_insert name fe s) :: meta_error + _)))"
    for g :: "nat \<Rightarrow> meta_error + (string \<times> file_cache_entry) option"
    by (intro ext arg_cong [where f = "andThen _"]) (auto split: option.split)
  have total: "fold_err (\<lambda>x s. Inr (case x of (name, fe) \<Rightarrow> bt_insert name fe s) :: meta_error + _) xs []
    = Inr (bt_of xs)" for xs :: "(string \<times> file_cache_entry) list"
    unfolding bt_of_def by (rule fold_err_total) (simp split: prod.split)
  have present: "list_all (\<lambda>i. \<not> isl (indexed_file fm fs r (start_idx e) i)) [0..<unat (dce_files_count e)]"
    using assms(1) Inr by (simp add: files_present_def)
  show ?thesis
    unfolding load_directory_files_def assms(2) [symmetric] Let_def body
    by (simp add: Inr loop_over_files [OF present] total dir_files_def)
qed

section \<open>Properties\<close>

text \<open>
  C34. The merge of two strictly ascending lists reports each key of either list exactly once, in
  ascending order: as left only or right only when the other list lacks it, with its own item, and
  otherwise as both, with the two items.
\<close>

theorem heap_diff_correct:
  assumes "ascending key ls" and "ascending key rs"
  shows "(LeftOnly x \<in> set (heap_diff key ls rs) \<longleftrightarrow> x \<in> set ls \<and> key x \<notin> key ` set rs)
    \<and> (RightOnly x \<in> set (heap_diff key ls rs) \<longleftrightarrow> x \<in> set rs \<and> key x \<notin> key ` set ls)
    \<and> (Both x y \<in> set (heap_diff key ls rs) \<longleftrightarrow> x \<in> set ls \<and> y \<in> set rs \<and> key x = key y)
    \<and> ascending (item_key key) (heap_diff key ls rs)"
  using heap_diff_left [OF assms] heap_diff_right [OF assms] heap_diff_both [OF assms]
    heap_diff_ascending [OF assms]
  by simp

theorem heap_diff_correct_witness:
  "RightOnly (4::nat) \<in> set (heap_diff (\<lambda>i. i) [1, 2, 3] [2, 4])
   \<and> ascending (item_key (\<lambda>i. i)) (heap_diff (\<lambda>i. i) [1, 2, 3::nat] [2, 4])"
  using heap_diff_correct [of "\<lambda>i. i" "[1, 2, 3::nat]" "[2, 4]" 4] by simp

text \<open>
  The simplified inode diff of two strictly ascending inode lists reports exactly the inodes
  that are gone as deleted and the inodes that are new as new, each once and in ascending order.
\<close>

theorem diff_sorted_inodes_correct:
  assumes "sorted_wrt (<) prev_inodes" and "sorted_wrt (<) curr_inodes"
  shows "((i, DiffDeleted) \<in> set (diff_sorted_inodes prev_inodes curr_inodes)
        \<longleftrightarrow> i \<in> set prev_inodes \<and> i \<notin> set curr_inodes)
    \<and> ((i, DiffNew) \<in> set (diff_sorted_inodes prev_inodes curr_inodes)
        \<longleftrightarrow> i \<in> set curr_inodes \<and> i \<notin> set prev_inodes)
    \<and> snd ` set (diff_sorted_inodes prev_inodes curr_inodes) \<subseteq> {DiffDeleted, DiffNew}
    \<and> sorted_wrt (<) (map fst (diff_sorted_inodes prev_inodes curr_inodes))"
proof -
  let ?m = "heap_diff (\<lambda>i. i) prev_inodes curr_inodes"
  have asc: "ascending (\<lambda>i. i) prev_inodes" "ascending (\<lambda>i. i) curr_inodes"
    using assms by (simp_all add: ascending_def)
  have mem: "(i, t) \<in> set (diff_sorted_inodes prev_inodes curr_inodes) \<longleftrightarrow>
      LeftOnly i \<in> set ?m \<and> t = DiffDeleted \<or> RightOnly i \<in> set ?m \<and> t = DiffNew" for i t
  proof -
    have "(i, t) \<in> set (inode_change it) \<longleftrightarrow> it = LeftOnly i \<and> t = DiffDeleted \<or> it = RightOnly i \<and> t = DiffNew" for it
      by (cases it) auto
    then show ?thesis
      by (simp add: diff_sorted_inodes_merge) (metis (no_types))
  qed
  have "ascending fst (concat (map inode_change its))" if "ascending (item_key (\<lambda>i. i)) its" for its
    using that
  proof (induction its)
    case (Cons it its)
    have "item_key (\<lambda>i. i) it < fst x" if "x \<in> set (concat (map inode_change its))" for x
    proof -
      from that obtain it' where it': "it' \<in> set its" "x \<in> set (inode_change it')" by auto
      from it'(2) have "fst x = item_key (\<lambda>i. i) it'" by (cases it') simp_all
      with Cons.prems it'(1) show ?thesis by simp
    qed
    with Cons show ?case by (cases it) auto
  qed simp
  from this [OF heap_diff_ascending [OF asc]]
  have "sorted_wrt (<) (map fst (diff_sorted_inodes prev_inodes curr_inodes))"
    by (simp add: diff_sorted_inodes_merge ascending_def)
  then show ?thesis
    using heap_diff_left [OF asc] heap_diff_right [OF asc] by (auto simp: mem)
qed

theorem diff_sorted_inodes_correct_witness:
  "(8, DiffDeleted) \<in> set (diff_sorted_inodes [1, 2, 3, 5, 8] [2, 3, 4, 5, 6])
   \<and> sorted_wrt (<) (map fst (diff_sorted_inodes [1, 2, 3, 5, 8] [2, 3, 4, 5, 6]))"
  using diff_sorted_inodes_correct [of "[1, 2, 3, 5, 8]" "[2, 3, 4, 5, 6]" 8] by simp

end
