(* ===== verification/DiffSync.thy ===== *)
theory DiffSync
  imports Diff
begin

text \<open>
  What the incremental diff of \<^verbatim>\<open>scanner/metadata/diff.rs\<close> achieves. First the run over the
  two caches is shown to write, for readable metadata, exactly the entries that a plan over the
  merged directories lists. Then the plan is applied to the tree of the previous backup, the way the
  copy phase and the delete phase do one after the other, and compared with the current tree.
\<close>

section \<open>The plan of a run\<close>

definition prev_files_of :: "incremental_diff \<Rightarrow> files" where
  "prev_files_of d = (case prev_meta_files d of Some p \<Rightarrow> p | None \<Rightarrow> curr_meta_files d)"

abbreviation prev_path :: "diff_formats \<Rightarrow> incremental_diff \<Rightarrow> dir_cache_entry \<Rightarrow> string" where
  "prev_path fm d p \<equiv> dir_path fm (prev_files_of d) p"

abbreviation curr_path :: "diff_formats \<Rightarrow> incremental_diff \<Rightarrow> dir_cache_entry \<Rightarrow> string" where
  "curr_path fm d c \<equiv> dir_path fm (curr_meta_files d) c"

definition dir_comparison ::
  "diff_formats \<Rightarrow> incremental_diff \<Rightarrow> dir_cache_entry \<Rightarrow> dir_cache_entry \<Rightarrow> directory_file_diff" where
  "dir_comparison fm d p c =
    compare_files (curr_path fm d c) (bt_of (dir_files fm (prev_files_of d) p))
      (bt_of (dir_files fm (curr_meta_files d) c))"

definition dir_changed :: "diff_formats \<Rightarrow> incremental_diff \<Rightarrow> dir_cache_entry \<Rightarrow> dir_cache_entry \<Rightarrow> bool" where
  "dir_changed fm d p c \<longleftrightarrow>
    (dce_hash p \<noteq> dce_hash c \<or> dce_files_count p \<noteq> dce_files_count c)
    \<or> has_changes (dir_comparison fm d p c)"

fun item_copies :: "diff_formats \<Rightarrow> incremental_diff \<Rightarrow> dir_cache_entry diff_item \<Rightarrow> control_entry list" where
  "item_copies fm d (LeftOnly p) = []"
| "item_copies fm d (RightOnly c) =
    EntryDir (dir_entry (curr_path fm d c) DirNew c)
    # map (\<lambda>(n, fe). EntryFile (file_entry n FileNew fe)) (dir_files fm (curr_meta_files d) c)"
| "item_copies fm d (Both p c) =
    (if dir_changed fm d p c
     then EntryDir (dir_entry (curr_path fm d c) DirMetaModified c)
          # map EntryFile (dfd_file_entries (dir_comparison fm d p c))
     else [])"

fun item_deletes :: "diff_formats \<Rightarrow> incremental_diff \<Rightarrow> dir_cache_entry diff_item \<Rightarrow> delete_entry list" where
  "item_deletes fm d (LeftOnly p) = [\<lparr>de_type = DeleteDir, de_path = prev_path fm d p\<rparr>]"
| "item_deletes fm d (RightOnly c) = []"
| "item_deletes fm d (Both p c) =
    (if dir_changed fm d p c then dfd_delete_entries (dir_comparison fm d p c) else [])"

definition merged_dirs :: "incremental_diff \<Rightarrow> dir_cache_entry diff_item list" where
  "merged_dirs d = heap_diff dce_id (map snd (prev_dcache d)) (map snd (curr_dcache d))"

definition copies :: "diff_formats \<Rightarrow> incremental_diff \<Rightarrow> control_entry list" where
  "copies fm d = concat (map (item_copies fm d) (merged_dirs d))"

definition deletes :: "diff_formats \<Rightarrow> incremental_diff \<Rightarrow> delete_entry list" where
  "deletes fm d = concat (map (item_deletes fm d) (merged_dirs d))"

section \<open>Readable metadata\<close>

text \<open>Texts a control file can hold; every Rust string of ordinary length is one.\<close>

definition short_text :: "string \<Rightarrow> bool" where
  "short_text s \<longleftrightarrow> rust_string s \<and> length s < 2 ^ 31"

definition dir_readable :: "diff_formats \<Rightarrow> files \<Rightarrow> dir_cache_entry \<Rightarrow> bool" where
  "dir_readable fm fs e \<longleftrightarrow>
    \<not> isl (get_dmeta (fmt_meta fm) fs (dce_meta_loc e)) \<and> files_present fm fs e
    \<and> short_text (dir_path fm fs e)
    \<and> list_all (\<lambda>(n, fe). short_text n \<and> short_text (join_logical (dir_path fm fs e) n)) (dir_files fm fs e)"

lemma dir_readable_meta:
  "dir_readable fm fs e \<Longrightarrow>
   \<exists>dmeta. get_dmeta (fmt_meta fm) fs (dce_meta_loc e) = Inr dmeta \<and> dm_path dmeta = dir_path fm fs e"
  by (cases "get_dmeta (fmt_meta fm) fs (dce_meta_loc e)") (auto simp: dir_readable_def dir_path_def)

fun item_readable :: "diff_formats \<Rightarrow> incremental_diff \<Rightarrow> dir_cache_entry diff_item \<Rightarrow> bool" where
  "item_readable fm d (LeftOnly p) =
    (dir_readable fm (prev_files_of d) p \<and> prev_meta_files d \<noteq> None)"
| "item_readable fm d (RightOnly c) = dir_readable fm (curr_meta_files d) c"
| "item_readable fm d (Both p c) =
    (dir_readable fm (prev_files_of d) p \<and> dir_readable fm (curr_meta_files d) c
     \<and> list_all (\<lambda>(n, fe). short_text (join_logical (curr_path fm d c) n)) (dir_files fm (prev_files_of d) p))"

section \<open>The run writes the plan\<close>

fun as_item :: "control_entry \<Rightarrow> copy_item" where
  "as_item (EntryFile e) = PutFile e"
| "as_item (EntryDir e) =
    PutDir e \<lparr>batch_num = 0, total_batches = 1, is_continuation = False, is_last = True\<rparr>"

lemma copy_view_as_item [simp]: "copy_view (as_item e) = e"
  by (cases e) simp_all

lemma write_all_fold: "write_all put w xs = fold_err (\<lambda>x w. put w x) xs w"
  by (induction xs arbitrary: w) (auto intro: arg_cong [where f = "andThen _"])

text \<open>Short entries are always written, and leave the source of the header alone.\<close>

fun short_entry :: "control_entry \<Rightarrow> bool" where
  "short_entry (EntryFile e) = short_text (fc_name e)"
| "short_entry (EntryDir e) = short_text (dc_path e)"

definition same_source :: "control_writer \<Rightarrow> control_writer \<Rightarrow> bool" where
  "same_source w w' \<longleftrightarrow> source_kind (header w') = source_kind (header w)
    \<and> source_root (header w') = source_root (header w)"

lemma put_short_entry: "short_entry e \<Longrightarrow> \<exists>w'. copy_put w (as_item e) = Inr w' \<and> same_source w w'"
  by (cases e) (auto simp: same_source_def copy_write_file_def copy_write_dir_with_batch_def codec_simps
      write_record_def file_payload_def dir_payload_def Let_def short_text_def)

lemma put_short_delete:
  "short_text (de_path e) \<Longrightarrow> \<exists>w'. delete_write_entry w e = Inr w' \<and> same_source w w'"
  by (cases "de_type e") (auto simp: same_source_def delete_write_entry_def codec_simps
      write_record_def delete_payload_def Let_def short_text_def)

lemma write_copies_total:
  "list_all short_entry es \<Longrightarrow> \<exists>w'. write_all copy_put w (map as_item es) = Inr w' \<and> same_source w w'"
  unfolding same_source_def
  by (rule write_all_total) (use put_short_entry in \<open>auto simp: same_source_def list_all_iff\<close>)

lemma write_deletes_total:
  "list_all (\<lambda>e. short_text (de_path e)) es \<Longrightarrow>
   \<exists>w'. write_all delete_write_entry w es = Inr w' \<and> same_source w w'"
  unfolding same_source_def
  by (rule write_all_total) (use put_short_delete in \<open>auto simp: same_source_def list_all_iff\<close>)

text \<open>A step writes exactly \<open>cs\<close> and \<open>ds\<close>.\<close>

definition writes :: "diff_run \<Rightarrow> control_entry list \<Rightarrow> delete_entry list \<Rightarrow> diff_run \<Rightarrow> bool" where
  "writes s cs ds s' \<longleftrightarrow>
    write_all copy_put (run_copy s) (map as_item cs) = Inr (run_copy s')
    \<and> write_all delete_write_entry (run_delete s) ds = Inr (run_delete s')"

lemma writes_nothing: "run_copy s' = run_copy s \<Longrightarrow> run_delete s' = run_delete s \<Longrightarrow> writes s [] [] s'"
  by (simp add: writes_def)

lemma writes_trans: "writes s cs ds s' \<Longrightarrow> writes s' cs' ds' s'' \<Longrightarrow> writes s (cs @ cs') (ds @ ds') s''"
  by (simp add: writes_def write_all_append)

lemma fold_write_delete:
  "list_all (\<lambda>e. short_text (de_path e)) es \<Longrightarrow>
   \<exists>w. fold write_delete es s = s\<lparr>run_delete := w\<rparr> \<and> write_all delete_write_entry (run_delete s) es = Inr w"
proof (induction es arbitrary: s)
  case Nil
  show ?case by (rule exI [of _ "run_delete s"]) simp
next
  case (Cons e es)
  then obtain w where w: "delete_write_entry (run_delete s) e = Inr w"
    using put_short_delete [of e "run_delete s"] by auto
  with Cons.IH [of "s\<lparr>run_delete := w\<rparr>"] Cons.prems show ?case
    by (auto simp: write_delete_def)
qed

lemma write_dir_as_item: "copy_write_dir w e = copy_put w (as_item (EntryDir e))"
  by (simp add: copy_write_dir_def)

lemma fold_copy_write_file:
  "fold_err (\<lambda>e w. copy_write_file w e) es w = write_all copy_put w (map as_item (map EntryFile es))"
  by (induction es arbitrary: w) (auto intro: arg_cong [where f = "andThen _"])

lemma write_new_files:
  assumes "list_all (\<lambda>(n, fe). short_text n) xs"
  shows "\<exists>s'. fold_err (\<lambda>x s. case x of (name, fe) \<Rightarrow>
        let s = s\<lparr>run_stats := (run_stats s)\<lparr>ds_new_files := ds_new_files (run_stats s) + 1\<rparr>\<rparr>
        in andThen (lift_io (copy_write_file (run_copy s) (file_entry name FileNew fe))) (\<lambda>w.
             Inr (s\<lparr>run_copy := w\<rparr>))) xs s = Inr s'
      \<and> writes s (map (\<lambda>(n, fe). EntryFile (file_entry n FileNew fe)) xs) [] s'"
  using assms
proof (induction xs arbitrary: s)
  case Nil
  then show ?case by (auto simp: writes_nothing)
next
  case (Cons x xs)
  obtain name fe where x: "x = (name, fe)" by fastforce
  let ?s = "s\<lparr>run_stats := (run_stats s)\<lparr>ds_new_files := ds_new_files (run_stats s) + 1\<rparr>\<rparr>"
  obtain w where w: "copy_write_file (run_copy s) (file_entry name FileNew fe) = Inr w"
    using put_short_entry [of "EntryFile (file_entry name FileNew fe)" "run_copy s"] Cons.prems x by auto
  have "writes s [EntryFile (file_entry name FileNew fe)] [] (?s\<lparr>run_copy := w\<rparr>)"
    by (simp add: writes_def w)
  with Cons.IH [of "?s\<lparr>run_copy := w\<rparr>"] Cons.prems w x show ?case
    by (fastforce dest: writes_trans)
qed

lemma write_all_directory_files_writes:
  assumes "dir_readable fm (curr_meta_files d) e"
  shows "\<exists>s'. write_all_directory_files fm d e s = Inr s'
    \<and> writes s (map (\<lambda>(n, fe). EntryFile (file_entry n FileNew fe)) (dir_files fm (curr_meta_files d) e)) [] s'"
proof (cases "bin_reader_open (curr_meta_files d) (file_cache_name (dce_fcache_fid e))")
  case (Inl a)
  then show ?thesis
    by (simp add: write_all_directory_files_def dir_files_def writes_nothing)
next
  case (Inr r)
  have present: "list_all (\<lambda>i. \<not> isl (indexed_file fm (curr_meta_files d) r (start_idx e) i))
      [0..<unat (dce_files_count e)]"
    using assms Inr by (simp add: dir_readable_def files_present_def)
  have "list_all (\<lambda>(n, fe). short_text n) (dir_files fm (curr_meta_files d) e)"
    using assms by (auto simp: dir_readable_def list_all_iff)
  from write_new_files [OF this] show ?thesis
    unfolding write_all_directory_files_def Let_def Inr sum.case
    by (subst loop_over_files [OF present]) (simp add: dir_files_def Inr Let_def)
qed

lemma set_bt_of_subset: "set (bt_of xs) \<subseteq> set xs"
proof
  fix x assume "x \<in> set (bt_of xs)"
  then have "map_of (rev xs) (fst x) = Some (snd x)"
    using bt_of_lookup [of xs] bt_ok_in_set [OF bt_ok_of [of xs], of "fst x" "snd x"] by simp
  then show "x \<in> set xs"
    by (auto dest: map_of_SomeD)
qed

lemma list_all_bt_of: "list_all P xs \<Longrightarrow> list_all P (bt_of xs)"
  using set_bt_of_subset [of xs] by (auto simp: list_all_iff)

lemma comparison_short:
  assumes "item_readable fm d (Both p c)"
  shows "list_all short_entry (map EntryFile (dfd_file_entries (dir_comparison fm d p c)))"
    and "list_all (\<lambda>e. short_text (de_path e)) (dfd_delete_entries (dir_comparison fm d p c))"
proof -
  from assms have p: "dir_readable fm (prev_files_of d) p" and c: "dir_readable fm (curr_meta_files d) c"
    and joined: "list_all (\<lambda>(n, fe). short_text (join_logical (curr_path fm d c) n)) (dir_files fm (prev_files_of d) p)"
    by simp_all
  have P: "short_text n \<and> short_text (join_logical (curr_path fm d c) n)"
    if "(n, fe) \<in> set (bt_of (dir_files fm (prev_files_of d) p))" for n fe
    using p that list_all_bt_of [of "\<lambda>(n, fe). short_text n \<and> short_text (join_logical (prev_path fm d p) n)"]
      list_all_bt_of [OF joined]
    unfolding dir_readable_def by (fastforce simp: list_all_iff)
  have C: "short_text n" if "(n, fe) \<in> set (bt_of (dir_files fm (curr_meta_files d) c))" for n fe
    using c that list_all_bt_of [of "\<lambda>(n, fe). short_text n \<and> short_text (join_logical (curr_path fm d c) n)"]
    unfolding dir_readable_def by (fastforce simp: list_all_iff)
  show "list_all short_entry (map EntryFile (dfd_file_entries (dir_comparison fm d p c)))"
    using P C by (fastforce simp: list_all_iff dir_comparison_def compare_files_eq in_modified in_new)
  show "list_all (\<lambda>e. short_text (de_path e)) (dfd_delete_entries (dir_comparison fm d p c))"
    using P by (fastforce simp: list_all_iff dir_comparison_def compare_files_eq in_deleted)
qed

lemma diff_directory_files_eq:
  assumes "item_readable fm d (Both p c)"
  shows "diff_directory_files fm d p c (curr_path fm d c) = Inr (dir_comparison fm d p c)"
proof -
  have "load_directory_files fm d p True = Inr (bt_of (dir_files fm (prev_files_of d) p))"
    using assms by (intro load_directory_files_eq) (simp_all add: dir_readable_def prev_files_of_def)
  moreover have "load_directory_files fm d c False = Inr (bt_of (dir_files fm (curr_meta_files d) c))"
    using assms by (intro load_directory_files_eq) (simp_all add: dir_readable_def)
  ultimately show ?thesis
    by (simp add: diff_directory_files_def dir_comparison_def)
qed

lemma deleted_dir_writes:
  assumes "item_readable fm d (LeftOnly p)"
  shows "\<exists>s'. deleted_dir_step fm d p s = Inr s' \<and> writes s [] (item_deletes fm d (LeftOnly p)) s'"
proof -
  from assms obtain fs where fs: "prev_meta_files d = Some fs" by auto
  then have pf: "prev_files_of d = fs" by (simp add: prev_files_of_def)
  from assms pf obtain dmeta where m: "get_dmeta (fmt_meta fm) fs (dce_meta_loc p) = Inr dmeta"
    "dm_path dmeta = prev_path fm d p"
    using dir_readable_meta [of fm fs p] by auto
  have "short_text (prev_path fm d p)"
    using assms by (simp add: dir_readable_def)
  then obtain w where "delete_write_entry (run_delete s) \<lparr>de_type = DeleteDir, de_path = prev_path fm d p\<rparr> = Inr w"
    using put_short_delete [of "\<lparr>de_type = DeleteDir, de_path = prev_path fm d p\<rparr>"] by auto
  then show ?thesis
    by (simp add: deleted_dir_step_def fs m write_delete_def writes_def)
qed

lemma new_dir_writes:
  assumes "item_readable fm d (RightOnly c)"
  shows "\<exists>s'. new_dir_step fm d c s = Inr s' \<and> writes s (item_copies fm d (RightOnly c)) [] s'"
proof -
  let ?e = "dir_entry (curr_path fm d c) DirNew c"
  let ?s = "s\<lparr>run_stats := (run_stats s)\<lparr>ds_new_dirs := ds_new_dirs (run_stats s) + 1\<rparr>\<rparr>"
  from assms obtain dmeta where m: "get_dmeta (fmt_meta fm) (curr_meta_files d) (dce_meta_loc c) = Inr dmeta"
    "dm_path dmeta = curr_path fm d c"
    using dir_readable_meta [of fm "curr_meta_files d" c] by auto
  have "short_entry (EntryDir ?e)"
    using assms by (simp add: dir_readable_def dir_entry_def)
  then obtain w where w: "copy_write_dir (run_copy s) ?e = Inr w"
    using put_short_entry write_dir_as_item by metis
  then have "writes s [EntryDir ?e] [] (?s\<lparr>run_copy := w\<rparr>)"
    by (simp add: writes_def copy_write_dir_def)
  moreover obtain s' where "write_all_directory_files fm d c (?s\<lparr>run_copy := w\<rparr>) = Inr s'"
    and "writes (?s\<lparr>run_copy := w\<rparr>) (map (\<lambda>(n, fe). EntryFile (file_entry n FileNew fe))
      (dir_files fm (curr_meta_files d) c)) [] s'"
    using write_all_directory_files_writes assms by fastforce
  ultimately show ?thesis
    using w by (auto simp: new_dir_step_def m dest: writes_trans)
qed

lemma kept_dir_writes:
  assumes "item_readable fm d (Both p c)"
  shows "\<exists>s'. kept_dir_step fm d p c s = Inr s'
    \<and> writes s (item_copies fm d (Both p c)) (item_deletes fm d (Both p c)) s'"
proof -
  let ?e = "dir_entry (curr_path fm d c) DirMetaModified c" and ?fd = "dir_comparison fm d p c"
  let ?s = "s\<lparr>run_stats := (run_stats s)\<lparr>ds_modified_dirs := ds_modified_dirs (run_stats s) + 1\<rparr>\<rparr>"
  from assms obtain dmeta where m: "get_dmeta (fmt_meta fm) (curr_meta_files d) (dce_meta_loc c) = Inr dmeta"
    "dm_path dmeta = curr_path fm d c"
    using dir_readable_meta [of fm "curr_meta_files d" c] by auto
  show ?thesis
  proof (cases "dir_changed fm d p c")
    case False
    then show ?thesis
      using diff_directory_files_eq [OF assms] m
      by (auto simp: kept_dir_step_def dir_changed_def writes_nothing)
  next
    case True
    have "list_all short_entry (item_copies fm d (Both p c))"
      using comparison_short(1) [OF assms] assms True by (simp add: dir_readable_def dir_entry_def)
    then obtain w w' where w: "copy_write_dir (run_copy s) ?e = Inr w"
      "fold_err (\<lambda>e w. copy_write_file w e) (dfd_file_entries ?fd) w = Inr w'"
      using write_copies_total [of "item_copies fm d (Both p c)" "run_copy s"] True
      by (auto simp: fold_copy_write_file write_dir_as_item andThen_Inr_iff)
    obtain dw where dw: "fold write_delete (dfd_delete_entries ?fd) (?s\<lparr>run_copy := w'\<rparr>)
        = ?s\<lparr>run_copy := w', run_delete := dw\<rparr>"
      "write_all delete_write_entry (run_delete s) (dfd_delete_entries ?fd) = Inr dw"
      using fold_write_delete [OF comparison_short(2) [OF assms], of "?s\<lparr>run_copy := w'\<rparr>"] by auto
    have "writes s (item_copies fm d (Both p c)) (item_deletes fm d (Both p c)) (?s\<lparr>run_copy := w', run_delete := dw\<rparr>)"
      using w dw(2) True by (simp add: writes_def fold_copy_write_file write_dir_as_item)
    then show ?thesis
      using w dw(1) True m diff_directory_files_eq [OF assms]
      by (simp add: kept_dir_step_def dir_changed_def [of fm d p c] Let_def writes_def)
  qed
qed

lemma diff_step_writes:
  "item_readable fm d it \<Longrightarrow>
   \<exists>s'. diff_step fm d it s = Inr s' \<and> writes s (item_copies fm d it) (item_deletes fm d it) s'"
  using deleted_dir_writes new_dir_writes kept_dir_writes by (cases it) auto

lemma diff_run_writes:
  "list_all (item_readable fm d) its \<Longrightarrow>
   \<exists>s'. fold_err (diff_step fm d) its s = Inr s'
     \<and> writes s (concat (map (item_copies fm d) its)) (concat (map (item_deletes fm d) its)) s'"
proof (induction its arbitrary: s)
  case Nil
  then show ?case by (simp add: writes_nothing)
next
  case (Cons it its)
  then obtain s1 where s1: "diff_step fm d it s = Inr s1"
    "writes s (item_copies fm d it) (item_deletes fm d it) s1"
    using diff_step_writes [of fm d it s] by auto
  with Cons.IH [of s1] Cons.prems show ?case
    by (auto dest: writes_trans)
qed

section \<open>Snapshots\<close>

text \<open>A directory cache whose metadata directory has everything that its entries name.\<close>

definition snapshot_ok :: "diff_formats \<Rightarrow> files \<Rightarrow> (u64 \<times> dir_cache_entry) list \<Rightarrow> bool" where
  "snapshot_ok fm fs m \<longleftrightarrow> bt_ok m \<and> list_all (\<lambda>(i, e). dce_id e = i \<and> dir_readable fm fs e) m"


text \<open>Both caches are readable, and the paths of files that are gone fit into an entry.\<close>

definition snapshots_ok :: "diff_formats \<Rightarrow> incremental_diff \<Rightarrow> bool" where
  "snapshots_ok fm d \<longleftrightarrow>
    snapshot_ok fm (prev_files_of d) (prev_dcache d) \<and> snapshot_ok fm (curr_meta_files d) (curr_dcache d)
    \<and> (prev_meta_files d = None \<longrightarrow> prev_dcache d = [])
    \<and> list_all (\<lambda>(i, p). case map_of (curr_dcache d) i of
          None \<Rightarrow> True
        | Some c \<Rightarrow> list_all (\<lambda>(n, fe). short_text (join_logical (curr_path fm d c) n))
            (dir_files fm (prev_files_of d) p)) (prev_dcache d)"

lemma snapshot_entry:
  assumes "snapshot_ok fm fs m"
  shows "e \<in> snd ` set m \<longleftrightarrow> map_of m (dce_id e) = Some e"
proof -
  have "bt_ok m" and ids: "\<forall>(i, e) \<in> set m. dce_id e = i"
    using assms by (auto simp: snapshot_ok_def list_all_iff)
  then show ?thesis
    by (force simp flip: bt_ok_in_set)
qed

lemma snapshot_ascending: "snapshot_ok fm fs m \<Longrightarrow> ascending dce_id (map snd m)"
proof -
  assume ok: "snapshot_ok fm fs m"
  then have "map dce_id (map snd m) = map fst m"
    by (auto simp: snapshot_ok_def list_all_iff)
  with ok show ?thesis
    unfolding ascending_def snapshot_ok_def bt_ok_def by metis
qed

lemma snapshot_readable: "snapshot_ok fm fs m \<Longrightarrow> e \<in> snd ` set m \<Longrightarrow> dir_readable fm fs e"
  by (auto simp: snapshot_ok_def list_all_iff)

abbreviation prev_entries :: "incremental_diff \<Rightarrow> dir_cache_entry set" where
  "prev_entries d \<equiv> snd ` set (prev_dcache d)"

abbreviation curr_entries :: "incremental_diff \<Rightarrow> dir_cache_entry set" where
  "curr_entries d \<equiv> snd ` set (curr_dcache d)"

lemma merged_dirs_iff:
  assumes "snapshots_ok fm d"
  shows "LeftOnly p \<in> set (merged_dirs d) \<longleftrightarrow> p \<in> prev_entries d \<and> dce_id p \<notin> dce_id ` curr_entries d"
    and "RightOnly c \<in> set (merged_dirs d) \<longleftrightarrow> c \<in> curr_entries d \<and> dce_id c \<notin> dce_id ` prev_entries d"
    and "Both p c \<in> set (merged_dirs d) \<longleftrightarrow> p \<in> prev_entries d \<and> c \<in> curr_entries d \<and> dce_id p = dce_id c"
proof -
  from assms have asc: "ascending dce_id (map snd (prev_dcache d))" "ascending dce_id (map snd (curr_dcache d))"
    by (auto simp: snapshots_ok_def snapshot_ascending)
  show "LeftOnly p \<in> set (merged_dirs d) \<longleftrightarrow> p \<in> prev_entries d \<and> dce_id p \<notin> dce_id ` curr_entries d"
    unfolding merged_dirs_def heap_diff_left [OF asc] by simp
  show "RightOnly c \<in> set (merged_dirs d) \<longleftrightarrow> c \<in> curr_entries d \<and> dce_id c \<notin> dce_id ` prev_entries d"
    unfolding merged_dirs_def heap_diff_right [OF asc] by simp
  show "Both p c \<in> set (merged_dirs d) \<longleftrightarrow> p \<in> prev_entries d \<and> c \<in> curr_entries d \<and> dce_id p = dce_id c"
    unfolding merged_dirs_def heap_diff_both [OF asc] by simp
qed

lemma kept_entries:
  assumes "snapshots_ok fm d" and "p \<in> prev_entries d" and "c \<in> curr_entries d" and "dce_id p = dce_id c"
    and "list_all (\<lambda>(i, p). case map_of (curr_dcache d) i of None \<Rightarrow> True | Some c \<Rightarrow> Q p c) (prev_dcache d)"
  shows "Q p c"
proof -
  from assms(1,2) have "map_of (prev_dcache d) (dce_id p) = Some p"
    using snapshot_entry [of fm "prev_files_of d" "prev_dcache d" p] by (simp add: snapshots_ok_def)
  then have "(dce_id p, p) \<in> set (prev_dcache d)"
    by (rule map_of_SomeD)
  moreover from assms(1,3) have "map_of (curr_dcache d) (dce_id c) = Some c"
    using snapshot_entry [of fm "curr_meta_files d" "curr_dcache d" c] by (simp add: snapshots_ok_def)
  ultimately show ?thesis
    using assms(4,5) by (fastforce simp: list_all_iff)
qed


lemma merged_readable:
  assumes "snapshots_ok fm d"
  shows "list_all (item_readable fm d) (merged_dirs d)"
proof -
  have "item_readable fm d it" if "it \<in> set (merged_dirs d)" for it
  proof (cases it)
    case (LeftOnly p)
    with that assms show ?thesis
      using merged_dirs_iff(1) [OF assms, of p] by (auto simp: snapshots_ok_def intro!: snapshot_readable)
  next
    case (RightOnly c)
    with that assms show ?thesis
      using merged_dirs_iff(2) [OF assms, of c] by (auto simp: snapshots_ok_def intro!: snapshot_readable)
  next
    case (Both p c)
    with that assms show ?thesis
      using merged_dirs_iff(3) [OF assms, of p c] kept_entries [OF assms, of p c
          "\<lambda>p c. list_all (\<lambda>(n, fe). short_text (join_logical (curr_path fm d c) n)) (dir_files fm (prev_files_of d) p)"]
      by (auto simp: snapshots_ok_def intro!: snapshot_readable)
  qed
  then show ?thesis by (simp add: list_all_iff)
qed

text \<open>The run over readable snapshots succeeds, and its two files hold the plan.\<close>

lemma copy_item_wf_short: "list_all short_entry es \<Longrightarrow> \<forall>i \<in> set (map as_item es). copy_item_wf i"
proof -
  have "short_entry e \<Longrightarrow> copy_item_wf (as_item e)" for e
    by (cases e) (auto simp: short_text_def)
  then show "list_all short_entry es \<Longrightarrow> ?thesis" by (auto simp: list_all_iff)
qed

lemma item_copies_short:
  assumes "item_readable fm d it"
  shows "list_all short_entry (item_copies fm d it)"
proof (cases it)
  case (RightOnly c)
  with assms show ?thesis
    by (auto simp: dir_readable_def dir_entry_def list_all_iff split: prod.splits)
next
  case (Both p c)
  with assms have r: "item_readable fm d (Both p c)" by simp
  from comparison_short(1) [OF r] r show ?thesis
    by (simp add: Both dir_readable_def dir_entry_def)
qed simp

lemma item_deletes_short:
  "item_readable fm d it \<Longrightarrow> list_all (\<lambda>e. short_text (de_path e)) (item_deletes fm d it)"
  using comparison_short(2) by (cases it) (auto simp: dir_readable_def)

lemma generated_files_hold_plan:
  assumes "json_codec enc dec" and "snapshots_ok fm d"
    and "enc kind = Inr k" and "enc root = Inr r" and "length k + length r \<le> 3800"
  shows "\<exists>copy_file delete_file st copy_records delete_records h h'.
    generate_control_files fm enc now d kind root = Inr (copy_file, delete_file, st)
    \<and> copy_reader_open dec copy_file = Inr (copy_records, h)
    \<and> read_entries copy_decode copy_records = map Inr (copies fm d)
    \<and> delete_reader_open dec delete_file = Inr (delete_records, h')
    \<and> read_entries delete_decode delete_records = map Inr (deletes fm d)"
proof -
  let ?h = "source_header now kind root"
  have fits: "\<exists>block. write_header_block enc magic h = Inr block"
    if "length magic \<le> 70" "source_kind h = kind" "source_root h = root" for magic h
    by (rule write_header_block_short [of enc h k r magic]) (use that assms(3-5) in auto)
  have sh: "source_kind ?h = kind" "source_root ?h = root"
    by (simp_all add: source_header_def)
  obtain cw where cw: "copy_writer_new enc ?h = Inr cw" "header cw = ?h"
    using fits [of COPY_MAGIC ?h] sh by (auto simp: copy_writer_new_def create_record_writer_def COPY_MAGIC_def)
  obtain dw where dw: "delete_writer_new enc now kind root = Inr dw" "header dw = ?h"
    using fits [of DELETE_MAGIC ?h] sh by (auto simp: delete_writer_new_def create_record_writer_def DELETE_MAGIC_def)
  have short: "list_all short_entry (copies fm d)" "list_all (\<lambda>e. short_text (de_path e)) (deletes fm d)"
    using merged_readable [OF assms(2)] item_copies_short item_deletes_short
    by (fastforce simp: copies_def deletes_def list_all_iff)+
  obtain s where run: "fold_err (diff_step fm d) (merged_dirs d)
      \<lparr>run_copy = cw, run_delete = dw, run_stats = diff_stats_default\<rparr> = Inr s"
    and ws: "write_all copy_put cw (map as_item (copies fm d)) = Inr (run_copy s)"
      "write_all delete_write_entry dw (deletes fm d) = Inr (run_delete s)"
    using diff_run_writes [OF merged_readable [OF assms(2)], of
        "\<lparr>run_copy = cw, run_delete = dw, run_stats = diff_stats_default\<rparr>"]
    by (auto simp: writes_def copies_def deletes_def)
  have "same_source cw (run_copy s)" "same_source dw (run_delete s)"
    using write_copies_total [OF short(1), of cw] write_deletes_total [OF short(2), of dw] ws by auto
  then obtain cf df where fin: "copy_finish enc (run_copy s) = Inr cf" "delete_finish enc (run_delete s) = Inr df"
    using fits [of COPY_MAGIC "header (run_copy s)"] fits [of DELETE_MAGIC "header (run_delete s)"] sh cw(2) dw(2)
    by (auto simp: same_source_def copy_finish_def delete_finish_def finish_record_writer_def
        COPY_MAGIC_def DELETE_MAGIC_def)
  have gen: "generate_control_files fm enc now d kind root = Inr (cf, df, run_stats s)"
    using cw(1) dw(1) run fin by (simp add: generate_control_files_def merged_dirs_def)
  from copy.file_roundtrip [OF assms(1) cw(1) [unfolded copy_writer_new_def] _ ws(1)
      copy_item_wf_short [OF short(1)] fin(1) [unfolded copy_finish_def]]
  obtain cr h where "copy_reader_open dec cf = Inr (cr, h)"
    "read_entries copy_decode cr = map Inr (copies fm d)"
    by (auto simp: copy_reader_open_def comp_def)
  moreover have "\<forall>e \<in> set (deletes fm d). delete_wf e"
    using short(2) by (auto simp: list_all_iff delete_wf_def short_text_def)
  from del.file_roundtrip [OF assms(1) dw(1) [unfolded delete_writer_new_def] _ ws(2) this
      fin(2) [unfolded delete_finish_def]]
  obtain dr h' where "delete_reader_open dec df = Inr (dr, h')"
    "read_entries delete_decode dr = map Inr (deletes fm d)"
    by (auto simp: delete_reader_open_def)
  ultimately show ?thesis using gen by blast
qed

section \<open>The backup tree and the two phases\<close>

text \<open>A tree: the paths of its directories, and for each path the files in it with their hash.\<close>

record backup_tree =
  tree_dirs :: "string set"
  tree_files :: "string \<Rightarrow> string \<Rightarrow> u32 option"

text \<open>The tree a scan saw.\<close>

definition scan_tree :: "diff_formats \<Rightarrow> files \<Rightarrow> (u64 \<times> dir_cache_entry) list \<Rightarrow> backup_tree" where
  "scan_tree fm fs m =
    \<lparr>tree_dirs = set (map (\<lambda>(i, e). dir_path fm fs e) m),
     tree_files = (\<lambda>path name.
       case find (\<lambda>(i, e). dir_path fm fs e = path) m of
         None \<Rightarrow> None
       | Some (i, e) \<Rightarrow> map_option fce_hash (map_of (dir_files fm fs e) name))\<rparr>"

text \<open>
  The copy phase: a directory record creates the directory and makes it current, a file record
  copies the file of that name in the current directory from the source.
\<close>

fun copy_entry ::
  "(string \<Rightarrow> string \<Rightarrow> u32 option) \<Rightarrow> control_entry \<Rightarrow> string \<times> backup_tree \<Rightarrow> string \<times> backup_tree" where
  "copy_entry src (EntryDir e) (cur, t) = (dc_path e, t\<lparr>tree_dirs := insert (dc_path e) (tree_dirs t)\<rparr>)"
| "copy_entry src (EntryFile f) (cur, t) =
    (cur, t\<lparr>tree_files := (\<lambda>path name. if path = cur \<and> name = fc_name f then src path name
                                     else tree_files t path name)\<rparr>)"

definition copy_phase :: "(string \<Rightarrow> string \<Rightarrow> u32 option) \<Rightarrow> control_entry list \<Rightarrow> backup_tree \<Rightarrow> backup_tree" where
  "copy_phase src es t = snd (fold (copy_entry src) es ([], t))"

text \<open>The delete phase removes the listed files, and the listed directories with all below them.\<close>

definition at_or_below :: "string \<Rightarrow> string \<Rightarrow> bool" where
  "at_or_below path dir \<longleftrightarrow> prefix (norm_parts dir) (norm_parts path)"

definition deletes_dir :: "delete_entry list \<Rightarrow> string \<Rightarrow> bool" where
  "deletes_dir es path \<longleftrightarrow> list_ex (\<lambda>e. de_type e = DeleteDir \<and> at_or_below path (de_path e)) es"

definition deletes_file :: "delete_entry list \<Rightarrow> string \<Rightarrow> string \<Rightarrow> bool" where
  "deletes_file es path name \<longleftrightarrow> list_ex (\<lambda>e. de_type e = DeleteFile \<and> de_path e = join_logical path name) es"

definition delete_phase :: "delete_entry list \<Rightarrow> backup_tree \<Rightarrow> backup_tree" where
  "delete_phase es t =
    \<lparr>tree_dirs = {path \<in> tree_dirs t. \<not> deletes_dir es path},
     tree_files = (\<lambda>path name. if deletes_dir es path \<or> deletes_file es path name then None
                              else tree_files t path name)\<rparr>"

section \<open>What the plan copies and deletes\<close>

text \<open>The directory and the names that the copies of an item are for.\<close>

fun item_dirs :: "diff_formats \<Rightarrow> incremental_diff \<Rightarrow> dir_cache_entry diff_item \<Rightarrow> string set" where
  "item_dirs fm d (LeftOnly p) = {}"
| "item_dirs fm d (RightOnly c) = {curr_path fm d c}"
| "item_dirs fm d (Both p c) = (if dir_changed fm d p c then {curr_path fm d c} else {})"

fun item_names :: "diff_formats \<Rightarrow> incremental_diff \<Rightarrow> dir_cache_entry diff_item \<Rightarrow> (string \<times> string) set" where
  "item_names fm d (LeftOnly p) = {}"
| "item_names fm d (RightOnly c) = {curr_path fm d c} \<times> fst ` set (dir_files fm (curr_meta_files d) c)"
| "item_names fm d (Both p c) =
    (if dir_changed fm d p c
     then {curr_path fm d c} \<times> fc_name ` set (dfd_file_entries (dir_comparison fm d p c)) else {})"

definition overlay ::
  "(string \<Rightarrow> string \<Rightarrow> u32 option) \<Rightarrow> string set \<Rightarrow> (string \<times> string) set \<Rightarrow> backup_tree \<Rightarrow> backup_tree" where
  "overlay src dirs names t =
    \<lparr>tree_dirs = dirs \<union> tree_dirs t,
     tree_files = (\<lambda>path name. if (path, name) \<in> names then src path name else tree_files t path name)\<rparr>"

lemma copy_files_overlay:
  "fold (copy_entry src) (map EntryFile fs) (cur, t) = (cur, overlay src {} ({cur} \<times> fc_name ` set fs) t)"
  by (induction fs arbitrary: t) (auto simp: overlay_def intro!: backup_tree.equality ext)

lemma copy_item_overlay:
  "\<exists>cur'. fold (copy_entry src) (item_copies fm d it) (cur, t)
    = (cur', overlay src (item_dirs fm d it) (item_names fm d it) t)"
proof (cases it)
  case (LeftOnly p)
  then show ?thesis by (simp add: overlay_def)
next
  case (RightOnly c)
  have "map (\<lambda>(n, fe). EntryFile (file_entry n FileNew fe)) xs
      = map EntryFile (map (\<lambda>(n, fe). file_entry n FileNew fe) xs)" for xs
    by (simp add: comp_def case_prod_unfold)
  note eq = this
  have names: "fc_name ` set (map (\<lambda>(n, fe). file_entry n FileNew fe) xs) = fst ` set xs" for xs
    by (force simp: image_iff)
  show ?thesis
    unfolding RightOnly item_copies.simps eq fold_simps copy_entry.simps copy_files_overlay names
    by (auto simp: overlay_def dir_entry_def intro!: ext)
next
  case (Both p c)
  then show ?thesis
    by (auto simp: copy_files_overlay overlay_def dir_entry_def intro!: ext)
qed

lemma copy_items_overlay:
  "\<exists>cur'. fold (copy_entry src) (concat (map (item_copies fm d) its)) (cur, t)
    = (cur', overlay src (\<Union> (item_dirs fm d ` set its)) (\<Union> (item_names fm d ` set its)) t)"
proof (induction its arbitrary: cur t)
  case Nil
  then show ?case by (simp add: overlay_def)
next
  case (Cons it its)
  have two: "overlay src A B (overlay src A' B' t) = overlay src (A' \<union> A) (B' \<union> B) t" for A A' B B' and t :: backup_tree
    by (auto simp: overlay_def intro!: ext)
  obtain cur1 where "fold (copy_entry src) (item_copies fm d it) (cur, t)
      = (cur1, overlay src (item_dirs fm d it) (item_names fm d it) t)"
    using copy_item_overlay by blast
  with Cons.IH [of cur1 "overlay src (item_dirs fm d it) (item_names fm d it) t"] show ?case
    by (simp add: two)
qed

lemma copy_phase_plan:
  "copy_phase src (copies fm d) t =
    overlay src (\<Union> (item_dirs fm d ` set (merged_dirs d))) (\<Union> (item_names fm d ` set (merged_dirs d))) t"
  using copy_items_overlay [of src fm d "merged_dirs d" "[]" t]
  by (auto simp: copy_phase_def copies_def)

section \<open>The plan turns the previous tree into the current one\<close>

text \<open>A scan lists each path and each name in a directory once, in canonical form.\<close>

definition tree_wf :: "diff_formats \<Rightarrow> files \<Rightarrow> (u64 \<times> dir_cache_entry) list \<Rightarrow> bool" where
  "tree_wf fm fs m \<longleftrightarrow> distinct (map (\<lambda>(i, e). dir_path fm fs e) m)
    \<and> list_all (\<lambda>(i, e). canonical (dir_path fm fs e) \<and> distinct (map fst (dir_files fm fs e))
        \<and> list_all (\<lambda>(n, fe). clean_part n) (dir_files fm fs e)) m"


lemma find_distinct:
  "distinct (map f xs) \<Longrightarrow> x \<in> set xs \<Longrightarrow> find (\<lambda>y. f y = f x) xs = Some x"
  by (induction xs) (auto simp: image_iff)

lemma scan_tree_files:
  assumes "tree_wf fm fs m" and "e \<in> snd ` set m"
  shows "tree_files (scan_tree fm fs m) (dir_path fm fs e) name = map_option fce_hash (map_of (dir_files fm fs e) name)"
proof -
  from assms(2) obtain i where i: "(i, e) \<in> set m" by auto
  have "distinct (map (dir_path fm fs \<circ> snd) m)"
    using assms(1) by (simp add: tree_wf_def case_prod_unfold comp_def)
  from find_distinct [OF this i] show ?thesis
    by (simp add: scan_tree_def case_prod_unfold)
qed

lemma scan_tree_files_Some:
  assumes "tree_wf fm fs m" and "tree_files (scan_tree fm fs m) path name = Some v"
  shows "\<exists>e fe. e \<in> snd ` set m \<and> path = dir_path fm fs e
    \<and> map_of (dir_files fm fs e) name = Some fe \<and> v = fce_hash fe"
proof -
  from assms(2) obtain i e where f: "find (\<lambda>(i, e). dir_path fm fs e = path) m = Some (i, e)"
    and v: "map_option fce_hash (map_of (dir_files fm fs e) name) = Some v"
    by (auto simp: scan_tree_def split: option.splits)
  from find_SomeD [OF f] have "e \<in> snd ` set m" "path = dir_path fm fs e"
    by force+
  with v show ?thesis by auto
qed

lemma dir_path_inj:
  "tree_wf fm fs m \<Longrightarrow> e \<in> snd ` set m \<Longrightarrow> e' \<in> snd ` set m \<Longrightarrow> dir_path fm fs e = dir_path fm fs e' \<Longrightarrow> e = e'"
  unfolding tree_wf_def distinct_map inj_on_def by fastforce

lemma tree_wf_entry:
  assumes "tree_wf fm fs m" and "e \<in> snd ` set m"
  shows "canonical (dir_path fm fs e)" and "distinct (map fst (dir_files fm fs e))"
    and "map_of (dir_files fm fs e) n = Some fe \<Longrightarrow> clean_part n"
  using assms by (fastforce simp: tree_wf_def list_all_iff dest: map_of_SomeD)+

lemma length_bt_of: "length (bt_of xs) \<le> length xs"
proof -
  have "length (bt_of xs) = card (set (map fst (bt_of xs)))"
    using bt_ok_distinct [OF bt_ok_of, of xs] distinct_card [of "map fst (bt_of xs)"] by simp
  also have "\<dots> \<le> card (set (map fst xs))"
    using set_bt_of_subset [of xs] by (intro card_mono) auto
  also have "\<dots> \<le> length xs"
    using card_length [of "map fst xs"] by simp
  finally show ?thesis .
qed

lemma length_dir_files: "length (dir_files fm fs e) < 2 ^ 64"
proof -
  have le: "length (concat (map (\<lambda>i. case g i of Inr (Some x) \<Rightarrow> [x] | _ \<Rightarrow> []) is)) \<le> length is"
    for g :: "nat \<Rightarrow> 'a + 'b option" and "is"
    by (induction "is") (auto split: sum.split option.split)
  have "length (dir_files fm fs e) \<le> unat (dce_files_count e)"
    by (simp add: dir_files_def split: sum.split) (metis le length_upt diff_zero)
  moreover have "unat (dce_files_count e) < 2 ^ 32"
    using unsigned_less [of "dce_files_count e", where ?'a = nat] by simp
  ultimately show ?thesis by simp
qed

text \<open>Whether or not the directory counts as changed, the entries of its comparison are used.\<close>

lemma unchanged_no_entries:
  assumes "\<not> dir_changed fm d p c"
  shows "dfd_file_entries (dir_comparison fm d p c) = []" and "dfd_delete_entries (dir_comparison fm d p c) = []"
proof -
  have "\<not> has_changes (dir_comparison fm d p c)"
    using assms by (simp add: dir_changed_def)
  then show "dfd_file_entries (dir_comparison fm d p c) = []" and "dfd_delete_entries (dir_comparison fm d p c) = []"
    unfolding dir_comparison_def
    using has_changes_iff [OF le_less_trans [OF length_bt_of length_dir_files]
        le_less_trans [OF length_bt_of length_dir_files]] by blast+
qed

lemma both_names:
  assumes "distinct (map fst (dir_files fm (prev_files_of d) p))"
    and "distinct (map fst (dir_files fm (curr_meta_files d) c))"
  shows "(path, n) \<in> item_names fm d (Both p c) \<longleftrightarrow> path = curr_path fm d c
    \<and> (\<exists>ce. map_of (dir_files fm (curr_meta_files d) c) n = Some ce
        \<and> (\<forall>pe. map_of (dir_files fm (prev_files_of d) p) n = Some pe \<longrightarrow> fce_hash pe \<noteq> fce_hash ce))"
proof -
  have "(path, n) \<in> item_names fm d (Both p c) \<longleftrightarrow> path = curr_path fm d c
      \<and> n \<in> fc_name ` set (dfd_file_entries (dir_comparison fm d p c))"
    using unchanged_no_entries(1) [of fm d p c] by auto
  also have "n \<in> fc_name ` set (dfd_file_entries (dir_comparison fm d p c)) \<longleftrightarrow>
      (\<exists>ce. map_of (dir_files fm (curr_meta_files d) c) n = Some ce
        \<and> (\<forall>pe. map_of (dir_files fm (prev_files_of d) p) n = Some pe \<longrightarrow> fce_hash pe \<noteq> fce_hash ce))"
    using bt_of_distinct [OF assms(1)] bt_of_distinct [OF assms(2)]
    by (auto simp: dir_comparison_def compare_files_eq image_Un in_modified_names in_new_names)
  finally show ?thesis .
qed

lemma deletes_dir_plan:
  "deletes_dir (deletes fm d) path \<longleftrightarrow>
    (\<exists>p. LeftOnly p \<in> set (merged_dirs d) \<and> at_or_below path (prev_path fm d p))"
proof -
  have "(e \<in> set (item_deletes fm d it) \<and> de_type e = DeleteDir) \<longleftrightarrow>
      (\<exists>p. it = LeftOnly p \<and> e = \<lparr>de_type = DeleteDir, de_path = prev_path fm d p\<rparr>)" for it e
    by (cases it) (auto simp: dir_comparison_def compare_files_eq in_deleted)
  then have "(\<exists>e \<in> set (item_deletes fm d it). de_type e = DeleteDir \<and> at_or_below path (de_path e)) \<longleftrightarrow>
      (\<exists>p. it = LeftOnly p \<and> at_or_below path (prev_path fm d p))" for it
    by (metis delete_entry.select_convs(1,2))
  then show ?thesis
    unfolding deletes_dir_def list_ex_iff deletes_def by auto
qed








section \<open>Properties\<close>

text \<open>
  A whole incremental backup on a tree: generate the two control files, read them back, run the
  copy phase and then the delete phase. Entries that cannot be read are skipped by both phases.
\<close>

definition readable_entries :: "'a io list \<Rightarrow> 'a list" where
  "readable_entries rs = concat (map (\<lambda>r. case r of Inr x \<Rightarrow> [x] | Inl _ \<Rightarrow> []) rs)"

definition incremental_backup ::
  "diff_formats \<Rightarrow> json_enc \<Rightarrow> json_dec \<Rightarrow> u64 \<Rightarrow> incremental_diff \<Rightarrow> string \<Rightarrow> string \<Rightarrow> backup_tree \<Rightarrow>
   backup_tree option" where
  "incremental_backup fm enc dec now d kind root t =
    (case generate_control_files fm enc now d kind root of
       Inl _ \<Rightarrow> None
     | Inr (copy_file, delete_file, _) \<Rightarrow>
         (case (copy_reader_open dec copy_file, delete_reader_open dec delete_file) of
            (Inr (copy_records, _), Inr (delete_records, _)) \<Rightarrow>
              Some (delete_phase (readable_entries (read_entries delete_decode delete_records))
                (copy_phase (tree_files (scan_tree fm (curr_meta_files d) (curr_dcache d)))
                  (readable_entries (read_entries copy_decode copy_records)) t))
          | _ \<Rightarrow> None))"

lemma incremental_backup_plan:
  assumes "json_codec enc dec" and "snapshots_ok fm d"
    and "enc kind = Inr k" and "enc root = Inr r" and "length k + length r \<le> 3800"
  shows "incremental_backup fm enc dec now d kind root t =
    Some (delete_phase (deletes fm d)
      (copy_phase (tree_files (scan_tree fm (curr_meta_files d) (curr_dcache d))) (copies fm d) t))"
proof -
  have all: "readable_entries (map Inr xs) = xs" for xs :: "'x list"
    by (simp add: readable_entries_def comp_def)
  from generated_files_hold_plan [OF assms, of now] show ?thesis
    by (auto simp: incremental_backup_def all)
qed


text \<open>
  Two scans of \<open>/s\<close>: the file \<open>b\<close> has changed, \<open>g\<close> is gone and \<open>n\<close> is new; the directory
  \<open>/s/old\<close> is gone and \<open>/s/n\<close> is new. Both use one metadata file.
\<close>

definition sample_meta :: "byte list" where
  "sample_meta =
    tlv TAG_DIR (str_bytes ''/s'') @ tlv TAG_DIR (str_bytes ''/s/old'') @ tlv TAG_DIR (str_bytes ''/s/n'')
    @ tlv TAG_FILE (str_bytes ''a'') @ tlv TAG_FILE (str_bytes ''b'') @ tlv TAG_FILE (str_bytes ''g'')
    @ tlv TAG_FILE (str_bytes ''n'') @ tlv TAG_FILE (str_bytes ''x'')"

definition sample_fce :: "byte \<Rightarrow> byte \<Rightarrow> byte list" where
  "sample_fce hash offset = hash # offset # replicate 18 0"

definition sample_formats :: diff_formats where
  "sample_formats =
    \<lparr>fmt_meta = sample_bincode,
     fmt_dirs = \<lparr>fixed_size = DIR_CACHE_SIZE, fixed_enc = \<lambda>_. Inl InvalidData, fixed_dec = \<lambda>_. None\<rparr>,
     fmt_files = \<lparr>fixed_size = FILE_CACHE_SIZE, fixed_enc = \<lambda>_. Inl InvalidData,
       fixed_dec = \<lambda>bs. Some \<lparr>fce_id = 0, fce_hash = ucast (bs ! 0), fce_meta_loc = (0, ucast (bs ! 1))\<rparr>\<rparr>\<rparr>"

definition sample_dce :: "u64 \<Rightarrow> u32 \<Rightarrow> u32 \<Rightarrow> u32 \<Rightarrow> dir_cache_entry" where
  "sample_dce i loc n offset =
    \<lparr>dce_id = i, dce_hash = 0, dce_meta_loc = (0, loc), dce_files_count = n, dce_fcache_fid = 0,
     dce_fcache_offset = offset\<rparr>"

definition sample_diff :: incremental_diff where
  "sample_diff =
    \<lparr>prev_dcache = [(1, sample_dce 1 0 3 0), (2, sample_dce 2 7 0 0)],
     curr_dcache = [(1, sample_dce 1 0 3 0), (3, sample_dce 3 18 1 60)],
     curr_meta_files = [(''meta_0_0.dat'', sample_meta), (''fcache_0.dat'',
       sample_fce 1 27 @ sample_fce 2 33 @ sample_fce 3 45 @ sample_fce 4 51)],
     prev_meta_files = Some [(''meta_0_0.dat'', sample_meta), (''fcache_0.dat'',
       sample_fce 1 27 @ sample_fce 1 33 @ sample_fce 1 39)]\<rparr>"

abbreviation sample_prev :: files where
  "sample_prev \<equiv> prev_files_of sample_diff"

abbreviation sample_curr :: files where
  "sample_curr \<equiv> curr_meta_files sample_diff"

text \<open>A snapshot is checked on a summary of its directories, which is computed.\<close>

definition scan_summary ::
  "diff_formats \<Rightarrow> files \<Rightarrow> (u64 \<times> dir_cache_entry) list \<Rightarrow> (u64 \<times> u64 \<times> bool \<times> string \<times> string list) list" where
  "scan_summary fm fs m = map (\<lambda>(i, e).
     (i, dce_id e, isl (get_dmeta (fmt_meta fm) fs (dce_meta_loc e)) \<or> \<not> files_present fm fs e,
      dir_path fm fs e, map fst (dir_files fm fs e))) m"

definition summary_ok :: "(u64 \<times> u64 \<times> bool \<times> string \<times> string list) list \<Rightarrow> bool" where
  "summary_ok ps \<longleftrightarrow> sorted_wrt (<) (map fst ps) \<and> list_all (\<lambda>(i, j, missing, path, names).
     i = j \<and> \<not> missing \<and> short_text path
     \<and> list_all (\<lambda>n. short_text n \<and> short_text (join_logical path n)) names) ps"

lemma snapshot_ok_summary: "summary_ok (scan_summary fm fs m) \<Longrightarrow> snapshot_ok fm fs m"
  by (auto simp: summary_ok_def scan_summary_def snapshot_ok_def dir_readable_def bt_ok_def
      list_all_iff case_prod_unfold comp_def)

lemma short_text_ascii: "list_all (\<lambda>c. of_char c < (128 :: nat)) s \<Longrightarrow> length s < 1000 \<Longrightarrow> short_text s"
  by (simp add: short_text_def rust_string_ascii list_all_iff)

text \<open>The paths at which files of a directory that both scans have could be deleted.\<close>

definition kept_joins :: "diff_formats \<Rightarrow> incremental_diff \<Rightarrow> string list list" where
  "kept_joins fm d = map (\<lambda>(i, p). case map_of (curr_dcache d) i of
      None \<Rightarrow> []
    | Some c \<Rightarrow> map (\<lambda>(n, fe). join_logical (curr_path fm d c) n) (dir_files fm (prev_files_of d) p))
    (prev_dcache d)"

lemma snapshots_okI:
  assumes "summary_ok (scan_summary fm (prev_files_of d) (prev_dcache d))"
    and "summary_ok (scan_summary fm (curr_meta_files d) (curr_dcache d))" and "prev_meta_files d \<noteq> None"
    and "list_all (list_all short_text) (kept_joins fm d)"
  shows "snapshots_ok fm d"
  unfolding snapshots_ok_def
proof (intro conjI)
  show "list_all (\<lambda>(i, p). case map_of (curr_dcache d) i of None \<Rightarrow> True
      | Some c \<Rightarrow> list_all (\<lambda>(n, fe). short_text (join_logical (curr_path fm d c) n))
            (dir_files fm (prev_files_of d) p)) (prev_dcache d)"
    using assms(4) by (fastforce simp: kept_joins_def list_all_iff split: option.splits)
qed (use assms snapshot_ok_summary in auto)

lemma sample_scan:
  "scan_summary sample_formats (prev_files_of sample_diff) (prev_dcache sample_diff)
    = [(1, 1, False, ''/s'', [''a'', ''b'', ''g'']), (2, 2, False, ''/s/old'', [])]"
  "scan_summary sample_formats (curr_meta_files sample_diff) (curr_dcache sample_diff)
    = [(1, 1, False, ''/s'', [''a'', ''b'', ''n'']), (3, 3, False, ''/s/n'', [''x''])]"
  "kept_joins sample_formats sample_diff = [[''/s/a'', ''/s/b'', ''/s/g''], []]"
  by code_simp+

lemma sample_joins:
  "join_logical ''/s'' ''a'' = ''/s/a''" "join_logical ''/s'' ''b'' = ''/s/b''"
  "join_logical ''/s'' ''g'' = ''/s/g''" "join_logical ''/s'' ''n'' = ''/s/n''"
  "join_logical ''/s/n'' ''x'' = ''/s/n/x''" "join_logical ''/s/n'' ''a'' = ''/s/n/a''"
  "join_logical ''/s/old'' ''a'' = ''/s/old/a''"
  by code_simp+

lemmas sample_simps = sample_scan sample_joins summary_ok_def short_text_ascii



lemma plain_json_sample:
  "plain_json_enc ''local'' = Inr (CHR 0x22 # ''local'' @ [CHR 0x22])"
  "plain_json_enc ''/s'' = Inr (CHR 0x22 # ''/s'' @ [CHR 0x22])"
  by (simp_all add: plain_json_enc_def plain_json_char_def graph_char_def)


text \<open>
  C36. A directory that was removed and created again at its old path, with a new inode, is lost by the
  incremental backup: it is in the current tree, but the delete entry written for its old inode
  removes it from the backup after it was copied, with all files in it.
\<close>

theorem recreated_dir_lost:
  assumes "json_codec enc dec" and "enc kind = Inr k" and "enc root = Inr r" and "length k + length r \<le> 3800"
    and "snapshots_ok fm d"
    and "p \<in> prev_entries d" and "dce_id p \<notin> dce_id ` curr_entries d"
    and "c \<in> curr_entries d" and "curr_path fm d c = prev_path fm d p"
  shows "curr_path fm d c \<in> tree_dirs (scan_tree fm (curr_meta_files d) (curr_dcache d))
    \<and> (\<exists>t'. incremental_backup fm enc dec now d kind root t = Some t'
        \<and> curr_path fm d c \<notin> tree_dirs t' \<and> tree_files t' (curr_path fm d c) name = None)"
proof -
  have "LeftOnly p \<in> set (merged_dirs d)"
    using merged_dirs_iff(1) [OF assms(5)] assms(6,7) by simp
  then have "deletes_dir (deletes fm d) (curr_path fm d c)"
    unfolding deletes_dir_plan assms(9) at_or_below_def by blast
  moreover have "curr_path fm d c \<in> tree_dirs (scan_tree fm (curr_meta_files d) (curr_dcache d))"
    using assms(8) by (force simp: scan_tree_def)
  ultimately show ?thesis
    by (simp add: incremental_backup_plan [OF assms(1,5,2-4)] delete_phase_def)
qed

definition recreated_diff :: incremental_diff where
  "recreated_diff = sample_diff\<lparr>curr_dcache := [(1, sample_dce 1 0 3 0), (4, sample_dce 4 7 0 0)]\<rparr>"

lemma recreated_scan:
  "scan_summary sample_formats (prev_files_of recreated_diff) (prev_dcache recreated_diff)
    = [(1, 1, False, ''/s'', [''a'', ''b'', ''g'']), (2, 2, False, ''/s/old'', [])]"
  "scan_summary sample_formats (curr_meta_files recreated_diff) (curr_dcache recreated_diff)
    = [(1, 1, False, ''/s'', [''a'', ''b'', ''n'']), (4, 4, False, ''/s/old'', [])]"
  "kept_joins sample_formats recreated_diff = [[''/s/a'', ''/s/b'', ''/s/g''], []]"
  "curr_path sample_formats recreated_diff (sample_dce 4 7 0 0) = ''/s/old''"
  "prev_path sample_formats recreated_diff (sample_dce 2 7 0 0) = ''/s/old''"
  by code_simp+

theorem recreated_dir_lost_witness:
  "''/s/old'' \<in> tree_dirs (scan_tree sample_formats (curr_meta_files recreated_diff) (curr_dcache recreated_diff))
   \<and> (\<exists>t'. incremental_backup sample_formats plain_json_enc plain_json_dec 7 recreated_diff ''local'' ''/s''
          (scan_tree sample_formats (prev_files_of recreated_diff) (prev_dcache recreated_diff)) = Some t'
        \<and> ''/s/old'' \<notin> tree_dirs t')"
proof -
  have ok: "snapshots_ok sample_formats recreated_diff"
    by (rule snapshots_okI) (simp_all add: recreated_scan sample_simps, simp add: recreated_diff_def sample_diff_def)
  have sides: "sample_dce 2 7 0 0 \<in> prev_entries recreated_diff" "sample_dce 4 7 0 0 \<in> curr_entries recreated_diff"
    "dce_id (sample_dce 2 7 0 0) \<notin> dce_id ` curr_entries recreated_diff"
    by (simp_all add: recreated_diff_def sample_diff_def sample_dce_def)
  from recreated_dir_lost [OF plain_json_codec plain_json_sample _ ok sides(1,3,2), of 7
      "scan_tree sample_formats (prev_files_of recreated_diff) (prev_dcache recreated_diff)"]
  show ?thesis by (auto simp: recreated_scan)
qed

text \<open>
  C37. A renamed directory (same inode, new path) is not carried over: an unchanged file in it is in the
  current tree at the new path, but not in the backup; and when no directory is gone altogether,
  the old path stays in the backup for ever.
\<close>

theorem renamed_dir_lost:
  assumes "json_codec enc dec" and "enc kind = Inr k" and "enc root = Inr r" and "length k + length r \<le> 3800"
    and "snapshots_ok fm d"
    and "tree_wf fm (prev_files_of d) (prev_dcache d)" and "tree_wf fm (curr_meta_files d) (curr_dcache d)"
    and "p \<in> prev_entries d" and "c \<in> curr_entries d" and "dce_id p = dce_id c"
    and "curr_path fm d c \<notin> prev_path fm d ` prev_entries d"
    and "dce_id ` prev_entries d \<subseteq> dce_id ` curr_entries d"
    and "map_of (dir_files fm (prev_files_of d) p) name = Some pe"
    and "map_of (dir_files fm (curr_meta_files d) c) name = Some ce" and "fce_hash pe = fce_hash ce"
  shows "tree_files (scan_tree fm (curr_meta_files d) (curr_dcache d)) (curr_path fm d c) name = Some (fce_hash ce)
    \<and> (\<exists>t'. incremental_backup fm enc dec now d kind root (scan_tree fm (prev_files_of d) (prev_dcache d)) = Some t'
        \<and> tree_files t' (curr_path fm d c) name = None \<and> prev_path fm d p \<in> tree_dirs t')"
proof -
  note merged = merged_dirs_iff [OF assms(5)]
  have curr: "tree_files (scan_tree fm (curr_meta_files d) (curr_dcache d)) (curr_path fm d c) name = Some (fce_hash ce)"
    using scan_tree_files [OF assms(7,9)] assms(14) by simp
  have "tree_files (scan_tree fm (prev_files_of d) (prev_dcache d)) (curr_path fm d c) name = None"
    using scan_tree_files_Some [OF assms(6), of "curr_path fm d c" name] assms(11)
    by (cases "tree_files (scan_tree fm (prev_files_of d) (prev_dcache d)) (curr_path fm d c) name") auto
  moreover have "(curr_path fm d c, name) \<notin> item_names fm d it" if it: "it \<in> set (merged_dirs d)" for it
  proof (cases it)
    case (RightOnly c')
    then have c': "c' \<in> curr_entries d" "dce_id c' \<notin> dce_id ` prev_entries d"
      using it merged(2) [of c'] by simp_all
    have "dce_id c' \<noteq> dce_id p"
      using c'(2) assms(8) by (metis image_eqI)
    then have "curr_path fm d c' \<noteq> curr_path fm d c"
      using dir_path_inj [OF assms(7) c'(1) assms(9)] assms(10) by metis
    then show ?thesis by (simp add: RightOnly)
  next
    case (Both p' c')
    have entries: "p' \<in> prev_entries d" "c' \<in> curr_entries d" "dce_id p' = dce_id c'"
      using it Both merged(3) by auto
    show ?thesis
    proof (cases "c' = c")
      case True
      have "map_of (prev_dcache d) (dce_id p) = Some p" "map_of (prev_dcache d) (dce_id p') = Some p'"
        using snapshot_entry [of fm "prev_files_of d" "prev_dcache d"] assms(5,8) entries(1)
        by (simp_all add: snapshots_ok_def)
      then have "p' = p" using True entries(3) assms(10) by simp
      then show ?thesis
        using both_names [of fm d p c "curr_path fm d c" name] tree_wf_entry(2) [OF assms(6,8)]
          tree_wf_entry(2) [OF assms(7,9)] assms(13-15) True Both by auto
    next
      case False
      then have "curr_path fm d c' \<noteq> curr_path fm d c"
        using dir_path_inj [OF assms(7) entries(2) assms(9)] by blast
      then show ?thesis by (simp add: Both)
    qed
  qed simp
  moreover have "\<not> deletes_dir (deletes fm d) path" for path
    unfolding deletes_dir_plan using merged(1) assms(12) by (meson imageI subsetD)
  moreover have "prev_path fm d p \<in> tree_dirs (scan_tree fm (prev_files_of d) (prev_dcache d))"
    using assms(8) by (force simp: scan_tree_def)
  ultimately show ?thesis
    using curr by (simp add: incremental_backup_plan [OF assms(1,5,2-4)] delete_phase_def copy_phase_plan
        overlay_def)
qed

definition renamed_diff :: incremental_diff where
  "renamed_diff = sample_diff\<lparr>prev_dcache := [(2, sample_dce 2 7 1 0)], curr_dcache := [(2, sample_dce 2 18 1 0)]\<rparr>"

lemma renamed_scan:
  "scan_summary sample_formats (prev_files_of renamed_diff) (prev_dcache renamed_diff) = [(2, 2, False, ''/s/old'', [''a''])]"
  "scan_summary sample_formats (curr_meta_files renamed_diff) (curr_dcache renamed_diff) = [(2, 2, False, ''/s/n'', [''a''])]"
  "kept_joins sample_formats renamed_diff = [[''/s/n/a'']]"
  "tree_wf sample_formats (prev_files_of renamed_diff) (prev_dcache renamed_diff)"
  "tree_wf sample_formats (curr_meta_files renamed_diff) (curr_dcache renamed_diff)"
  "curr_path sample_formats renamed_diff (sample_dce 2 18 1 0) = ''/s/n''"
  "prev_path sample_formats renamed_diff (sample_dce 2 7 1 0) = ''/s/old''"
  "map_of (dir_files sample_formats (prev_files_of renamed_diff) (sample_dce 2 7 1 0)) ''a''
    = Some \<lparr>fce_id = 0, fce_hash = 1, fce_meta_loc = (0, 27)\<rparr>"
  "map_of (dir_files sample_formats (curr_meta_files renamed_diff) (sample_dce 2 18 1 0)) ''a''
    = Some \<lparr>fce_id = 0, fce_hash = 1, fce_meta_loc = (0, 27)\<rparr>"
  by code_simp+

theorem renamed_dir_lost_witness:
  "tree_files (scan_tree sample_formats (curr_meta_files renamed_diff) (curr_dcache renamed_diff)) ''/s/n'' ''a'' = Some 1
   \<and> (\<exists>t'. incremental_backup sample_formats plain_json_enc plain_json_dec 7 renamed_diff ''local'' ''/s''
          (scan_tree sample_formats (prev_files_of renamed_diff) (prev_dcache renamed_diff)) = Some t'
        \<and> tree_files t' ''/s/n'' ''a'' = None \<and> ''/s/old'' \<in> tree_dirs t')"
proof -
  have ok: "snapshots_ok sample_formats renamed_diff"
    by (rule snapshots_okI) (simp_all add: renamed_scan sample_simps, simp add: renamed_diff_def sample_diff_def)
  have entries: "prev_entries renamed_diff = {sample_dce 2 7 1 0}" "curr_entries renamed_diff = {sample_dce 2 18 1 0}"
    by (simp_all add: renamed_diff_def sample_diff_def)
  show ?thesis
    using renamed_dir_lost [OF plain_json_codec plain_json_sample _ ok renamed_scan(4,5) _ _ _ _ _ renamed_scan(8,9), of 7]
    by (simp add: entries renamed_scan) (simp add: sample_dce_def)
qed

end
