(* ===== verification/ControlFiles.thy ===== *)
theory ControlFiles
  imports Files BTree
begin

text \<open>
  \<^verbatim>\<open>frame/control_files.rs\<close>: how control files are named, recognised by their name and found
  in the control directory. SHA-256 is a parameter. A directory is its \<open>files\<close>; a path in it is a
  file name.
\<close>

section \<open>Names\<close>

definition CONTROL_FILE_EXTENSION :: string where
  "CONTROL_FILE_EXTENSION = ''.control.bin''"

definition hex_digit :: "nat \<Rightarrow> char" where
  "hex_digit d = (if d < 10 then char_of (48 + d) else char_of (87 + d))"

text \<open>\<^verbatim>\<open>{byte:02x}\<close>\<close>

definition hex_byte :: "byte \<Rightarrow> string" where
  "hex_byte b = [hex_digit (unat b div 16), hex_digit (unat b mod 16)]"

definition short_hash :: "(byte list \<Rightarrow> byte list) \<Rightarrow> string \<Rightarrow> string" where
  "short_hash sha256 input = concat (map hex_byte (take 8 (sha256 (str_bytes input))))"

definition control_file_name :: "(byte list \<Rightarrow> byte list) \<Rightarrow> string \<Rightarrow> string \<Rightarrow> string" where
  "control_file_name sha256 phrase discriminator =
    phrase @ ''_'' @ short_hash sha256 (phrase @ '':'' @ discriminator) @ ''.control.bin''"

definition primary_control_file_name :: "(byte list \<Rightarrow> byte list) \<Rightarrow> string \<Rightarrow> string" where
  "primary_control_file_name sha256 phrase = control_file_name sha256 phrase ''main''"

definition sharded_copy_control_file_name :: "(byte list \<Rightarrow> byte list) \<Rightarrow> nat \<Rightarrow> u32 \<Rightarrow> string" where
  "sharded_copy_control_file_name sha256 shard_id file_index =
    control_file_name sha256 ''copy''
      (''shard:'' @ nat_str shard_id @ '':file:'' @ nat_str (unat file_index))"

section \<open>Recognising and finding files\<close>

definition classify_control_file_name :: "string \<Rightarrow> string option" where
  "classify_control_file_name file_name =
    (if \<not> suffix CONTROL_FILE_EXTENSION file_name then None
     else if prefix ''copy_'' file_name then Some ''copy''
     else if prefix ''hardlink_'' file_name then Some ''hardlink''
     else if prefix ''delete_'' file_name then Some ''delete''
     else if prefix ''mtime_'' file_name then Some ''mtime''
     else None)"

definition find_primary_control_file :: "(byte list \<Rightarrow> byte list) \<Rightarrow> files \<Rightarrow> string \<Rightarrow> string option" where
  "find_primary_control_file sha256 ctrl_dir phrase =
    (let expected = primary_control_file_name sha256 phrase
     in if file_content ctrl_dir expected \<noteq> None then Some expected
        else find (\<lambda>name. classify_control_file_name name = Some phrase) (map fst ctrl_dir))"

definition discover_control_files :: "files \<Rightarrow> string \<Rightarrow> string list" where
  "discover_control_files ctrl_dir phrase =
    sort (filter (\<lambda>name. classify_control_file_name name = Some phrase) (map fst ctrl_dir))"

section \<open>The phrase of a name\<close>

definition control_phrases :: "string list" where
  "control_phrases = [''copy'', ''hardlink'', ''delete'', ''mtime'']"

lemma classify_control_file:
  "phrase \<in> set control_phrases \<Longrightarrow> classify_control_file_name (control_file_name sha256 phrase d) = Some phrase"
  by (auto simp: classify_control_file_name_def control_file_name_def control_phrases_def
      CONTROL_FILE_EXTENSION_def suffix_def)

lemma classify_phrase: "classify_control_file_name name = Some phrase \<Longrightarrow> phrase \<in> set control_phrases"
  by (auto simp: classify_control_file_name_def control_phrases_def split: if_splits)

lemma find_primary_discovered:
  "find_primary_control_file sha256 ctrl_dir phrase = Some name \<Longrightarrow> phrase \<in> set control_phrases \<Longrightarrow>
   name \<in> set (discover_control_files ctrl_dir phrase)"
proof -
  assume f: "find_primary_control_file sha256 ctrl_dir phrase = Some name" and p: "phrase \<in> set control_phrases"
  show ?thesis
  proof (cases "file_content ctrl_dir (primary_control_file_name sha256 phrase)")
    case None
    with f have "find (\<lambda>name. classify_control_file_name name = Some phrase) (map fst ctrl_dir) = Some name"
      by (simp add: find_primary_control_file_def Let_def)
    from find_SomeD [OF this] show ?thesis
      by (simp add: discover_control_files_def)
  next
    case (Some c)
    with f have "name = primary_control_file_name sha256 phrase"
      by (simp add: find_primary_control_file_def Let_def)
    with Some p show ?thesis
      by (auto simp: discover_control_files_def file_content_def primary_control_file_name_def
          classify_control_file dest!: map_of_SomeD intro: rev_image_eqI)
  qed
qed

end
