(* ===== verification/ShardedControl.thy ===== *)
theory ShardedControl
  imports ControlFiles CopyControl "HOL-Library.AList"
begin

text \<open>
  \<^verbatim>\<open>scanner/metadata/sharded_control.rs\<close>: copy control files split into shards. A directory and
  its files go to the shard that a hash of the directory path selects; a shard that is full rolls
  over to a new file. The control directory is its \<open>files\<close>, changed when a shard file is finished.
  The two hash maps the manager is read through are association lists; the order in which
  \<^verbatim>\<open>drain\<close> yields the shards, which Rust leaves open, is that of the list.
\<close>

section \<open>Policies\<close>

datatype shard_split_policy =
    MaxSize (policy_size: u64) (policy_entries: nat)
  | MaxEntries (policy_entries: nat)

definition copy_default :: shard_split_policy where
  "copy_default = MaxSize (100 * 1024 * 1024) 1000000"

definition other_default :: shard_split_policy where
  "other_default = MaxEntries 5000000"

fun needs_rollover :: "shard_split_policy \<Rightarrow> u64 \<Rightarrow> nat \<Rightarrow> bool" where
  "needs_rollover (MaxSize max_size max_entries) current_size entry_count =
    (max_size \<le> current_size \<or> max_entries \<le> entry_count)"
| "needs_rollover (MaxEntries max_entries) current_size entry_count = (max_entries \<le> entry_count)"

definition DEFAULT_MAX_FILES_PER_BATCH :: u32 where
  "DEFAULT_MAX_FILES_PER_BATCH = 100000"

section \<open>The manager\<close>

record shard_writer =
  sw_writer :: control_writer
  sw_path :: string
  sw_entry_count :: nat
  sw_file_size :: u64

record shard_manager =
  sm_base_name :: string
  sm_num_shards :: nat
  sm_split_policy :: shard_split_policy
  sm_max_files_per_batch :: u32
  sm_header :: control_file_header
  sm_shards :: "(nat \<times> shard_writer) list"
  sm_entry_counts :: "(nat \<times> nat) list"
  sm_file_indices :: "(nat \<times> u32) list"
  sm_ctrl_dir :: files

definition with_policy_and_header ::
  "files \<Rightarrow> string \<Rightarrow> nat \<Rightarrow> shard_split_policy \<Rightarrow> control_file_header \<Rightarrow> shard_manager" where
  "with_policy_and_header ctrl_dir base_name num_shards split_policy h =
    \<lparr>sm_base_name = base_name, sm_num_shards = num_shards, sm_split_policy = split_policy,
     sm_max_files_per_batch = DEFAULT_MAX_FILES_PER_BATCH, sm_header = h, sm_shards = [],
     sm_entry_counts = [], sm_file_indices = [], sm_ctrl_dir = ctrl_dir\<rparr>"

definition with_policy :: "files \<Rightarrow> string \<Rightarrow> nat \<Rightarrow> shard_split_policy \<Rightarrow> u64 \<Rightarrow> shard_manager" where
  "with_policy ctrl_dir base_name num_shards split_policy now =
    with_policy_and_header ctrl_dir base_name num_shards split_policy (default_header now)"

definition new_with_header :: "files \<Rightarrow> string \<Rightarrow> nat \<Rightarrow> control_file_header \<Rightarrow> shard_manager" where
  "new_with_header ctrl_dir base_name num_shards h =
    (let policy = (if base_name = ''copy'' then copy_default else other_default)
     in with_policy_and_header ctrl_dir base_name num_shards policy h)"

definition set_max_files_per_batch :: "shard_manager \<Rightarrow> u32 \<Rightarrow> shard_manager" where
  "set_max_files_per_batch m n = m\<lparr>sm_max_files_per_batch := n\<rparr>"

text \<open>FNV-1a; a number of shards of zero is a division by zero, a panic.\<close>

definition fnv_step :: "byte \<Rightarrow> u64 \<Rightarrow> u64" where
  "fnv_step b hash = xor hash (ucast b) * 0x100000001b3"

definition fnv_hash :: "string \<Rightarrow> u64" where
  "fnv_hash dir_path = fold fnv_step (str_bytes dir_path) 0xcbf29ce484222325"

definition compute_shard_id :: "shard_manager \<Rightarrow> string \<Rightarrow> nat" where
  "compute_shard_id m dir_path = unat (fnv_hash dir_path mod of_nat (sm_num_shards m))"

text \<open>\<^verbatim>\<open>{:08X}\<close> and \<^verbatim>\<open>{:04X}\<close>\<close>

definition upper_hex_digit :: "nat \<Rightarrow> char" where
  "upper_hex_digit d = (if d < 10 then char_of (48 + d) else char_of (55 + d))"

fun upper_hex :: "nat \<Rightarrow> string" where
  "upper_hex n = (if n < 16 then [upper_hex_digit n] else upper_hex (n div 16) @ [upper_hex_digit (n mod 16)])"

declare upper_hex.simps [simp del]

definition hex_padded :: "nat \<Rightarrow> nat \<Rightarrow> string" where
  "hex_padded width n = replicate (width - length (upper_hex n)) CHR ''0'' @ upper_hex n"

definition shard_file_name :: "(byte list \<Rightarrow> byte list) \<Rightarrow> string \<Rightarrow> nat \<Rightarrow> u32 \<Rightarrow> string" where
  "shard_file_name sha256 base_name shard_id file_index =
    (if base_name = ''copy'' then sharded_copy_control_file_name sha256 shard_id file_index
     else base_name @ ''_'' @ hex_padded 8 shard_id @ ''_'' @ hex_padded 4 (unat file_index)
       @ ''.control.bin'')"

text \<open>Finishing a writer puts its file into the control directory.\<close>

definition finish_shard :: "json_enc \<Rightarrow> files \<Rightarrow> shard_writer \<Rightarrow> files io" where
  "finish_shard enc fs shard =
    andThen (copy_finish enc (sw_writer shard)) (\<lambda>content. Inr (file_set fs (sw_path shard) content))"

definition index_of_shard :: "shard_manager \<Rightarrow> nat \<Rightarrow> u32" where
  "index_of_shard m shard_id = (case map_of (sm_file_indices m) shard_id of Some i \<Rightarrow> i | None \<Rightarrow> 0)"

definition open_shard ::
  "(byte list \<Rightarrow> byte list) \<Rightarrow> json_enc \<Rightarrow> shard_manager \<Rightarrow> nat \<Rightarrow> (shard_manager \<times> shard_writer) io" where
  "open_shard sha256 enc m shard_id =
    (let file_index = index_of_shard m shard_id;
         path = shard_file_name sha256 (sm_base_name m) shard_id file_index
     in andThen (copy_writer_new enc (sm_header m)) (\<lambda>w.
          let shard = \<lparr>sw_writer = w, sw_path = path, sw_entry_count = 0, sw_file_size = 0\<rparr>
          in Inr (m\<lparr>sm_shards := AList.update shard_id shard (sm_shards m),
                    sm_file_indices := AList.update shard_id (file_index + 1) (sm_file_indices m),
                    sm_entry_counts := AList.update shard_id 0 (sm_entry_counts m)\<rparr>, shard)))"

definition get_shard_writer ::
  "(byte list \<Rightarrow> byte list) \<Rightarrow> json_enc \<Rightarrow> shard_manager \<Rightarrow> nat \<Rightarrow> (shard_manager \<times> shard_writer) io" where
  "get_shard_writer sha256 enc m shard_id =
    (case map_of (sm_shards m) shard_id of
       Some shard \<Rightarrow>
         if needs_rollover (sm_split_policy m) (sw_file_size shard) (sw_entry_count shard)
         then andThen (finish_shard enc (sm_ctrl_dir m) shard) (\<lambda>fs.
                open_shard sha256 enc
                  (m\<lparr>sm_ctrl_dir := fs, sm_shards := AList.delete shard_id (sm_shards m)\<rparr>) shard_id)
         else Inr (m, shard)
     | None \<Rightarrow> open_shard sha256 enc m shard_id)"

text \<open>The counts after an entry of estimated size was written with the writer \<open>w\<close>.\<close>

definition count_entry :: "shard_manager \<Rightarrow> nat \<Rightarrow> shard_writer \<Rightarrow> control_writer \<Rightarrow> nat \<Rightarrow> shard_manager" where
  "count_entry m shard_id shard w entry_size =
    m\<lparr>sm_shards := AList.update shard_id
         (shard\<lparr>sw_writer := w, sw_entry_count := sw_entry_count shard + 1,
                sw_file_size := sw_file_size shard + of_nat entry_size\<rparr>) (sm_shards m),
      sm_entry_counts := AList.update shard_id
         ((case map_of (sm_entry_counts m) shard_id of Some n \<Rightarrow> n | None \<Rightarrow> 0) + 1) (sm_entry_counts m)\<rparr>"

definition write_directory ::
  "(byte list \<Rightarrow> byte list) \<Rightarrow> json_enc \<Rightarrow> shard_manager \<Rightarrow> dir_control_entry \<Rightarrow> batch_info option \<Rightarrow>
   shard_manager io" where
  "write_directory sha256 enc m entry batch =
    (let shard_id = compute_shard_id m (dc_path entry)
     in andThen (get_shard_writer sha256 enc m shard_id) (\<lambda>(m, shard).
          case batch of
            Some b \<Rightarrow>
              andThen (copy_write_dir_with_batch (sw_writer shard) entry b) (\<lambda>w.
                Inr (count_entry m shard_id shard w (80 + length (dc_path entry))))
          | None \<Rightarrow>
              andThen (copy_write_dir (sw_writer shard) entry) (\<lambda>w.
                Inr (count_entry m shard_id shard w (60 + length (dc_path entry))))))"

definition shard_write_file ::
  "(byte list \<Rightarrow> byte list) \<Rightarrow> json_enc \<Rightarrow> shard_manager \<Rightarrow> string \<Rightarrow> file_control_entry \<Rightarrow> shard_manager io" where
  "shard_write_file sha256 enc m dir_path entry =
    (let shard_id = compute_shard_id m dir_path
     in andThen (get_shard_writer sha256 enc m shard_id) (\<lambda>(m, shard).
          andThen (copy_write_file (sw_writer shard) entry) (\<lambda>w.
            Inr (count_entry m shard_id shard w (50 + length (fc_name entry))))))"

text \<open>\<open>compute_batches\<close> in 32-bit arithmetic; \<open>None\<close> is the panic of a division by zero.\<close>

definition batch_of :: "u32 \<Rightarrow> u32 \<Rightarrow> u32 \<Rightarrow> u32 \<Rightarrow> batch_info \<times> u32" where
  "batch_of max_files total_files num_batches i =
    (let start_file = i * max_files
     in (\<lparr>batch_num = i, total_batches = num_batches, is_continuation = (0 < i), is_last = (i = num_batches - 1)\<rparr>,
         min (total_files - start_file) max_files))"

definition compute_batches :: "shard_manager \<Rightarrow> u32 \<Rightarrow> (batch_info \<times> u32) list option" where
  "compute_batches m total_files =
    (let max_files = sm_max_files_per_batch m
     in if total_files \<le> max_files
        then Some [(\<lparr>batch_num = 0, total_batches = 1, is_continuation = False, is_last = True\<rparr>, total_files)]
        else if max_files = 0 then None
        else let num_batches = (total_files + max_files - 1) div max_files
          in Some (map (\<lambda>i. batch_of max_files total_files num_batches (of_nat i)) [0..<unat num_batches]))"

definition shard_finish :: "json_enc \<Rightarrow> shard_manager \<Rightarrow> (files \<times> string list) io" where
  "shard_finish enc m =
    fold_err (\<lambda>(shard_id, shard) (fs, paths).
        andThen (finish_shard enc fs shard) (\<lambda>fs. Inr (fs, paths @ [sw_path shard])))
      (sm_shards m) (sm_ctrl_dir m, [])"

definition shard_stats :: "shard_manager \<Rightarrow> (nat \<times> nat) list" where
  "shard_stats m = sm_entry_counts m"

record sharded_control_info =
  sci_base_name :: string
  sci_num_shards :: nat
  sci_shard_files :: "string list"

definition discover_sharded_controls :: "files \<Rightarrow> string \<Rightarrow> sharded_control_info" where
  "discover_sharded_controls ctrl_dir base_name =
    (let shard_files = sort (filter (\<lambda>name. classify_control_file_name name = Some base_name) (map fst ctrl_dir))
     in \<lparr>sci_base_name = base_name, sci_num_shards = length shard_files, sci_shard_files = shard_files\<rparr>)"

section \<open>The selection of a shard\<close>

lemma compute_shard_id_less:
  assumes "0 < sm_num_shards m" and "sm_num_shards m < 2 ^ 64"
  shows "compute_shard_id m dir_path < sm_num_shards m"
proof -
  have "unat (of_nat (sm_num_shards m) :: u64) = sm_num_shards m"
    using assms(2) by (simp add: unat_of_nat)
  moreover have "unat (fnv_hash dir_path mod of_nat (sm_num_shards m))
      = unat (fnv_hash dir_path) mod unat (of_nat (sm_num_shards m) :: u64)"
    by (simp add: unat_mod)
  ultimately show ?thesis
    using assms(1) by (simp add: compute_shard_id_def)
qed

section \<open>Batches\<close>

lemma batch_starts:
  assumes "0 < k" and "i < (t + k - 1) div k"
  shows "i * k < (t :: nat)"
proof -
  have "Suc i * k \<le> ((t + k - 1) div k) * k"
    using assms(2) by (intro mult_le_mono1) simp
  also have "\<dots> \<le> t + k - 1"
    by (simp add: div_times_less_eq_dividend)
  finally show ?thesis using assms(1) by simp
qed

lemma sum_batches:
  assumes "0 < k"
  shows "(\<Sum>i \<leftarrow> [0..<n]. min (t - i * k) k) = min t (n * k)"
proof (induction n)
  case (Suc n)
  have "min t x + min (t - x) k = min t (k + x)" for x
    by linarith
  from this [of "n * k"] have "min t (n * k) + min (t - n * k) k = min t (Suc n * k)"
    by simp
  with Suc show ?case by simp
qed simp

lemma num_batches_enough: "0 < k \<Longrightarrow> (t :: nat) \<le> (t + k - 1) div k * k"
proof -
  assume "0 < k"
  have "t + k - 1 < Suc ((t + k - 1) div k) * k"
    using \<open>0 < k\<close> dividend_less_times_div [of k "t + k - 1"] by (simp add: mult.commute)
  then show ?thesis by simp
qed

lemma compute_batches_many:
  assumes "sm_max_files_per_batch m < total_files" and "sm_max_files_per_batch m \<noteq> 0"
    and "unat total_files + unat (sm_max_files_per_batch m) \<le> 2 ^ 32"
  defines "t \<equiv> unat total_files" and "k \<equiv> unat (sm_max_files_per_batch m)"
  shows "compute_batches m total_files = Some (map (\<lambda>i.
      (\<lparr>batch_num = of_nat i, total_batches = of_nat ((t + k - 1) div k), is_continuation = (0 < i),
        is_last = (Suc i = (t + k - 1) div k)\<rparr>, of_nat (min (t - i * k) k))) [0..<(t + k - 1) div k])"
proof -
  let ?n = "(t + k - 1) div k"
  have k: "0 < k" using assms(2) by (simp add: k_def unat_gt_0)
  have t: "t < 2 ^ 32" "total_files = of_nat t" "sm_max_files_per_batch m = of_nat k"
    using unsigned_less [of total_files, where ?'a = nat] by (simp_all add: t_def k_def)
  have kt: "k < t" using assms(1) by (simp add: word_less_nat_alt k_def t_def)
  have total: "total_files + sm_max_files_per_batch m - 1 = of_nat (t + k - 1)"
    unfolding t(2,3) using k by (simp add: of_nat_diff)
  have tk: "t + k \<le> 2 ^ 32"
    using assms(3) by (simp add: t_def k_def)
  have un: "unat (of_nat x :: u32) = x" if "x < 2 ^ 32" for x
    using that by (simp add: unat_of_nat)
  have less: "x < 2 ^ 32" if "x \<le> t" for x
    using that t(1) by simp
  have nt: "?n \<le> t"
  proof -
    have "?n * 1 \<le> ?n * k" using k by (intro mult_le_mono2) simp
    also have "\<dots> \<le> t + k - 1" by (simp add: div_times_less_eq_dividend)
    finally have "?n \<le> t + k - 1" by simp
    show ?thesis
    proof (rule ccontr)
      assume "\<not> ?n \<le> t"
      then have "t * k < t" using batch_starts [OF k, of t t] by simp
      with k show False by simp
    qed
  qed
  have num: "unat ((total_files + sm_max_files_per_batch m - 1) div sm_max_files_per_batch m) = ?n"
  proof -
    have "unat (of_nat (t + k - 1) :: u32) = t + k - 1"
      using tk k by (intro un) simp
    then show ?thesis
      unfolding total unat_div k_def [symmetric] by (rule arg_cong)
  qed
  have num_word: "(total_files + sm_max_files_per_batch m - 1) div sm_max_files_per_batch m = of_nat ?n"
    unfolding num [symmetric] by simp
  have batch: "batch_of (of_nat k) (of_nat t) (of_nat ?n) (of_nat i) =
      (\<lparr>batch_num = of_nat i, total_batches = of_nat ?n, is_continuation = (0 < i), is_last = (Suc i = ?n)\<rparr>,
       of_nat (min (t - i * k) k))" if "i < ?n" for i
  proof -
    have ik: "i * k < t" using batch_starts [OF k that] .
    have i: "i < 2 ^ 32" "?n - 1 < 2 ^ 32" "t - i * k < 2 ^ 32" "k < 2 ^ 32"
      by (rule less, use that nt kt in simp)+
    have "of_nat ?n - 1 = (of_nat (?n - 1) :: u32)"
      using that by (simp add: of_nat_diff)
    then have "((of_nat i :: u32) = of_nat ?n - 1) = (Suc i = ?n)"
      using that un [OF i(1)] un [OF i(2)] by (metis Suc_pred' Suc_inject gr_implies_not0 neq0_conv)
    moreover have "(0 < (of_nat i :: u32)) = (0 < i)"
      using un [OF i(1)] by (simp add: word_less_nat_alt)
    moreover have "(of_nat t :: u32) - of_nat i * of_nat k = of_nat (t - i * k)"
      using ik by (simp add: of_nat_diff)
    moreover have "min (of_nat (t - i * k)) (of_nat k) = (of_nat (min (t - i * k) k) :: u32)"
      using un [OF i(3)] un [OF i(4)] by (simp add: min_def word_le_nat_alt)
    ultimately show ?thesis by (simp add: batch_of_def)
  qed
  have "\<not> total_files \<le> sm_max_files_per_batch m"
    using assms(1) by simp
  moreover have "unat (of_nat ?n :: u32) = ?n"
    by (intro un less nt)
  ultimately show ?thesis
    unfolding compute_batches_def Let_def num_word
    using assms(2) batch by (simp add: t(2,3))
qed

section \<open>Every entry is found in the files of its shard\<close>

datatype shard_op = OpDir dir_control_entry "batch_info option" | OpFile string file_control_entry

fun shard_op_write ::
  "(byte list \<Rightarrow> byte list) \<Rightarrow> json_enc \<Rightarrow> shard_op \<Rightarrow> shard_manager \<Rightarrow> shard_manager io" where
  "shard_op_write sha256 enc (OpDir e b) m = write_directory sha256 enc m e b"
| "shard_op_write sha256 enc (OpFile d e) m = shard_write_file sha256 enc m d e"

fun op_path :: "shard_op \<Rightarrow> string" where
  "op_path (OpDir e b) = dc_path e"
| "op_path (OpFile d e) = d"

fun op_item :: "shard_op \<Rightarrow> copy_item" where
  "op_item (OpDir e (Some b)) = PutDir e b"
| "op_item (OpDir e None) =
    PutDir e \<lparr>batch_num = 0, total_batches = 1, is_continuation = False, is_last = True\<rparr>"
| "op_item (OpFile d e) = PutFile e"

fun op_size :: "shard_op \<Rightarrow> nat" where
  "op_size (OpDir e (Some b)) = 80 + length (dc_path e)"
| "op_size (OpDir e None) = 60 + length (dc_path e)"
| "op_size (OpFile d e) = 50 + length (fc_name e)"

lemma shard_op_write_eq:
  "shard_op_write sha256 enc op m =
    (let s = compute_shard_id m (op_path op)
     in andThen (get_shard_writer sha256 enc m s) (\<lambda>(m, shard).
          andThen (copy_put (sw_writer shard) (op_item op)) (\<lambda>w.
            Inr (count_entry m s shard w (op_size op)))))"
  by (cases op rule: op_item.cases)
    (simp_all add: write_directory_def shard_write_file_def copy_write_dir_def Let_def case_prod_unfold)

text \<open>The settings of a manager, which no write changes.\<close>

definition same_settings :: "shard_manager \<Rightarrow> shard_manager \<Rightarrow> bool" where
  "same_settings m m' \<longleftrightarrow> sm_base_name m' = sm_base_name m \<and> sm_num_shards m' = sm_num_shards m
    \<and> sm_split_policy m' = sm_split_policy m \<and> sm_header m' = sm_header m"

definition shard_items :: "shard_manager \<Rightarrow> shard_op list \<Rightarrow> nat \<Rightarrow> copy_item list" where
  "shard_items m ops s = map op_item (filter (\<lambda>op. compute_shard_id m (op_path op) = s) ops)"

text \<open>The entries that a reader finds in a file.\<close>

definition entries_of_file :: "json_dec \<Rightarrow> files \<Rightarrow> string \<Rightarrow> control_entry io list" where
  "entries_of_file dec fs name =
    (case file_content fs name of
       None \<Rightarrow> []
     | Some c \<Rightarrow> (case copy_reader_open dec c of
         Inl _ \<Rightarrow> [] | Inr (rest, h) \<Rightarrow> read_entries copy_decode rest))"

abbreviation shard_file ::
  "(byte list \<Rightarrow> byte list) \<Rightarrow> shard_manager \<Rightarrow> nat \<Rightarrow> nat \<Rightarrow> string" where
  "shard_file sha256 m s i \<equiv> shard_file_name sha256 (sm_base_name m) s (of_nat i)"

text \<open>The names of the first \<open>n\<close> files of the shards differ.\<close>

definition names_distinct :: "(byte list \<Rightarrow> byte list) \<Rightarrow> shard_manager \<Rightarrow> nat \<Rightarrow> bool" where
  "names_distinct sha256 m n \<longleftrightarrow>
    inj_on (\<lambda>(s, i). shard_file sha256 m s i) ({..<sm_num_shards m} \<times> {..<n})"

text \<open>
  The finished files of a shard hold the \<open>chunks\<close>; its open file, if it has one, holds the entries
  \<open>last_items\<close> after them.
\<close>

definition finished ::
  "(byte list \<Rightarrow> byte list) \<Rightarrow> json_dec \<Rightarrow> shard_manager \<Rightarrow> nat \<Rightarrow> copy_item list list \<Rightarrow> bool" where
  "finished sha256 dec m s chunks \<longleftrightarrow> (\<forall>i < length chunks.
     entries_of_file dec (sm_ctrl_dir m) (shard_file sha256 m s i) = map (\<lambda>x. Inr (copy_view x)) (chunks ! i))"

definition shard_holds ::
  "(byte list \<Rightarrow> byte list) \<Rightarrow> json_enc \<Rightarrow> json_dec \<Rightarrow> shard_manager \<Rightarrow> nat \<Rightarrow> shard_writer \<Rightarrow>
   copy_item list list \<Rightarrow> copy_item list \<Rightarrow> bool" where
  "shard_holds sha256 enc dec m s sw chunks last_items \<longleftrightarrow>
    index_of_shard m s = of_nat (Suc (length chunks))
    \<and> sw_path sw = shard_file sha256 m s (length chunks)
    \<and> (\<exists>w. copy_writer_new enc (sm_header m) = Inr w \<and> write_all copy_put w last_items = Inr (sw_writer sw))
    \<and> finished sha256 dec m s chunks"

definition shard_ok ::
  "(byte list \<Rightarrow> byte list) \<Rightarrow> json_enc \<Rightarrow> json_dec \<Rightarrow> shard_manager \<Rightarrow> nat \<Rightarrow> copy_item list \<Rightarrow> bool" where
  "shard_ok sha256 enc dec m s items \<longleftrightarrow>
    (case map_of (sm_shards m) s of
       None \<Rightarrow> items = [] \<and> index_of_shard m s = 0
     | Some sw \<Rightarrow> \<exists>chunks last_items. shard_holds sha256 enc dec m s sw chunks last_items
         \<and> concat chunks @ last_items = items \<and> length chunks < length items)"

lemma index_update [simp]:
  "index_of_shard (m\<lparr>sm_file_indices := AList.update s i (sm_file_indices m)\<rparr>) s' =
    (if s' = s then i else index_of_shard m s')"
  by (simp add: index_of_shard_def update_conv')

lemma entries_of_file_set [simp]:
  "name \<noteq> n \<Longrightarrow> entries_of_file dec (file_set fs n c) name = entries_of_file dec fs name"
  by (simp add: entries_of_file_def)

lemma finish_shard_entries:
  assumes "json_codec enc dec" and "header_size h = of_nat CONTROL_HEADER_SIZE"
    and "copy_writer_new enc h = Inr w" and "write_all copy_put w items = Inr (sw_writer sw)"
    and "\<forall>i \<in> set items. copy_item_wf i" and "finish_shard enc fs sw = Inr fs'"
  shows "\<exists>c. fs' = file_set fs (sw_path sw) c
    \<and> entries_of_file dec fs' (sw_path sw) = map (\<lambda>x. Inr (copy_view x)) items"
proof -
  from assms(6) obtain c where c: "copy_finish enc (sw_writer sw) = Inr c" "fs' = file_set fs (sw_path sw) c"
    by (auto simp: finish_shard_def andThen_Inr_iff)
  from copy.file_roundtrip [OF assms(1) assms(3) [unfolded copy_writer_new_def] assms(2,4,5)
      c(1) [unfolded copy_finish_def]]
  show ?thesis
    by (auto simp: c(2) entries_of_file_def copy_reader_open_def)
qed

text \<open>What happens in one shard does not touch the others.\<close>

lemma names_differ:
  assumes "names_distinct sha256 m n" and "s < sm_num_shards m" and "s' < sm_num_shards m"
    and "i < n" and "j < n" and "(s, i) \<noteq> (s', j)"
  shows "shard_file sha256 m s i \<noteq> shard_file sha256 m s' j"
  using inj_onD [OF assms(1) [unfolded names_distinct_def], of "(s, i)" "(s', j)"] assms(2-) by auto

definition only_file_changed ::
  "(byte list \<Rightarrow> byte list) \<Rightarrow> nat \<Rightarrow> nat \<Rightarrow> shard_manager \<Rightarrow> shard_manager \<Rightarrow> bool" where
  "only_file_changed sha256 n s m m' \<longleftrightarrow> sm_ctrl_dir m' = sm_ctrl_dir m
    \<or> (\<exists>k c. k < n \<and> sm_ctrl_dir m' = file_set (sm_ctrl_dir m) (shard_file sha256 m s k) c)"

lemma other_shard_ok:
  assumes ok: "shard_ok sha256 enc dec m s' items" and settings: "same_settings m m'"
    and same: "map_of (sm_shards m') s' = map_of (sm_shards m) s'" "index_of_shard m' s' = index_of_shard m s'"
    and files: "only_file_changed sha256 n s m m'" and names: "names_distinct sha256 m n"
    and s: "s < sm_num_shards m" "s \<noteq> s'" and key: "map_of (sm_shards m) s' \<noteq> None \<Longrightarrow> s' < sm_num_shards m"
    and few: "length items \<le> n"
  shows "shard_ok sha256 enc dec m' s' items"
proof (cases "map_of (sm_shards m) s'")
  case None
  with ok same show ?thesis by (simp add: shard_ok_def)
next
  case (Some sw)
  with ok obtain chunks last_items where holds: "shard_holds sha256 enc dec m s' sw chunks last_items"
    "concat chunks @ last_items = items" "length chunks < length items"
    by (auto simp: shard_ok_def)
  have "entries_of_file dec (sm_ctrl_dir m') (shard_file sha256 m s' i)
      = entries_of_file dec (sm_ctrl_dir m) (shard_file sha256 m s' i)" if "i < length chunks" for i
    using files
    unfolding only_file_changed_def
  proof
    assume "\<exists>k c. k < n \<and> sm_ctrl_dir m' = file_set (sm_ctrl_dir m) (shard_file sha256 m s k) c"
    then obtain k c where kc: "k < n" "sm_ctrl_dir m' = file_set (sm_ctrl_dir m) (shard_file sha256 m s k) c"
      by blast
    have "i < n" using that holds(3) few by simp
    from names_differ [OF names key s(1) this kc(1)] s(2) Some show ?thesis
      by (simp add: kc(2))
  qed simp
  with holds(1) settings same have "shard_holds sha256 enc dec m' s' sw chunks last_items"
    by (simp add: shard_holds_def finished_def same_settings_def)
  with holds(2,3) Some same(1) show ?thesis
    by (auto simp: shard_ok_def)
qed

text \<open>Opening a file for a shard that has no open one.\<close>

lemma open_shard_holds:
  assumes "open_shard sha256 enc m s = Inr (m', sw)" and "finished sha256 dec m s chunks"
    and "index_of_shard m s = of_nat (length chunks)"
  shows "shard_holds sha256 enc dec m' s sw chunks [] \<and> same_settings m m' \<and> sm_ctrl_dir m' = sm_ctrl_dir m
    \<and> sm_shards m' = AList.update s sw (sm_shards m)
    \<and> (\<forall>s'. s' \<noteq> s \<longrightarrow> index_of_shard m' s' = index_of_shard m s')"
proof -
  from assms(1) obtain w where w: "copy_writer_new enc (sm_header m) = Inr w"
    and sw: "sw = \<lparr>sw_writer = w, sw_path = shard_file_name sha256 (sm_base_name m) s (index_of_shard m s),
                 sw_entry_count = 0, sw_file_size = 0\<rparr>"
    and m': "m' = m\<lparr>sm_shards := AList.update s sw (sm_shards m),
        sm_file_indices := AList.update s (index_of_shard m s + 1) (sm_file_indices m),
        sm_entry_counts := AList.update s 0 (sm_entry_counts m)\<rparr>"
    by (auto simp: open_shard_def andThen_Inr_iff Let_def)
  have "index_of_shard m' s' = (if s' = s then index_of_shard m s + 1 else index_of_shard m s')" for s'
    by (simp add: m' index_of_shard_def update_conv')
  with w assms(2,3) show ?thesis
    by (simp add: shard_holds_def finished_def same_settings_def sw m' add.commute)
qed

text \<open>Getting the writer of a shard, with or without a roll-over.\<close>

lemma get_shard_writer_holds:
  assumes codec: "json_codec enc dec" and size: "header_size (sm_header m) = of_nat CONTROL_HEADER_SIZE"
    and ok: "shard_ok sha256 enc dec m s items" and wf: "\<forall>i \<in> set items. copy_item_wf i"
    and names: "names_distinct sha256 m n" and few: "length items \<le> n" and s: "s < sm_num_shards m"
    and get: "get_shard_writer sha256 enc m s = Inr (m', sw)"
  shows "same_settings m m' \<and> map_of (sm_shards m') s = Some sw
    \<and> (\<exists>chunks last_items. shard_holds sha256 enc dec m' s sw chunks last_items
        \<and> concat chunks @ last_items = items \<and> length chunks \<le> length items)
    \<and> (\<forall>s'. s' \<noteq> s \<longrightarrow> map_of (sm_shards m') s' = map_of (sm_shards m) s'
        \<and> index_of_shard m' s' = index_of_shard m s')
    \<and> only_file_changed sha256 n s m m'"
proof (cases "map_of (sm_shards m) s")
  case None
  with ok have "items = []" and "index_of_shard m s = of_nat (length ([] :: copy_item list list))"
    by (simp_all add: shard_ok_def)
  with None get open_shard_holds [of sha256 enc m s m' sw dec "[]"] show ?thesis
    by (auto simp: get_shard_writer_def finished_def only_file_changed_def update_conv')
next
  case (Some sw0)
  with ok obtain chunks last_items where holds: "shard_holds sha256 enc dec m s sw0 chunks last_items"
    and items: "concat chunks @ last_items = items" and len: "length chunks < length items"
    by (auto simp: shard_ok_def)
  show ?thesis
  proof (cases "needs_rollover (sm_split_policy m) (sw_file_size sw0) (sw_entry_count sw0)")
    case False
    with Some get have "m' = m" "sw = sw0" by (simp_all add: get_shard_writer_def)
    with Some holds items len show ?thesis
      by (auto simp: same_settings_def only_file_changed_def intro: less_imp_le)
  next
    case True
    with Some get obtain fs where fin: "finish_shard enc (sm_ctrl_dir m) sw0 = Inr fs"
      and op: "open_shard sha256 enc (m\<lparr>sm_ctrl_dir := fs, sm_shards := AList.delete s (sm_shards m)\<rparr>) s = Inr (m', sw)"
      by (auto simp: get_shard_writer_def andThen_Inr_iff)
    let ?m = "m\<lparr>sm_ctrl_dir := fs, sm_shards := AList.delete s (sm_shards m)\<rparr>"
    from holds obtain w where w: "copy_writer_new enc (sm_header m) = Inr w"
      "write_all copy_put w last_items = Inr (sw_writer sw0)"
      and path: "sw_path sw0 = shard_file sha256 m s (length chunks)"
      and idx: "index_of_shard m s = of_nat (Suc (length chunks))" and old: "finished sha256 dec m s chunks"
      by (auto simp: shard_holds_def)
    have "\<forall>i \<in> set last_items. copy_item_wf i"
      using wf items by auto
    from finish_shard_entries [OF codec size w this fin]
    obtain c where c: "fs = file_set (sm_ctrl_dir m) (shard_file sha256 m s (length chunks)) c"
      "entries_of_file dec fs (shard_file sha256 m s (length chunks)) = map (\<lambda>x. Inr (copy_view x)) last_items"
      unfolding path by blast
    have "entries_of_file dec fs (shard_file sha256 m s i) = map (\<lambda>x. Inr (copy_view x)) ((chunks @ [last_items]) ! i)"
      if "i < length (chunks @ [last_items])" for i
    proof (cases "i < length chunks")
      case True
      have "shard_file sha256 m s i \<noteq> shard_file sha256 m s (length chunks)"
        using True len few by (intro names_differ [OF names s s]) auto
      with True old show ?thesis
        by (simp add: c(1) finished_def nth_append)
    next
      case False
      with that have "i = length chunks" by simp
      with c(2) show ?thesis by simp
    qed
    then have "finished sha256 dec ?m s (chunks @ [last_items])"
      by (simp add: finished_def)
    moreover have idx': "index_of_shard ?m s' = index_of_shard m s'" for s'
      by (simp add: index_of_shard_def)
    ultimately have "shard_holds sha256 enc dec m' s sw (chunks @ [last_items]) [] \<and> same_settings ?m m'
        \<and> sm_ctrl_dir m' = fs \<and> sm_shards m' = AList.update s sw (AList.delete s (sm_shards m))
        \<and> (\<forall>s'. s' \<noteq> s \<longrightarrow> index_of_shard m' s' = index_of_shard m s')"
      using open_shard_holds [OF op, of dec "chunks @ [last_items]"] idx by simp
    note opened = this
    have "\<exists>chunks last_items. shard_holds sha256 enc dec m' s sw chunks last_items
        \<and> concat chunks @ last_items = items \<and> length chunks \<le> length items"
      by (rule exI [of _ "chunks @ [last_items]"], rule exI [of _ "[]"]) (use opened items len in simp)
    moreover have "length chunks < n" using len few by simp
    ultimately show ?thesis
      using opened c(1)
      by (auto simp: same_settings_def only_file_changed_def update_conv' delete_conv')
  qed
qed

lemma get_shard_writer_distinct:
  "get_shard_writer sha256 enc m s = Inr (m', sw) \<Longrightarrow> distinct (map fst (sm_shards m)) \<Longrightarrow>
   distinct (map fst (sm_shards m'))"
  by (auto simp: get_shard_writer_def open_shard_def andThen_Inr_iff Let_def distinct_update distinct_delete
      split: option.splits if_splits)

text \<open>One write keeps the entries of all shards.\<close>

definition manager_ok ::
  "(byte list \<Rightarrow> byte list) \<Rightarrow> json_enc \<Rightarrow> json_dec \<Rightarrow> shard_manager \<Rightarrow> (nat \<Rightarrow> copy_item list) \<Rightarrow> bool" where
  "manager_ok sha256 enc dec m items \<longleftrightarrow> (\<forall>s. shard_ok sha256 enc dec m s (items s))
    \<and> dom (map_of (sm_shards m)) \<subseteq> {..<sm_num_shards m} \<and> distinct (map fst (sm_shards m))
    \<and> header_size (sm_header m) = of_nat CONTROL_HEADER_SIZE \<and> 0 < sm_num_shards m \<and> sm_num_shards m < 2 ^ 64"

lemma compute_shard_id_settings: "same_settings m m' \<Longrightarrow> compute_shard_id m' path = compute_shard_id m path"
  by (simp add: same_settings_def compute_shard_id_def)

lemma shard_op_write_ok:
  assumes codec: "json_codec enc dec" and inv: "manager_ok sha256 enc dec m items"
    and names: "names_distinct sha256 m n" and few: "\<forall>s. length (items s) \<le> n"
    and wf: "\<forall>s. \<forall>i \<in> set (items s). copy_item_wf i"
    and op: "shard_op_write sha256 enc op m = Inr m'"
  defines "s \<equiv> compute_shard_id m (op_path op)"
  shows "manager_ok sha256 enc dec m' (items(s := items s @ [op_item op])) \<and> same_settings m m'"
proof -
  have s: "s < sm_num_shards m"
    using inv compute_shard_id_less by (simp add: manager_ok_def s_def)
  from op obtain m1 sw w where get: "get_shard_writer sha256 enc m s = Inr (m1, sw)"
    and put: "copy_put (sw_writer sw) (op_item op) = Inr w"
    and m': "m' = count_entry m1 s sw w (op_size op)"
    by (auto simp: shard_op_write_eq Let_def andThen_Inr_iff s_def)
  have size: "header_size (sm_header m) = of_nat CONTROL_HEADER_SIZE" and ok: "shard_ok sha256 enc dec m s (items s)"
    using inv by (simp_all add: manager_ok_def)
  from get_shard_writer_holds [OF codec size ok _ names _ s get] wf few
  obtain chunks last_items where same: "same_settings m m1" and sw: "map_of (sm_shards m1) s = Some sw"
    and holds: "shard_holds sha256 enc dec m1 s sw chunks last_items" "concat chunks @ last_items = items s"
      "length chunks \<le> length (items s)"
    and other: "\<And>s'. s' \<noteq> s \<Longrightarrow> map_of (sm_shards m1) s' = map_of (sm_shards m) s'
        \<and> index_of_shard m1 s' = index_of_shard m s'"
    and files: "only_file_changed sha256 n s m m1"
    by blast
  let ?sw = "sw\<lparr>sw_writer := w, sw_entry_count := sw_entry_count sw + 1,
                sw_file_size := sw_file_size sw + of_nat (op_size op)\<rparr>"
  have m'_simps: "map_of (sm_shards m') s' = (if s' = s then Some ?sw else map_of (sm_shards m) s')"
    "index_of_shard m' s' = index_of_shard m1 s'" "sm_ctrl_dir m' = sm_ctrl_dir m1" "same_settings m m'" for s'
    using same other [of s'] by (auto simp: m' count_entry_def update_conv' index_of_shard_def same_settings_def)
  have "write_all copy_put w0 (last_items @ [op_item op]) = Inr w"
    if "write_all copy_put w0 last_items = Inr (sw_writer sw)" for w0
    using that put by (simp add: write_all_append)
  then have "shard_holds sha256 enc dec m' s ?sw chunks (last_items @ [op_item op])"
    using holds(1) same m'_simps(4) by (auto simp: shard_holds_def finished_def m'_simps same_settings_def)
  then have "shard_ok sha256 enc dec m' s (items s @ [op_item op])"
    using holds(2,3) m'_simps(1) [of s]
    by (auto simp: shard_ok_def intro!: exI [of _ chunks] exI [of _ "last_items @ [op_item op]"])
  moreover have "shard_ok sha256 enc dec m' s' (items s')" if "s' \<noteq> s" for s'
  proof (rule other_shard_ok [of sha256 enc dec m s' "items s'" m' n s])
    have "dom (map_of (sm_shards m)) \<subseteq> {..<sm_num_shards m}"
      using inv by (simp only: manager_ok_def)
    then show "map_of (sm_shards m) s' \<noteq> None \<Longrightarrow> s' < sm_num_shards m"
      unfolding domIff [symmetric] by blast
    show "only_file_changed sha256 n s m m'"
      using files by (simp add: only_file_changed_def m'_simps)
  qed (use inv names few s that m'_simps other in \<open>auto simp: manager_ok_def\<close>)
  moreover have "dom (map_of (sm_shards m')) \<subseteq> {..<sm_num_shards m}"
  proof
    fix s'
    assume "s' \<in> dom (map_of (sm_shards m'))"
    then have "s' = s \<or> s' \<in> dom (map_of (sm_shards m))"
      using m'_simps(1) [of s'] by (cases "s' = s") (simp_all only: domIff simp_thms if_False)
    then show "s' \<in> {..<sm_num_shards m}"
      using inv s unfolding manager_ok_def by blast
  qed
  moreover have "distinct (map fst (sm_shards m'))"
    using get_shard_writer_distinct [OF get] inv by (simp add: manager_ok_def m' count_entry_def distinct_update)
  ultimately show ?thesis
    using inv m'_simps(4) by (auto simp: manager_ok_def same_settings_def)
qed

lemma shard_ops_ok:
  assumes codec: "json_codec enc dec" and names: "names_distinct sha256 m n"
    and "manager_ok sha256 enc dec m items" and "\<forall>s. \<forall>i \<in> set (items s). copy_item_wf i"
    and "\<forall>s. length (items s) + length ops \<le> n" and "\<forall>op \<in> set ops. copy_item_wf (op_item op)"
    and "fold_err (shard_op_write sha256 enc) ops m = Inr m'"
  shows "manager_ok sha256 enc dec m' (\<lambda>s. items s @ shard_items m ops s) \<and> same_settings m m'"
  using assms(2-)
proof (induction ops arbitrary: m items)
  case Nil
  then show ?case by (simp add: shard_items_def same_settings_def)
next
  case (Cons op ops)
  from Cons.prems(6) obtain m1 where m1: "shard_op_write sha256 enc op m = Inr m1"
    "fold_err (shard_op_write sha256 enc) ops m1 = Inr m'"
    by (auto simp: andThen_Inr_iff)
  let ?items = "items(compute_shard_id m (op_path op) := items (compute_shard_id m (op_path op)) @ [op_item op])"
  have few: "\<forall>s. length (items s) \<le> n"
    using Cons.prems(4) by (meson add_leD1)
  from shard_op_write_ok [OF codec Cons.prems(2,1) few Cons.prems(3) m1(1)]
  have ok: "manager_ok sha256 enc dec m1 ?items" and same: "same_settings m m1"
    by simp_all
  have "manager_ok sha256 enc dec m' (\<lambda>s. ?items s @ shard_items m1 ops s) \<and> same_settings m1 m'"
  proof (rule Cons.IH [OF _ ok _ _ _ m1(2)])
    show "names_distinct sha256 m1 n"
      using Cons.prems(1) same by (simp add: names_distinct_def same_settings_def)
    show "\<forall>s. length (?items s) + length ops \<le> n"
    proof
      fix s
      have "length (items s) + length (op # ops) \<le> n"
        using Cons.prems(4) by blast
      then show "length (?items s) + length ops \<le> n"
        by (cases "s = compute_shard_id m (op_path op)") simp_all
    qed
  qed (use Cons.prems(3,5) in auto)
  moreover have "(\<lambda>s. ?items s @ shard_items m1 ops s) = (\<lambda>s. items s @ shard_items m (op # ops) s)"
    by (rule ext) (simp add: shard_items_def compute_shard_id_settings [OF same])
  ultimately show ?case
    using same by (auto simp: same_settings_def)
qed

text \<open>Finishing the open files.\<close>

lemma finish_loop:
  assumes "fold_err (\<lambda>(shard_id, shard) (fs, paths).
        andThen (finish_shard enc fs shard) (\<lambda>fs. Inr (fs, paths @ [sw_path shard]))) shards (fs, ps) = Inr (fs', ps')"
    and "json_codec enc dec" and "header_size h = of_nat CONTROL_HEADER_SIZE"
    and "distinct (map (\<lambda>(s, sw). sw_path sw) shards)"
    and "\<forall>(s, sw) \<in> set shards. (\<forall>i \<in> set (last_of s). copy_item_wf i)
        \<and> (\<exists>w. copy_writer_new enc h = Inr w \<and> write_all copy_put w (last_of s) = Inr (sw_writer sw))"
  shows "ps' = ps @ map (\<lambda>(s, sw). sw_path sw) shards
    \<and> (\<forall>name. name \<notin> set (map (\<lambda>(s, sw). sw_path sw) shards) \<longrightarrow> entries_of_file dec fs' name = entries_of_file dec fs name)
    \<and> (\<forall>(s, sw) \<in> set shards. entries_of_file dec fs' (sw_path sw) = map (\<lambda>x. Inr (copy_view x)) (last_of s))"
  using assms(1,4,5)
proof (induction shards arbitrary: fs ps)
  case Nil
  then show ?case by simp
next
  case (Cons x shards)
  obtain s sw where x: "x = (s, sw)" by fastforce
  from Cons.prems(1) obtain fs1 where fs1: "finish_shard enc fs sw = Inr fs1"
    and rest: "fold_err (\<lambda>(shard_id, shard) (fs, paths).
        andThen (finish_shard enc fs shard) (\<lambda>fs. Inr (fs, paths @ [sw_path shard]))) shards (fs1, ps @ [sw_path sw])
      = Inr (fs', ps')"
    by (auto simp: x andThen_Inr_iff)
  from Cons.prems(3) obtain w where w: "copy_writer_new enc h = Inr w"
    "write_all copy_put w (last_of s) = Inr (sw_writer sw)" and wf: "\<forall>i \<in> set (last_of s). copy_item_wf i"
    by (auto simp: x)
  from finish_shard_entries [OF assms(2,3) w wf fs1] obtain c where c: "fs1 = file_set fs (sw_path sw) c"
    "entries_of_file dec fs1 (sw_path sw) = map (\<lambda>x. Inr (copy_view x)) (last_of s)"
    by blast
  from Cons.IH [OF rest] Cons.prems(2,3) show ?case
    using c by (auto simp: x)
qed

lemma shard_finish_ok:
  assumes codec: "json_codec enc dec" and names: "names_distinct sha256 m n"
    and inv: "manager_ok sha256 enc dec m items" and wf: "\<forall>s. \<forall>i \<in> set (items s). copy_item_wf i"
    and few: "\<forall>s. length (items s) \<le> n" and n: "n < 2 ^ 32"
    and fin: "shard_finish enc m = Inr (fs, paths)"
  shows "concat (map (\<lambda>i. entries_of_file dec fs (shard_file sha256 m s i)) [0..<unat (index_of_shard m s)])
    = map (\<lambda>x. Inr (copy_view x)) (items s)"
proof -
  have ok: "shard_ok sha256 enc dec m s (items s)" and keys: "distinct (map fst (sm_shards m))" for s
    using inv by (simp_all add: manager_ok_def)
  have "\<forall>s sw. \<exists>chunks last_items. map_of (sm_shards m) s = Some sw \<longrightarrow>
      shard_holds sha256 enc dec m s sw chunks last_items
      \<and> concat chunks @ last_items = items s \<and> length chunks < length (items s)"
  proof (intro allI)
    fix s sw
    show "\<exists>chunks last_items. map_of (sm_shards m) s = Some sw \<longrightarrow>
      shard_holds sha256 enc dec m s sw chunks last_items
      \<and> concat chunks @ last_items = items s \<and> length chunks < length (items s)"
      using ok [of s] by (cases "map_of (sm_shards m) s = Some sw") (auto simp: shard_ok_def)
  qed
  then obtain chunks last_items where holds: "\<And>s sw. map_of (sm_shards m) s = Some sw \<Longrightarrow>
      shard_holds sha256 enc dec m s sw (chunks s sw) (last_items s sw)
      \<and> concat (chunks s sw) @ last_items s sw = items s \<and> length (chunks s sw) < length (items s)"
    by metis
  let ?sw = "\<lambda>s. the (map_of (sm_shards m) s)"
  have open_shards: "map_of (sm_shards m) s = Some sw \<and> s < sm_num_shards m
      \<and> sw_path sw = shard_file sha256 m s (length (chunks s sw)) \<and> length (chunks s sw) < n"
    if "(s, sw) \<in> set (sm_shards m)" for s sw
  proof -
    have look: "map_of (sm_shards m) s = Some sw" using that keys by simp
    moreover have "s < sm_num_shards m"
      using look inv unfolding manager_ok_def by blast
    moreover have "length (chunks s sw) < n"
      using holds [OF look] few by (meson less_le_trans)
    ultimately show ?thesis
      using holds [OF look] by (simp add: shard_holds_def)
  qed
  have paths: "distinct (map (\<lambda>(s, sw). sw_path sw) (sm_shards m))"
  proof -
    have "inj_on (\<lambda>(s, sw). sw_path sw) (set (sm_shards m))"
    proof (rule inj_onI, clarify)
      fix s sw s' sw'
      assume in1: "(s, sw) \<in> set (sm_shards m)" and in2: "(s', sw') \<in> set (sm_shards m)"
        and eq: "sw_path sw = sw_path sw'"
      have "(s, length (chunks s sw)) = (s', length (chunks s' sw'))"
        using open_shards [OF in1] open_shards [OF in2] eq names_differ [OF names] by metis
      then have "s = s'" by simp
      then show "s = s' \<and> sw = sw'"
        using open_shards [OF in1] open_shards [OF in2] by simp
    qed
    moreover have "distinct (sm_shards m)"
      using keys by (simp add: distinct_map)
    ultimately show ?thesis by (simp add: distinct_map)
  qed
  have writers: "\<forall>(s, sw) \<in> set (sm_shards m). (\<forall>i \<in> set (last_items s (?sw s)). copy_item_wf i)
        \<and> (\<exists>w. copy_writer_new enc (sm_header m) = Inr w \<and> write_all copy_put w (last_items s (?sw s)) = Inr (sw_writer sw))"
  proof (clarify, intro conjI ballI)
    fix s sw i
    assume "(s, sw) \<in> set (sm_shards m)" and i: "i \<in> set (last_items s (?sw s))"
    then have look: "map_of (sm_shards m) s = Some sw" using keys by simp
    with holds [OF look] i have "i \<in> set (items s)" by (metis UnCI option.sel set_append)
    with wf show "copy_item_wf i" by blast
  next
    fix s sw
    assume "(s, sw) \<in> set (sm_shards m)"
    then have look: "map_of (sm_shards m) s = Some sw" using keys by simp
    with holds [OF look] show "\<exists>w. copy_writer_new enc (sm_header m) = Inr w
        \<and> write_all copy_put w (last_items s (?sw s)) = Inr (sw_writer sw)"
      by (simp add: shard_holds_def)
  qed
  have size: "header_size (sm_header m) = of_nat CONTROL_HEADER_SIZE"
    using inv by (simp add: manager_ok_def)
  note loop = finish_loop [OF fin [unfolded shard_finish_def] codec size paths writers]
  show ?thesis
  proof (cases "map_of (sm_shards m) s")
    case None
    with ok [of s] show ?thesis by (simp add: shard_ok_def)
  next
    case (Some sw)
    note h = holds [OF Some]
    have in_set: "(s, sw) \<in> set (sm_shards m)" using Some by (rule map_of_SomeD)
    note op = open_shards [OF in_set]
    let ?k = "length (chunks s sw)"
    have "Suc ?k < 2 ^ 32" using op n by simp
    then have "unat (of_nat (Suc ?k) :: u32) = Suc ?k"
      by (simp only: unat_of_nat) simp
    moreover have "index_of_shard m s = of_nat (Suc ?k)"
      using h by (simp only: shard_holds_def)
    ultimately have k: "unat (index_of_shard m s) = Suc ?k"
      by (simp only:)
    have "entries_of_file dec fs (shard_file sha256 m s ?k) = map (\<lambda>x. Inr (copy_view x)) (last_items s sw)"
      using loop in_set op Some by fastforce
    moreover have "entries_of_file dec fs (shard_file sha256 m s i) = map (\<lambda>x. Inr (copy_view x)) (chunks s sw ! i)"
      if "i < ?k" for i
    proof -
      have "shard_file sha256 m s i \<noteq> sw_path sw'" if in': "(s', sw') \<in> set (sm_shards m)" for s' sw'
      proof -
        have "(s, i) \<noteq> (s', length (chunks s' sw'))"
          using open_shards [OF in'] Some \<open>i < ?k\<close> by auto
        with open_shards [OF in'] op \<open>i < ?k\<close> show ?thesis
          using names_differ [OF names, of s s' i "length (chunks s' sw')"] by simp
      qed
      then have "shard_file sha256 m s i \<notin> set (map (\<lambda>(s, sw). sw_path sw) (sm_shards m))"
        by auto
      with loop have "entries_of_file dec fs (shard_file sha256 m s i) = entries_of_file dec (sm_ctrl_dir m) (shard_file sha256 m s i)"
        by blast
      with h that show ?thesis by (simp add: shard_holds_def finished_def)
    qed
    ultimately have "map (\<lambda>i. entries_of_file dec fs (shard_file sha256 m s i)) [0..<Suc ?k]
        = map (\<lambda>xs. map (\<lambda>x. Inr (copy_view x)) xs) (chunks s sw @ [last_items s sw])"
      by (intro nth_equalityI) (auto simp: nth_append less_Suc_eq simp del: upt_Suc)
    then show ?thesis
      unfolding k using h by (simp add: map_concat flip: map_append del: upt_Suc) (metis concat_append concat.simps map_append append_Nil2 map_concat)
  qed
qed

section \<open>Properties\<close>

lemma manager_ok_new:
  assumes "header_size h = of_nat CONTROL_HEADER_SIZE" and "0 < num_shards" and "num_shards < 2 ^ 64"
  shows "manager_ok sha256 enc dec (with_policy_and_header ctrl_dir base_name num_shards policy h) (\<lambda>s. [])"
  using assms by (simp add: manager_ok_def with_policy_and_header_def shard_ok_def index_of_shard_def)

lemma sharded_run_ok:
  assumes "json_codec enc dec" and "header_size h = of_nat CONTROL_HEADER_SIZE"
    and "0 < num_shards" and "num_shards < 2 ^ 64" and "length ops \<le> n"
    and "names_distinct sha256 (with_policy_and_header ctrl_dir base_name num_shards policy h) n"
    and "\<forall>op \<in> set ops. copy_item_wf (op_item op)"
    and "fold_err (shard_op_write sha256 enc) ops (with_policy_and_header ctrl_dir base_name num_shards policy h) = Inr m"
  shows "manager_ok sha256 enc dec m (shard_items m ops) \<and> sm_base_name m = base_name
    \<and> names_distinct sha256 m n"
proof -
  let ?m = "with_policy_and_header ctrl_dir base_name num_shards policy h"
  have ok: "manager_ok sha256 enc dec m (\<lambda>s. [] @ shard_items ?m ops s) \<and> same_settings ?m m"
    by (rule shard_ops_ok [OF assms(1,6) manager_ok_new [OF assms(2-4)] _ _ assms(7,8)]) (simp_all add: assms(5))
  then have "shard_items m ops = shard_items ?m ops"
    by (auto simp: shard_items_def compute_shard_id_settings)
  moreover from ok have "same_settings ?m m" by simp
  ultimately show ?thesis
    using ok assms(6) by (simp add: same_settings_def names_distinct_def) (simp add: with_policy_and_header_def)
qed

text \<open>
  C28. Sharding loses no entry: whatever directories and files are written and whenever shards roll over,
  after finishing, the files of each shard, read in the order of their index, hold exactly the
  entries that the hash assigns to the shard, in the order written.
\<close>

theorem sharded_control_roundtrip:
  assumes "json_codec enc dec" and "header_size h = of_nat CONTROL_HEADER_SIZE"
    and "0 < num_shards" and "num_shards < 2 ^ 64" and "length ops < 2 ^ 32"
    and "names_distinct sha256 (with_policy_and_header ctrl_dir base_name num_shards policy h) (length ops)"
    and "\<forall>op \<in> set ops. copy_item_wf (op_item op)"
    and "fold_err (shard_op_write sha256 enc) ops (with_policy_and_header ctrl_dir base_name num_shards policy h) = Inr m"
    and "shard_finish enc m = Inr (fs, paths)"
  shows "concat (map (\<lambda>i. entries_of_file dec fs (shard_file_name sha256 base_name s (of_nat i)))
      [0..<unat (index_of_shard m s)])
    = map (\<lambda>op. Inr (copy_view (op_item op))) (filter (\<lambda>op. compute_shard_id m (op_path op) = s) ops)"
proof -
  note run = sharded_run_ok [OF assms(1-4) order_refl assms(6-8)]
  have "\<forall>s. \<forall>i \<in> set (shard_items m ops s). copy_item_wf i" "\<forall>s. length (shard_items m ops s) \<le> length ops"
    using assms(7) by (auto simp: shard_items_def)
  with run have "concat (map (\<lambda>i. entries_of_file dec fs (shard_file sha256 m s i)) [0..<unat (index_of_shard m s)])
      = map (\<lambda>x. Inr (copy_view x)) (shard_items m ops s)"
    by (intro shard_finish_ok [OF assms(1) _ _ _ _ assms(5,9)]) blast+
  with run show ?thesis by (simp add: shard_items_def comp_def)
qed

text \<open>A hash that keeps the digits of a short name apart, and a policy of one entry for a file.\<close>

definition sample_ops :: "shard_op list" where
  "sample_ops =
    [OpDir \<lparr>dc_path = ''/a'', dc_diff = DirNew, dc_meta_fid = 1, dc_meta_offset = 2, dc_files_count = 1\<rparr> None,
     OpFile ''/a'' \<lparr>fc_name = ''x'', fc_diff = FileNew, fc_meta_fid = 4, fc_meta_offset = 5\<rparr>]"

definition sample_manager :: shard_manager where
  "sample_manager = with_policy_and_header [] ''copy'' 1 (MaxEntries 1) sample_header"

lemma sample_names_distinct: "names_distinct rev sample_manager (length sample_ops)"
proof -
  have "shard_file rev sample_manager 0 0 \<noteq> shard_file rev sample_manager 0 1"
    by code_simp
  then show ?thesis
    by (auto simp: names_distinct_def sample_manager_def sample_ops_def with_policy_and_header_def inj_on_def
        less_Suc_eq numeral_2_eq_2)
qed

lemma sample_ops_wf: "\<forall>op \<in> set sample_ops. copy_item_wf (op_item op)"
  by (auto simp: sample_ops_def intro!: rust_string_ascii)

text \<open>With short texts no write fails: every writer keeps the source of the header.\<close>

definition fitting_source :: "json_enc \<Rightarrow> string \<Rightarrow> string \<Rightarrow> bool" where
  "fitting_source enc kind root \<longleftrightarrow> (\<forall>h. source_kind h = kind \<longrightarrow> source_root h = root \<longrightarrow>
     (\<exists>b. write_header_block enc COPY_MAGIC h = Inr b))"

definition of_source :: "string \<Rightarrow> string \<Rightarrow> control_file_header \<Rightarrow> bool" where
  "of_source kind root h \<longleftrightarrow> source_kind h = kind \<and> source_root h = root"

definition all_of_source :: "string \<Rightarrow> string \<Rightarrow> shard_manager \<Rightarrow> bool" where
  "all_of_source kind root m \<longleftrightarrow> of_source kind root (sm_header m)
    \<and> (\<forall>s sw. map_of (sm_shards m) s = Some sw \<longrightarrow> of_source kind root (header (sw_writer sw)))"

definition item_puts :: "copy_item \<Rightarrow> bool" where
  "item_puts i \<longleftrightarrow> (\<forall>w. \<exists>w'. copy_put w i = Inr w' \<and> source_kind (header w') = source_kind (header w)
     \<and> source_root (header w') = source_root (header w))"

lemma item_putsD: "item_puts i \<Longrightarrow> of_source kind root (header w) \<Longrightarrow>
    \<exists>w'. copy_put w i = Inr w' \<and> of_source kind root (header w')"
  unfolding item_puts_def of_source_def by (elim allE [of _ w]) auto

lemma item_puts_short:
  "length (case i of PutFile e \<Rightarrow> fc_name e | PutDir e b \<Rightarrow> dc_path e) < 1000 \<Longrightarrow> item_puts i"
  unfolding item_puts_def using copy_put_short by blast

lemma copy_finish_source:
  "fitting_source enc kind root \<Longrightarrow> of_source kind root (header w) \<Longrightarrow> \<exists>c. copy_finish enc w = Inr c"
  by (auto simp: fitting_source_def of_source_def copy_finish_def finish_record_writer_def)

lemma open_shard_source:
  assumes "fitting_source enc kind root" and "all_of_source kind root m"
  shows "\<exists>m' sw. open_shard sha256 enc m s = Inr (m', sw) \<and> all_of_source kind root m'
    \<and> of_source kind root (header (sw_writer sw))"
proof -
  have "\<exists>b. write_header_block enc COPY_MAGIC (sm_header m) = Inr b"
    using assms by (auto simp: all_of_source_def of_source_def fitting_source_def)
  with assms(2) show ?thesis
    by (auto simp: open_shard_def copy_writer_new_def create_record_writer_def all_of_source_def update_conv' Let_def)
qed

lemma get_shard_writer_source:
  assumes "fitting_source enc kind root" and "all_of_source kind root m"
  shows "\<exists>m' sw. get_shard_writer sha256 enc m s = Inr (m', sw) \<and> all_of_source kind root m'
    \<and> of_source kind root (header (sw_writer sw))"
proof (cases "map_of (sm_shards m) s")
  case None
  with open_shard_source [OF assms] show ?thesis by (simp add: get_shard_writer_def)
next
  case (Some sw)
  then have loc: "of_source kind root (header (sw_writer sw))"
    using assms by (simp add: all_of_source_def)
  obtain fs where "finish_shard enc (sm_ctrl_dir m) sw = Inr fs"
    using copy_finish_source [OF assms(1) loc] by (auto simp: finish_shard_def)
  moreover have "all_of_source kind root (m\<lparr>sm_ctrl_dir := fs, sm_shards := AList.delete s (sm_shards m)\<rparr>)"
    using assms(2) by (simp add: all_of_source_def delete_conv')
  ultimately show ?thesis
    using Some loc assms open_shard_source [OF assms(1)] by (auto simp: get_shard_writer_def)
qed

lemma sharded_run_total:
  assumes fit: "fitting_source enc kind root"
  shows "all_of_source kind root m \<Longrightarrow> \<forall>op \<in> set ops. item_puts (op_item op) \<Longrightarrow>
    \<exists>m'. fold_err (shard_op_write sha256 enc) ops m = Inr m' \<and> all_of_source kind root m'"
proof (induction ops arbitrary: m)
  case (Cons op ops)
  obtain m1 sw where get: "get_shard_writer sha256 enc m (compute_shard_id m (op_path op)) = Inr (m1, sw)"
    and loc: "all_of_source kind root m1" "of_source kind root (header (sw_writer sw))"
    using get_shard_writer_source [OF fit Cons.prems(1)] by blast
  obtain w where w: "copy_put (sw_writer sw) (op_item op) = Inr w" "of_source kind root (header w)"
    using Cons.prems(2) item_putsD [OF _ loc(2)] by auto
  have "all_of_source kind root (count_entry m1 (compute_shard_id m (op_path op)) sw w (op_size op))"
    using loc(1) w(2) by (auto simp: all_of_source_def count_entry_def update_conv')
  with Cons.IH [OF this] Cons.prems(2) get w show ?case
    by (simp add: shard_op_write_eq Let_def)
qed simp

lemma shard_finish_total:
  assumes fit: "fitting_source enc kind root"
  shows "\<forall>(s, sw) \<in> set shards. of_source kind root (header (sw_writer sw)) \<Longrightarrow>
    \<exists>r. fold_err (\<lambda>(shard_id, shard) (fs, paths).
        andThen (finish_shard enc fs shard) (\<lambda>fs. Inr (fs, paths @ [sw_path shard]))) shards (fs, ps) = Inr r"
proof (induction shards arbitrary: fs ps)
  case (Cons x shards)
  obtain s sw where x: "x = (s, sw)" by fastforce
  obtain fs1 where "finish_shard enc fs sw = Inr fs1"
    using copy_finish_source [OF fit, of "sw_writer sw"] Cons.prems by (auto simp: finish_shard_def x)
  with Cons show ?case by (simp add: x)
qed simp

lemma sample_fitting_source: "fitting_source plain_json_enc ''local'' ''/srv''"
  using sample_header_fits [of COPY_MAGIC] by (auto simp: fitting_source_def COPY_MAGIC_def)

lemma sample_shard_run:
  "\<exists>m fs paths. fold_err (shard_op_write rev plain_json_enc) sample_ops sample_manager = Inr m
    \<and> shard_finish plain_json_enc m = Inr (fs, paths)"
proof -
  have "all_of_source ''local'' ''/srv'' sample_manager"
    by (simp add: all_of_source_def of_source_def sample_manager_def with_policy_and_header_def)
  moreover have "\<forall>op \<in> set sample_ops. item_puts (op_item op)"
    by (auto simp: sample_ops_def intro!: item_puts_short)
  ultimately obtain m where m: "fold_err (shard_op_write rev plain_json_enc) sample_ops sample_manager = Inr m"
    "all_of_source ''local'' ''/srv'' m"
    using sharded_run_total [OF sample_fitting_source, of sample_manager sample_ops] by blast
  have "manager_ok rev plain_json_enc plain_json_dec m (shard_items m sample_ops)"
    using sharded_run_ok [OF plain_json_codec _ _ _ order_refl
        sample_names_distinct [unfolded sample_manager_def] sample_ops_wf m(1) [unfolded sample_manager_def]]
    by simp
  then have "\<forall>(s, sw) \<in> set (sm_shards m). of_source ''local'' ''/srv'' (header (sw_writer sw))"
    using m(2) by (auto simp: manager_ok_def all_of_source_def)
  from shard_finish_total [OF sample_fitting_source this] m(1) show ?thesis
    by (auto simp: shard_finish_def)
qed

theorem sharded_control_roundtrip_witness:
  "\<exists>m fs paths. fold_err (shard_op_write rev plain_json_enc) sample_ops sample_manager = Inr m
    \<and> shard_finish plain_json_enc m = Inr (fs, paths)
    \<and> concat (map (\<lambda>i. entries_of_file plain_json_dec fs (shard_file_name rev ''copy'' 0 (of_nat i)))
        [0..<unat (index_of_shard m 0)])
      = map (\<lambda>op. Inr (copy_view (op_item op))) (filter (\<lambda>op. compute_shard_id m (op_path op) = 0) sample_ops)"
proof -
  obtain m fs paths where run: "fold_err (shard_op_write rev plain_json_enc) sample_ops sample_manager = Inr m"
    "shard_finish plain_json_enc m = Inr (fs, paths)"
    using sample_shard_run by blast
  from sharded_control_roundtrip [OF plain_json_codec _ _ _ _ sample_names_distinct [unfolded sample_manager_def]
      sample_ops_wf run(1) [unfolded sample_manager_def] run(2), of 0] run
  show ?thesis by (auto simp: sample_ops_def)
qed

lemma finish_paths:
  assumes "fold_err (\<lambda>(shard_id, shard) (fs, paths).
        andThen (finish_shard enc fs shard) (\<lambda>fs. Inr (fs, paths @ [sw_path shard]))) shards (fs, ps) = Inr (fs', ps')"
  shows "ps' = ps @ map (\<lambda>(s, sw). sw_path sw) shards"
  using assms
proof (induction shards arbitrary: fs ps)
  case (Cons x shards)
  obtain s sw where x: "x = (s, sw)" by fastforce
  from Cons.prems obtain fs1 where "fold_err (\<lambda>(shard_id, shard) (fs, paths).
        andThen (finish_shard enc fs shard) (\<lambda>fs. Inr (fs, paths @ [sw_path shard]))) shards (fs1, ps @ [sw_path sw])
      = Inr (fs', ps')"
    by (auto simp: x andThen_Inr_iff)
  from Cons.IH [OF this] show ?case by (simp add: x)
qed simp

text \<open>
  The list that \<^verbatim>\<open>finish\<close> returns is not the list of the created files: every file of a shard but the
  last, that is every file closed by a rollover, is missing from it. The restore plan reports this
  list as its copy files; the restore job does not use it, it lists the directory.
\<close>

theorem shard_finish_omits_rolled:
  assumes "json_codec enc dec" and "header_size h = of_nat CONTROL_HEADER_SIZE"
    and "0 < num_shards" and "num_shards < 2 ^ 64" and "length ops < 2 ^ 32"
    and "names_distinct sha256 (with_policy_and_header ctrl_dir base_name num_shards policy h) (length ops)"
    and "\<forall>op \<in> set ops. copy_item_wf (op_item op)"
    and "fold_err (shard_op_write sha256 enc) ops (with_policy_and_header ctrl_dir base_name num_shards policy h) = Inr m"
    and "shard_finish enc m = Inr (fs, paths)"
    and "Suc i < unat (index_of_shard m s)"
  shows "shard_file_name sha256 base_name s (of_nat i) \<notin> set paths"
proof
  assume "shard_file_name sha256 base_name s (of_nat i) \<in> set paths"
  note run = sharded_run_ok [OF assms(1-4) order_refl assms(6-8)]
  then have names: "names_distinct sha256 m (length ops)" and base: "sm_base_name m = base_name" by simp_all
  have open_shard: "t < sm_num_shards m \<and> (\<exists>k. sw_path sw = shard_file sha256 m t k \<and> k < length ops
      \<and> unat (index_of_shard m t) = Suc k)" if look: "map_of (sm_shards m) t = Some sw" for t sw
  proof -
    have "shard_ok sha256 enc dec m t (shard_items m ops t)" and t: "t < sm_num_shards m"
      using run look unfolding manager_ok_def by blast+
    with look obtain chunks last_items where holds: "shard_holds sha256 enc dec m t sw chunks last_items"
      and len: "length chunks < length (shard_items m ops t)"
      by (auto simp: shard_ok_def)
    have "length (shard_items m ops t) \<le> length ops"
      by (simp add: shard_items_def)
    with len have k: "length chunks < length ops" by simp
    have "unat (of_nat (Suc (length chunks)) :: u32) = Suc (length chunks)"
      using k assms(5) by (simp only: unat_of_nat) simp
    with holds k t show ?thesis
      by (simp only: shard_holds_def) blast
  qed
  have "paths = map (\<lambda>(s, sw). sw_path sw) (sm_shards m)"
    using finish_paths [OF assms(9) [unfolded shard_finish_def]] by simp
  with \<open>_ \<in> set paths\<close> obtain t sw where t: "(t, sw) \<in> set (sm_shards m)"
    and path: "sw_path sw = shard_file_name sha256 base_name s (of_nat i)" by auto
  have "distinct (map fst (sm_shards m))" using run by (simp add: manager_ok_def)
  with t have look: "map_of (sm_shards m) t = Some sw" by simp
  from open_shard [OF look] obtain k where k: "sw_path sw = shard_file sha256 m t k" "k < length ops"
    "unat (index_of_shard m t) = Suc k" and t: "t < sm_num_shards m" by blast
  obtain sw' where look': "map_of (sm_shards m) s = Some sw'"
  proof (cases "map_of (sm_shards m) s")
    case None
    moreover have "shard_ok sha256 enc dec m s (shard_items m ops s)"
      using run by (simp add: manager_ok_def)
    ultimately have "index_of_shard m s = 0"
      by (simp add: shard_ok_def)
    with assms(10) show ?thesis by simp
  qed
  from open_shard [OF look'] assms(10) have s: "s < sm_num_shards m" and i: "i < length ops"
    by auto
  have "(t, k) \<noteq> (s, i)" using k(3) assms(10) by auto
  from names_differ [OF names t s k(2) i this] k(1) path base show False by simp
qed

lemma get_shard_writer_new_file:
  assumes "get_shard_writer sha256 enc m s = Inr (m', sw)"
    and "case map_of (sm_shards m) s of None \<Rightarrow> True
      | Some sw \<Rightarrow> needs_rollover (sm_split_policy m) (sw_file_size sw) (sw_entry_count sw)"
  shows "index_of_shard m' s = index_of_shard m s + 1 \<and> sw_entry_count sw = 0 \<and> same_settings m m'"
  using assms
  by (auto simp: get_shard_writer_def open_shard_def andThen_Inr_iff Let_def index_of_shard_def update_conv'
      same_settings_def split: option.splits)

definition one_entry_files :: "shard_manager \<Rightarrow> bool" where
  "one_entry_files m \<longleftrightarrow> sm_num_shards m = 1 \<and> sm_split_policy m = MaxEntries 1
    \<and> (\<forall>sw. map_of (sm_shards m) 0 = Some sw \<longrightarrow> 1 \<le> sw_entry_count sw)"

lemma one_entry_write:
  assumes "shard_op_write sha256 enc op m = Inr m'" and "one_entry_files m"
  shows "index_of_shard m' 0 = index_of_shard m 0 + 1 \<and> one_entry_files m'"
proof -
  have "compute_shard_id m path = 0" for path
    using assms(2) by (simp add: compute_shard_id_def one_entry_files_def)
  with assms(1) obtain m1 sw w where g: "get_shard_writer sha256 enc m 0 = Inr (m1, sw)"
    and m': "m' = count_entry m1 0 sw w (op_size op)"
    by (auto simp: shard_op_write_eq andThen_Inr_iff Let_def)
  have "index_of_shard m1 0 = index_of_shard m 0 + 1 \<and> sw_entry_count sw = 0 \<and> same_settings m m1"
    using assms(2) by (intro get_shard_writer_new_file [OF g]) (auto simp: one_entry_files_def split: option.splits)
  with assms(2) show ?thesis
    by (auto simp: m' one_entry_files_def count_entry_def same_settings_def index_of_shard_def update_conv')
qed

lemma sample_run_index:
  assumes "fold_err (shard_op_write rev plain_json_enc) sample_ops sample_manager = Inr m"
  shows "index_of_shard m 0 = 2"
proof -
  obtain op1 op2 where ops: "sample_ops = [op1, op2]" by (simp add: sample_ops_def)
  obtain m1 where w: "shard_op_write rev plain_json_enc op1 sample_manager = Inr m1"
    "shard_op_write rev plain_json_enc op2 m1 = Inr m"
    using assms unfolding ops by (auto simp: andThen_Inr_iff)
  have "one_entry_files sample_manager" "index_of_shard sample_manager 0 = 0"
    by (simp_all add: one_entry_files_def sample_manager_def with_policy_and_header_def index_of_shard_def)
  with one_entry_write [OF w(1)] one_entry_write [OF w(2)] show ?thesis by simp
qed
theorem shard_finish_omits_rolled_witness:
  "\<exists>m fs paths. fold_err (shard_op_write rev plain_json_enc) sample_ops sample_manager = Inr m
    \<and> shard_finish plain_json_enc m = Inr (fs, paths) \<and> index_of_shard m 0 = 2
    \<and> shard_file_name rev ''copy'' 0 0 \<notin> set paths"
proof -
  obtain m fs paths where run: "fold_err (shard_op_write rev plain_json_enc) sample_ops sample_manager = Inr m"
    "shard_finish plain_json_enc m = Inr (fs, paths)"
    using sample_shard_run by blast
  from shard_finish_omits_rolled [OF plain_json_codec _ _ _ _ sample_names_distinct [unfolded sample_manager_def]
      sample_ops_wf run(1) [unfolded sample_manager_def] run(2), of 0 0] run sample_run_index [OF run(1)]
  show ?thesis by (auto simp: sample_ops_def)
qed

text \<open>
  C39. The batches of a directory partition its files: as long as the sum of the two counts fits into
  32 bits, they are numbered from zero, know their total number, are continuations except the
  first, only the last is marked as last, none is larger than the maximum, and together they have
  all files.
\<close>

theorem compute_batches_partition:
  assumes "sm_max_files_per_batch m \<noteq> 0"
    and "unat total_files + unat (sm_max_files_per_batch m) \<le> 2 ^ 32"
  shows "\<exists>bs. compute_batches m total_files = Some bs \<and> bs \<noteq> []
    \<and> (\<Sum>b \<leftarrow> bs. unat (snd b)) = unat total_files
    \<and> list_all (\<lambda>b. snd b \<le> sm_max_files_per_batch m) bs
    \<and> map (\<lambda>b. unat (batch_num (fst b))) bs = [0..<length bs]
    \<and> map (\<lambda>b. is_continuation (fst b)) bs = map (\<lambda>i. 0 < i) [0..<length bs]
    \<and> map (\<lambda>b. is_last (fst b)) bs = map (\<lambda>i. Suc i = length bs) [0..<length bs]
    \<and> list_all (\<lambda>b. unat (total_batches (fst b)) = length bs) bs"
proof (cases "total_files \<le> sm_max_files_per_batch m")
  case True
  then show ?thesis by (simp add: compute_batches_def)
next
  case False
  define t where "t = unat total_files"
  define k where "k = unat (sm_max_files_per_batch m)"
  have k: "0 < k" "k < 2 ^ 32" and kt: "k < t" and tk: "t + k \<le> 2 ^ 32"
    using assms False unsigned_less [of "sm_max_files_per_batch m", where ?'a = nat]
    by (simp_all add: t_def k_def word_less_nat_alt not_le unat_gt_0)
  let ?n = "(t + k - 1) div k"
  have un: "unat (of_nat x :: u32) = x" if "x < 2 ^ 32" for x
    using that by (simp add: unat_of_nat)
  have eq: "compute_batches m total_files = Some (map (\<lambda>i.
      (\<lparr>batch_num = of_nat i, total_batches = of_nat ?n, is_continuation = (0 < i), is_last = (Suc i = ?n)\<rparr>,
       of_nat (min (t - i * k) k))) [0..<?n])"
    unfolding t_def k_def using False assms by (intro compute_batches_many) auto
  have t32: "t < 2 ^ 32" using tk k by simp
  have small: "unat (of_nat (min (t - i * k) k) :: u32) = min (t - i * k) k" for i
    using k(2) by (intro un) simp
  have pos: "0 < ?n"
    using kt k by (simp add: div_greater_zero_iff)
  have nt: "?n < 2 ^ 32"
  proof -
    have "?n \<le> t + k - 1" by (rule div_le_dividend)
    also have "\<dots> < 2 ^ 32" using tk k by simp
    finally show ?thesis .
  qed
  have "(\<Sum>i \<leftarrow> [0..<?n]. min (t - i * k) k) = t"
    using sum_batches [OF k(1), of t ?n] num_batches_enough [OF k(1), of t] by simp
  then have "(\<Sum>b \<leftarrow> map (\<lambda>i. (\<lparr>batch_num = of_nat i, total_batches = of_nat ?n, is_continuation = (0 < i), is_last = (Suc i = ?n)\<rparr>,
       of_nat (min (t - i * k) k) :: u32)) [0..<?n]. unat (snd b)) = t"
    by (simp add: comp_def small del: sum_list.eq_foldr)
  moreover have "map (\<lambda>i. unat (of_nat i :: u32)) [0..<?n] = [0..<?n]"
    using nt by (intro map_idI un) simp
  ultimately show ?thesis
    using pos un [OF nt] small
    by (simp add: eq comp_def list_all_iff word_le_nat_alt flip: t_def k_def)
qed

theorem compute_batches_partition_witness:
  "\<exists>bs. compute_batches (set_max_files_per_batch sample_manager 4) 10 = Some bs \<and> (\<Sum>b \<leftarrow> bs. unat (snd b)) = 10
    \<and> map (\<lambda>b. unat (batch_num (fst b))) bs = [0..<length bs]"
  using compute_batches_partition [of "set_max_files_per_batch sample_manager 4" 10]
  by (auto simp: set_max_files_per_batch_def)

text \<open>
  When the sum of the two counts exceeds 32 bits, the rounding up overflows and a directory that is
  larger than a batch gets no batch at all (a build with overflow checks panics instead).
\<close>

theorem compute_batches_overflow:
  assumes "sm_max_files_per_batch m < total_files" and "sm_max_files_per_batch m \<noteq> 0"
    and "2 ^ 32 < unat total_files + unat (sm_max_files_per_batch m)"
  shows "compute_batches m total_files = Some []"
proof -
  let ?k = "sm_max_files_per_batch m"
  have t: "unat total_files < 2 ^ 32"
    using unsigned_less [of total_files, where ?'a = nat] by simp
  have "unat (total_files + ?k - 1) = unat total_files + unat ?k - 2 ^ 32 - 1"
    using assms(3) t unsigned_less [of ?k, where ?'a = nat]
    by (simp add: unat_word_ariths unat_sub_if' mod_if) linarith
  then have "unat (total_files + ?k - 1) < unat ?k"
    using t assms(3) by simp
  then have "unat ((total_files + ?k - 1) div ?k) = 0"
    by (simp add: unat_div)
  then show ?thesis
    using assms(1,2) by (simp add: compute_batches_def Let_def not_le)
qed

theorem compute_batches_overflow_witness:
  "compute_batches sample_manager 4294967295 = Some []"
  by (rule compute_batches_overflow)
    (simp_all add: sample_manager_def with_policy_and_header_def DEFAULT_MAX_FILES_PER_BATCH_def)

end
