(* ===== verification/BlockingQueue.thy ===== *)
theory BlockingQueue
  imports Prelude
begin

text \<open>
  \<^verbatim>\<open>utility/blocking_queue.rs\<close>: the bounded queue between producer and consumer threads. A mutex
  makes everything between locking and releasing or waiting one atomic step; the model has one function per
  such critical section, and \<open>bq_step\<close> lets the threads take them in any order. A condition variable
  is the list of the threads that wait on it and of those woken from it that do not hold the lock yet;
  the waiter of \<^verbatim>\<open>not_full\<close> carries the item its \<^verbatim>\<open>push\<close> holds. Which waiter \<^verbatim>\<open>notify_one\<close> wakes is a
  free choice, the argument \<open>c\<close>, and a waiter may wake spuriously.

  No critical section panics, so the mutex is never poisoned.
\<close>

section \<open>Condition variables\<close>

record 'w condvar =
  waiting :: "'w list"
  woken :: "'w list"

definition cv_new :: "'w condvar" where
  "cv_new = \<lparr>waiting = [], woken = []\<rparr>"

definition cv_wait :: "'w \<Rightarrow> 'w condvar \<Rightarrow> 'w condvar" where
  "cv_wait w cv = cv\<lparr>waiting := waiting cv @ [w]\<rparr>"

definition notify_one :: "nat \<Rightarrow> 'w condvar \<Rightarrow> 'w condvar" where
  "notify_one c cv =
    (if waiting cv = [] then cv
     else let w = waiting cv ! (c mod length (waiting cv))
          in \<lparr>waiting = remove1 w (waiting cv), woken = woken cv @ [w]\<rparr>)"

definition notify_all :: "'w condvar \<Rightarrow> 'w condvar" where
  "notify_all cv = \<lparr>waiting = [], woken = woken cv @ waiting cv\<rparr>"

text \<open>A spurious wake-up, and a woken thread that gets the lock back.\<close>

definition wake_up :: "'w \<Rightarrow> 'w condvar \<Rightarrow> 'w condvar" where
  "wake_up w cv = \<lparr>waiting = remove1 w (waiting cv), woken = woken cv @ [w]\<rparr>"

definition cv_return :: "'w \<Rightarrow> 'w condvar \<Rightarrow> 'w condvar" where
  "cv_return w cv = cv\<lparr>woken := remove1 w (woken cv)\<rparr>"

section \<open>The queue and its critical sections\<close>

record 'a blocking_queue =
  bq_queue :: "'a list"
  bq_capacity :: nat
  bq_closed :: bool
  not_full :: "(nat \<times> 'a) condvar"
  not_empty :: "nat condvar"

text \<open>\<open>None\<close> is the panic of the assertion.\<close>

definition bq_new :: "nat \<Rightarrow> 'a blocking_queue option" where
  "bq_new capacity =
    (if 0 < capacity
     then Some \<lparr>bq_queue = [], bq_capacity = capacity, bq_closed = False, not_full = cv_new, not_empty = cv_new\<rparr>
     else None)"

text \<open>How a critical section ends: the thread waits, or its call returns.\<close>

datatype 'a outcome = Waits | PushOk 'a | PushErr 'a | PopSome 'a | PopNone | Closes

definition bq_close :: "'a blocking_queue \<Rightarrow> 'a blocking_queue \<times> 'a outcome" where
  "bq_close q = (q\<lparr>bq_closed := True, not_empty := notify_all (not_empty q)\<rparr>, Closes)"

text \<open>The loop of \<^verbatim>\<open>push\<close> up to the next wait. A push that returns from a wait goes on here.\<close>

definition push_loop :: "nat \<Rightarrow> nat \<Rightarrow> 'a \<Rightarrow> 'a blocking_queue \<Rightarrow> 'a blocking_queue \<times> 'a outcome" where
  "push_loop c t item q =
    (if length (bq_queue q) \<ge> bq_capacity q
     then (q\<lparr>not_full := cv_wait (t, item) (not_full q)\<rparr>, Waits)
     else (q\<lparr>bq_queue := bq_queue q @ [item], not_empty := notify_one c (not_empty q)\<rparr>, PushOk item))"

definition bq_push :: "nat \<Rightarrow> nat \<Rightarrow> 'a \<Rightarrow> 'a blocking_queue \<Rightarrow> 'a blocking_queue \<times> 'a outcome" where
  "bq_push c t item q = (if bq_closed q then (q, PushErr item) else push_loop c t item q)"

text \<open>The loop of \<^verbatim>\<open>pop\<close> up to the next wait: the start and every return from a wait.\<close>

definition bq_pop :: "nat \<Rightarrow> nat \<Rightarrow> 'a blocking_queue \<Rightarrow> 'a blocking_queue \<times> 'a outcome" where
  "bq_pop c t q =
    (case bq_queue q of
       [] \<Rightarrow> if bq_closed q then (q, PopNone)
             else (q\<lparr>not_empty := cv_wait t (not_empty q)\<rparr>, Waits)
     | item # rest \<Rightarrow> (q\<lparr>bq_queue := rest, not_full := notify_one c (not_full q)\<rparr>, PopSome item))"

definition bq_len :: "'a blocking_queue \<Rightarrow> nat" where
  "bq_len q = length (bq_queue q)"

section \<open>Threads\<close>

inductive bq_step :: "'a blocking_queue \<Rightarrow> 'a outcome \<Rightarrow> 'a blocking_queue \<Rightarrow> bool" where
  push_starts: "bq_push c t x q = (q', out) \<Longrightarrow> bq_step q out q'"
| push_resumes: "(t, x) \<in> set (woken (not_full q)) \<Longrightarrow>
    push_loop c t x (q\<lparr>not_full := cv_return (t, x) (not_full q)\<rparr>) = (q', out) \<Longrightarrow> bq_step q out q'"
| pop_starts: "bq_pop c t q = (q', out) \<Longrightarrow> bq_step q out q'"
| pop_resumes: "t \<in> set (woken (not_empty q)) \<Longrightarrow>
    bq_pop c t (q\<lparr>not_empty := cv_return t (not_empty q)\<rparr>) = (q', out) \<Longrightarrow> bq_step q out q'"
| closes: "bq_close q = (q', out) \<Longrightarrow> bq_step q out q'"
| push_wakes: "w \<in> set (waiting (not_full q)) \<Longrightarrow>
    bq_step q Waits (q\<lparr>not_full := wake_up w (not_full q)\<rparr>)"
| pop_wakes: "t \<in> set (waiting (not_empty q)) \<Longrightarrow>
    bq_step q Waits (q\<lparr>not_empty := wake_up t (not_empty q)\<rparr>)"

inductive_cases bq_stepE: "bq_step q out q'"

text \<open>The states that a queue of a capacity can reach, with the outcomes of the steps in order.\<close>

inductive bq_run :: "nat \<Rightarrow> 'a outcome list \<Rightarrow> 'a blocking_queue \<Rightarrow> bool" for capacity where
  run_new: "bq_new capacity = Some q \<Longrightarrow> bq_run capacity [] q"
| run_step: "bq_run capacity outs q \<Longrightarrow> bq_step q out q' \<Longrightarrow> bq_run capacity (outs @ [out]) q'"

fun accepted :: "'a outcome \<Rightarrow> 'a list" where
  "accepted (PushOk x) = [x]"
| "accepted _ = []"

fun taken :: "'a outcome \<Rightarrow> 'a list" where
  "taken (PopSome x) = [x]"
| "taken _ = []"

section \<open>The invariant\<close>

lemmas bq_defs = bq_push_def push_loop_def bq_pop_def bq_close_def cv_wait_def notify_all_def wake_up_def
  cv_return_def

lemma notify_one_empty [simp]: "waiting cv = [] \<Longrightarrow> notify_one c cv = cv"
  by (simp add: notify_one_def)

lemma notify_one_woken:
  "waiting cv \<noteq> [] \<Longrightarrow> length (woken (notify_one c cv)) = Suc (length (woken cv))"
  by (simp add: notify_one_def Let_def)

lemma waiting_notify_one: "waiting cv = [] \<Longrightarrow> waiting (notify_one c cv) = []"
  by simp

text \<open>
  There are never more items than the capacity. A thread may wait only while the threads already woken are
  enough for what it waits for: the free places, or the items. Nobody waits for items of a closed queue.
  While a woken thread holds the lock, one waiter may lack its partner: the slacks \<open>p\<close> and \<open>e\<close>.
\<close>

definition bq_inv_slack :: "nat \<Rightarrow> nat \<Rightarrow> nat \<Rightarrow> 'a blocking_queue \<Rightarrow> bool" where
  "bq_inv_slack capacity p e q \<longleftrightarrow> bq_capacity q = capacity \<and> 0 < capacity \<and> length (bq_queue q) \<le> capacity
    \<and> (waiting (not_full q) \<noteq> [] \<longrightarrow> capacity \<le> length (bq_queue q) + length (woken (not_full q)) + p)
    \<and> (waiting (not_empty q) \<noteq> [] \<longrightarrow> length (bq_queue q) \<le> length (woken (not_empty q)) + e)
    \<and> (bq_closed q \<longrightarrow> waiting (not_empty q) = [])"

abbreviation bq_inv :: "nat \<Rightarrow> 'a blocking_queue \<Rightarrow> bool" where
  "bq_inv capacity \<equiv> bq_inv_slack capacity 0 0"

lemma bq_inv_new: "bq_new capacity = Some q \<Longrightarrow> bq_inv capacity q"
  by (auto simp: bq_new_def bq_inv_slack_def cv_new_def split: if_splits)

lemma slack_mono: "bq_inv_slack capacity p e q \<Longrightarrow> p \<le> p' \<Longrightarrow> e \<le> e' \<Longrightarrow> bq_inv_slack capacity p' e' q"
  by (fastforce simp: bq_inv_slack_def)

lemma woken_return: "w \<in> set (woken cv) \<Longrightarrow> length (woken cv) = Suc (length (woken (cv_return w cv)))"
  by (simp add: cv_return_def length_remove1) (metis Suc_pred length_pos_if_in_set)

lemma waiting_return [simp]: "waiting (cv_return w cv) = waiting cv"
  by (simp add: cv_return_def)

lemma push_loop_inv:
  assumes out: "push_loop c t x q = (q', out)" and inv: "bq_inv_slack capacity 1 0 q"
  shows "bq_inv capacity q'"
proof (cases "length (bq_queue q) \<ge> bq_capacity q")
  case True
  with out have "q' = q\<lparr>not_full := cv_wait (t, x) (not_full q)\<rparr>" by (simp add: push_loop_def)
  with True inv show ?thesis by (auto simp: bq_inv_slack_def cv_wait_def)
next
  case False
  with out have q': "q' = q\<lparr>bq_queue := bq_queue q @ [x], not_empty := notify_one c (not_empty q)\<rparr>"
    by (simp add: push_loop_def)
  show ?thesis
  proof (cases "waiting (not_empty q) = []")
    case True
    with False inv show ?thesis by (simp add: q' bq_inv_slack_def)
  next
    case waits: False
    with False inv show ?thesis by (simp add: q' bq_inv_slack_def notify_one_woken)
  qed
qed

lemma bq_pop_inv:
  assumes out: "bq_pop c t q = (q', out)" and inv: "bq_inv_slack capacity 0 1 q"
  shows "bq_inv capacity q'"
proof (cases "bq_queue q")
  case Nil
  show ?thesis
  proof (cases "bq_closed q")
    case True
    with out Nil inv show ?thesis by (simp add: bq_pop_def bq_inv_slack_def)
  next
    case False
    with out Nil have "q' = q\<lparr>not_empty := cv_wait t (not_empty q)\<rparr>" by (simp add: bq_pop_def)
    with Nil False inv show ?thesis by (simp add: bq_inv_slack_def cv_wait_def)
  qed
next
  case (Cons x xs)
  with out have q': "q' = q\<lparr>bq_queue := xs, not_full := notify_one c (not_full q)\<rparr>" by (simp add: bq_pop_def)
  show ?thesis
  proof (cases "waiting (not_full q) = []")
    case True
    with Cons inv show ?thesis by (simp add: q' bq_inv_slack_def)
  next
    case False
    with Cons inv show ?thesis by (simp add: q' bq_inv_slack_def notify_one_woken)
  qed
qed

lemma bq_step_inv: "bq_step q out q' \<Longrightarrow> bq_inv capacity q \<Longrightarrow> bq_inv capacity q'"
proof (induction rule: bq_step.induct)
  case (push_starts c t x q q' out)
  then show ?case
    by (cases "bq_closed q") (auto simp: bq_push_def intro: push_loop_inv slack_mono)
next
  case (push_resumes t x q c q' out)
  from push_resumes(2) show ?case
    by (rule push_loop_inv)
      (use push_resumes(3) woken_return [OF push_resumes(1)] in \<open>simp add: bq_inv_slack_def\<close>)
next
  case (pop_starts c t q q' out)
  then show ?case by (blast intro: bq_pop_inv slack_mono order_refl le0)
next
  case (pop_resumes t q c q' out)
  from pop_resumes(2) show ?case
    by (rule bq_pop_inv)
      (use pop_resumes(3) woken_return [OF pop_resumes(1)] in \<open>simp add: bq_inv_slack_def\<close>)
qed (auto simp: bq_inv_slack_def bq_close_def notify_all_def wake_up_def)

lemma bq_run_inv: "bq_run capacity outs q \<Longrightarrow> bq_inv capacity q"
  by (induction rule: bq_run.induct) (auto intro: bq_inv_new bq_step_inv)

lemma bq_step_contents: "bq_step q out q' \<Longrightarrow> taken out @ bq_queue q' = bq_queue q @ accepted out"
  by (induction rule: bq_step.induct) (auto simp: bq_defs split: if_splits list.splits)

text \<open>A pop ends with \<^verbatim>\<open>None\<close> only on a closed, empty queue.\<close>

lemma bq_step_None: "bq_step q out q' \<Longrightarrow> out = PopNone \<Longrightarrow> bq_closed q \<and> bq_queue q = []"
  by (induction rule: bq_step.induct) (auto simp: bq_defs split: if_splits list.splits)

lemma bq_run_contents: "bq_run capacity outs q \<Longrightarrow> concat (map accepted outs) = concat (map taken outs) @ bq_queue q"
proof (induction rule: bq_run.induct)
  case (run_new q)
  then show ?case by (auto simp: bq_new_def split: if_splits)
next
  case (run_step outs q out q')
  then show ?case
    using bq_step_contents [OF run_step.hyps(2)] by simp
qed

section \<open>Properties\<close>

text \<open>
  C22. The queue is bounded and first-in-first-out, whatever the threads do: it never holds more than its
  capacity, and the items taken so far followed by the items in it are the items accepted so far, in
  that order. When a pop answers \<^verbatim>\<open>None\<close>, the queue is closed and everything accepted before was taken.
\<close>

theorem blocking_queue_fifo:
  assumes "bq_run capacity outs q"
  shows "concat (map accepted outs) = concat (map taken outs) @ bq_queue q \<and> bq_len q \<le> capacity
    \<and> (\<forall>q'. bq_step q PopNone q' \<longrightarrow> bq_closed q \<and> concat (map accepted outs) = concat (map taken outs))"
  using bq_run_contents [OF assms] bq_run_inv [OF assms] bq_step_None
  by (auto simp: bq_inv_slack_def bq_len_def)

text \<open>
  C23. No wake-up is lost: once every thread that was woken has run, a thread waits in \<^verbatim>\<open>push\<close> only on
  a full queue and a thread waits in \<^verbatim>\<open>pop\<close> only on an empty queue that is not closed. So
  producers and consumers never wait for one another at the same time.
\<close>

theorem blocking_queue_no_lost_wakeup:
  assumes "bq_run capacity outs q" and "woken (not_full q) = []" and "woken (not_empty q) = []"
  shows "(waiting (not_full q) = [] \<or> bq_len q = capacity)
    \<and> (waiting (not_empty q) = [] \<or> bq_len q = 0 \<and> \<not> bq_closed q)
    \<and> (waiting (not_full q) = [] \<or> waiting (not_empty q) = [])"
  using bq_run_inv [OF assms(1)] assms(2,3) by (auto simp: bq_inv_slack_def bq_len_def)

text \<open>A producer that waits for room when the queue is closed, and goes on after the consumer has seen the end.\<close>

definition bq_one :: "'a list \<Rightarrow> bool \<Rightarrow> (nat \<times> 'a) list \<Rightarrow> (nat \<times> 'a) list \<Rightarrow> 'a blocking_queue" where
  "bq_one xs is_closed waits woke = \<lparr>bq_queue = xs, bq_capacity = 1, bq_closed = is_closed,
    not_full = \<lparr>waiting = waits, woken = woke\<rparr>, not_empty = cv_new\<rparr>"

lemma bq_one_run_wait: "bq_run 1 [PushOk a, Waits] (bq_one [a] False [(2, b)] [])"
proof -
  have "bq_run 1 [] (bq_one [] False [] [])"
    by (rule run_new) (simp add: bq_new_def bq_one_def cv_new_def)
  then have "bq_run 1 ([] @ [PushOk a]) (bq_one [a] False [] [])"
    by (rule run_step) (rule push_starts [of 0 1 a], simp add: bq_push_def push_loop_def bq_one_def cv_new_def)
  then have "bq_run 1 (([] @ [PushOk a]) @ [Waits]) (bq_one [a] False [(2, b)] [])"
    by (rule run_step) (rule push_starts [of 0 2 b], simp add: bq_push_def push_loop_def bq_one_def cv_wait_def)
  then show ?thesis by simp
qed

lemma bq_one_run_end: "bq_run 1 [PushOk a, Waits, Closes, PopSome a] (bq_one [] True [] [(2, b)])"
proof -
  have "bq_run 1 ([PushOk a, Waits] @ [Closes]) (bq_one [a] True [(2, b)] [])"
    by (rule run_step [OF bq_one_run_wait])
      (rule closes, simp add: bq_close_def notify_all_def bq_one_def cv_new_def)
  then have "bq_run 1 (([PushOk a, Waits] @ [Closes]) @ [PopSome a]) (bq_one [] True [] [(2, b)])"
    by (rule run_step) (rule pop_starts [of 0 3], simp add: bq_pop_def notify_one_def bq_one_def)
  then show ?thesis by simp
qed

lemma bq_one_step_end: "bq_step (bq_one [] True [] woke) PopNone (bq_one [] True [] woke)"
  by (rule pop_starts [of 0 3]) (simp add: bq_pop_def bq_one_def)

theorem blocking_queue_fifo_witness:
  "bq_run 1 [PushOk True, Waits, Closes, PopSome True] (bq_one [] True [] [(2, False)])
    \<and> bq_closed (bq_one [] True [] [(2, False)]) \<and> bq_len (bq_one [] True [] [(2, False)]) \<le> 1"
  using blocking_queue_fifo [OF bq_one_run_end [of True False]] bq_one_step_end [of "[(2, False)]"]
    bq_one_run_end [of True False] by blast

theorem blocking_queue_no_lost_wakeup_witness:
  "bq_run 1 [PushOk True, Waits] (bq_one [True] False [(2, False)] [])
    \<and> waiting (not_full (bq_one [True] False [(2, False)] [])) = [(2, False)]
    \<and> bq_len (bq_one [True] False [(2, False)] []) = 1
    \<and> waiting (not_empty (bq_one [True] False [(2, False)] [])) = []"
  using blocking_queue_no_lost_wakeup [OF bq_one_run_wait [of True False]] bq_one_run_wait [of True False]
  by (simp add: bq_one_def cv_new_def)

text \<open>
  A push that waits when the queue is closed is still accepted, even after a pop has answered
  \<^verbatim>\<open>None\<close>: its item stays in the closed queue although the push reports success. (The
  documentation of the module promises that no more items can be pushed after \<^verbatim>\<open>close\<close>.)
\<close>

theorem blocking_queue_accepts_after_close:
  "\<exists>q. bq_run 1 [PushOk a, Waits, Closes, PopSome a, PopNone, PushOk b] q \<and> bq_closed q \<and> bq_queue q = [b]
    \<and> not_full q = cv_new \<and> not_empty q = cv_new"
proof -
  have "bq_run 1 ([PushOk a, Waits, Closes, PopSome a] @ [PopNone]) (bq_one [] True [] [(2, b)])"
    by (rule run_step [OF bq_one_run_end bq_one_step_end])
  then have "bq_run 1 (([PushOk a, Waits, Closes, PopSome a] @ [PopNone]) @ [PushOk b]) (bq_one [b] True [] [])"
    by (rule run_step)
      (rule push_resumes [of 2 b _ 0], simp_all add: push_loop_def bq_one_def cv_return_def cv_new_def)
  then show ?thesis by (auto simp: bq_one_def cv_new_def)
qed

end
