(* ===== verification/EntryProducer.thy ===== *)
theory EntryProducer
  imports PathUtil CopyControl MetaStorage
begin

text \<open>
  \<^verbatim>\<open>backup/fcb.rs\<close> and \<^verbatim>\<open>backup/aio/entry.rs\<close>: how a backup or restore turns the entries of a copy
  control file into control blocks, with the paths to read from and to write to. The consumer of the blocks
  is a function of its own state that tells whether to go on.
\<close>

section \<open>Control blocks\<close>

datatype source_handle_state = SourceInited | SourceRead | SourcePartialRead

datatype target_handle_state = TargetInited | TargetPartialWritten | TargetWritten

record file_control_block =
  fcb_meta :: file_meta
  fcb_buffer :: "byte list"
  fcb_buffer_len :: nat
  fcb_src_state :: source_handle_state
  fcb_dst_state :: target_handle_state
  fcb_src_path :: string
  fcb_dst_path :: string
  fcb_src_offset :: u64
  fcb_dst_offset :: u64

record dir_control_block =
  dcb_meta :: dir_meta
  dcb_src_path :: string
  dcb_dst_path :: string

datatype control_block = FileBlock file_control_block | DirBlock dir_control_block

definition fcb_from :: "file_meta \<Rightarrow> file_control_block" where
  "fcb_from fmeta =
    \<lparr>fcb_meta = fmeta, fcb_buffer = [], fcb_buffer_len = 0, fcb_src_state = SourceInited,
     fcb_dst_state = TargetInited, fcb_src_path = [], fcb_dst_path = [], fcb_src_offset = 0, fcb_dst_offset = 0\<rparr>"

definition dcb_from :: "dir_meta \<Rightarrow> dir_control_block" where
  "dcb_from dmeta = \<lparr>dcb_meta = dmeta, dcb_src_path = [], dcb_dst_path = []\<rparr>"

section \<open>Path layouts\<close>

datatype path_layout =
    LocalSource string
  | RemoteSource
  | PrefixedLogicalTarget string
  | PrefixedRemoteRelativeTarget string

record entry_mapping =
  dir_source :: path_layout
  dir_target :: path_layout
  file_source :: path_layout
  file_target :: path_layout

definition local_to_prefixed_target :: "string \<Rightarrow> string \<Rightarrow> entry_mapping" where
  "local_to_prefixed_target root target_prefix =
    \<lparr>dir_source = LocalSource root, dir_target = PrefixedLogicalTarget target_prefix,
     file_source = LocalSource root, file_target = PrefixedLogicalTarget target_prefix\<rparr>"

definition remote_to_local :: entry_mapping where
  "remote_to_local =
    \<lparr>dir_source = RemoteSource, dir_target = RemoteSource, file_source = RemoteSource, file_target = RemoteSource\<rparr>"

definition remote_to_prefixed_target :: "string \<Rightarrow> entry_mapping" where
  "remote_to_prefixed_target target_prefix =
    \<lparr>dir_source = RemoteSource, dir_target = PrefixedRemoteRelativeTarget target_prefix,
     file_source = RemoteSource, file_target = PrefixedRemoteRelativeTarget target_prefix\<rparr>"

definition logical_relative_path :: "string \<Rightarrow> string" where
  "logical_relative_path control_path =
    (case path_strip_prefix control_path ''/'' of Some p \<Rightarrow> p | None \<Rightarrow> control_path)"

definition strip_logical_source_root :: "string \<Rightarrow> string \<Rightarrow> string" where
  "strip_logical_source_root logical_source_root control_path =
    (let path = logical_relative_path control_path; root = logical_relative_path logical_source_root
     in if root = [] then path
        else (case path_strip_prefix path root of Some p \<Rightarrow> p | None \<Rightarrow> path))"

definition join_local_source :: "string \<Rightarrow> string \<Rightarrow> string \<Rightarrow> string" where
  "join_local_source root logical_source_root control_path =
    path_join root (strip_logical_source_root logical_source_root control_path)"

fun map_control_path :: "path_layout \<Rightarrow> string \<Rightarrow> string \<Rightarrow> string" where
  "map_control_path (LocalSource root) control_path lroot = join_local_source root lroot control_path"
| "map_control_path RemoteSource control_path lroot = strip_logical_source_root lroot control_path"
| "map_control_path (PrefixedLogicalTarget target) control_path lroot =
    path_join target (logical_relative_path control_path)"
| "map_control_path (PrefixedRemoteRelativeTarget target) control_path lroot =
    path_join target (strip_logical_source_root lroot control_path)"

fun map_child_path :: "path_layout \<Rightarrow> string \<Rightarrow> string \<Rightarrow> string \<Rightarrow> string" where
  "map_child_path (LocalSource root) control_dir file_name lroot =
    path_join (join_local_source root lroot control_dir) file_name"
| "map_child_path RemoteSource control_dir file_name lroot =
    path_join (strip_logical_source_root lroot control_dir) file_name"
| "map_child_path (PrefixedLogicalTarget target) control_dir file_name lroot =
    path_join (path_join target (logical_relative_path control_dir)) file_name"
| "map_child_path (PrefixedRemoteRelativeTarget target) control_dir file_name lroot =
    path_join (path_join target (strip_logical_source_root lroot control_dir)) file_name"

section \<open>The loop over a control file\<close>

definition dir_block :: "entry_mapping \<Rightarrow> string \<Rightarrow> string \<Rightarrow> dir_meta \<Rightarrow> control_block" where
  "dir_block mapping lroot current_dir dmeta = DirBlock ((dcb_from dmeta)
    \<lparr>dcb_src_path := map_control_path (dir_source mapping) current_dir lroot,
     dcb_dst_path := map_control_path (dir_target mapping) current_dir lroot\<rparr>)"

definition file_block :: "entry_mapping \<Rightarrow> string \<Rightarrow> string \<Rightarrow> string \<Rightarrow> file_meta \<Rightarrow> control_block" where
  "file_block mapping lroot current_dir name fmeta = FileBlock ((fcb_from fmeta)
    \<lparr>fcb_src_path := map_child_path (file_source mapping) current_dir name lroot,
     fcb_dst_path := map_child_path (file_target mapping) current_dir name lroot\<rparr>)"

text \<open>The block of an entry, if its metadata can be read, and the current directory after it.\<close>

fun entry_block ::
  "meta_bincode \<Rightarrow> files \<Rightarrow> entry_mapping \<Rightarrow> string \<Rightarrow> control_entry \<Rightarrow> string \<Rightarrow>
   meta_error + (control_block option \<times> string)" where
  "entry_block bc fs mapping lroot (EntryDir dentry) current_dir =
    andThen (if_ok (get_dmeta bc fs (dc_meta_fid dentry, dc_meta_offset dentry))) (\<lambda>m.
      Inr (case m of
             None \<Rightarrow> (None, current_dir)
           | Some dmeta \<Rightarrow> (Some (dir_block mapping lroot (dc_path dentry) dmeta), dc_path dentry)))"
| "entry_block bc fs mapping lroot (EntryFile fentry) current_dir =
    andThen (if_ok (get_fmeta bc fs (fc_meta_fid fentry, fc_meta_offset fentry))) (\<lambda>m.
      Inr (case m of
             None \<Rightarrow> (None, current_dir)
           | Some fmeta \<Rightarrow> (Some (file_block mapping lroot current_dir (fc_name fentry) fmeta), current_dir)))"

fun produce_loop ::
  "meta_bincode \<Rightarrow> files \<Rightarrow> entry_mapping \<Rightarrow> string \<Rightarrow> (control_block \<Rightarrow> 's \<Rightarrow> bool \<times> 's) \<Rightarrow>
   control_entry io list \<Rightarrow> string \<Rightarrow> nat \<Rightarrow> 's \<Rightarrow> meta_error + (nat \<times> 's)" where
  "produce_loop bc fs mapping lroot on_entry [] current_dir n s = Inr (n, s)"
| "produce_loop bc fs mapping lroot on_entry (Inl e # entries) current_dir n s =
    produce_loop bc fs mapping lroot on_entry entries current_dir n s"
| "produce_loop bc fs mapping lroot on_entry (Inr entry # entries) current_dir n s =
    andThen (entry_block bc fs mapping lroot entry current_dir) (\<lambda>(item, current_dir).
      case item of
        None \<Rightarrow> produce_loop bc fs mapping lroot on_entry entries current_dir n s
      | Some item \<Rightarrow>
          (case on_entry item s of
             (False, s) \<Rightarrow> Inr (n, s)
           | (True, s) \<Rightarrow> produce_loop bc fs mapping lroot on_entry entries current_dir (n + 1) s))"

text \<open>
  The number of blocks handed on, and the state of the consumer. A panic of the metadata reader ends
  the whole call. \<open>MetaRepoReader::new\<close> never fails.
\<close>

definition produce_entries_for_each ::
  "json_dec \<Rightarrow> meta_bincode \<Rightarrow> byte list \<Rightarrow> files \<Rightarrow> entry_mapping \<Rightarrow> (control_block \<Rightarrow> 's \<Rightarrow> bool \<times> 's) \<Rightarrow>
   's \<Rightarrow> meta_error + (nat \<times> 's)" where
  "produce_entries_for_each dec bc control_file meta_dir mapping on_entry s =
    (case copy_reader_open dec control_file of
       Inl e \<Rightarrow> Inr (0, s)
     | Inr (rest, h) \<Rightarrow>
         produce_loop bc meta_dir mapping (source_root h) on_entry (read_entries copy_decode rest) [] 0 s)"

section \<open>What paths are mapped to\<close>

lemma map_child_path_join:
  "map_child_path layout control_dir name lroot = path_join (map_control_path layout control_dir lroot) name"
  by (cases layout) simp_all

lemma logical_relative_render [path_simps]:
  "\<forall>p \<in> set ps. clean_part p \<Longrightarrow> logical_relative_path (render ps) = join_with CHR ''/'' ps"
  by (simp add: logical_relative_path_def path_strip_render_root)

text \<open>The path below the logical source root; a path outside it keeps all its components.\<close>

definition below_root :: "string list \<Rightarrow> string list \<Rightarrow> string list" where
  "below_root rs ps = (if prefix rs ps then drop (length rs) ps else ps)"

lemma strip_logical_render [path_simps]:
  assumes "\<forall>p \<in> set rs. clean_part p" and "\<forall>p \<in> set ps. clean_part p"
  shows "strip_logical_source_root (render rs) (render ps) = join_with CHR ''/'' (below_root rs ps)"
  using assms by (auto simp: strip_logical_source_root_def logical_relative_render path_strip_join
      join_clean_nonempty below_root_def Let_def)

fun layout_path :: "path_layout \<Rightarrow> string list \<Rightarrow> string list \<Rightarrow> string" where
  "layout_path (LocalSource root) rs ps = path_join root (join_with CHR ''/'' (below_root rs ps))"
| "layout_path RemoteSource rs ps = join_with CHR ''/'' (below_root rs ps)"
| "layout_path (PrefixedLogicalTarget target) rs ps = path_join target (join_with CHR ''/'' ps)"
| "layout_path (PrefixedRemoteRelativeTarget target) rs ps = path_join target (join_with CHR ''/'' (below_root rs ps))"

lemma map_control_path_render:
  "\<forall>p \<in> set rs. clean_part p \<Longrightarrow> \<forall>p \<in> set ps. clean_part p \<Longrightarrow>
   map_control_path layout (render ps) (render rs) = layout_path layout rs ps"
  by (cases layout) (simp_all add: join_local_source_def path_simps)

section \<open>A control file of directories with their files\<close>

type_synonym dir_group = "dir_control_entry \<times> file_control_entry list"

definition group_entries :: "dir_group list \<Rightarrow> control_entry list" where
  "group_entries gs = concat (map (\<lambda>(d, files). EntryDir d # map EntryFile files) gs)"

definition group_blocks ::
  "(meta_locator \<Rightarrow> dir_meta) \<Rightarrow> (meta_locator \<Rightarrow> file_meta) \<Rightarrow> entry_mapping \<Rightarrow> string \<Rightarrow> dir_group \<Rightarrow>
   control_block list" where
  "group_blocks dm fm mapping lroot g =
    dir_block mapping lroot (dc_path (fst g)) (dm (dc_meta_fid (fst g), dc_meta_offset (fst g)))
    # map (\<lambda>f. file_block mapping lroot (dc_path (fst g)) (fc_name f) (fm (fc_meta_fid f, fc_meta_offset f))) (snd g)"

definition group_readable ::
  "meta_bincode \<Rightarrow> files \<Rightarrow> (meta_locator \<Rightarrow> dir_meta) \<Rightarrow> (meta_locator \<Rightarrow> file_meta) \<Rightarrow> dir_group \<Rightarrow> bool" where
  "group_readable bc fs dm fm g \<longleftrightarrow>
    get_dmeta bc fs (dc_meta_fid (fst g), dc_meta_offset (fst g))
      = Inr (dm (dc_meta_fid (fst g), dc_meta_offset (fst g)))
    \<and> (\<forall>f \<in> set (snd g). get_fmeta bc fs (fc_meta_fid f, fc_meta_offset f)
        = Inr (fm (fc_meta_fid f, fc_meta_offset f)))"

text \<open>A consumer that takes everything.\<close>

definition collect :: "control_block \<Rightarrow> control_block list \<Rightarrow> bool \<times> control_block list" where
  "collect b bs = (True, bs @ [b])"

lemma produce_collect:
  "produce_loop bc fs mapping lroot collect (Inr entry # entries) dir n s =
    andThen (entry_block bc fs mapping lroot entry dir) (\<lambda>(item, dir).
      case item of
        None \<Rightarrow> produce_loop bc fs mapping lroot collect entries dir n s
      | Some item \<Rightarrow> produce_loop bc fs mapping lroot collect entries dir (n + 1) (s @ [item]))"
proof -
  have "(case collect item s of (False, s) \<Rightarrow> Inr (n, s)
      | (True, s) \<Rightarrow> produce_loop bc fs mapping lroot collect entries dir' (n + 1) s)
    = produce_loop bc fs mapping lroot collect entries dir' (n + 1) (s @ [item])" for item dir'
    by (subst (1) collect_def) simp
  then show ?thesis by (simp only: produce_loop.simps)
qed

declare produce_loop.simps(3) [simp del] produce_collect [simp]

lemma produce_files:
  assumes "\<forall>f \<in> set files. get_fmeta bc fs (fc_meta_fid f, fc_meta_offset f)
      = Inr (fm (fc_meta_fid f, fc_meta_offset f))"
  shows "produce_loop bc fs mapping lroot collect (map (\<lambda>f. Inr (EntryFile f)) files @ rest) dir n s =
    produce_loop bc fs mapping lroot collect rest dir (n + length files)
      (s @ map (\<lambda>f. file_block mapping lroot dir (fc_name f) (fm (fc_meta_fid f, fc_meta_offset f))) files)"
  using assms by (induction files arbitrary: n s) (simp_all add: produce_collect)

lemma produce_groups:
  assumes "\<forall>g \<in> set gs. group_readable bc fs dm fm g"
  shows "produce_loop bc fs mapping lroot collect (map Inr (group_entries gs)) dir n s =
    Inr (n + length (group_entries gs), s @ concat (map (group_blocks dm fm mapping lroot) gs))"
  using assms
proof (induction gs arbitrary: dir n s)
  case Nil
  then show ?case by (simp add: group_entries_def)
next
  case (Cons g gs)
  have entries: "map Inr (group_entries (g # gs)) =
      Inr (EntryDir (fst g)) # map (\<lambda>f. Inr (EntryFile f)) (snd g) @ map Inr (group_entries gs)"
    by (simp add: group_entries_def case_prod_unfold comp_def)
  have len: "length (group_entries (g # gs)) = 1 + length (snd g) + length (group_entries gs)"
    by (simp add: group_entries_def case_prod_unfold)
  have files: "\<forall>f \<in> set (snd g). get_fmeta bc fs (fc_meta_fid f, fc_meta_offset f)
      = Inr (fm (fc_meta_fid f, fc_meta_offset f))"
    and dir: "get_dmeta bc fs (dc_meta_fid (fst g), dc_meta_offset (fst g))
      = Inr (dm (dc_meta_fid (fst g), dc_meta_offset (fst g)))"
    using Cons.prems by (simp_all add: group_readable_def)
  have "\<forall>g \<in> set gs. group_readable bc fs dm fm g"
    using Cons.prems by simp
  note IH = Cons.IH [OF this]
  show ?case
    unfolding entries len by (simp add: produce_collect dir produce_files [OF files] IH group_blocks_def del: map_map)
qed

lemma copy_counts_source [simp]: "source_root (fold copy_count items h) = source_root h"
  by (induction items arbitrary: h) (simp_all, case_tac a, simp_all)

lemma collect_append:
  "produce_loop bc fs mapping lroot collect entries dir n s = Inr (m, out) \<Longrightarrow> prefix s out"
proof (induction entries arbitrary: dir n s)
  case (Cons r entries)
  show ?case
  proof (cases r)
    case (Inl e)
    with Cons show ?thesis by simp
  next
    case (Inr entry)
    with Cons.prems obtain item dir' where "entry_block bc fs mapping lroot entry dir = Inr (item, dir')"
      by (auto simp: andThen_Inr_iff)
    with Inr Cons.prems Cons.IH show ?thesis
      by (cases item) (auto dest: append_prefixD)
  qed
qed simp

lemma map_empty_path:
  "map_control_path (LocalSource root) [] lroot = path_join root []
   \<and> map_control_path (PrefixedLogicalTarget target) [] lroot = path_join target []"
proof -
  have empty: "path_components [] = []" by (simp add: path_components_def piece_comp_def)
  have "logical_relative_path [] = []"
    by (simp add: logical_relative_path_def path_strip_prefix_def path_starts_with_def empty split: option.split)
  moreover have "path_strip_prefix [] r = None \<or> path_strip_prefix [] r = Some []" for r
    by (simp add: path_strip_prefix_def empty)
  ultimately show ?thesis
    by (auto simp: join_local_source_def strip_logical_source_root_def Let_def split: option.splits)
      (metis option.distinct(1) option.inject)
qed

section \<open>Properties\<close>

text \<open>
  C20. From a copy control file in which every file follows its directory, and whose metadata can be read,
  the producer hands on exactly one block per entry, in order: the directories with their metadata and
  mapped paths, the files with their metadata and paths inside the directory before them.
\<close>

theorem produce_entries_complete:
  assumes "json_codec enc dec" and "header_size h = of_nat CONTROL_HEADER_SIZE"
    and "copy_writer_new enc h = Inr w0" and "write_all copy_put w0 items = Inr w" and "copy_finish enc w = Inr f"
    and "\<forall>i \<in> set items. copy_item_wf i" and "map copy_view items = group_entries gs"
    and "\<forall>g \<in> set gs. group_readable bc meta_dir dm fm g"
  shows "produce_entries_for_each dec bc f meta_dir mapping collect [] =
    Inr (length items, concat (map (group_blocks dm fm mapping (source_root h)) gs))"
proof -
  from copy.file_roundtrip [OF assms(1) assms(3) [unfolded copy_writer_new_def] assms(2,4,6)
      assms(5) [unfolded copy_finish_def]]
  obtain rest h' where opened: "copy_reader_open dec f = Inr (rest, h')" and h': "source_root h' = source_root h"
    and read: "read_entries copy_decode rest = map (\<lambda>i. Inr (copy_view i)) items"
    by (auto simp: copy_reader_open_def)
  have "map (\<lambda>i. Inr (copy_view i)) items = map Inr (map copy_view items)" by simp
  then have entries: "read_entries copy_decode rest = map Inr (group_entries gs)"
    by (simp only: read assms(7))
  have len: "length (group_entries gs) = length items"
    using arg_cong [OF assms(7), of length] by simp
  show ?thesis
    using produce_groups [OF assms(8), of mapping "source_root h" "[]" 0 "[]"]
    by (simp add: produce_entries_for_each_def opened h' entries len)
qed

text \<open>
  A local backup keeps the tree: what lies at a logical path below the source root is read from that
  relative path below the source directory and written to the same relative path below the target
  directory; a file goes into the directory its own directory entry was mapped to.
\<close>

theorem local_backup_layout:
  assumes "\<forall>p \<in> set ps. clean_part p" and "m = local_to_prefixed_target root target"
  shows "map_control_path (dir_source m) (render ps) ''/'' = path_join root (join_with CHR ''/'' ps)
    \<and> map_control_path (dir_target m) (render ps) ''/'' = path_join target (join_with CHR ''/'' ps)
    \<and> map_child_path (file_source m) (render ps) name ''/'' = path_join (path_join root (join_with CHR ''/'' ps)) name
    \<and> map_child_path (file_target m) (render ps) name ''/'' = path_join (path_join target (join_with CHR ''/'' ps)) name"
proof -
  have "''/'' = render []" by (simp add: render_def)
  then show ?thesis
    using map_control_path_render [of "[]" ps] assms
    by (simp add: map_child_path_join local_to_prefixed_target_def below_root_def)
qed

theorem local_backup_layout_witness:
  "clean_part ''docs'' \<and> map_child_path (file_source (local_to_prefixed_target ''/home'' ''/backup'')) ''/docs'' ''f'' ''/''
      = ''/home/docs/f''
    \<and> map_child_path (file_target (local_to_prefixed_target ''/home'' ''/backup'')) ''/docs'' ''f'' ''/''
      = ''/backup/docs/f''"
  using local_backup_layout [of "[''docs'']" "local_to_prefixed_target ''/home'' ''/backup''" "''/home''" "''/backup''" "''f''"]
  by (simp add: clean_part_def render_def path_join_def)

text \<open>
  A file entry that comes before any directory entry, as at the start of a shard file that was begun by
  a rollover in the middle of a directory, loses its directory: it is read from and written to the
  top of the source and of the target.
\<close>

theorem file_before_directory_misplaced:
  assumes "copy_reader_open dec f = Inr (rest, h)" and "read_entries copy_decode rest = Inr (EntryFile e) # entries"
    and "get_fmeta bc meta_dir (fc_meta_fid e, fc_meta_offset e) = Inr fmeta"
    and "produce_entries_for_each dec bc f meta_dir (local_to_prefixed_target root target) collect [] = Inr (n, blocks)"
  shows "\<exists>fcb bs. blocks = FileBlock fcb # bs
    \<and> fcb_src_path fcb = path_join (path_join root []) (fc_name e)
    \<and> fcb_dst_path fcb = path_join (path_join target []) (fc_name e)"
proof -
  let ?m = "local_to_prefixed_target root target"
  from assms have "produce_loop bc meta_dir ?m (source_root h) collect entries [] 1
      [file_block ?m (source_root h) [] (fc_name e) fmeta] = Inr (n, blocks)"
    by (simp add: produce_entries_for_each_def)
  from collect_append [OF this] obtain bs
    where "blocks = file_block ?m (source_root h) [] (fc_name e) fmeta # bs" by (auto simp: prefix_def)
  with map_empty_path [of root "source_root h"] show ?thesis
    by (simp add: file_block_def map_child_path_join local_to_prefixed_target_def)
qed

text \<open>
  When the metadata of a directory cannot be read, the entry is skipped but the current directory stays:
  the files of the skipped directory are read from and written to the directory before it.
\<close>

theorem unreadable_directory_misplaces_files:
  assumes "get_dmeta bc fs (dc_meta_fid d1, dc_meta_offset d1) = Inr dmeta"
    and "get_dmeta bc fs (dc_meta_fid d2, dc_meta_offset d2) = Inl (MetaIo err)"
    and "get_fmeta bc fs (fc_meta_fid e, fc_meta_offset e) = Inr fmeta"
  shows "produce_loop bc fs mapping lroot collect [Inr (EntryDir d1), Inr (EntryDir d2), Inr (EntryFile e)] dir n s =
    Inr (n + 2, s @ [dir_block mapping lroot (dc_path d1) dmeta,
      file_block mapping lroot (dc_path d1) (fc_name e) fmeta])"
  using assms by simp

section \<open>A sample\<close>

text \<open>The metadata files that the sample entries of the copy control file refer to.\<close>

definition sample_meta :: files where
  "sample_meta =
    [(meta_file_name 1, [0, 0] @ tlv TAG_DIR (enc_dir sample_bincode (sample_dir ''/tmp/a dir''))),
     (meta_file_name 4, [0, 0, 0, 0, 0] @ tlv TAG_FILE (enc_file sample_bincode (sample_file '' x.txt'')))]"

definition sample_directory :: dir_control_entry where
  "sample_directory = \<lparr>dc_path = ''/tmp/a dir'', dc_diff = DirNew, dc_meta_fid = 1, dc_meta_offset = 2,
     dc_files_count = 1\<rparr>"

definition sample_entry :: file_control_entry where
  "sample_entry = \<lparr>fc_name = '' x.txt'', fc_diff = FileDeleted, fc_meta_fid = 4, fc_meta_offset = 5\<rparr>"

lemma sample_meta_reads:
  "get_dmeta sample_bincode sample_meta (1, 2) = Inr (sample_dir ''/tmp/a dir'')"
  "get_dmeta sample_bincode sample_meta (1, 90) = Inl (MetaIo UnexpectedEof)"
  "get_fmeta sample_bincode sample_meta (4, 5) = Inr (sample_file '' x.txt'')"
  by code_simp+

lemma sample_group_readable:
  "group_readable sample_bincode sample_meta (\<lambda>_. sample_dir ''/tmp/a dir'') (\<lambda>_. sample_file '' x.txt'')
    (sample_directory, [sample_entry])"
  by (simp add: group_readable_def sample_directory_def sample_entry_def sample_meta_reads)

theorem produce_entries_complete_witness:
  "\<exists>w0 w f. copy_writer_new plain_json_enc sample_header = Inr w0 \<and> write_all copy_put w0 sample_items = Inr w
    \<and> copy_finish plain_json_enc w = Inr f
    \<and> produce_entries_for_each plain_json_dec sample_bincode f sample_meta (local_to_prefixed_target ''/srv'' ''/backup'')
        collect []
      = Inr (2, [dir_block (local_to_prefixed_target ''/srv'' ''/backup'') ''/srv'' ''/tmp/a dir'' (sample_dir ''/tmp/a dir''),
          file_block (local_to_prefixed_target ''/srv'' ''/backup'') ''/srv'' ''/tmp/a dir'' '' x.txt'' (sample_file '' x.txt'')])"
proof -
  from copy_sample_run obtain w0 w f where run: "copy_writer_new plain_json_enc sample_header = Inr w0"
    "write_all copy_put w0 sample_items = Inr w" "copy_finish plain_json_enc w = Inr f"
    by blast
  have "map copy_view sample_items = group_entries [(sample_directory, [sample_entry])]"
    by (simp add: sample_items_def group_entries_def sample_directory_def sample_entry_def)
  from produce_entries_complete [OF plain_json_codec _ run sample_items_wf this]
    sample_group_readable run
  show ?thesis
    by (auto simp: sample_items_def group_blocks_def sample_directory_def sample_entry_def)
qed

theorem unreadable_directory_misplaces_files_witness:
  "produce_loop sample_bincode sample_meta (local_to_prefixed_target ''/srv'' ''/backup'') ''/'' collect
     [Inr (EntryDir sample_directory),
      Inr (EntryDir (sample_directory\<lparr>dc_path := ''/other'', dc_meta_offset := 90\<rparr>)), Inr (EntryFile sample_entry)] [] 0 []
   = Inr (2, [dir_block (local_to_prefixed_target ''/srv'' ''/backup'') ''/'' ''/tmp/a dir'' (sample_dir ''/tmp/a dir''),
       file_block (local_to_prefixed_target ''/srv'' ''/backup'') ''/'' ''/tmp/a dir'' '' x.txt'' (sample_file '' x.txt'')])"
  using unreadable_directory_misplaces_files [of sample_bincode sample_meta sample_directory "sample_dir ''/tmp/a dir''"
      "sample_directory\<lparr>dc_path := ''/other'', dc_meta_offset := 90\<rparr>" UnexpectedEof sample_entry "sample_file '' x.txt''"
      "local_to_prefixed_target ''/srv'' ''/backup''" "''/''" "[]" 0 "[]"] sample_meta_reads
  by (simp add: sample_directory_def sample_entry_def)

lemma one_file_run:
  "\<exists>w0 w f. copy_writer_new plain_json_enc sample_header = Inr w0
    \<and> write_all copy_put w0 [PutFile sample_entry] = Inr w \<and> copy_finish plain_json_enc w = Inr f"
  unfolding copy_writer_new_def copy_finish_def
  by (rule sample_run; (rule copy_put_short)?) (auto simp: COPY_MAGIC_def sample_entry_def)

theorem file_before_directory_misplaced_witness:
  "\<exists>f n fcb bs. produce_entries_for_each plain_json_dec sample_bincode f sample_meta
      (local_to_prefixed_target ''/srv'' ''/backup'') collect [] = Inr (n, FileBlock fcb # bs)
    \<and> fcb_src_path fcb = ''/srv/ x.txt'' \<and> fcb_dst_path fcb = ''/backup/ x.txt''"
proof -
  from one_file_run obtain w0 w f where run: "copy_writer_new plain_json_enc sample_header = Inr w0"
    "write_all copy_put w0 [PutFile sample_entry] = Inr w" "copy_finish plain_json_enc w = Inr f"
    by blast
  have "\<forall>i \<in> set [PutFile sample_entry]. copy_item_wf i"
    by (auto simp: sample_entry_def intro!: rust_string_ascii)
  from copy_file_roundtrip [OF plain_json_codec run(1) _ run(2) this run(3)]
  obtain rest h where opened: "copy_reader_open plain_json_dec f = Inr (rest, h)"
    and read: "read_entries copy_decode rest = [Inr (EntryFile sample_entry)]" by auto
  have meta: "get_fmeta sample_bincode sample_meta (fc_meta_fid sample_entry, fc_meta_offset sample_entry)
      = Inr (sample_file '' x.txt'')"
    by (simp add: sample_entry_def sample_meta_reads)
  obtain n blocks where "produce_entries_for_each plain_json_dec sample_bincode f sample_meta
      (local_to_prefixed_target ''/srv'' ''/backup'') collect [] = Inr (n, blocks)"
    by (simp add: produce_entries_for_each_def opened read meta)
  with file_before_directory_misplaced [OF opened read meta this] show ?thesis
    by (auto simp: sample_entry_def path_join_def)
qed

end
