(* ===== verification/CopyPlan.thy ===== *)
theory CopyPlan
  imports EntryProducer
begin

text \<open>
  \<^verbatim>\<open>backup/copy_block.rs\<close>, \<^verbatim>\<open>backup/copy_plan.rs\<close> and \<^verbatim>\<open>backup/stats.rs\<close>: the unit of data that
  moves through a copy pipeline, the plan that the control blocks become, and the counters.
\<close>

section \<open>Blocks\<close>

record copy_block =
  cb_meta :: file_meta
  cb_src_path :: string
  cb_dst_path :: string
  cb_src_offset :: u64
  cb_dst_offset :: u64
  cb_file_size :: u64
  cb_data :: "byte list"
  cb_is_last :: bool

definition block_from_fcb :: "file_control_block \<Rightarrow> copy_block" where
  "block_from_fcb fcb =
    (let file_size = fm_size (fcb_meta fcb)
     in \<lparr>cb_meta = fcb_meta fcb, cb_src_path = fcb_src_path fcb, cb_dst_path = fcb_dst_path fcb,
         cb_src_offset = fcb_src_offset fcb, cb_dst_offset = fcb_dst_offset fcb, cb_file_size = file_size,
         cb_data = fcb_buffer fcb, cb_is_last = (fcb_src_offset fcb \<ge> file_size)\<rparr>)"

definition into_fcb :: "copy_block \<Rightarrow> file_control_block" where
  "into_fcb b = (fcb_from (cb_meta b))
    \<lparr>fcb_src_path := cb_src_path b, fcb_dst_path := cb_dst_path b,
     fcb_src_offset := cb_src_offset b, fcb_dst_offset := cb_dst_offset b,
     fcb_buffer_len := length (cb_data b), fcb_buffer := cb_data b,
     fcb_src_state := (if cb_src_offset b \<ge> cb_file_size b then SourceRead else SourcePartialRead),
     fcb_dst_state := (if cb_dst_offset b \<ge> cb_file_size b then TargetWritten else TargetPartialWritten)\<rparr>"

definition clear_data :: "copy_block \<Rightarrow> copy_block" where
  "clear_data b = b\<lparr>cb_data := []\<rparr>"

definition read_complete :: "copy_block \<Rightarrow> bool" where
  "read_complete b \<longleftrightarrow> cb_src_offset b \<ge> cb_file_size b"

definition write_complete :: "copy_block \<Rightarrow> bool" where
  "write_complete b \<longleftrightarrow> cb_dst_offset b \<ge> cb_file_size b"

section \<open>Plans\<close>

datatype file_copy_plan = Direct file_meta string string | Aggregate file_meta string

datatype copy_plan_entry = PlanDirectory dir_meta string | PlanFile file_copy_plan

definition plan_from_fcb :: "file_control_block \<Rightarrow> (file_meta \<Rightarrow> bool) \<Rightarrow> file_copy_plan" where
  "plan_from_fcb fcb should_aggregate =
    (if should_aggregate (fcb_meta fcb) then Aggregate (fcb_meta fcb) (fcb_src_path fcb)
     else Direct (fcb_meta fcb) (fcb_src_path fcb) (fcb_dst_path fcb))"

fun plan_entry :: "(file_meta \<Rightarrow> bool) \<Rightarrow> control_block \<Rightarrow> copy_plan_entry" where
  "plan_entry should_aggregate (DirBlock dcb) = PlanDirectory (dcb_meta dcb) (dcb_dst_path dcb)"
| "plan_entry should_aggregate (FileBlock fcb) = PlanFile (plan_from_fcb fcb should_aggregate)"

definition produce_copy_plan ::
  "json_dec \<Rightarrow> meta_bincode \<Rightarrow> byte list \<Rightarrow> files \<Rightarrow> entry_mapping \<Rightarrow> (file_meta \<Rightarrow> bool) \<Rightarrow>
   (copy_plan_entry \<Rightarrow> 's \<Rightarrow> bool \<times> 's) \<Rightarrow> 's \<Rightarrow> meta_error + (nat \<times> 's)" where
  "produce_copy_plan dec bc control_file meta_dir mapping should_aggregate on_entry s =
    produce_entries_for_each dec bc control_file meta_dir mapping
      (\<lambda>entry. on_entry (plan_entry should_aggregate entry)) s"

definition produce_local_copy_plan ::
  "json_dec \<Rightarrow> meta_bincode \<Rightarrow> byte list \<Rightarrow> files \<Rightarrow> string \<Rightarrow> string \<Rightarrow> (file_meta \<Rightarrow> bool) \<Rightarrow>
   (copy_plan_entry \<Rightarrow> 's \<Rightarrow> bool \<times> 's) \<Rightarrow> 's \<Rightarrow> meta_error + (nat \<times> 's)" where
  "produce_local_copy_plan dec bc control_file meta_dir source_dir_base target_dir_base should_aggregate on_entry s =
    produce_copy_plan dec bc control_file meta_dir (local_to_prefixed_target source_dir_base target_dir_base)
      should_aggregate on_entry s"

section \<open>Counters\<close>

record backup_stats =
  bytes_copied :: u64
  src_opened :: u64
  src_closed :: u64
  dst_opened :: u64
  dst_closed :: u64
  files_copied :: u64
  files_deleted :: u64
  dirs_created :: u64
  dirs_deleted :: u64
  files_failed :: u64
  dirs_failed :: u64

definition stats_default :: backup_stats where
  "stats_default = \<lparr>bytes_copied = 0, src_opened = 0, src_closed = 0, dst_opened = 0, dst_closed = 0,
    files_copied = 0, files_deleted = 0, dirs_created = 0, dirs_deleted = 0, files_failed = 0, dirs_failed = 0\<rparr>"

definition add_bytes_copied :: "u64 \<Rightarrow> backup_stats \<Rightarrow> backup_stats" where
  "add_bytes_copied n st = st\<lparr>bytes_copied := bytes_copied st + n\<rparr>"

definition inc_src_opened :: "backup_stats \<Rightarrow> backup_stats" where
  "inc_src_opened st = st\<lparr>src_opened := src_opened st + 1\<rparr>"

definition inc_src_closed :: "backup_stats \<Rightarrow> backup_stats" where
  "inc_src_closed st = st\<lparr>src_closed := src_closed st + 1\<rparr>"

definition inc_dst_opened :: "backup_stats \<Rightarrow> backup_stats" where
  "inc_dst_opened st = st\<lparr>dst_opened := dst_opened st + 1\<rparr>"

definition inc_dst_closed :: "backup_stats \<Rightarrow> backup_stats" where
  "inc_dst_closed st = st\<lparr>dst_closed := dst_closed st + 1\<rparr>"

definition inc_files_copied :: "backup_stats \<Rightarrow> backup_stats" where
  "inc_files_copied st = st\<lparr>files_copied := files_copied st + 1\<rparr>"

definition inc_files_deleted :: "backup_stats \<Rightarrow> backup_stats" where
  "inc_files_deleted st = st\<lparr>files_deleted := files_deleted st + 1\<rparr>"

definition inc_dirs_created :: "backup_stats \<Rightarrow> backup_stats" where
  "inc_dirs_created st = st\<lparr>dirs_created := dirs_created st + 1\<rparr>"

definition inc_dirs_deleted :: "backup_stats \<Rightarrow> backup_stats" where
  "inc_dirs_deleted st = st\<lparr>dirs_deleted := dirs_deleted st + 1\<rparr>"

definition inc_files_failed :: "backup_stats \<Rightarrow> backup_stats" where
  "inc_files_failed st = st\<lparr>files_failed := files_failed st + 1\<rparr>"

definition inc_dirs_failed :: "backup_stats \<Rightarrow> backup_stats" where
  "inc_dirs_failed st = st\<lparr>dirs_failed := dirs_failed st + 1\<rparr>"

section \<open>Blocks and control blocks\<close>

text \<open>What \<open>from_fcb\<close> establishes, and every transport keeps: the size is that of the metadata.\<close>

definition block_wf :: "copy_block \<Rightarrow> bool" where
  "block_wf b \<longleftrightarrow> cb_file_size b = fm_size (cb_meta b) \<and> cb_is_last b = read_complete b"

lemma block_from_into: "block_wf b \<Longrightarrow> block_from_fcb (into_fcb b) = b"
  by (cases b) (simp add: block_wf_def block_from_fcb_def into_fcb_def fcb_from_def read_complete_def Let_def)

lemma block_wf_from: "block_wf (block_from_fcb fcb)"
  by (simp add: block_wf_def block_from_fcb_def read_complete_def Let_def)

end
