(* ===== verification/Failure.thy ===== *)
theory Failure
  imports RustStr
begin

text \<open>
  \<^verbatim>\<open>failure.rs\<close>: retrying fallible operations, classifying errors, and the failure log. An operation
  that may be retried is a function of its item and of a state that stands for everything it reads and
  changes. Time is not modelled: the delays of the policy (\<^verbatim>\<open>f64\<close> arithmetic) say when a retry
  starts, not whether. The text of a record in the CSV and JSON formats is that of the
  libraries, a parameter.
\<close>

section \<open>Retrying\<close>

record retry_policy =
  max_retries :: u32

definition max_attempts :: "retry_policy \<Rightarrow> u32" where
  "max_attempts p = (if max_retries p = - 1 then - 1 else max_retries p + 1)"

definition should_retry :: "retry_policy \<Rightarrow> u32 \<Rightarrow> bool" where
  "should_retry p attempt \<longleftrightarrow> attempt < max_attempts p"

text \<open>The queue of a retried item: the items with their attempt numbers.\<close>

type_synonym 'i retry_queue = "('i \<times> u32) list"

definition retry_queue_new :: "'i \<Rightarrow> 'i retry_queue" where
  "retry_queue_new item = [(item, 1)]"

fun pop_ready :: "'i retry_queue \<Rightarrow> (('i \<times> u32) \<times> 'i retry_queue) option" where
  "pop_ready [] = None"
| "pop_ready (x # q) = Some (x, q)"

definition retry_or_fail ::
  "'i retry_queue \<Rightarrow> retry_policy \<Rightarrow> 'i \<Rightarrow> u32 \<Rightarrow> ('i \<times> u32) + 'i retry_queue" where
  "retry_or_fail q p item failed_attempt =
    (if should_retry p failed_attempt then Inr (q @ [(item, failed_attempt + 1)])
     else Inl (item, failed_attempt))"

text \<open>The attempts left, which bounds the loop.\<close>

definition attempts_left :: "retry_policy \<Rightarrow> 'i retry_queue \<Rightarrow> nat" where
  "attempts_left p q = (\<Sum>(i, a) \<leftarrow> q. Suc (unat (max_attempts p) - unat a))"

lemma unat_next: "a < b \<Longrightarrow> unat (a + 1) = unat a + 1" for a b :: u32
proof -
  assume "a < b"
  then have "unat a + 1 < 2 ^ 32"
    using unsigned_less [of b, where ?'a = nat] by (simp add: word_less_nat_alt)
  then show ?thesis by (simp add: unat_word_ariths)
qed

lemma attempts_left_retry:
  assumes "should_retry p a"
  shows "attempts_left p (q @ [(i', a + 1)]) < attempts_left p ((i, a) # q)"
  using assms unat_next [of a "max_attempts p"]
  by (simp add: should_retry_def attempts_left_def word_less_nat_alt)

text \<open>\<open>None\<close> is the \<^verbatim>\<open>unreachable!\<close> after the loop.\<close>

function retry_loop ::
  "retry_policy \<Rightarrow> ('i \<Rightarrow> 's \<Rightarrow> (('i \<times> 'e) + 't) \<times> 's) \<Rightarrow> 'i retry_queue \<Rightarrow> 's \<Rightarrow>
   ((('i \<times> 'e \<times> u32) + 't) \<times> 's) option" where
  "retry_loop p op q s =
    (case pop_ready q of
       None \<Rightarrow> None
     | Some ((item, attempt), q) \<Rightarrow>
         (case op item s of
            (Inr value, s) \<Rightarrow> Some (Inr value, s)
          | (Inl (item, err), s) \<Rightarrow>
              (case retry_or_fail q p item attempt of
                 Inl (item, attempts) \<Rightarrow> Some (Inl (item, err, attempts), s)
               | Inr q \<Rightarrow> retry_loop p op q s)))"
  by pat_completeness auto
termination
  by (relation "measure (\<lambda>(p, op, q, s). attempts_left p q)")
    (auto simp: retry_or_fail_def intro: attempts_left_retry elim!: pop_ready.elims split: if_splits)

declare retry_loop.simps [simp del]

definition retry_sync_item ::
  "retry_policy \<Rightarrow> 'i \<Rightarrow> ('i \<Rightarrow> 's \<Rightarrow> (('i \<times> 'e) + 't) \<times> 's) \<Rightarrow> 's \<Rightarrow>
   ((('i \<times> 'e \<times> u32) + 't) \<times> 's) option" where
  "retry_sync_item p item op s = retry_loop p op (retry_queue_new item) s"

fun with_unit :: "('e + 't) \<times> 's \<Rightarrow> ((unit \<times> 'e) + 't) \<times> 's" where
  "with_unit (Inl e, s) = (Inl ((), e), s)"
| "with_unit (Inr v, s) = (Inr v, s)"

fun drop_unit :: "((unit \<times> 'e \<times> u32) + 't) \<times> 's \<Rightarrow> (('e \<times> u32) + 't) \<times> 's" where
  "drop_unit (Inl (i, e), s) = (Inl e, s)"
| "drop_unit (Inr v, s) = (Inr v, s)"

definition retry_sync ::
  "retry_policy \<Rightarrow> ('s \<Rightarrow> ('e + 't) \<times> 's) \<Rightarrow> 's \<Rightarrow> ((('e \<times> u32) + 't) \<times> 's) option" where
  "retry_sync p op s = map_option drop_unit (retry_sync_item p () (\<lambda>_ s. with_unit (op s)) s)"

text \<open>
  The asynchronous variants run the same queue; between two steps other tasks run, whose effects are part
  of what the operation makes of the state.
\<close>

definition retry_async_item ::
  "retry_policy \<Rightarrow> 'i \<Rightarrow> ('i \<Rightarrow> 's \<Rightarrow> (('i \<times> 'e) + 't) \<times> 's) \<Rightarrow> 's \<Rightarrow>
   ((('i \<times> 'e \<times> u32) + 't) \<times> 's) option" where
  "retry_async_item p item op s = retry_loop p op (retry_queue_new item) s"

definition retry_async ::
  "retry_policy \<Rightarrow> ('s \<Rightarrow> ('e + 't) \<times> 's) \<Rightarrow> 's \<Rightarrow> ((('e \<times> u32) + 't) \<times> 's) option" where
  "retry_async p op s = map_option drop_unit (retry_loop p (\<lambda>_ s. with_unit (op s)) (retry_queue_new ()) s)"

text \<open>The specification: try until a success, at most \<open>n + 1\<close> times, with the item each failure hands back.\<close>

fun try_up_to :: "nat \<Rightarrow> ('i \<Rightarrow> 's \<Rightarrow> (('i \<times> 'e) + 't) \<times> 's) \<Rightarrow> 'i \<Rightarrow> 's \<Rightarrow> (('i \<times> 'e) + 't) \<times> 's" where
  "try_up_to 0 op item s = op item s"
| "try_up_to (Suc n) op item s =
    (case op item s of
       (Inr value, s) \<Rightarrow> (Inr value, s)
     | (Inl (item, err), s) \<Rightarrow> try_up_to n op item s)"

fun with_attempts :: "u32 \<Rightarrow> (('i \<times> 'e) + 't) \<times> 's \<Rightarrow> (('i \<times> 'e \<times> u32) + 't) \<times> 's" where
  "with_attempts n (Inl (i, e), s) = (Inl (i, e, n), s)"
| "with_attempts n (Inr v, s) = (Inr v, s)"

lemma retry_loop_try:
  assumes "unat (max_attempts p) = unat a + n"
  shows "retry_loop p op [(item, a)] s = Some (with_attempts (max_attempts p) (try_up_to n op item s))"
  using assms
proof (induction n arbitrary: a item s)
  case 0
  then have a: "a = max_attempts p" by (simp add: word_unat_eq_iff)
  show ?case
    by (simp add: a retry_loop.simps [of p op "[(item, max_attempts p)]"] retry_or_fail_def should_retry_def
        split: prod.splits sum.splits)
next
  case (Suc n)
  then have less: "a < max_attempts p" by (simp add: word_less_nat_alt)
  from unat_next [OF this] Suc.prems have "unat (max_attempts p) = unat (a + 1) + n" by simp
  from Suc.IH [OF this] less show ?case
    by (simp add: retry_loop.simps [of p op "[(item, a)]"] retry_or_fail_def should_retry_def
        split: prod.splits sum.splits)
qed

lemma max_attempts_pos: "max_attempts p \<noteq> 0"
  by (simp add: max_attempts_def) (metis add.commute add.right_inverse add_left_imp_eq)

lemma retry_loop_new:
  "retry_loop p op (retry_queue_new item) s =
    Some (with_attempts (max_attempts p) (try_up_to (unat (max_attempts p) - 1) op item s))"
proof -
  have "unat (max_attempts p) = unat (1 :: u32) + (unat (max_attempts p) - 1)"
    using max_attempts_pos [of p] by (simp add: unat_gt_0 Suc_leI)
  then show ?thesis
    by (simp add: retry_queue_new_def retry_loop_try)
qed

section \<open>Classifying errors\<close>

text \<open>The numbers of the errors on Linux, and their names.\<close>

definition classify_errno :: "int \<Rightarrow> string" where
  "classify_errno code =
    (case map_of [(1, ''EPERM''), (13, ''EACCES''), (2, ''ENOENT''), (28, ''ENOSPC''), (17, ''EEXIST''), (5, ''EIO''),
        (20, ''ENOTDIR''), (21, ''EISDIR''), (16, ''EBUSY''), (30, ''EROFS''), (110, ''ETIMEDOUT''),
        (104, ''ECONNRESET''), (111, ''ECONNREFUSED'')] code of
       Some name \<Rightarrow> name
     | None \<Rightarrow> ''ERRNO_'' @ (if code < 0 then ''-'' @ nat_str (nat (- code)) else nat_str (nat code)))"

definition errno_tokens :: "string list" where
  "errno_tokens = [''EPERM'', ''EACCES'', ''ENOENT'', ''ENOSPC'', ''EEXIST'', ''EIO'', ''ENOTDIR'', ''EISDIR'',
    ''EBUSY'', ''EROFS'', ''ETIMEDOUT'', ''ECONNRESET'', ''ECONNREFUSED'']"

definition phrase_tokens :: "string list" where
  "phrase_tokens = [''NFS3ERR_JUKEBOX'', ''NFS3ERR_ACCES'', ''NFS3ERR_NOENT'', ''NFS3ERR_NOSPC'', ''NFS3ERR_IO'',
    ''OBJECT PATH NOT FOUND'', ''NETWORK NAME DELETED'', ''ACCESS DENIED'', ''PERMISSION DENIED'', ''NO SUCH FILE'',
    ''NO SPACE LEFT'']"

definition upper_char :: "char \<Rightarrow> char" where
  "upper_char c = (let n = of_char c :: nat in if 97 \<le> n \<and> n \<le> 122 then char_of (n - 32) else c)"

definition replace_char :: "char \<Rightarrow> string \<Rightarrow> string \<Rightarrow> string" where
  "replace_char c r s = concat (map (\<lambda>x. if x = c then r else [x]) s)"

definition classify_error_detail :: "string \<Rightarrow> string" where
  "classify_error_detail detail =
    (let upper = map upper_char detail
     in case find (\<lambda>token. str_contains token upper) errno_tokens of
          Some token \<Rightarrow> token
        | None \<Rightarrow> (case find (\<lambda>token. str_contains token upper) phrase_tokens of
            Some token \<Rightarrow> replace_char CHR '' '' ''_'' token
          | None \<Rightarrow> ''UNKNOWN''))"

text \<open>An \<^verbatim>\<open>io::Error\<close>: the number of the operating system, if it has one, and its message.\<close>

record os_error =
  raw_os_error :: "int option"
  os_message :: string

definition classify_io_error :: "os_error \<Rightarrow> string" where
  "classify_io_error e =
    (case raw_os_error e of Some code \<Rightarrow> classify_errno code | None \<Rightarrow> classify_error_detail (os_message e))"

section \<open>The failure log\<close>

datatype failure_log_format = Csv | Json | Xml

fun format_extension :: "failure_log_format \<Rightarrow> string" where
  "format_extension Csv = ''csv''"
| "format_extension Json = ''json''"
| "format_extension Xml = ''xml''"

datatype failure_item_type = ItemFile | ItemDirectory | ItemSymlink | ItemSpecial | ItemBlock | ItemUnknown

fun item_type_str :: "failure_item_type \<Rightarrow> string" where
  "item_type_str ItemFile = ''file''"
| "item_type_str ItemDirectory = ''directory''"
| "item_type_str ItemSymlink = ''symlink''"
| "item_type_str ItemSpecial = ''special''"
| "item_type_str ItemBlock = ''block''"
| "item_type_str ItemUnknown = ''unknown''"

record failure_record =
  fr_time :: string
  fr_phase :: string
  fr_operation :: string
  fr_item_type :: failure_item_type
  fr_path :: string
  fr_code :: string
  fr_detail :: string
  fr_attempts :: u32

text \<open>The constructors; \<open>now\<close> is the text of the clock.\<close>

definition record_from_io_error ::
  "string \<Rightarrow> string \<Rightarrow> string \<Rightarrow> failure_item_type \<Rightarrow> string \<Rightarrow> os_error \<Rightarrow> u32 \<Rightarrow> failure_record" where
  "record_from_io_error now phase operation item_type path err attempts =
    \<lparr>fr_time = now, fr_phase = phase, fr_operation = operation, fr_item_type = item_type, fr_path = path,
     fr_code = classify_io_error err, fr_detail = os_message err, fr_attempts = attempts\<rparr>"

definition record_from_detail ::
  "string \<Rightarrow> string \<Rightarrow> string \<Rightarrow> failure_item_type \<Rightarrow> string \<Rightarrow> string \<Rightarrow> u32 \<Rightarrow> failure_record" where
  "record_from_detail now phase operation item_type path detail attempts =
    \<lparr>fr_time = now, fr_phase = phase, fr_operation = operation, fr_item_type = item_type, fr_path = path,
     fr_code = classify_error_detail detail, fr_detail = detail, fr_attempts = attempts\<rparr>"

definition xml_escape :: "string \<Rightarrow> string" where
  "xml_escape value =
    replace_char CHR 0x27 ''&apos;'' (replace_char CHR 0x22 ''&quot;''
      (replace_char CHR ''>'' ''&gt;'' (replace_char CHR ''<'' ''&lt;'' (replace_char CHR ''&'' ''&amp;'' value))))"

definition newline :: string where
  "newline = [CHR 0x0A]"

definition xml_element :: "string \<Rightarrow> string \<Rightarrow> string" where
  "xml_element tag text = ''<'' @ tag @ ''>'' @ text @ ''</'' @ tag @ ''>''"

definition xml_record :: "failure_record \<Rightarrow> string" where
  "xml_record r = ''  <failure>'' @ xml_element ''time'' (xml_escape (fr_time r))
    @ xml_element ''phase'' (xml_escape (fr_phase r))
    @ xml_element ''operation'' (xml_escape (fr_operation r))
    @ xml_element ''item_type'' (item_type_str (fr_item_type r))
    @ xml_element ''path'' (xml_escape (fr_path r))
    @ xml_element ''code'' (xml_escape (fr_code r))
    @ xml_element ''detail'' (xml_escape (fr_detail r))
    @ xml_element ''attempts'' (nat_str (unat (fr_attempts r))) @ ''</failure>'' @ newline"

record failure_recorder =
  rec_format :: failure_log_format
  rec_file :: string
  rec_wrote_any :: bool

definition recorder_create :: "failure_log_format \<Rightarrow> failure_recorder" where
  "recorder_create format =
    \<lparr>rec_format = format,
     rec_file = (case format of
         Csv \<Rightarrow> ''time,phase,operation,item_type,path,code,detail,attempts'' @ newline
       | Json \<Rightarrow> ''['' @ newline
       | Xml \<Rightarrow> ''<failures>'' @ newline),
     rec_wrote_any = False\<rparr>"

definition recorder_write ::
  "(failure_record \<Rightarrow> string) \<Rightarrow> (failure_record \<Rightarrow> string) \<Rightarrow> failure_record \<Rightarrow> failure_recorder \<Rightarrow> failure_recorder" where
  "recorder_write csv json r f =
    f\<lparr>rec_file := rec_file f @ (case rec_format f of
         Csv \<Rightarrow> csv r
       | Json \<Rightarrow> (if rec_wrote_any f then '','' @ newline else []) @ json r
       | Xml \<Rightarrow> xml_record r),
      rec_wrote_any := True\<rparr>"

definition recorder_drop :: "failure_recorder \<Rightarrow> string" where
  "recorder_drop f = rec_file f @ (case rec_format f of
     Csv \<Rightarrow> [] | Json \<Rightarrow> newline @ '']'' @ newline | Xml \<Rightarrow> ''</failures>'' @ newline)"

definition failure_file_name :: "string \<Rightarrow> failure_log_format \<Rightarrow> string" where
  "failure_file_name base_name format = base_name @ ''.'' @ format_extension format"

section \<open>Escaping\<close>

text \<open>What an XML reader makes of the five predefined entities.\<close>

definition xml_entities :: "(string \<times> char) list" where
  "xml_entities = [(''&amp;'', CHR ''&''), (''&lt;'', CHR ''<''), (''&gt;'', CHR ''>''), (''&quot;'', CHR 0x22),
    (''&apos;'', CHR 0x27)]"

function xml_unescape :: "string \<Rightarrow> string" where
  "xml_unescape s =
    (case s of
       [] \<Rightarrow> []
     | c # cs \<Rightarrow>
         (case find (\<lambda>(e, x). prefix e s) xml_entities of
            Some (e, x) \<Rightarrow> x # xml_unescape (drop (length e) s)
          | None \<Rightarrow> c # xml_unescape cs))"
  by pat_completeness auto
termination
  by (relation "measure length") (auto simp: xml_entities_def split: if_splits)

declare xml_unescape.simps [simp del]

definition xml_char :: "char \<Rightarrow> string" where
  "xml_char c = (case find (\<lambda>(e, x). x = c) xml_entities of Some (e, x) \<Rightarrow> e | None \<Rightarrow> [c])"

lemma replace_char_append [simp]: "replace_char c r (s @ t) = replace_char c r s @ replace_char c r t"
  by (simp add: replace_char_def)

lemma replace_char_Nil [simp]: "replace_char c r [] = []"
  by (simp add: replace_char_def)

lemma xml_escape_append: "xml_escape (s @ t) = xml_escape s @ xml_escape t"
  by (simp add: xml_escape_def)

lemma xml_escape_char: "xml_escape [c] = xml_char c"
  by (auto simp: xml_escape_def xml_char_def xml_entities_def replace_char_def)

lemma xml_escape_Cons: "xml_escape (c # s) = xml_char c @ xml_escape s"
  using xml_escape_append [of "[c]" s] by (simp add: xml_escape_char)

lemma xml_escape_Nil: "xml_escape [] = []"
  by (simp add: xml_escape_def)

lemma xml_unescape_char: "xml_unescape (xml_char c @ s) = c # xml_unescape s"
proof (cases "c \<in> snd ` set xml_entities")
  case True
  then show ?thesis
    by (subst xml_unescape.simps) (auto simp: xml_char_def xml_entities_def)
next
  case False
  then have "xml_char c = [c]" "find (\<lambda>(e, x). prefix e (c # s)) xml_entities = None"
    by (auto simp: xml_char_def xml_entities_def)
  then show ?thesis
    by (subst xml_unescape.simps) simp
qed

section \<open>Properties\<close>

text \<open>
  C26. A retried operation always comes to an end, and never at the \<^verbatim>\<open>unreachable!\<close>: it is tried until
  it succeeds, at most \<open>max_retries + 1\<close> times (saturating), each time with the item the failure before
  handed back; if it never succeeds, the last item and error are returned with the number of attempts.
\<close>

theorem retry_sync_item_terminates:
  "retry_sync_item p item op s =
    Some (with_attempts (max_attempts p) (try_up_to (unat (max_attempts p) - 1) op item s))"
  by (simp add: retry_sync_item_def retry_loop_new)

text \<open>
  Whatever a failure record contains, the text that goes into an XML element is free of markup, and
  an XML reader gets the original text back.
\<close>

theorem xml_escape_roundtrip:
  "xml_unescape (xml_escape s) = s \<and> set (xml_escape s) \<inter> {CHR ''<'', CHR ''>'', CHR 0x22, CHR 0x27} = {}"
proof
  show "xml_unescape (xml_escape s) = s"
    by (induction s)
      (simp_all add: xml_escape_Nil xml_unescape.simps [of "[]"] xml_escape_Cons xml_unescape_char)
  have "set (xml_char c) \<inter> {CHR ''<'', CHR ''>'', CHR 0x22, CHR 0x27} = {}" for c
    by (auto simp: xml_char_def xml_entities_def)
  then show "set (xml_escape s) \<inter> {CHR ''<'', CHR ''>'', CHR 0x22, CHR 0x27} = {}"
    by (induction s) (simp_all add: xml_escape_Nil xml_escape_Cons Int_Un_distrib2)
qed

text \<open>The records with what the JSON format puts between them.\<close>

definition separated :: "string list \<Rightarrow> string" where
  "separated rs = (case rs of [] \<Rightarrow> [] | r # rs \<Rightarrow> r @ concat (map (\<lambda>r. '','' @ newline @ r) rs))"

lemma separated_snoc: "separated (rs @ [r]) = separated rs @ (if rs = [] then [] else '','' @ newline) @ r"
  by (cases rs) (simp_all add: separated_def)

lemma json_log_state:
  "fold (recorder_write csv json) rs (recorder_create Json) =
    \<lparr>rec_format = Json, rec_file = ''['' @ newline @ separated (map json rs), rec_wrote_any = (rs \<noteq> [])\<rparr>"
  by (induction rs rule: rev_induct)
    (simp_all add: recorder_create_def recorder_write_def separated_snoc separated_def [of "[]"])

text \<open>
  The failure log in JSON is one array of the records in the order written, with a comma between
  any two and none after the last, also when no record was written.
\<close>

theorem failure_log_json:
  "recorder_drop (fold (recorder_write csv json) rs (recorder_create Json)) =
    ''['' @ newline @ separated (map json rs) @ newline @ '']'' @ newline"
  by (simp add: json_log_state recorder_drop_def)

end
