(* ===== verification/CopyExecutor.thy ===== *)
theory CopyExecutor
  imports CopyPlan Failure Files
begin

text \<open>
  \<^verbatim>\<open>backup/aio/executor.rs\<close>: copying one file block by block, over any transport. The interface of a
  transport is the locale \<open>block_transport\<close>: the two operations the executor calls, what the code relies on
  of them, and, proved once from that, what the executor achieves. \<^verbatim>\<open>LocalTransport\<close> interprets it on the
  local file system.
\<close>

section \<open>Copying one file\<close>

type_synonym 's block_op = "copy_block \<Rightarrow> 's \<Rightarrow> ((copy_block \<times> string) + copy_block) \<times> 's"

text \<open>What the executor reports to: the counters and, if there is one, the failure recorder.\<close>

record copy_report =
  rep_stats :: backup_stats
  rep_failures :: "failure_record list option"

definition count_failed :: "copy_report \<Rightarrow> copy_report" where
  "count_failed r = r\<lparr>rep_stats := inc_files_failed (rep_stats r)\<rparr>"

definition block_failed :: "string \<Rightarrow> string \<Rightarrow> string \<Rightarrow> string \<Rightarrow> u32 \<Rightarrow> copy_report \<Rightarrow> copy_report" where
  "block_failed now operation path msg attempts r =
    (count_failed r)\<lparr>rep_failures := map_option (\<lambda>rs. rs @
       [record_from_detail now ''backup'' operation ItemFile path msg attempts]) (rep_failures r)\<rparr>"

definition count_copied :: "u64 \<Rightarrow> copy_report \<Rightarrow> copy_report" where
  "count_copied file_size r = r\<lparr>rep_stats := add_bytes_copied file_size (inc_files_copied (rep_stats r))\<rparr>"

definition retry_block ::
  "'s block_op \<Rightarrow> retry_policy \<Rightarrow> copy_block \<Rightarrow> 's \<Rightarrow> (((copy_block \<times> string \<times> u32) + copy_block) \<times> 's) option" where
  "retry_block op p block s = retry_async_item p block op s"

text \<open>The loop of the executor. \<open>None\<close> is a loop that does not end (or the panic after a retry loop).\<close>

partial_function (option) copy_loop ::
  "'s block_op \<Rightarrow> 's block_op \<Rightarrow> retry_policy \<Rightarrow> string \<Rightarrow> copy_block \<Rightarrow> 's \<Rightarrow> copy_report \<Rightarrow>
   ('s \<times> copy_report) option" where
  "copy_loop read_block write_block p now block s rep =
    Option.bind (retry_block read_block p block s) (\<lambda>r.
      case r of
        (Inl (block, msg, attempts), s) \<Rightarrow>
          Some (s, block_failed now ''read_block'' (cb_src_path block) msg attempts rep)
      | (Inr block, s) \<Rightarrow>
          if cb_data block = [] \<and> \<not> read_complete block then Some (s, count_failed rep)
          else Option.bind (retry_block write_block p block s) (\<lambda>w.
            case w of
              (Inl (block, msg, attempts), s) \<Rightarrow>
                Some (s, block_failed now ''write_block'' (cb_dst_path block) msg attempts rep)
            | (Inr block, s) \<Rightarrow>
                if read_complete block \<and> write_complete block
                then Some (s, count_copied (cb_file_size block) rep)
                else copy_loop read_block write_block p now (clear_data block) s rep))"

definition new_block :: "file_meta \<Rightarrow> string \<Rightarrow> string \<Rightarrow> copy_block" where
  "new_block meta src_path dst_path =
    \<lparr>cb_meta = meta, cb_src_path = src_path, cb_dst_path = dst_path, cb_src_offset = 0, cb_dst_offset = 0,
     cb_file_size = fm_size meta, cb_data = [], cb_is_last = False\<rparr>"

fun execute_async_file_plan ::
  "'s block_op \<Rightarrow> 's block_op \<Rightarrow> retry_policy \<Rightarrow> string \<Rightarrow> file_copy_plan \<Rightarrow> 's \<Rightarrow> copy_report \<Rightarrow>
   ('s \<times> copy_report) option" where
  "execute_async_file_plan read_block write_block p now (Aggregate meta src_path) s rep = Some (s, count_failed rep)"
| "execute_async_file_plan read_block write_block p now (Direct meta src_path dst_path) s rep =
    (if mc_symlink_target_path (fm_common meta) \<noteq> None then Some (s, rep)
     else copy_loop read_block write_block p now (new_block meta src_path dst_path) s rep)"

section \<open>What the executor achieves over any transport\<close>

text \<open>Overwriting the bytes at an offset inside or at the end of a file; at offset 0 the file is new.\<close>

definition overwrite :: "nat \<Rightarrow> byte list \<Rightarrow> byte list \<Rightarrow> byte list" where
  "overwrite off bs c = (if off = 0 then bs else take off c @ bs @ drop (off + length bs) c)"

definition reaches :: "byte list option \<Rightarrow> nat \<Rightarrow> byte list \<Rightarrow> bool" where
  "reaches t off c \<longleftrightarrow> off \<noteq> 0 \<longrightarrow> t = Some c \<and> off \<le> length c"

lemma try_up_to_rule:
  assumes "I item s"
    and "\<And>item s item' e s'. I item s \<Longrightarrow> op item s = (Inl (item', e), s') \<Longrightarrow> I item' s'"
    and "\<And>item s v s'. I item s \<Longrightarrow> op item s = (Inr v, s') \<Longrightarrow> Q v s'"
  shows "case try_up_to n op item s of (Inr v, s') \<Rightarrow> Q v s' | (Inl (i, e), s') \<Rightarrow> I i s'"
  using assms(1)
proof (induction n arbitrary: item s)
  case 0
  then show ?case
    using assms(2,3) by (auto split: sum.splits prod.splits)
next
  case (Suc n)
  obtain r s' where r: "op item s = (r, s')" by fastforce
  show ?case
  proof (cases r)
    case (Inl x)
    then obtain i e where x: "r = Inl (i, e)" by (cases x) simp
    with assms(2) [OF Suc.prems] r have "I i s'" by blast
    from Suc.IH [OF this] show ?thesis by (simp add: r x)
  next
    case (Inr v)
    with assms(3) [OF Suc.prems] r show ?thesis by simp
  qed
qed

lemma retry_block_rule:
  assumes "I b s"
    and "\<And>b s b' e s'. I b s \<Longrightarrow> op b s = (Inl (b', e), s') \<Longrightarrow> I b' s'"
    and "\<And>b s b' s'. I b s \<Longrightarrow> op b s = (Inr b', s') \<Longrightarrow> Q b' s'"
  obtains b' s' where "retry_block op p b s = Some (Inr b', s')" "Q b' s'"
    | b' e n s' where "retry_block op p b s = Some (Inl (b', e, n), s')" "I b' s'"
proof -
  obtain r s' where r: "try_up_to (unat (max_attempts p) - 1) op b s = (r, s')" by fastforce
  have "case (r, s') of (Inr v, s') \<Rightarrow> Q v s' | (Inl (i, e), s') \<Rightarrow> I i s'"
    using try_up_to_rule [of I b s op Q "unat (max_attempts p) - 1"] assms unfolding r by blast
  with r that show ?thesis
    by (cases r) (auto simp: retry_block_def retry_async_item_def retry_loop_new)
qed

text \<open>Without a failure there is no second attempt.\<close>

lemma retry_block_first: "op b s = (Inr b', s') \<Longrightarrow> retry_block op p b s = Some (Inr b', s')"
  by (cases "unat (max_attempts p) - 1")
    (simp_all add: retry_block_def retry_async_item_def retry_loop_new)

locale block_transport =
  fixes read_block write_block :: "'s block_op"
    and source target :: "string \<Rightarrow> 's \<Rightarrow> byte list option"
    and separate :: "string \<Rightarrow> string \<Rightarrow> bool"
    and healthy :: "'s \<Rightarrow> bool"
  assumes read_ok: "read_block b s = (Inr b', s') \<Longrightarrow> source (cb_src_path b) s = Some c \<Longrightarrow>
      \<exists>chunk final. b' = b\<lparr>cb_src_offset := cb_src_offset b + of_nat (length chunk), cb_is_last := final, cb_data := chunk\<rparr>
        \<and> prefix chunk (drop (unat (cb_src_offset b)) c)
        \<and> unat (cb_src_offset b) + length chunk \<le> max (unat (cb_src_offset b)) (unat (cb_file_size b))
        \<and> (unat (cb_src_offset b) < min (unat (cb_file_size b)) (length c) \<longrightarrow> chunk \<noteq> [])"
    and read_fails: "read_block b s = (Inl (b', msg), s') \<Longrightarrow> b' = b"
    and read_keeps: "read_block b s = (r, s') \<Longrightarrow> source p s' = source p s \<and> target p s' = target p s"
    and write_ok: "write_block b s = (Inr b', s') \<Longrightarrow> reaches (target (cb_dst_path b) s) (unat (cb_dst_offset b)) c \<Longrightarrow>
      unat (cb_dst_offset b) + length (cb_data b) < 2 ^ 64 \<Longrightarrow>
      b' = b\<lparr>cb_dst_offset := cb_dst_offset b + of_nat (length (cb_data b))\<rparr>
        \<and> target (cb_dst_path b) s' = Some (overwrite (unat (cb_dst_offset b)) (cb_data b) c)"
    and write_fails: "write_block b s = (Inl (b', msg), s') \<Longrightarrow>
      reaches (target (cb_dst_path b) s) (unat (cb_dst_offset b)) c \<Longrightarrow>
      b' = b \<and> (target (cb_dst_path b) s' = target (cb_dst_path b) s
        \<or> (\<exists>k. target (cb_dst_path b) s' = Some (overwrite (unat (cb_dst_offset b)) (take k (cb_data b)) c)))"
    and write_keeps: "write_block b s = (r, s') \<Longrightarrow> separate p (cb_dst_path b) \<Longrightarrow> source p s' = source p s"
    and healthy_read: "healthy s \<Longrightarrow> source (cb_src_path b) s \<noteq> None \<Longrightarrow>
      \<exists>b' s'. read_block b s = (Inr b', s') \<and> healthy s'"
    and healthy_write: "healthy s \<Longrightarrow> \<exists>b' s'. write_block b s = (Inr b', s') \<and> healthy s'"
begin

text \<open>A read, with its retries.\<close>

lemma read_retried:
  assumes "source (cb_src_path b) s = Some c"
  obtains (success) chunk final s' where "retry_block read_block p b s = Some
        (Inr (b\<lparr>cb_src_offset := cb_src_offset b + of_nat (length chunk), cb_is_last := final, cb_data := chunk\<rparr>), s')"
      "prefix chunk (drop (unat (cb_src_offset b)) c)"
      "unat (cb_src_offset b) + length chunk \<le> max (unat (cb_src_offset b)) (unat (cb_file_size b))"
      "unat (cb_src_offset b) < min (unat (cb_file_size b)) (length c) \<longrightarrow> chunk \<noteq> []"
      "\<And>p. source p s' = source p s" "\<And>p. target p s' = target p s" "healthy s \<Longrightarrow> healthy s'"
    | (failure) e n s' where "retry_block read_block p b s = Some (Inl (b, e, n), s')" "\<not> healthy s"
      "\<And>p. source p s' = source p s"
proof -
  let ?same = "\<lambda>s'. (\<forall>p. source p s' = source p s) \<and> (\<forall>p. target p s' = target p s)"
  let ?I = "\<lambda>b' s'. b' = b \<and> ?same s'"
  let ?Q = "\<lambda>b' s'. ?same s' \<and> (\<exists>chunk final.
        b' = b\<lparr>cb_src_offset := cb_src_offset b + of_nat (length chunk), cb_is_last := final, cb_data := chunk\<rparr>
        \<and> prefix chunk (drop (unat (cb_src_offset b)) c)
        \<and> unat (cb_src_offset b) + length chunk \<le> max (unat (cb_src_offset b)) (unat (cb_file_size b))
        \<and> (unat (cb_src_offset b) < min (unat (cb_file_size b)) (length c) \<longrightarrow> chunk \<noteq> []))"
  have fail: "?I b'' s''" if "?I b' s'" "read_block b' s' = (Inl (b'', e), s'')" for b' s' b'' e s''
    using that read_fails [OF that(2)] read_keeps [OF that(2)] by simp
  have ok: "?Q b'' s''" if "?I b' s'" "read_block b' s' = (Inr b'', s'')" for b' s' b'' s''
    using that read_ok [OF that(2), of c] read_keeps [OF that(2)] assms by simp
  have good: thesis if "retry_block read_block p b s = Some (Inr b', s')" "?Q b' s'" "healthy s \<Longrightarrow> healthy s'" for b' s'
  proof -
    from that(2) obtain chunk final where
      "b' = b\<lparr>cb_src_offset := cb_src_offset b + of_nat (length chunk), cb_is_last := final, cb_data := chunk\<rparr>"
      "prefix chunk (drop (unat (cb_src_offset b)) c)"
      "unat (cb_src_offset b) + length chunk \<le> max (unat (cb_src_offset b)) (unat (cb_file_size b))"
      "unat (cb_src_offset b) < min (unat (cb_file_size b)) (length c) \<longrightarrow> chunk \<noteq> []" by blast
    with that success show thesis by blast
  qed
  show thesis
  proof (cases "healthy s")
    case True
    with assms obtain b' s' where first: "read_block b s = (Inr b', s')" "healthy s'"
      using healthy_read [of s b] by auto
    from retry_block_first [where op = read_block and p = p, OF first(1)] ok [OF _ first(1)] first(2)
    show thesis by (intro good) auto
  next
    case False
    show thesis
    proof (rule retry_block_rule [of ?I b s read_block ?Q p])
      show "?I b s" by simp
    next
      fix b' s' assume "retry_block read_block p b s = Some (Inr b', s')" "?Q b' s'"
      with False show thesis by (intro good) auto
    next
      fix b' e n s' assume "retry_block read_block p b s = Some (Inl (b', e, n), s')" "?I b' s'"
      with False failure show thesis by blast
    qed (use fail ok in blast)+
  qed
qed

text \<open>A write, with its retries: what a failed attempt left beyond the offset is written over.\<close>

lemma write_retried:
  assumes start: "unat (cb_dst_offset b) \<noteq> 0 \<longrightarrow> target (cb_dst_path b) s = Some (take (unat (cb_dst_offset b)) c)"
    and len: "unat (cb_dst_offset b) \<le> length c" and fits: "unat (cb_dst_offset b) + length (cb_data b) < 2 ^ 64"
  obtains (success) s' where "retry_block write_block p b s =
        Some (Inr (b\<lparr>cb_dst_offset := cb_dst_offset b + of_nat (length (cb_data b))\<rparr>), s')"
      "target (cb_dst_path b) s' = Some (take (unat (cb_dst_offset b)) c @ cb_data b)"
      "\<And>p. separate p (cb_dst_path b) \<Longrightarrow> source p s' = source p s" "healthy s \<Longrightarrow> healthy s'"
    | (failure) e n s' where "retry_block write_block p b s = Some (Inl (b, e, n), s')" "\<not> healthy s"
      "\<And>p. separate p (cb_dst_path b) \<Longrightarrow> source p s' = source p s"
proof -
  let ?off = "unat (cb_dst_offset b)"
  let ?same = "\<lambda>s'. \<forall>p. separate p (cb_dst_path b) \<longrightarrow> source p s' = source p s"
  let ?part = "\<lambda>s' t. reaches (target (cb_dst_path b) s') ?off t
      \<and> (?off \<noteq> 0 \<longrightarrow> take ?off t = take ?off c \<and> length t \<le> ?off + length (cb_data b))"
  let ?I = "\<lambda>b' s'. b' = b \<and> ?same s' \<and> (\<exists>t. ?part s' t)"
  let ?Q = "\<lambda>b' s'. b' = b\<lparr>cb_dst_offset := cb_dst_offset b + of_nat (length (cb_data b))\<rparr> \<and> ?same s'
      \<and> target (cb_dst_path b) s' = Some (take ?off c @ cb_data b)"
  have init: "?I b s"
    using start len by (auto simp: reaches_def intro!: exI [of _ "take ?off c"])
  have ok: "?Q b'' s''" if I: "?I b' s'" and w: "write_block b' s' = (Inr b'', s'')" for b' s' b'' s''
  proof -
    from I obtain t where b': "b' = b" and t: "?part s' t" by blast
    have r: "reaches (target (cb_dst_path b) s') ?off t" using t by blast
    have "overwrite ?off (cb_data b) t = take ?off c @ cb_data b"
      using t by (auto simp: overwrite_def)
    with write_ok [OF w [unfolded b'] r fits] write_keeps [OF w [unfolded b']] I show ?thesis by simp
  qed
  have fail: "?I b'' s''" if I: "?I b' s'" and w: "write_block b' s' = (Inl (b'', e), s'')" for b' s' b'' e s''
  proof -
    from I obtain t where b': "b' = b" and t: "?part s' t" by blast
    have r: "reaches (target (cb_dst_path b) s') ?off t" using t by blast
    note f = write_fails [OF w [unfolded b'] r]
    have "\<exists>t'. ?part s'' t'"
    proof (cases "target (cb_dst_path b) s'' = target (cb_dst_path b) s'")
      case True
      with t show ?thesis by (metis (no_types, lifting))
    next
      case False
      with f obtain k where k: "target (cb_dst_path b) s'' = Some (overwrite ?off (take k (cb_data b)) t)" by blast
      show ?thesis
      proof (cases "?off = 0")
        case True
        then show ?thesis by (simp add: reaches_def)
      next
        case off: False
        with t have "take ?off t = take ?off c" "?off \<le> length t" "length t \<le> ?off + length (cb_data b)"
          by (auto simp: reaches_def)
        with k off len show ?thesis
          by (intro exI [of _ "overwrite ?off (take k (cb_data b)) t"]) (auto simp: reaches_def overwrite_def)
      qed
    qed
    with f write_keeps [OF w [unfolded b']] I show ?thesis by simp
  qed
  show thesis
  proof (cases "healthy s")
    case True
    then obtain b' s' where first: "write_block b s = (Inr b', s')" "healthy s'"
      using healthy_write [of s b] by auto
    from retry_block_first [where op = write_block and p = p, OF first(1)] ok [OF init first(1)] first(2)
    show thesis by (intro success [of s']) auto
  next
    case False
    show thesis
    proof (rule retry_block_rule [of ?I b s write_block ?Q p])
      show "?I b s" by (rule init)
    next
      fix b' s' assume "retry_block write_block p b s = Some (Inr b', s')" "?Q b' s'"
      with False show thesis by (intro success [of s']) auto
    next
      fix b' e n s' assume "retry_block write_block p b s = Some (Inl (b', e, n), s')" "?I b' s'"
      with False failure show thesis by blast
    qed (use fail ok in blast)+
  qed
qed

text \<open>
  The loop ends. It ends with the file copied up to its recorded size, or with one more failed file; the
  latter only if the transport fails or the source is shorter than recorded. The source is unchanged.
\<close>

lemma copy_loop_copies:
  assumes "source (cb_src_path b) s = Some c" and "separate (cb_src_path b) (cb_dst_path b)"
    and "cb_dst_offset b = cb_src_offset b" and "cb_src_offset b \<le> cb_file_size b"
    and "unat (cb_src_offset b) \<le> length c"
    and "unat (cb_src_offset b) \<noteq> 0 \<longrightarrow> target (cb_dst_path b) s = Some (take (unat (cb_src_offset b)) c)"
  shows "\<exists>s' rep'. copy_loop read_block write_block p now b s rep = Some (s', rep')
    \<and> source (cb_src_path b) s' = Some c
    \<and> (rep' = count_copied (cb_file_size b) rep \<and> unat (cb_file_size b) \<le> length c
          \<and> target (cb_dst_path b) s' = Some (take (unat (cb_file_size b)) c)
        \<or> rep_stats rep' = inc_files_failed (rep_stats rep)
          \<and> \<not> (healthy s \<and> unat (cb_file_size b) \<le> length c))"
  using assms
proof (induction "unat (cb_file_size b) - unat (cb_src_offset b)" arbitrary: b s rule: less_induct)
  case less
  let ?off = "unat (cb_src_offset b)" and ?size = "unat (cb_file_size b)"
  have size: "?size < 2 ^ 64" "?off \<le> ?size"
    using unsigned_less [of "cb_file_size b", where ?'a = nat] less.prems(4) by (simp_all add: word_le_nat_alt)
  note unfold = copy_loop.simps [of read_block write_block p now b]
  from less.prems(1) show ?case
  proof (cases rule: read_retried [where p = p])
    case (failure e n s')
    with less.prems(1) show ?thesis
      by (simp add: unfold block_failed_def count_failed_def)
  next
    case (success chunk final s1)
    let ?n = "?off + length chunk"
    let ?b1 = "b\<lparr>cb_src_offset := cb_src_offset b + of_nat (length chunk), cb_is_last := final, cb_data := chunk\<rparr>"
    have n: "?n \<le> ?size" using success(3) size by simp
    then have off1: "unat (cb_src_offset b + of_nat (length chunk)) = ?n"
      using size by (simp add: unat_word_ariths unat_of_nat)
    then have complete: "read_complete ?b1 \<longleftrightarrow> ?n = ?size"
      using n by (auto simp: read_complete_def word_le_nat_alt)
    have nc: "?n \<le> length c" and upto: "take ?off c @ chunk = take ?n c"
      using success(2) less.prems(5) by (auto simp: prefix_def take_add dest: arg_cong [of _ _ length])
    show ?thesis
    proof (cases "chunk = [] \<and> ?n \<noteq> ?size")
      case True
      with success complete less.prems(1) n show ?thesis
        by (auto simp: unfold count_failed_def)
    next
      case False
      have "unat (cb_dst_offset ?b1) \<noteq> 0 \<longrightarrow> target (cb_dst_path ?b1) s1 = Some (take (unat (cb_dst_offset ?b1)) c)"
        using less.prems(3,6) success(6) by simp
      moreover have "unat (cb_dst_offset ?b1) \<le> length c"
        using less.prems(3,5) by simp
      moreover have "unat (cb_dst_offset ?b1) + length (cb_data ?b1) < 2 ^ 64"
        using less.prems(3) n size by simp
      ultimately show ?thesis
      proof (cases rule: write_retried [where p = p])
        case (failure e m s2)
        have "copy_loop read_block write_block p now b s rep
            = Some (s2, block_failed now ''write_block'' (cb_dst_path b) e m rep)"
          using success(1) failure(1) complete False by (cases "chunk = []") (simp_all add: unfold)
        moreover have "source (cb_src_path b) s2 = Some c"
          using failure(3) [of "cb_src_path b"] success(5) less.prems(1,2) by simp
        moreover have "\<not> healthy s"
          using failure(2) success(7) by blast
        ultimately show ?thesis by (simp add: block_failed_def count_failed_def)
      next
        case written: (success s2)
        let ?b2 = "?b1\<lparr>cb_dst_offset := cb_dst_offset ?b1 + of_nat (length (cb_data ?b1))\<rparr>"
        have target: "target (cb_dst_path b) s2 = Some (take ?n c)"
          using written(2) less.prems(3) upto by simp
        have source: "source (cb_src_path b) s2 = Some c"
          using written(3) [of "cb_src_path b"] success(5) less.prems(1,2) by simp
        have done2: "read_complete ?b2 \<longleftrightarrow> ?n = ?size" "write_complete ?b2 \<longleftrightarrow> ?n = ?size"
          using complete less.prems(3) by (simp_all add: read_complete_def write_complete_def)
        show ?thesis
        proof (cases "?n = ?size")
          case True
          then have "copy_loop read_block write_block p now b s rep = Some (s2, count_copied (cb_file_size b) rep)"
            using success(1) written(1) complete done2 by (cases "chunk = []") (simp_all add: unfold)
          with True target source nc show ?thesis by auto
        next
          case more: False
          have step: "copy_loop read_block write_block p now b s rep
              = copy_loop read_block write_block p now (clear_data ?b2) s2 rep"
            using success(1) written(1) complete done2 more False by (cases "chunk = []") (simp_all add: unfold)
          have "0 < length chunk" using more False by auto
          then have shrinks: "?size - ?n < ?size - ?off" using n more by linarith
          have "\<exists>s' rep'. copy_loop read_block write_block p now (clear_data ?b2) s2 rep = Some (s', rep')
            \<and> source (cb_src_path (clear_data ?b2)) s' = Some c
            \<and> (rep' = count_copied (cb_file_size (clear_data ?b2)) rep \<and> unat (cb_file_size (clear_data ?b2)) \<le> length c
                  \<and> target (cb_dst_path (clear_data ?b2)) s' = Some (take (unat (cb_file_size (clear_data ?b2))) c)
                \<or> rep_stats rep' = inc_files_failed (rep_stats rep)
                  \<and> \<not> (healthy s2 \<and> unat (cb_file_size (clear_data ?b2)) \<le> length c))"
            using shrinks more False n nc target source less.prems off1
            by (intro less.hyps) (auto simp: clear_data_def word_le_nat_alt)
          then show ?thesis
            using written(4) success(7) unfolding step by (auto simp: clear_data_def)
        qed
      qed
    qed
  qed
qed

end

end
