(* ===== verification/LocalTransport.thy ===== *)
theory LocalTransport
  imports CopyExecutor
begin

text \<open>
  \<^verbatim>\<open>backup/aio/transport.rs\<close> and \<^verbatim>\<open>backup/aio/local_fs.rs\<close>: the transport on the local file
  system, with a disk on which reads may be short and any operation may fail half-way. It keeps the contract
  \<open>block_transport\<close>, so the executor copies files with it.
\<close>

section \<open>The local transport\<close>

text \<open>
  The disk: its files, how many bytes the next reads return at most (at least one, unless there is nothing to
  read), and how the next operations fail: at opening, or after a number of bytes.
\<close>

datatype io_fault = OpenFails string | DataFails nat string

record disk =
  disk_files :: files
  disk_reads :: "nat list"
  disk_faults :: "io_fault option list"

definition next_fault :: "disk \<Rightarrow> io_fault option" where
  "next_fault d = (case disk_faults d of [] \<Rightarrow> None | f # _ \<Rightarrow> f)"

definition after_fault :: "disk \<Rightarrow> disk" where
  "after_fault d = d\<lparr>disk_faults := tl (disk_faults d)\<rparr>"

definition read_amount :: "disk \<Rightarrow> nat \<Rightarrow> nat" where
  "read_amount d m = (case disk_reads d of [] \<Rightarrow> m | k # _ \<Rightarrow> min m (max k 1))"

text \<open>The bytes of a file after writing \<open>bs\<close> at an offset: a gap before it is filled with zeros.\<close>

definition put_at :: "nat \<Rightarrow> byte list \<Rightarrow> byte list \<Rightarrow> byte list" where
  "put_at off bs c = take off c @ replicate (off - length c) 0 @ bs @ drop (off + length bs) c"

definition DEFAULT_COPY_BUFFER_SIZE :: nat where
  "DEFAULT_COPY_BUFFER_SIZE = 1024 * 1024"

definition clamp_copy_buffer_size :: "nat \<Rightarrow> nat" where
  "clamp_copy_buffer_size n = max (256 * 1024) (min n (4 * 1024 * 1024))"

definition read_local_file_chunk ::
  "string \<Rightarrow> u64 \<Rightarrow> u64 \<Rightarrow> nat \<Rightarrow> disk \<Rightarrow> (string + byte list) \<times> disk" where
  "read_local_file_chunk path offset expected_size max_len d =
    (case next_fault d of
       Some (OpenFails msg) \<Rightarrow> (Inl msg, after_fault d)
     | Some (DataFails n msg) \<Rightarrow> (Inl msg, after_fault d)
     | None \<Rightarrow>
         (case file_content (disk_files d) path of
            None \<Rightarrow> (Inl ''open'', after_fault d)
          | Some c \<Rightarrow>
              (let remaining = unat expected_size - unat offset;
                   len = min remaining (max max_len 1);
                   buf = take len (drop (unat offset) c)
               in (Inr (take (read_amount d (length buf)) buf),
                   (after_fault d)\<lparr>disk_reads := tl (disk_reads d)\<rparr>))))"

text \<open>
  Parent directories exist once a file does. Marking a file as sparse is a hint for Windows. A write that
  fails after opening the file has truncated it, at offset 0, and written some bytes.
\<close>

definition open_for_write :: "string \<Rightarrow> u64 \<Rightarrow> disk \<Rightarrow> byte list" where
  "open_for_write path offset d =
    (case file_content (disk_files d) path of Some c \<Rightarrow> (if offset = 0 then [] else c) | None \<Rightarrow> [])"

definition write_local_file_chunk ::
  "string \<Rightarrow> u64 \<Rightarrow> byte list \<Rightarrow> disk \<Rightarrow> (string + unit) \<times> disk" where
  "write_local_file_chunk path offset buf d =
    (let written = \<lambda>bs. (after_fault d)\<lparr>disk_files :=
           file_set (disk_files d) path (put_at (unat offset) bs (open_for_write path offset d))\<rparr>
     in case next_fault d of
          Some (OpenFails msg) \<Rightarrow> (Inl msg, after_fault d)
        | Some (DataFails n msg) \<Rightarrow>
            (Inl msg, if take n buf = [] then (after_fault d)\<lparr>disk_files :=
                 file_set (disk_files d) path (open_for_write path offset d)\<rparr> else written (take n buf))
        | None \<Rightarrow>
            (Inr (), if buf = [] then (after_fault d)\<lparr>disk_files :=
                 file_set (disk_files d) path (open_for_write path offset d)\<rparr> else written buf))"

definition saturating_add :: "u64 \<Rightarrow> u64 \<Rightarrow> u64" where
  "saturating_add a b = (if a \<le> a + b then a + b else - 1)"

definition local_read_block :: "nat \<Rightarrow> disk block_op" where
  "local_read_block buffer_size block d =
    (case read_local_file_chunk (cb_src_path block) (cb_src_offset block) (cb_file_size block)
            (clamp_copy_buffer_size buffer_size) d of
       (Inr buf, d) \<Rightarrow>
         (let offset = saturating_add (cb_src_offset block) (of_nat (length buf))
          in (Inr (block\<lparr>cb_src_offset := offset, cb_is_last := (offset \<ge> cb_file_size block), cb_data := buf\<rparr>), d))
     | (Inl msg, d) \<Rightarrow> (Inl (block, msg), d))"

definition local_write_block :: "string \<Rightarrow> disk block_op" where
  "local_write_block base block d =
    (case write_local_file_chunk (path_join base (cb_dst_path block)) (cb_dst_offset block) (cb_data block) d of
       (Inr _, d) \<Rightarrow>
         (Inr (block\<lparr>cb_dst_offset := saturating_add (cb_dst_offset block) (of_nat (length (cb_data block)))\<rparr>), d)
     | (Inl msg, d) \<Rightarrow> (Inl (block, msg), d))"

section \<open>The local transport keeps the contract\<close>

lemma clamp_pos [simp]: "0 < clamp_copy_buffer_size n"
  by (simp add: clamp_copy_buffer_size_def)

lemma read_amount_le [simp]: "read_amount d m \<le> m"
  by (auto simp: read_amount_def split: list.splits)

lemma read_amount_pos: "0 < m \<Longrightarrow> 0 < read_amount d m"
  by (auto simp: read_amount_def split: list.splits)

lemma disk_files_after_fault [simp]: "disk_files (after_fault d) = disk_files d"
  by (simp add: after_fault_def)

lemma saturating_add_exact:
  assumes "unat a + n < 2 ^ 64"
  shows "saturating_add a (of_nat n) = a + of_nat n"
proof -
  have "unat (a + of_nat n) = unat a + n"
    using assms by (simp add: unat_word_ariths unat_of_nat)
  then show ?thesis by (simp add: saturating_add_def word_le_nat_alt)
qed

lemma local_read_Inr:
  assumes "local_read_block n b d = (Inr b', d')" and "file_content (disk_files d) (cb_src_path b) = Some c"
    and "buf = take (min (unat (cb_file_size b) - unat (cb_src_offset b)) (max (clamp_copy_buffer_size n) 1))
      (drop (unat (cb_src_offset b)) c)"
    and "chunk = take (read_amount d (length buf)) buf"
  shows "\<exists>final. b' = b\<lparr>cb_src_offset := saturating_add (cb_src_offset b) (of_nat (length chunk)),
      cb_is_last := final, cb_data := chunk\<rparr>"
proof (cases "next_fault d")
  case None
  with assms show ?thesis
    by (auto simp: local_read_block_def read_local_file_chunk_def Let_def)
next
  case (Some f)
  with assms(1) show ?thesis
    by (cases f) (simp_all add: local_read_block_def read_local_file_chunk_def)
qed

lemma local_read_ok:
  assumes "local_read_block n b d = (Inr b', d')" and "file_content (disk_files d) (cb_src_path b) = Some c"
  shows "\<exists>chunk final. b' = b\<lparr>cb_src_offset := cb_src_offset b + of_nat (length chunk), cb_is_last := final, cb_data := chunk\<rparr>
        \<and> prefix chunk (drop (unat (cb_src_offset b)) c)
        \<and> unat (cb_src_offset b) + length chunk \<le> max (unat (cb_src_offset b)) (unat (cb_file_size b))
        \<and> (unat (cb_src_offset b) < min (unat (cb_file_size b)) (length c) \<longrightarrow> chunk \<noteq> [])"
proof -
  define off where "off = unat (cb_src_offset b)"
  define size where "size = unat (cb_file_size b)"
  define m where "m = max (clamp_copy_buffer_size n) 1"
  define buf where "buf = take (min (size - off) m) (drop off c)"
  define chunk where "chunk = take (read_amount d (length buf)) buf"
  have "length chunk \<le> length buf" by (simp add: chunk_def)
  also have "\<dots> \<le> size - off" by (simp add: buf_def)
  finally have len: "length chunk \<le> size - off" .
  have "off < 2 ^ 64" "size < 2 ^ 64"
    using unsigned_less [of "cb_src_offset b", where ?'a = nat] unsigned_less [of "cb_file_size b", where ?'a = nat]
    by (simp_all add: off_def size_def)
  with len have "off + length chunk < 2 ^ 64" by linarith
  note sat = saturating_add_exact [OF this [unfolded off_def]]
  obtain final where b': "b' = b\<lparr>cb_src_offset := cb_src_offset b + of_nat (length chunk), cb_is_last := final, cb_data := chunk\<rparr>"
    using local_read_Inr [OF assms buf_def [unfolded off_def size_def m_def] chunk_def] unfolding sat by blast
  have "prefix chunk (drop off c)"
    unfolding chunk_def buf_def by (meson prefix_order.order_trans take_is_prefix)
  moreover have "off + length chunk \<le> max off size" using len by linarith
  moreover have "chunk \<noteq> []" if "off < min size (length c)"
  proof -
    have "0 < m" by (simp add: m_def)
    with that have "buf \<noteq> []" by (simp add: buf_def)
    with read_amount_pos [of "length buf" d] show ?thesis by (auto simp: chunk_def)
  qed
  ultimately show ?thesis
    using b' unfolding off_def size_def by blast
qed

lemma local_read_keeps:
  "local_read_block n b d = (r, d') \<Longrightarrow> file_content (disk_files d') p = file_content (disk_files d) p
    \<and> file_content (disk_files d') q = file_content (disk_files d) q"
  by (auto simp: local_read_block_def read_local_file_chunk_def Let_def split: option.splits io_fault.splits)

lemma local_read_fails: "local_read_block n b d = (Inl (b', msg), d') \<Longrightarrow> b' = b"
  by (auto simp: local_read_block_def Let_def split: prod.splits sum.splits)

text \<open>What a write of the bytes \<open>bs\<close> makes of a file, when it can be opened.\<close>

definition write_content :: "string \<Rightarrow> u64 \<Rightarrow> byte list \<Rightarrow> disk \<Rightarrow> byte list" where
  "write_content path offset bs d =
    (if bs = [] then open_for_write path offset d else put_at (unat offset) bs (open_for_write path offset d))"

lemma write_content_overwrite:
  assumes "reaches (file_content (disk_files d) path) (unat offset) c"
  shows "write_content path offset bs d = overwrite (unat offset) bs c"
proof (cases "offset = 0")
  case True
  then show ?thesis
    by (simp add: write_content_def overwrite_def open_for_write_def put_at_def split: option.split)
next
  case False
  then have nz: "unat offset \<noteq> 0" by (simp add: unat_eq_0)
  with assms have "file_content (disk_files d) path = Some c" "unat offset \<le> length c"
    by (simp_all add: reaches_def)
  with False nz show ?thesis
    by (simp add: write_content_def overwrite_def open_for_write_def put_at_def)
qed

lemma write_local_file_chunk_cases:
  "write_local_file_chunk path offset buf d =
    (case next_fault d of
       Some (OpenFails msg) \<Rightarrow> (Inl msg, after_fault d)
     | Some (DataFails n msg) \<Rightarrow> (Inl msg, (after_fault d)\<lparr>disk_files :=
         file_set (disk_files d) path (write_content path offset (take n buf) d)\<rparr>)
     | None \<Rightarrow> (Inr (), (after_fault d)\<lparr>disk_files :=
         file_set (disk_files d) path (write_content path offset buf d)\<rparr>))"
  by (simp add: write_local_file_chunk_def write_content_def Let_def split: option.split io_fault.split)

lemma local_write_ok:
  assumes "local_write_block base b d = (Inr b', d')"
    and "reaches (file_content (disk_files d) (path_join base (cb_dst_path b))) (unat (cb_dst_offset b)) c"
    and "unat (cb_dst_offset b) + length (cb_data b) < 2 ^ 64"
  shows "b' = b\<lparr>cb_dst_offset := cb_dst_offset b + of_nat (length (cb_data b))\<rparr>
    \<and> file_content (disk_files d') (path_join base (cb_dst_path b))
      = Some (overwrite (unat (cb_dst_offset b)) (cb_data b) c)"
  using assms(1) write_content_overwrite [OF assms(2)] saturating_add_exact [OF assms(3)]
  by (auto simp: local_write_block_def write_local_file_chunk_cases split: option.splits io_fault.splits)

lemma local_write_fails:
  assumes "local_write_block base b d = (Inl (b', msg), d')"
    and "reaches (file_content (disk_files d) (path_join base (cb_dst_path b))) (unat (cb_dst_offset b)) c"
  shows "b' = b \<and> (file_content (disk_files d') (path_join base (cb_dst_path b))
        = file_content (disk_files d) (path_join base (cb_dst_path b))
      \<or> (\<exists>k. file_content (disk_files d') (path_join base (cb_dst_path b))
        = Some (overwrite (unat (cb_dst_offset b)) (take k (cb_data b)) c)))"
  using assms(1) write_content_overwrite [OF assms(2)]
  by (auto simp: local_write_block_def write_local_file_chunk_cases split: option.splits io_fault.splits)

lemma local_write_keeps:
  "local_write_block base b d = (r, d') \<Longrightarrow> p \<noteq> path_join base (cb_dst_path b) \<Longrightarrow>
   file_content (disk_files d') p = file_content (disk_files d) p"
  by (auto simp: local_write_block_def write_local_file_chunk_cases split: option.splits io_fault.splits)

lemma local_healthy:
  assumes "disk_faults d = []"
  shows "file_content (disk_files d) (cb_src_path b) \<noteq> None \<Longrightarrow>
      \<exists>b' d'. local_read_block n b d = (Inr b', d') \<and> disk_faults d' = []"
    and "\<exists>b' d'. local_write_block base b d = (Inr b', d') \<and> disk_faults d' = []"
  using assms
  by (auto simp: local_read_block_def read_local_file_chunk_def local_write_block_def write_local_file_chunk_cases
      next_fault_def after_fault_def Let_def)

interpretation loc: block_transport "local_read_block n" "local_write_block base"
  "\<lambda>p d. file_content (disk_files d) p" "\<lambda>p d. file_content (disk_files d) (path_join base p)"
  "\<lambda>p q. p \<noteq> path_join base q" "\<lambda>d. disk_faults d = []"
  for n base
  by unfold_locales
    (erule (1) local_read_ok, erule local_read_fails, erule local_read_keeps, erule (2) local_write_ok,
     erule (1) local_write_fails, erule (1) local_write_keeps, erule (1) local_healthy(1), erule local_healthy(2))

section \<open>Properties\<close>

text \<open>
  C9. Copying one file over the local transport always ends, with short reads, with failures half-way and with
  any number of retries. Either the target then holds the first \<open>size\<close> bytes of the source (all of them
  if the recorded size is current) and the file and its bytes are counted as copied, or exactly one more file is
  counted as failed; the latter does not happen when no operation fails and the source is not
  shorter than recorded. The source is never changed.
\<close>

theorem copy_file_over_local_transport:
  assumes "file_content (disk_files d) src = Some c" and "src \<noteq> path_join base dst"
    and "mc_symlink_target_path (fm_common meta) = None"
  shows "\<exists>d' rep'. execute_async_file_plan (local_read_block n) (local_write_block base) p now (Direct meta src dst) d rep
      = Some (d', rep')
    \<and> file_content (disk_files d') src = Some c
    \<and> (rep' = count_copied (fm_size meta) rep \<and> unat (fm_size meta) \<le> length c
          \<and> file_content (disk_files d') (path_join base dst) = Some (take (unat (fm_size meta)) c)
        \<or> rep_stats rep' = inc_files_failed (rep_stats rep)
          \<and> \<not> (disk_faults d = [] \<and> unat (fm_size meta) \<le> length c))"
  using loc.copy_loop_copies [where b = "new_block meta src dst" and s = d and c = c and base = base and n = n
      and p = p and now = now and rep = rep] assms
  by (simp add: new_block_def)

text \<open>A disk with a short read, a write that fails after two bytes, and a read that fails.\<close>

definition sample_disk :: disk where
  "sample_disk = \<lparr>disk_files = [(''/a'', [1, 2, 3, 4, 5])], disk_reads = [3],
     disk_faults = [None, Some (DataFails 2 ''disk full''), None, Some (OpenFails ''busy'')]\<rparr>"

theorem copy_file_over_local_transport_witness:
  "\<exists>d' rep'. execute_async_file_plan (local_read_block 0) (local_write_block ''/t'') \<lparr>max_retries = 1\<rparr> []
      (Direct ((sample_file ''a'')\<lparr>fm_size := 5\<rparr>) ''/a'' ''b'') sample_disk
      \<lparr>rep_stats = stats_default, rep_failures = None\<rparr> = Some (d', rep')
    \<and> file_content (disk_files d') ''/a'' = Some [1, 2, 3, 4, 5]"
  using copy_file_over_local_transport [of sample_disk "''/a''" "[1, 2, 3, 4, 5]" "''/t''" "''b''"
      "(sample_file ''a'')\<lparr>fm_size := 5\<rparr>" 0 "\<lparr>max_retries = 1\<rparr>" "[]" "\<lparr>rep_stats = stats_default, rep_failures = None\<rparr>"]
  by (auto simp: sample_disk_def file_content_def path_join_def sample_file_def sample_common_def)

end
