(* ===== verification/TargetTree.thy ===== *)
theory TargetTree
  imports Failure PathUtil
begin

text \<open>
  What the phases after the copy need of the file system of the target: a tree of names, the calls of
  \<^verbatim>\<open>std::fs\<close> on it with the errors of Linux, and \<^verbatim>\<open>retry_sync\<close> around such a call together
  with what the phases do with its result. Any changing call may fail, with \<^verbatim>\<open>remove_dir_all\<close> also
  half-way. Paths are absolute and taken component by component; their directories are no symbolic
  links, a link as the last component is followed where the call follows it.
\<close>

section \<open>Paths of the operating system\<close>

definition os_path :: "string \<Rightarrow> string list" where
  "os_path s = foldl norm_step [] (split_on CHR ''/'' s)"

lemma norm_step_Nil [simp]: "norm_step ps [] = ps"
  by (simp add: norm_step_def)

lemma os_path_append_sep:
  "os_path (s @ CHR ''/'' # t) = foldl norm_step (os_path s) (split_on CHR ''/'' t)"
proof -
  have "split_on CHR ''/'' (s @ CHR ''/'' # t) = split_on CHR ''/'' s @ split_on CHR ''/'' t"
    using split_on_append_join [of "split_on CHR ''/'' s" "CHR ''/''" t]
    by (auto dest: split_on_no_sep)
  then show ?thesis by (simp add: os_path_def)
qed

lemma os_path_join_rel:
  assumes "\<not> prefix ''/'' r"
  shows "os_path (path_join base r) = foldl norm_step (os_path base) (split_on CHR ''/'' r)"
proof (cases "base = []")
  case True
  with assms show ?thesis by (simp add: path_join_def os_path_def)
next
  case False
  show ?thesis
  proof (cases "last base = CHR ''/''")
    case True
    with False obtain b where b: "base = b @ ''/''" by (metis append_butlast_last_id)
    have "os_path (path_join base r) = os_path (b @ CHR ''/'' # r)"
      using assms by (simp add: path_join_def b)
    also have "\<dots> = foldl norm_step (os_path base) (split_on CHR ''/'' r)"
      using os_path_append_sep [of b "[]"] by (simp add: os_path_append_sep b)
    finally show ?thesis .
  next
    case False
    with \<open>base \<noteq> []\<close> assms show ?thesis by (simp add: path_join_def os_path_append_sep)
  qed
qed

lemma os_path_join [path_simps]:
  assumes "\<forall>p \<in> set ps. clean_part p"
  shows "os_path (path_join base (join_with CHR ''/'' ps)) = os_path base @ ps"
proof -
  have np: "\<not> prefix ''/'' (join_with CHR ''/'' ps)"
    using strip_slash_join [OF assms] by (auto simp: strip_prefix_def split: if_splits)
  show ?thesis
  proof (cases "ps = []")
    case True
    with np show ?thesis by (simp add: os_path_join_rel)
  next
    case False
    with assms have "split_on CHR ''/'' (join_with CHR ''/'' ps) = ps"
      by (intro split_join) (auto simp: clean_part_def)
    with np assms show ?thesis by (simp add: os_path_join_rel foldl_norm_step_clean)
  qed
qed

section \<open>The tree\<close>

text \<open>A file by its inode number, a directory with its access and modification time, a link.\<close>

datatype tree_entry = TreeFile nat | TreeDir u64 u64 | TreeLink "string list"

type_synonym tree = "(string list \<times> tree_entry) list"

definition tree_at :: "tree \<Rightarrow> string list \<Rightarrow> tree_entry option" where
  "tree_at t p = (if p = [] then Some (TreeDir 0 0) else map_of t p)"

text \<open>Following links, at most 40 as on Linux.\<close>

primrec follow :: "nat \<Rightarrow> tree \<Rightarrow> string list \<Rightarrow> string list option" where
  "follow 0 t p = (case tree_at t p of Some (TreeLink q) \<Rightarrow> None | _ \<Rightarrow> Some p)"
| "follow (Suc n) t p = (case tree_at t p of Some (TreeLink q) \<Rightarrow> follow n t q | _ \<Rightarrow> Some p)"

definition tree_stat :: "tree \<Rightarrow> string list \<Rightarrow> tree_entry option" where
  "tree_stat t p = (case follow 40 t p of None \<Rightarrow> None | Some q \<Rightarrow> tree_at t q)"

definition tree_exists :: "tree \<Rightarrow> string list \<Rightarrow> bool" where
  "tree_exists t p = (tree_stat t p \<noteq> None)"

definition tree_is_file :: "tree \<Rightarrow> string list \<Rightarrow> bool" where
  "tree_is_file t p = (case tree_stat t p of Some (TreeFile i) \<Rightarrow> True | _ \<Rightarrow> False)"

definition tree_is_dir :: "tree \<Rightarrow> string list \<Rightarrow> bool" where
  "tree_is_dir t p = (case tree_stat t p of Some (TreeDir a m) \<Rightarrow> True | _ \<Rightarrow> False)"

definition tree_without :: "(string list \<Rightarrow> bool) \<Rightarrow> tree \<Rightarrow> tree" where
  "tree_without P t = filter (\<lambda>(p, e). \<not> P p) t"

section \<open>Calls that change it\<close>

text \<open>
  How one of the next calls fails; a removal of a directory with its contents removes some of the names
  below it first. The records are those handed to the failure recorder.
\<close>

datatype fs_fault = FsFault os_error "string list list"

record target_fs =
  tree :: tree
  fs_faults :: "fs_fault option list"
  fs_failures :: "failure_record list"

definition errno :: "int \<Rightarrow> os_error" where
  "errno code = \<lparr>raw_os_error = Some code, os_message = classify_errno code\<rparr>"

type_synonym 'a fs_op = "target_fs \<Rightarrow> (os_error + 'a) \<times> target_fs"

definition fs_call :: "(string list list \<Rightarrow> tree \<Rightarrow> tree) \<Rightarrow> (tree \<Rightarrow> os_error + tree) \<Rightarrow> unit fs_op" where
  "fs_call partial act fs =
    (let fs' = fs\<lparr>fs_faults := tl (fs_faults fs)\<rparr>
     in case fs_faults fs of
          Some (FsFault e gone) # _ \<Rightarrow> (Inl e, fs'\<lparr>tree := partial gone (tree fs)\<rparr>)
        | _ \<Rightarrow> (case act (tree fs) of
                   Inl e \<Rightarrow> (Inl e, fs')
                 | Inr t \<Rightarrow> (Inr (), fs'\<lparr>tree := t\<rparr>)))"

definition remove_file :: "string list \<Rightarrow> unit fs_op" where
  "remove_file p = fs_call (\<lambda>_ t. t) (\<lambda>t.
    case tree_at t p of
      None \<Rightarrow> Inl (errno 2)
    | Some (TreeDir _ _) \<Rightarrow> Inl (errno 21)
    | Some _ \<Rightarrow> Inr (tree_without ((=) p) t))"

definition remove_dir :: "string list \<Rightarrow> unit fs_op" where
  "remove_dir p = fs_call (\<lambda>_ t. t) (\<lambda>t.
    case tree_at t p of
      None \<Rightarrow> Inl (errno 2)
    | Some (TreeDir _ _) \<Rightarrow>
        if list_ex (\<lambda>(q, e). strict_prefix p q) t then Inl (errno 39) else Inr (tree_without ((=) p) t)
    | Some _ \<Rightarrow> Inl (errno 20))"

definition remove_dir_all :: "string list \<Rightarrow> unit fs_op" where
  "remove_dir_all p = fs_call (\<lambda>gone. tree_without (\<lambda>q. prefix p q \<and> q \<in> set gone)) (\<lambda>t.
    case tree_at t p of
      None \<Rightarrow> Inl (errno 2)
    | Some (TreeDir _ _) \<Rightarrow> Inr (tree_without (prefix p) t)
    | Some (TreeLink _) \<Rightarrow> Inr (tree_without ((=) p) t)
    | Some _ \<Rightarrow> Inl (errno 20))"

section \<open>Retried calls\<close>

definition fs_record ::
  "(nat \<Rightarrow> string) option \<Rightarrow> string \<Rightarrow> failure_item_type \<Rightarrow> string \<Rightarrow> os_error \<Rightarrow> u32 \<Rightarrow> target_fs \<Rightarrow> target_fs" where
  "fs_record recorder operation item_type path err attempts fs =
    (case recorder of
       None \<Rightarrow> fs
     | Some clock \<Rightarrow> fs\<lparr>fs_failures := fs_failures fs @
         [record_from_io_error (clock (length (fs_failures fs))) ''backup'' operation item_type path err attempts]\<rparr>)"

text \<open>\<open>None\<close> is the \<^verbatim>\<open>unreachable!\<close> of the retry loop.\<close>

definition attempt ::
  "retry_policy \<Rightarrow> 'a fs_op \<Rightarrow> ('a \<Rightarrow> target_fs \<Rightarrow> 'b option) \<Rightarrow>
   (os_error \<Rightarrow> u32 \<Rightarrow> target_fs \<Rightarrow> 'b option) \<Rightarrow> target_fs \<Rightarrow> 'b option" where
  "attempt policy op ok failed fs =
    Option.bind (retry_sync policy op fs) (\<lambda>(r, fs).
      case r of Inr v \<Rightarrow> ok v fs | Inl (e, n) \<Rightarrow> failed e n fs)"

lemma attempt_first: "op fs = (Inr v, fs') \<Longrightarrow> attempt policy op ok failed fs = ok v fs'"
proof -
  assume "op fs = (Inr v, fs')"
  then have "try_up_to n (\<lambda>_ s. with_unit (op s)) () fs = (Inr v, fs')" for n
    by (cases n) simp_all
  then show ?thesis
    by (simp add: attempt_def retry_sync_def retry_sync_item_def retry_loop_new)
qed

lemma attempt_rule:
  assumes "I fs" and "\<And>fs r fs'. I fs \<Longrightarrow> op fs = (r, fs') \<Longrightarrow> I fs'"
    and "\<And>v fs. I fs \<Longrightarrow> \<exists>t. ok v fs = Some t \<and> Q t" and "\<And>e n fs. I fs \<Longrightarrow> \<exists>t. failed e n fs = Some t \<and> Q t"
  shows "\<exists>t. attempt policy op ok failed fs = Some t \<and> Q t"
proof -
  have "I (snd (try_up_to n (\<lambda>_ s. with_unit (op s)) () fs))" if "I fs" for n fs
    using that
  proof (induction n arbitrary: fs)
    case 0
    then show ?case
      by (cases "op fs"; cases "fst (op fs)") (auto dest: assms(2))
  next
    case (Suc n)
    then show ?case
      by (cases "op fs"; cases "fst (op fs)") (auto dest: assms(2))
  qed
  from this [OF assms(1)] obtain r fs' where
    "try_up_to (unat (max_attempts policy) - 1) (\<lambda>_ s. with_unit (op s)) () fs = (r, fs')" "I fs'"
    by (metis snd_conv surj_pair)
  with assms(3,4) [of fs'] show ?thesis
    by (cases r) (auto simp: attempt_def retry_sync_def retry_sync_item_def retry_loop_new)
qed

lemma attempt_total:
  assumes "\<And>v fs. ok v fs \<noteq> None" and "\<And>e n fs. failed e n fs \<noteq> None"
  shows "attempt policy op ok failed fs \<noteq> None"
  using attempt_rule [of "\<lambda>_. True" fs op ok "\<lambda>_. True" failed policy] assms by fastforce

section \<open>The tree outside a place\<close>

definition tree_outside :: "string list \<Rightarrow> tree \<Rightarrow> tree" where
  "tree_outside base t = tree_without (prefix base) t"

lemma tree_outside_without:
  "(\<And>p. P p \<Longrightarrow> prefix base p) \<Longrightarrow> tree_outside base (tree_without P t) = tree_outside base t"
  by (induction t) (auto simp: tree_outside_def tree_without_def)

lemma tree_at_without: "p \<noteq> [] \<Longrightarrow> tree_at (tree_without P t) p = (if P p then None else tree_at t p)"
  by (induction t) (auto simp: tree_at_def tree_without_def)

lemma fs_call_outside:
  assumes "fs_call partial act fs = (r, fs')"
    and "\<And>gone t. tree_outside base (partial gone t) = tree_outside base t"
    and "\<And>t t'. act t = Inr t' \<Longrightarrow> tree_outside base t' = tree_outside base t"
  shows "tree_outside base (tree fs') = tree_outside base (tree fs)"
  using assms(1) by (auto simp: fs_call_def Let_def assms(2,3) split: list.splits option.splits fs_fault.splits sum.splits)

lemma remove_file_outside:
  "remove_file p fs = (r, fs') \<Longrightarrow> prefix base p \<Longrightarrow> tree_outside base (tree fs') = tree_outside base (tree fs)"
  unfolding remove_file_def
  by (erule fs_call_outside) (auto intro!: tree_outside_without split: option.splits tree_entry.splits)

lemma remove_dir_outside:
  "remove_dir p fs = (r, fs') \<Longrightarrow> prefix base p \<Longrightarrow> tree_outside base (tree fs') = tree_outside base (tree fs)"
  unfolding remove_dir_def
  by (erule fs_call_outside) (auto intro!: tree_outside_without split: option.splits tree_entry.splits if_splits)

lemma remove_dir_all_outside:
  "remove_dir_all p fs = (r, fs') \<Longrightarrow> prefix base p \<Longrightarrow> tree_outside base (tree fs') = tree_outside base (tree fs)"
  unfolding remove_dir_all_def
  by (erule fs_call_outside)
    (auto intro!: tree_outside_without dest: prefix_order.trans split: option.splits tree_entry.splits)

lemma fs_record_simps [simp]:
  "tree (fs_record recorder operation item path e n fs) = tree fs"
  "fs_faults (fs_record recorder operation item path e n fs) = fs_faults fs"
  by (simp_all add: fs_record_def split: option.splits)

lemma tree_stat_plain: "\<nexists>q. tree_at t p = Some (TreeLink q) \<Longrightarrow> tree_stat t p = tree_at t p"
proof -
  assume "\<nexists>q. tree_at t p = Some (TreeLink q)"
  then have "follow 40 t p = Some p"
    by (simp add: numeral_eq_Suc split: option.splits tree_entry.splits)
  then show ?thesis by (simp add: tree_stat_def)
qed

end
