(* ===== verification/HardlinkPhase.thy ===== *)
theory HardlinkPhase
  imports TargetTree HardlinkControl MetaStorage ControlFiles
begin

text \<open>
  \<^verbatim>\<open>native/backup/hardlink.rs\<close>: the phase after the copy that turns the names of an inode, which
  the copy has made separate files, into hard links of the first of them.
\<close>

section \<open>Links and directories in the tree\<close>

text \<open>\<^verbatim>\<open>linkat\<close> without following: the new name stands for the same entry.\<close>

definition hard_link :: "string list \<Rightarrow> string list \<Rightarrow> unit fs_op" where
  "hard_link target link = fs_call (\<lambda>_ t. t) (\<lambda>t.
    case tree_at t target of
      None \<Rightarrow> Inl (errno 2)
    | Some (TreeDir _ _) \<Rightarrow> Inl (errno 1)
    | Some e \<Rightarrow>
        if tree_at t link \<noteq> None then Inl (errno 17)
        else (case tree_at t (butlast link) of
                None \<Rightarrow> Inl (errno 2)
              | Some (TreeDir _ _) \<Rightarrow> Inr (t @ [(link, e)])
              | Some _ \<Rightarrow> Inl (errno 20)))"

text \<open>
  \<^verbatim>\<open>create_dir_all\<close>, on the reversed path; the times the system gives new directories are not
  modelled. When it fails, some of the directories may have been made.
\<close>

fun make_dirs :: "string list \<Rightarrow> tree \<Rightarrow> os_error + tree" where
  "make_dirs [] t = Inr t"
| "make_dirs (c # cs) t =
    (let p = rev (c # cs)
     in if tree_is_dir t p then Inr t
        else if tree_at t p \<noteq> None then Inl (errno 17)
        else andThen (make_dirs cs t) (\<lambda>t. Inr (t @ [(p, TreeDir 0 0)])))"

definition add_dirs :: "string list list \<Rightarrow> tree \<Rightarrow> tree" where
  "add_dirs ps t = t @ map (\<lambda>p. (p, TreeDir 0 0)) (filter (\<lambda>p. tree_at t p = None) ps)"

definition create_dir_all :: "string list \<Rightarrow> unit fs_op" where
  "create_dir_all p = fs_call (\<lambda>made. add_dirs (filter (\<lambda>q. prefix q p) made)) (make_dirs (rev p))"

section \<open>Reading the groups\<close>

record hard_file_info =
  hi_meta_fid :: u32
  hi_meta_offset :: u32
  hi_src_path :: string
  hi_dst_path :: string

record hard_group =
  pg_inode :: u64
  pg_device :: u64
  pg_link_count :: u32
  pg_files :: "hard_file_info list"

fun finished_group :: "hard_group option \<Rightarrow> hard_group list" where
  "finished_group None = []"
| "finished_group (Some g) = (if pg_files g = [] then [] else [g])"

fun read_groups_loop ::
  "meta_bincode \<Rightarrow> files \<Rightarrow> string \<Rightarrow> string \<Rightarrow> bool \<Rightarrow> hardlink_entry io list \<Rightarrow> hard_group list \<Rightarrow>
   hard_group option \<Rightarrow> meta_error + hard_group list" where
  "read_groups_loop bc meta_dir src tgt logical [] gs current = Inr (gs @ finished_group current)"
| "read_groups_loop bc meta_dir src tgt logical (Inl e # es) gs current = Inl (MetaIo e)"
| "read_groups_loop bc meta_dir src tgt logical (Inr (HardInode i) # es) gs current =
    read_groups_loop bc meta_dir src tgt logical es (gs @ finished_group current)
      (Some \<lparr>pg_inode = hi_inode i, pg_device = hi_device i, pg_link_count = hi_link_count i, pg_files = []\<rparr>)"
| "read_groups_loop bc meta_dir src tgt logical (Inr (HardFile f) # es) gs current =
    (case current of
       None \<Rightarrow> read_groups_loop bc meta_dir src tgt logical es gs None
     | Some g \<Rightarrow>
         andThen (if_ok (get_fmeta bc meta_dir (hf_meta_fid f, hf_meta_offset f))) (\<lambda>m.
           read_groups_loop bc meta_dir src tgt logical es gs (Some
             (case m of
                None \<Rightarrow> g
              | Some _ \<Rightarrow> g\<lparr>pg_files := pg_files g @
                  [\<lparr>hi_meta_fid = hf_meta_fid f, hi_meta_offset = hf_meta_offset f, hi_src_path = hf_path f,
                    hi_dst_path = make_relative_and_join src tgt (hf_path f) logical\<rparr>]\<rparr>))))"

definition read_hardlink_groups ::
  "json_dec \<Rightarrow> meta_bincode \<Rightarrow> byte list \<Rightarrow> files \<Rightarrow> string \<Rightarrow> string \<Rightarrow> meta_error + hard_group list" where
  "read_hardlink_groups dec bc ctrl meta_dir src tgt =
    andThen (lift_io (hardlink_reader_open dec ctrl)) (\<lambda>(rest, h).
      read_groups_loop bc meta_dir src tgt (source_root h \<noteq> []) (read_entries hardlink_decode rest) [] None)"

section \<open>Linking a group\<close>

record link_stats =
  groups_processed :: u64
  hardlinks_created :: u64
  hardlinks_failed :: u64
  links_skipped :: u64

definition link_stats_default :: link_stats where
  "link_stats_default = \<lparr>groups_processed = 0, hardlinks_created = 0, hardlinks_failed = 0, links_skipped = 0\<rparr>"

abbreviation group_one :: "link_stats \<Rightarrow> link_stats" where
  "group_one s \<equiv> s\<lparr>groups_processed := groups_processed s + 1\<rparr>"

abbreviation created_one :: "link_stats \<Rightarrow> link_stats" where
  "created_one s \<equiv> s\<lparr>hardlinks_created := hardlinks_created s + 1\<rparr>"

abbreviation link_failed :: "nat \<Rightarrow> link_stats \<Rightarrow> link_stats" where
  "link_failed n s \<equiv> s\<lparr>hardlinks_failed := hardlinks_failed s + of_nat n\<rparr>"

abbreviation link_skipped :: "link_stats \<Rightarrow> link_stats" where
  "link_skipped s \<equiv> s\<lparr>links_skipped := links_skipped s + 1\<rparr>"

type_synonym link_run = "target_fs \<times> link_stats"

definition hi_path :: "hard_file_info \<Rightarrow> string list" where
  "hi_path f = os_path (hi_dst_path f)"

text \<open>The test of \<^verbatim>\<open>ino()\<close> and \<^verbatim>\<open>dev()\<close> of two names.\<close>

definition same_inode :: "tree \<Rightarrow> string list \<Rightarrow> string list \<Rightarrow> bool" where
  "same_inode t p q =
    (case (tree_stat t p, tree_stat t q) of
       (Some (TreeFile i), Some (TreeFile j)) \<Rightarrow> i = j
     | (Some (TreeDir _ _), Some (TreeDir _ _)) \<Rightarrow> follow 40 t p = follow 40 t q
     | _ \<Rightarrow> False)"

text \<open>From the creation of the parent directory on; \<^verbatim>\<open>restore_file_metadata\<close> does nothing.\<close>

definition link_new ::
  "retry_policy \<Rightarrow> (nat \<Rightarrow> string) option \<Rightarrow> string list \<Rightarrow> hard_file_info \<Rightarrow> link_stats \<Rightarrow> target_fs \<Rightarrow> link_run option" where
  "link_new policy recorder target f s =
    attempt policy (create_dir_all (butlast (hi_path f)))
      (\<lambda>_. attempt policy (hard_link target (hi_path f))
         (\<lambda>_ fs. Some (fs, created_one s))
         (\<lambda>e n fs. Some (fs_record recorder ''create_hardlink'' ItemFile (hi_dst_path f) e n fs, link_failed 1 s)))
      (\<lambda>e n fs. Some (fs_record recorder ''create_dir'' ItemDirectory (render (butlast (hi_path f))) e n fs,
         link_failed 1 s))"

definition link_one ::
  "retry_policy \<Rightarrow> (nat \<Rightarrow> string) option \<Rightarrow> hard_file_info \<Rightarrow> hard_file_info \<Rightarrow> link_run \<Rightarrow> link_run option" where
  "link_one policy recorder target f run =
    (let (fs, s) = run
     in if path_components (hi_dst_path f) = path_components (hi_dst_path target) then Some (fs, link_skipped s)
        else if tree_exists (tree fs) (hi_path f) then
          (if same_inode (tree fs) (hi_path f) (hi_path target) then Some (fs, link_skipped s)
           else attempt policy (remove_file (hi_path f))
             (\<lambda>_. link_new policy recorder (hi_path target) f s)
             (\<lambda>e n fs. Some (fs_record recorder ''remove_existing'' ItemFile (hi_dst_path f) e n fs, link_failed 1 s))
             fs)
        else link_new policy recorder (hi_path target) f s fs)"

fun create_hardlinks_for_group ::
  "retry_policy \<Rightarrow> (nat \<Rightarrow> string) option \<Rightarrow> hard_file_info \<Rightarrow> hard_file_info list \<Rightarrow> link_run \<Rightarrow> link_run option" where
  "create_hardlinks_for_group policy recorder target [] run = Some run"
| "create_hardlinks_for_group policy recorder target (f # fs) run =
    Option.bind (link_one policy recorder target f run) (create_hardlinks_for_group policy recorder target fs)"

definition process_hardlink_group ::
  "retry_policy \<Rightarrow> (nat \<Rightarrow> string) option \<Rightarrow> hard_group \<Rightarrow> link_run \<Rightarrow> link_run option" where
  "process_hardlink_group policy recorder g run =
    (let (fs, s) = run
     in case pg_files g of
          target # f # others \<Rightarrow>
            if tree_exists (tree fs) (hi_path target)
            then create_hardlinks_for_group policy recorder target (f # others) (fs, group_one s)
            else (case find (\<lambda>f. tree_exists (tree fs) (hi_path f)) (pg_files g) of
                    Some existing \<Rightarrow>
                      create_hardlinks_for_group policy recorder existing (pg_files g) (fs, group_one s)
                  | None \<Rightarrow> Some (fs, link_failed (length (pg_files g)) (group_one s)))
        | _ \<Rightarrow> Some (fs, link_skipped s))"

fun process_groups ::
  "retry_policy \<Rightarrow> (nat \<Rightarrow> string) option \<Rightarrow> hard_group list \<Rightarrow> link_run \<Rightarrow> link_run option" where
  "process_groups policy recorder [] run = Some run"
| "process_groups policy recorder (g # gs) run =
    Option.bind (process_hardlink_group policy recorder g run) (process_groups policy recorder gs)"

definition process_hardlinks ::
  "json_dec \<Rightarrow> meta_bincode \<Rightarrow> byte list option \<Rightarrow> files \<Rightarrow> string \<Rightarrow> string \<Rightarrow> retry_policy \<Rightarrow>
   (nat \<Rightarrow> string) option \<Rightarrow> target_fs \<Rightarrow> (meta_error + link_run) option" where
  "process_hardlinks dec bc ctrl_file meta_dir src tgt policy recorder fs =
    (case ctrl_file of
       None \<Rightarrow> Some (Inr (fs, link_stats_default))
     | Some ctrl \<Rightarrow>
         (case read_hardlink_groups dec bc ctrl meta_dir src tgt of
            Inl e \<Rightarrow> Some (Inl e)
          | Inr gs \<Rightarrow> map_option Inr (process_groups policy recorder gs (fs, link_stats_default))))"

definition run_hardlink_phase ::
  "(byte list \<Rightarrow> byte list) \<Rightarrow> json_dec \<Rightarrow> meta_bincode \<Rightarrow> files \<Rightarrow> files \<Rightarrow> string \<Rightarrow> string \<Rightarrow> retry_policy \<Rightarrow>
   (nat \<Rightarrow> string) option \<Rightarrow> target_fs \<Rightarrow> (meta_error + link_run) option" where
  "run_hardlink_phase sha256 dec bc ctrl_dir meta_dir src tgt policy recorder fs =
    (case find_primary_control_file sha256 ctrl_dir ''hardlink'' of
       None \<Rightarrow> Some (Inr (fs, link_stats_default))
     | Some name \<Rightarrow> process_hardlinks dec bc (file_content ctrl_dir name) meta_dir src tgt policy recorder fs)"


section \<open>Equal paths\<close>

fun comp_step :: "string list \<Rightarrow> comp \<Rightarrow> string list" where
  "comp_step ps ParentDir = butlast ps"
| "comp_step ps (Normal p) = ps @ [p]"
| "comp_step ps c = ps"

lemma foldl_pieces: "foldl comp_step acc (concat (map (piece_comp False) ps)) = foldl norm_step acc ps"
  by (induction ps arbitrary: acc) (auto simp: piece_comp_def norm_step_def)

lemma os_path_components: "os_path s = foldl comp_step [] (path_components s)"
proof (cases "split_on CHR ''/'' s")
  case Nil
  then show ?thesis using split_on_nonempty [of "CHR ''/''" s] by simp
next
  case (Cons p ps)
  then show ?thesis
    using foldl_pieces [of "[]" "p # ps"] foldl_pieces [of "norm_step [] p" ps]
    by (auto simp: path_components_def os_path_def piece_comp_def norm_step_def)
qed

lemma same_components: "path_components s = path_components t \<Longrightarrow> os_path s = os_path t"
  by (simp add: os_path_components)

section \<open>What the phase leaves when no call fails\<close>

fun is_tree_file :: "tree_entry option \<Rightarrow> bool" where
  "is_tree_file (Some (TreeFile i)) = True"
| "is_tree_file e = False"

fun is_tree_dir :: "tree_entry option \<Rightarrow> bool" where
  "is_tree_dir (Some (TreeDir a m)) = True"
| "is_tree_dir e = False"

lemma is_tree_file_iff: "is_tree_file e \<longleftrightarrow> (\<exists>i. e = Some (TreeFile i))"
  by (cases e rule: is_tree_file.cases) auto

lemma is_tree_dir_iff: "is_tree_dir e \<longleftrightarrow> (\<exists>a m. e = Some (TreeDir a m))"
  by (cases e rule: is_tree_dir.cases) auto

text \<open>A name the phase may replace: free or a file, in a directory.\<close>

definition name_ready :: "tree \<Rightarrow> string list \<Rightarrow> bool" where
  "name_ready t p \<longleftrightarrow> p \<noteq> [] \<and> is_tree_dir (tree_at t (butlast p)) \<and> (tree_at t p = None \<or> is_tree_file (tree_at t p))"

lemma butlast_neq: "p \<noteq> [] \<Longrightarrow> butlast p \<noteq> p"
  by (metis append_butlast_last_id not_Cons_self2 self_append_conv)

lemma tree_at_snoc: "tree_at t p = None \<Longrightarrow> tree_at (t @ [(p, e)]) q = (if q = p then Some e else tree_at t q)"
  by (auto simp: tree_at_def map_add_def split: option.splits if_splits)

lemma make_dirs_present: "is_tree_dir (tree_at t p) \<Longrightarrow> make_dirs (rev p) t = Inr t"
proof (cases "rev p")
  case (Cons c cs)
  assume "is_tree_dir (tree_at t p)"
  then obtain a m where "tree_at t p = Some (TreeDir a m)" by (auto simp: is_tree_dir_iff)
  then have "tree_is_dir t p" by (simp add: tree_is_dir_def tree_stat_plain)
  moreover have "p = rev (c # cs)" using Cons by (metis rev_rev_ident)
  ultimately show ?thesis using Cons by (simp add: Let_def)
qed simp

lemma link_new_good:
  assumes "fs_faults fs = []" and "name_ready (tree fs) (hi_path f)" and "tree_at (tree fs) (hi_path f) = None"
    and "tree_at (tree fs) target = Some (TreeFile i)"
  shows "link_new policy recorder target f s fs =
    Some (fs\<lparr>tree := tree fs @ [(hi_path f, TreeFile i)]\<rparr>, created_one s)"
proof -
  have d: "is_tree_dir (tree_at (tree fs) (butlast (hi_path f)))"
    using assms(2) by (simp add: name_ready_def)
  then obtain a m where dir: "tree_at (tree fs) (butlast (hi_path f)) = Some (TreeDir a m)"
    by (auto simp: is_tree_dir_iff)
  have "create_dir_all (butlast (hi_path f)) fs = (Inr (), fs)"
    using assms(1) make_dirs_present [OF d] by (simp add: create_dir_all_def fs_call_def Let_def)
  moreover have "hard_link target (hi_path f) fs = (Inr (), fs\<lparr>tree := tree fs @ [(hi_path f, TreeFile i)]\<rparr>)"
    using assms(1,3,4) dir by (simp add: hard_link_def fs_call_def Let_def)
  ultimately show ?thesis
    by (simp add: link_new_def attempt_first)
qed

lemma link_one_good:
  assumes "fs_faults fs = []" and "name_ready (tree fs) (hi_path f)" and "hi_path f \<noteq> hi_path target"
    and "tree_at (tree fs) (hi_path target) = Some (TreeFile i)"
  shows "\<exists>t s'. link_one policy recorder target f (fs, s) = Some (fs\<lparr>tree := t\<rparr>, s')
    \<and> hardlinks_failed s' = hardlinks_failed s
    \<and> (\<forall>q. tree_at t q = (if q = hi_path f then Some (TreeFile i) else tree_at (tree fs) q))"
proof -
  have other: "path_components (hi_dst_path f) \<noteq> path_components (hi_dst_path target)"
    using assms(3) same_components [of "hi_dst_path f" "hi_dst_path target"] by (auto simp: hi_path_def)
  show ?thesis
  proof (cases "tree_at (tree fs) (hi_path f)")
    case None
    then have "\<not> tree_exists (tree fs) (hi_path f)" by (simp add: tree_exists_def tree_stat_plain)
    with None other link_new_good [OF assms(1,2) None assms(4)] show ?thesis
      by (auto simp: link_one_def tree_at_snoc)
  next
    case (Some e)
    with assms(2) obtain j where j: "tree_at (tree fs) (hi_path f) = Some (TreeFile j)"
      by (auto simp: name_ready_def is_tree_file_iff)
    have ex: "tree_exists (tree fs) (hi_path f)" using j by (simp add: tree_exists_def tree_stat_plain)
    have same: "same_inode (tree fs) (hi_path f) (hi_path target) \<longleftrightarrow> j = i"
      using j assms(4) by (simp add: same_inode_def tree_stat_plain)
    show ?thesis
    proof (cases "j = i")
      case True
      with other ex same j have "link_one policy recorder target f (fs, s) = Some (fs\<lparr>tree := tree fs\<rparr>, link_skipped s)"
        by (simp add: link_one_def)
      with j True show ?thesis by fastforce
    next
      case False
      have p: "hi_path f \<noteq> []" using assms(2) by (simp add: name_ready_def)
      let ?fs = "fs\<lparr>tree := tree_without ((=) (hi_path f)) (tree fs)\<rparr>"
      have at: "tree_at (tree ?fs) q = (if q = hi_path f then None else tree_at (tree fs) q)" for q
        using p by (cases "q = []") (simp_all add: tree_at_without, simp add: tree_at_def)
      have "remove_file (hi_path f) fs = (Inr (), ?fs)"
        using assms(1) j by (simp add: remove_file_def fs_call_def Let_def)
      moreover have "name_ready (tree ?fs) (hi_path f)"
        using assms(2) at p butlast_neq [OF p] unfolding name_ready_def by simp
      moreover have "tree_at (tree ?fs) (hi_path target) = Some (TreeFile i)"
        using assms(3,4) at by simp
      ultimately have "link_one policy recorder target f (fs, s) =
          Some (?fs\<lparr>tree := tree ?fs @ [(hi_path f, TreeFile i)]\<rparr>, created_one s)"
        using other ex same False assms(1) at link_new_good [of ?fs f "hi_path target" i policy recorder s]
        by (simp add: link_one_def attempt_first)
      moreover have "tree_at (tree ?fs @ [(hi_path f, TreeFile i)]) q =
          (if q = hi_path f then Some (TreeFile i) else tree_at (tree fs) q)" for q
        using at by (subst tree_at_snoc) auto
      ultimately show ?thesis by auto
    qed
  qed
qed


lemma name_ready_upd:
  assumes "name_ready t p" and "name_ready t q"
    and "\<And>r. tree_at t' r = (if r = p then Some (TreeFile i) else tree_at t r)"
  shows "name_ready t' q"
proof -
  have "butlast q \<noteq> p"
    using assms(1,2) by (auto simp: name_ready_def is_tree_file_iff)
  with assms show ?thesis
    by (cases "q = p") (simp_all add: name_ready_def)
qed

lemma link_group_good:
  assumes "fs_faults fs = []" and "tree_at (tree fs) (hi_path target) = Some (TreeFile i)"
    and "\<And>f. f \<in> set links \<Longrightarrow> name_ready (tree fs) (hi_path f) \<and> hi_path f \<noteq> hi_path target"
  shows "\<exists>t s'. create_hardlinks_for_group policy recorder target links (fs, s) = Some (fs\<lparr>tree := t\<rparr>, s')
    \<and> hardlinks_failed s' = hardlinks_failed s
    \<and> (\<forall>q. tree_at t q = (if q \<in> hi_path ` set links then Some (TreeFile i) else tree_at (tree fs) q))"
  using assms
proof (induction links arbitrary: fs s)
  case Nil
  show ?case by (rule exI [of _ "tree fs"]) simp
next
  case (Cons f links)
  have f: "name_ready (tree fs) (hi_path f)" "hi_path f \<noteq> hi_path target"
    using Cons.prems(3) [of f] by simp_all
  from link_one_good [OF Cons.prems(1) f Cons.prems(2), of policy recorder s] obtain t s1 where
    one: "link_one policy recorder target f (fs, s) = Some (fs\<lparr>tree := t\<rparr>, s1)"
    "hardlinks_failed s1 = hardlinks_failed s"
    and at: "\<And>q. tree_at t q = (if q = hi_path f then Some (TreeFile i) else tree_at (tree fs) q)"
    by auto
  have "name_ready t (hi_path g) \<and> hi_path g \<noteq> hi_path target" if "g \<in> set links" for g
    using name_ready_upd [OF f(1) _ at, of "hi_path g"] Cons.prems(3) [of g] that by simp
  from Cons.IH [of "fs\<lparr>tree := t\<rparr>" s1] this Cons.prems(1,2) at f(2) obtain t' s2 where
    "create_hardlinks_for_group policy recorder target links (fs\<lparr>tree := t\<rparr>, s1) = Some (fs\<lparr>tree := t'\<rparr>, s2)"
    "hardlinks_failed s2 = hardlinks_failed s1"
    "\<And>q. tree_at t' q = (if q \<in> hi_path ` set links then Some (TreeFile i) else tree_at t q)"
    by auto
  with one at show ?case
    by (intro exI [of _ t'] exI [of _ s2]) simp
qed

text \<open>A group the copy phase has left: its first name is a file, the others are free or files.\<close>

definition group_ready :: "tree \<Rightarrow> hard_group \<Rightarrow> bool" where
  "group_ready t g \<longleftrightarrow> list_all (\<lambda>f. name_ready t (hi_path f)) (pg_files g)
    \<and> (pg_files g \<noteq> [] \<longrightarrow> is_tree_file (tree_at t (hi_path (hd (pg_files g)))))
    \<and> distinct (map hi_path (pg_files g))"

definition group_names :: "hard_group \<Rightarrow> string list list" where
  "group_names g = (if length (pg_files g) < 2 then [] else map hi_path (pg_files g))"

definition group_entry :: "tree \<Rightarrow> hard_group \<Rightarrow> tree_entry option" where
  "group_entry t g = tree_at t (hi_path (hd (pg_files g)))"

lemma group_good:
  assumes "fs_faults fs = []" and "group_ready (tree fs) g"
  shows "\<exists>t s'. process_hardlink_group policy recorder g (fs, s) = Some (fs\<lparr>tree := t\<rparr>, s')
    \<and> hardlinks_failed s' = hardlinks_failed s
    \<and> (\<forall>q. tree_at t q = (if q \<in> set (group_names g) then group_entry (tree fs) g else tree_at (tree fs) q))"
proof (cases "length (pg_files g) < 2")
  case True
  then have "process_hardlink_group policy recorder g (fs, s) = Some (fs\<lparr>tree := tree fs\<rparr>, link_skipped s)"
    by (auto simp: process_hardlink_group_def split: list.splits)
  with True show ?thesis
    by (intro exI [of _ "tree fs"] exI [of _ "link_skipped s"]) (simp add: group_names_def)
next
  case False
  then obtain target f links where files: "pg_files g = target # f # links"
    by (cases "pg_files g"; cases "tl (pg_files g)") auto
  with assms(2) obtain i where i: "tree_at (tree fs) (hi_path target) = Some (TreeFile i)"
    by (auto simp: group_ready_def is_tree_file_iff)
  have ready: "name_ready (tree fs) (hi_path h) \<and> hi_path h \<noteq> hi_path target" if "h \<in> set (f # links)" for h
    using assms(2) that by (auto simp: group_ready_def files list_all_iff) (metis image_eqI)
  from link_group_good [of fs target i "f # links" policy recorder "group_one s", OF assms(1) i ready] obtain t s' where
    "create_hardlinks_for_group policy recorder target (f # links) (fs, group_one s) = Some (fs\<lparr>tree := t\<rparr>, s')"
    "hardlinks_failed s' = hardlinks_failed s"
    and at: "\<And>q. tree_at t q = (if q \<in> hi_path ` set (f # links) then Some (TreeFile i) else tree_at (tree fs) q)"
    by auto
  moreover have "tree_exists (tree fs) (hi_path target)"
    using i by (simp add: tree_exists_def tree_stat_plain)
  moreover have "tree_at t q = (if q \<in> set (group_names g) then group_entry (tree fs) g else tree_at (tree fs) q)" for q
    using at [of q] i by (auto simp: group_names_def group_entry_def files)
  ultimately show ?thesis
    by (intro exI [of _ t] exI [of _ s']) (simp add: process_hardlink_group_def files)
qed

text \<open>What a name of the tree stands for afterwards.\<close>

fun linked_entry :: "tree \<Rightarrow> hard_group list \<Rightarrow> string list \<Rightarrow> tree_entry option" where
  "linked_entry t [] q = tree_at t q"
| "linked_entry t (g # gs) q = (if q \<in> set (group_names g) then group_entry t g else linked_entry t gs q)"

lemma group_ready_upd:
  assumes "group_ready t g" and "group_ready t h" and "set (group_names g) \<inter> set (map hi_path (pg_files h)) = {}"
    and "\<And>q. tree_at t' q = (if q \<in> set (group_names g) then group_entry t g else tree_at t q)"
  shows "group_ready t' h"
proof -
  have "name_ready t' q" if "name_ready t q" "q \<notin> set (group_names g)" for q
  proof -
    have "butlast q \<notin> set (group_names g)"
      using assms(1) that(1) by (auto simp: group_ready_def group_names_def name_ready_def list_all_iff
          is_tree_file_iff is_tree_dir_iff split: if_splits)
    with that show ?thesis by (simp add: name_ready_def assms(4))
  qed
  moreover have "hi_path f \<notin> set (group_names g)" if "f \<in> set (pg_files h)" for f
    using assms(3) that by auto
  ultimately show ?thesis
    using assms(2) by (auto simp: group_ready_def list_all_iff assms(4))
qed

lemma groups_good:
  assumes "fs_faults fs = []" and "list_all (group_ready (tree fs)) gs"
    and "distinct (concat (map (\<lambda>g. map hi_path (pg_files g)) gs))"
  shows "\<exists>t s'. process_groups policy recorder gs (fs, s) = Some (fs\<lparr>tree := t\<rparr>, s')
    \<and> hardlinks_failed s' = hardlinks_failed s \<and> (\<forall>q. tree_at t q = linked_entry (tree fs) gs q)"
  using assms
proof (induction gs arbitrary: fs s)
  case Nil
  show ?case by (intro exI [of _ "tree fs"] exI [of _ s]) simp
next
  case (Cons g gs)
  from group_good [of fs g policy recorder s] Cons.prems obtain t s1 where
    one: "process_hardlink_group policy recorder g (fs, s) = Some (fs\<lparr>tree := t\<rparr>, s1)"
    "hardlinks_failed s1 = hardlinks_failed s"
    and at: "\<And>q. tree_at t q = (if q \<in> set (group_names g) then group_entry (tree fs) g else tree_at (tree fs) q)"
    by auto
  have sub: "set (group_names g) \<subseteq> set (map hi_path (pg_files g))"
    by (simp add: group_names_def)
  have other: "set (group_names g) \<inter> set (map hi_path (pg_files h)) = {}" if "h \<in> set gs" for h
    using Cons.prems(3) sub that by fastforce
  have "group_ready t h" if "h \<in> set gs" for h
    using group_ready_upd [OF _ _ other [OF that] at] Cons.prems(2) that by (simp add: list_all_iff)
  then have "list_all (group_ready (tree (fs\<lparr>tree := t\<rparr>))) gs" by (simp add: list_all_iff)
  from Cons.IH [OF _ this, of s1] Cons.prems obtain t' s2 where
    "process_groups policy recorder gs (fs\<lparr>tree := t\<rparr>, s1) = Some (fs\<lparr>tree := t'\<rparr>, s2)"
    "hardlinks_failed s2 = hardlinks_failed s1" and at': "\<And>q. tree_at t' q = linked_entry t gs q"
    by auto
  moreover have "linked_entry t gs q = linked_entry (tree fs) (g # gs) q" for q
    using other
  proof (induction gs)
    case Nil
    then show ?case by (simp add: at)
  next
    case (Cons h gs)
    have h: "set (group_names h) \<subseteq> set (map hi_path (pg_files h))"
      by (simp add: group_names_def)
    have "group_entry t h = group_entry (tree fs) h" if "q \<in> set (group_names h)"
    proof -
      have "pg_files h \<noteq> []" using that by (auto simp: group_names_def)
      then have "hi_path (hd (pg_files h)) \<notin> set (group_names g)"
        using Cons.prems [of h] by auto
      then show ?thesis by (simp add: group_entry_def at)
    qed
    moreover have "set (group_names g) \<inter> set (group_names h) = {}"
      using h Cons.prems [of h] by fastforce
    ultimately show ?case using Cons by (auto simp: at)
  qed
  ultimately show ?case
    using one by (intro exI [of _ t'] exI [of _ s2]) simp
qed


section \<open>The phase always returns\<close>

lemma link_one_total: "link_one policy recorder target f run \<noteq> None"
proof -
  have new: "link_new policy recorder q f s fs \<noteq> None" for q s fs
    unfolding link_new_def by (intro attempt_total) simp_all
  have "attempt policy op (\<lambda>_. link_new policy recorder q f s) (\<lambda>e n fs. Some (g e n fs)) fs \<noteq> None"
    for op :: "unit fs_op" and q s fs and g :: "os_error \<Rightarrow> u32 \<Rightarrow> target_fs \<Rightarrow> link_run"
    by (intro attempt_total) (simp_all add: new)
  with new show ?thesis by (cases run) (simp add: link_one_def)
qed

lemma create_links_total: "create_hardlinks_for_group policy recorder target links run \<noteq> None"
proof (induction links arbitrary: run)
  case (Cons f links)
  then show ?case using link_one_total [of policy recorder target f run] by auto
qed simp

lemma process_group_total: "process_hardlink_group policy recorder g run \<noteq> None"
  using create_links_total by (cases run) (auto simp: process_hardlink_group_def
      simp del: create_hardlinks_for_group.simps split: list.splits option.splits)

lemma process_groups_total: "process_groups policy recorder gs run \<noteq> None"
proof (induction gs arbitrary: run)
  case (Cons g gs)
  then show ?case using process_group_total [of policy recorder g run] by auto
qed simp

section \<open>From the control file to the groups\<close>

type_synonym inode_names = "hardlink_inode_entry \<times> hardlink_file_entry list"

definition inode_entries :: "inode_names list \<Rightarrow> hardlink_entry list" where
  "inode_entries igs = concat (map (\<lambda>(i, names). HardInode i # map HardFile names) igs)"

definition phase_group :: "string \<Rightarrow> string \<Rightarrow> bool \<Rightarrow> inode_names \<Rightarrow> hard_group" where
  "phase_group src tgt logical ig =
    \<lparr>pg_inode = hi_inode (fst ig), pg_device = hi_device (fst ig), pg_link_count = hi_link_count (fst ig),
     pg_files = map (\<lambda>f. \<lparr>hi_meta_fid = hf_meta_fid f, hi_meta_offset = hf_meta_offset f, hi_src_path = hf_path f,
       hi_dst_path = make_relative_and_join src tgt (hf_path f) logical\<rparr>) (snd ig)\<rparr>"

definition meta_readable :: "meta_bincode \<Rightarrow> files \<Rightarrow> inode_names list \<Rightarrow> bool" where
  "meta_readable bc meta_dir igs \<longleftrightarrow>
    list_all (\<lambda>ig. list_all (\<lambda>f. \<not> isl (get_fmeta bc meta_dir (hf_meta_fid f, hf_meta_offset f))) (snd ig)) igs"

lemma read_group_files:
  assumes "list_all (\<lambda>f. \<not> isl (get_fmeta bc meta_dir (hf_meta_fid f, hf_meta_offset f))) names"
  shows "read_groups_loop bc meta_dir src tgt logical (map (Inr \<circ> HardFile) names @ es) gs (Some g) =
    read_groups_loop bc meta_dir src tgt logical es gs (Some (g\<lparr>pg_files := pg_files g @
      map (\<lambda>f. \<lparr>hi_meta_fid = hf_meta_fid f, hi_meta_offset = hf_meta_offset f, hi_src_path = hf_path f,
        hi_dst_path = make_relative_and_join src tgt (hf_path f) logical\<rparr>) names\<rparr>))"
  using assms
proof (induction names arbitrary: g)
  case (Cons f names)
  then obtain m where "get_fmeta bc meta_dir (hf_meta_fid f, hf_meta_offset f) = Inr m"
    by (cases "get_fmeta bc meta_dir (hf_meta_fid f, hf_meta_offset f)") auto
  with Cons show ?case by simp
qed simp

lemma read_groups_inodes:
  assumes "meta_readable bc meta_dir igs"
  shows "read_groups_loop bc meta_dir src tgt logical (map Inr (inode_entries igs)) gs current =
    Inr (gs @ finished_group current
      @ filter (\<lambda>g. pg_files g \<noteq> []) (map (phase_group src tgt logical) igs))"
  using assms
proof (induction igs arbitrary: gs current)
  case Nil
  then show ?case by (simp add: inode_entries_def)
next
  case (Cons ig igs)
  obtain i names where ig: "ig = (i, names)" by (cases ig)
  have "map Inr (inode_entries (ig # igs)) = (Inr (HardInode i) :: hardlink_entry io)
      # map (Inr \<circ> HardFile) names @ map Inr (inode_entries igs)"
    by (simp add: inode_entries_def ig)
  moreover have "list_all (\<lambda>f. \<not> isl (get_fmeta bc meta_dir (hf_meta_fid f, hf_meta_offset f))) names"
    and "meta_readable bc meta_dir igs"
    using Cons.prems by (simp_all add: meta_readable_def ig)
  ultimately show ?case
    using Cons.IH by (simp add: read_group_files ig phase_group_def)
qed

section \<open>Properties\<close>

text \<open>
  C16. For a control file of inodes with their names, the phase returns, and when no call fails and the
  first name of every inode is a file of the target while the others are free or files there, then
  afterwards all names of an inode stand for the file of its first name, every other name of the tree
  for what it stood for, and nothing is counted as failed.
\<close>

theorem hardlink_phase_links:
  assumes "hardlink_reader_open dec ctrl = Inr (rest, h)"
    and "read_entries hardlink_decode rest = map Inr (inode_entries igs)" and "meta_readable bc meta_dir igs"
    and "gs = filter (\<lambda>g. pg_files g \<noteq> []) (map (phase_group src tgt (source_root h \<noteq> [])) igs)"
    and "fs_faults fs = []" and "list_all (group_ready (tree fs)) gs"
    and "distinct (concat (map (\<lambda>g. map hi_path (pg_files g)) gs))"
  shows "\<exists>t s. process_hardlinks dec bc (Some ctrl) meta_dir src tgt policy recorder fs = Some (Inr (fs\<lparr>tree := t\<rparr>, s))
    \<and> hardlinks_failed s = 0 \<and> (\<forall>q. tree_at t q = linked_entry (tree fs) gs q)"
proof -
  have "read_hardlink_groups dec bc ctrl meta_dir src tgt = Inr gs"
    using assms(1-4) read_groups_inodes [OF assms(3)] by (simp add: read_hardlink_groups_def)
  with groups_good [OF assms(5-7), of policy recorder link_stats_default] show ?thesis
    by (auto simp: process_hardlinks_def link_stats_default_def)
qed

lemma try_all_fail:
  assumes "fs_faults fs = map (\<lambda>e. Some (FsFault e [])) errs @ faults" and "length errs = Suc n"
    and "op = fs_call (\<lambda>_ t. t) act"
  shows "try_up_to n (\<lambda>_ s. with_unit (op s)) () fs = (Inl ((), last errs), fs\<lparr>fs_faults := faults\<rparr>)"
  using assms(1,2)
proof (induction n arbitrary: errs fs)
  case 0
  then obtain e where "errs = [e]" by (cases errs) auto
  with 0 show ?case by (simp add: assms(3) fs_call_def Let_def)
next
  case (Suc n)
  then obtain e errs' where errs: "errs = e # errs'" by (cases errs) auto
  with Suc.prems have "errs' \<noteq> []" by auto
  with errs Suc.prems Suc.IH [of "fs\<lparr>fs_faults := tl (fs_faults fs)\<rparr>" errs'] show ?case
    by (simp add: assms(3) fs_call_def Let_def)
qed

lemma attempt_all_fail:
  assumes "fs_faults fs = map (\<lambda>e. Some (FsFault e [])) errs @ faults" and "length errs = unat (max_attempts policy)"
    and "op = fs_call (\<lambda>_ t. t) act"
  shows "attempt policy op ok failed fs = failed (last errs) (max_attempts policy) (fs\<lparr>fs_faults := faults\<rparr>)"
proof -
  have "length errs = Suc (unat (max_attempts policy) - 1)"
    using max_attempts_pos [of policy] assms(2) by (simp add: unat_gt_0)
  from try_all_fail [OF assms(1) this assms(3)] show ?thesis
    by (simp add: attempt_def retry_sync_def retry_sync_item_def retry_loop_new)
qed

text \<open>
  The existing copy of a further name is removed before the link is made. When making the link fails
  in every attempt (the target has no hard links, or the first file has too many), the name is gone
  from the target: the copy made before is lost.
\<close>

theorem hardlink_failure_loses_copy:
  assumes "path_components (hi_dst_path f) \<noteq> path_components (hi_dst_path target)"
    and "tree_at (tree fs) (hi_path f) = Some (TreeFile j)" and "tree_at (tree fs) (hi_path target) = Some (TreeFile i)"
    and "i \<noteq> j" and "name_ready (tree fs) (hi_path f)"
    and "fs_faults fs = None # None # map (\<lambda>e. Some (FsFault e [])) errs" and "length errs = unat (max_attempts policy)"
  shows "\<exists>fs' s'. link_one policy recorder target f (fs, s) = Some (fs', s')
    \<and> tree fs' = tree_without ((=) (hi_path f)) (tree fs) \<and> hardlinks_failed s' = hardlinks_failed s + 1"
proof -
  have p: "hi_path f \<noteq> []" using assms(5) by (simp add: name_ready_def)
  let ?t = "tree_without ((=) (hi_path f)) (tree fs)"
  let ?fs = "fs\<lparr>tree := ?t, fs_faults := None # map (\<lambda>e. Some (FsFault e [])) errs\<rparr>"
  have "tree_at ?t (butlast (hi_path f)) = tree_at (tree fs) (butlast (hi_path f))"
    using butlast_neq [OF p] by (cases "butlast (hi_path f) = []") (simp_all add: tree_at_without tree_at_def [of _ "[]"])
  with assms(5) have "make_dirs (rev (butlast (hi_path f))) ?t = Inr ?t"
    by (intro make_dirs_present) (simp add: name_ready_def)
  then have dirs: "create_dir_all (butlast (hi_path f)) ?fs =
      (Inr (), fs\<lparr>tree := ?t, fs_faults := map (\<lambda>e. Some (FsFault e [])) errs\<rparr>)"
    by (simp add: create_dir_all_def fs_call_def Let_def)
  have "remove_file (hi_path f) fs = (Inr (), ?fs)"
    using assms(2,6) by (simp add: remove_file_def fs_call_def Let_def)
  moreover have "tree_exists (tree fs) (hi_path f)" "\<not> same_inode (tree fs) (hi_path f) (hi_path target)"
    using assms(2-4) by (simp_all add: tree_exists_def same_inode_def tree_stat_plain)
  ultimately have "link_one policy recorder target f (fs, s) = link_new policy recorder (hi_path target) f s ?fs"
    using assms(1) by (simp add: link_one_def attempt_first)
  also have "\<dots> = Some (fs_record recorder ''create_hardlink'' ItemFile (hi_dst_path f) (last errs) (max_attempts policy)
      (fs\<lparr>tree := ?t, fs_faults := []\<rparr>), link_failed 1 s)"
    unfolding link_new_def hard_link_def attempt_first [where op = "create_dir_all (butlast (hi_path f))", OF dirs]
    by (subst attempt_all_fail [OF _ assms(7) refl, of _ "[]"]) simp_all
  finally show ?thesis by simp
qed


section \<open>Concrete runs\<close>

lemma hardlink_counts_source: "source_root (fold hardlink_count es h) = source_root h"
proof (induction es arbitrary: h)
  case (Cons e es)
  then show ?case by (cases e) simp_all
qed simp

definition sample_names :: "inode_names list" where
  "sample_names =
    [(\<lparr>hi_inode = 7, hi_device = 1, hi_link_count = 2\<rparr>,
      [\<lparr>hf_meta_fid = 1, hf_meta_offset = 2, hf_path = ''/a''\<rparr>, \<lparr>hf_meta_fid = 1, hf_meta_offset = 2, hf_path = ''/b''\<rparr>])]"

definition sample_link_meta :: files where
  "sample_link_meta = [(meta_file_name 1, [0, 0] @ tlv TAG_FILE (enc_file sample_bincode (sample_file '' x.txt'')))]"

definition sample_link_tree :: tree where
  "sample_link_tree =
    [([''backup''], TreeDir 0 0), ([''backup'', ''a''], TreeFile 1), ([''backup'', ''b''], TreeFile 2),
     ([''backup'', ''c''], TreeFile 3)]"

lemma sample_names_file:
  obtains ctrl rest h where "hardlink_reader_open plain_json_dec ctrl = Inr (rest, h)" "source_root h = ''/srv''"
    "read_entries hardlink_decode rest = map Inr (inode_entries sample_names)"
proof -
  have short: "\<exists>w'. hardlink_put w e = Inr w' \<and> source_kind (header w') = source_kind (header w)
      \<and> source_root (header w') = source_root (header w)" if "e \<in> set (inode_entries sample_names)" for w e
    by (rule hardlink_put_short) (use that in \<open>auto simp: inode_entries_def sample_names_def\<close>)
  have "\<exists>w w' f. create_record_writer plain_json_enc HARDLINK_MAGIC sample_header = Inr w
    \<and> write_all hardlink_put w (inode_entries sample_names) = Inr w'
    \<and> finish_record_writer plain_json_enc HARDLINK_MAGIC w' = Inr f"
    by (rule sample_run; (rule short)?) (simp_all add: HARDLINK_MAGIC_def)
  then obtain w w' f where run: "create_record_writer plain_json_enc HARDLINK_MAGIC sample_header = Inr w"
    "write_all hardlink_put w (inode_entries sample_names) = Inr w'" "finish_record_writer plain_json_enc HARDLINK_MAGIC w' = Inr f"
    by auto
  have "\<forall>e \<in> set (inode_entries sample_names). hardlink_wf e"
    by (auto simp: inode_entries_def sample_names_def intro!: rust_string_ascii)
  from hl.file_roundtrip [OF plain_json_codec run(1) _ run(2) this run(3)]
  show thesis
    by (auto simp: hardlink_counts_source hardlink_reader_open_def intro: that)
qed

theorem hardlink_phase_links_witness:
  "\<exists>ctrl t s. process_hardlinks plain_json_dec sample_bincode (Some ctrl) sample_link_meta ''/data'' ''/backup''
      \<lparr>max_retries = 3\<rparr> None \<lparr>tree = sample_link_tree, fs_faults = [], fs_failures = []\<rparr>
      = Some (Inr (\<lparr>tree = t, fs_faults = [], fs_failures = []\<rparr>, s))
    \<and> tree_at t [''backup'', ''a''] = Some (TreeFile 1) \<and> tree_at t [''backup'', ''b''] = Some (TreeFile 1)
    \<and> tree_at t [''backup'', ''c''] = Some (TreeFile 3)"
proof -
  obtain ctrl rest h where f: "hardlink_reader_open plain_json_dec ctrl = Inr (rest, h)" "source_root h = ''/srv''"
    "read_entries hardlink_decode rest = map Inr (inode_entries sample_names)"
    by (rule sample_names_file)
  let ?fs = "\<lparr>tree = sample_link_tree, fs_faults = [], fs_failures = []\<rparr>"
  have meta: "meta_readable sample_bincode sample_link_meta sample_names"
    by code_simp
  have m: "make_relative_and_join ''/data'' ''/backup'' ''/a'' True = ''/backup/a''"
    "make_relative_and_join ''/data'' ''/backup'' ''/b'' True = ''/backup/b''"
    "os_path ''/backup/a'' = [''backup'', ''a'']" "os_path ''/backup/b'' = [''backup'', ''b'']"
    by code_simp+
  define gs where "gs = filter (\<lambda>g. pg_files g \<noteq> []) (map (phase_group ''/data'' ''/backup'' (source_root h \<noteq> [])) sample_names)"
  then have names: "gs = [phase_group ''/data'' ''/backup'' True (hd sample_names)]"
    by (simp add: sample_names_def f(2) phase_group_def)
  have paths: "map hi_path (pg_files (phase_group ''/data'' ''/backup'' True (hd sample_names))) =
      [[''backup'', ''a''], [''backup'', ''b'']]"
    by (simp add: phase_group_def sample_names_def hi_path_def m)
  have "list_all (group_ready (tree ?fs)) gs"
    by (simp add: names group_ready_def phase_group_def sample_names_def hi_path_def m name_ready_def
        tree_at_def sample_link_tree_def)
  moreover have "distinct (concat (map (\<lambda>g. map hi_path (pg_files g)) gs))"
    by (simp add: names paths)
  ultimately have "\<exists>t s. process_hardlinks plain_json_dec sample_bincode (Some ctrl) sample_link_meta ''/data'' ''/backup''
      \<lparr>max_retries = 3\<rparr> None ?fs = Some (Inr (?fs\<lparr>tree := t\<rparr>, s))
    \<and> hardlinks_failed s = 0 \<and> (\<forall>q. tree_at t q = linked_entry (tree ?fs) gs q)"
    by (intro hardlink_phase_links [OF f(1) f(3) meta gs_def]) simp_all
  moreover have "linked_entry sample_link_tree gs [''backup'', ''a''] = Some (TreeFile 1)"
    "linked_entry sample_link_tree gs [''backup'', ''b''] = Some (TreeFile 1)"
    "linked_entry sample_link_tree gs [''backup'', ''c''] = Some (TreeFile 3)"
    by (simp_all add: names group_names_def group_entry_def phase_group_def sample_names_def hi_path_def m
        tree_at_def sample_link_tree_def)
  ultimately show ?thesis by (auto intro!: exI [of _ ctrl])
qed

theorem hardlink_failure_loses_copy_witness:
  "\<exists>fs' s'. link_one \<lparr>max_retries = 1\<rparr> None
      \<lparr>hi_meta_fid = 1, hi_meta_offset = 2, hi_src_path = ''/b'', hi_dst_path = ''/backup/a''\<rparr>
      \<lparr>hi_meta_fid = 1, hi_meta_offset = 2, hi_src_path = ''/b'', hi_dst_path = ''/backup/b''\<rparr>
      (\<lparr>tree = sample_link_tree, fs_faults = [None, None, Some (FsFault (errno 31) []), Some (FsFault (errno 31) [])],
        fs_failures = []\<rparr>, link_stats_default) = Some (fs', s')
    \<and> tree_at (tree fs') [''backup'', ''b''] = None \<and> hardlinks_failed s' = 1"
proof -
  let ?target = "\<lparr>hi_meta_fid = 1, hi_meta_offset = 2, hi_src_path = ''/b'', hi_dst_path = ''/backup/a''\<rparr>"
  let ?f = "\<lparr>hi_meta_fid = 1, hi_meta_offset = 2, hi_src_path = ''/b'', hi_dst_path = ''/backup/b''\<rparr>"
  let ?fs = "\<lparr>tree = sample_link_tree,
    fs_faults = [None, None, Some (FsFault (errno 31) []), Some (FsFault (errno 31) [])], fs_failures = []\<rparr>"
  have m: "os_path ''/backup/a'' = [''backup'', ''a'']" "os_path ''/backup/b'' = [''backup'', ''b'']"
    "path_components ''/backup/a'' \<noteq> path_components ''/backup/b''"
    by code_simp+
  have "\<exists>fs' s'. link_one \<lparr>max_retries = 1\<rparr> None ?target ?f (?fs, link_stats_default) = Some (fs', s')
    \<and> tree fs' = tree_without ((=) (hi_path ?f)) (tree ?fs)
    \<and> hardlinks_failed s' = hardlinks_failed link_stats_default + 1"
    by (rule hardlink_failure_loses_copy [where i = 1 and j = 2 and errs = "[errno 31, errno 31]"])
      (use m in \<open>auto simp: hi_path_def tree_at_def sample_link_tree_def name_ready_def max_attempts_def\<close>)
  then show ?thesis
    by (auto simp: hi_path_def m link_stats_default_def tree_at_without)
qed

end
