(* ===== verification/DeletePhase.thy ===== *)
theory DeletePhase
  imports TargetTree DeleteControl ControlFiles
begin

text \<open>
  \<^verbatim>\<open>native/backup/delete.rs\<close>: the delete phase of a local backup, which reads the delete control
  file and removes what it lists from the target, the files first and then the directories.
\<close>

section \<open>The phase\<close>

record delete_stats =
  entries_processed :: u64
  files_deleted :: u64
  dirs_deleted :: u64
  entries_failed :: u64
  entries_skipped :: u64

definition delete_stats_default :: delete_stats where
  "delete_stats_default =
    \<lparr>entries_processed = 0, files_deleted = 0, dirs_deleted = 0, entries_failed = 0, entries_skipped = 0\<rparr>"

abbreviation processed_one :: "delete_stats \<Rightarrow> delete_stats" where
  "processed_one s \<equiv> s\<lparr>entries_processed := entries_processed s + 1\<rparr>"

abbreviation file_deleted_one :: "delete_stats \<Rightarrow> delete_stats" where
  "file_deleted_one s \<equiv> s\<lparr>files_deleted := files_deleted s + 1\<rparr>"

abbreviation dir_deleted_one :: "delete_stats \<Rightarrow> delete_stats" where
  "dir_deleted_one s \<equiv> s\<lparr>dirs_deleted := dirs_deleted s + 1\<rparr>"

abbreviation failed_one :: "delete_stats \<Rightarrow> delete_stats" where
  "failed_one s \<equiv> s\<lparr>entries_failed := entries_failed s + 1\<rparr>"

abbreviation skipped_one :: "delete_stats \<Rightarrow> delete_stats" where
  "skipped_one s \<equiv> s\<lparr>entries_skipped := entries_skipped s + 1\<rparr>"

text \<open>The path removed for an entry: what is left of it after the source, pushed piece by piece.\<close>

definition delete_rel :: "string \<Rightarrow> string \<Rightarrow> string" where
  "delete_rel source_base path =
    (let logical_entry = normalize_logical path;
         logical_source = normalize_logical (to_logical_string source_base);
         whole = (case strip_prefix ''/'' logical_entry of Some r \<Rightarrow> r | None \<Rightarrow> logical_entry)
     in case strip_prefix logical_source logical_entry of
          None \<Rightarrow> whole
        | Some r \<Rightarrow>
            (let r = (case strip_prefix ''/'' r of Some r \<Rightarrow> r | None \<Rightarrow> r)
             in if r \<noteq> [] then r else whole))"

definition delete_file_target :: "string \<Rightarrow> string \<Rightarrow> string \<Rightarrow> string" where
  "delete_file_target source_base target_base path =
    foldl path_join target_base (split_on CHR ''/'' (delete_rel source_base path))"

type_synonym delete_run = "target_fs \<times> delete_stats"

definition delete_one_file ::
  "retry_policy \<Rightarrow> (nat \<Rightarrow> string) option \<Rightarrow> string \<Rightarrow> delete_run \<Rightarrow> delete_run option" where
  "delete_one_file policy recorder target_path run =
    (let (fs, s) = run; p = os_path target_path
     in if \<not> tree_exists (tree fs) p then Some (fs, skipped_one s)
        else if tree_is_file (tree fs) p then
          attempt policy (remove_file p)
            (\<lambda>_ fs. Some (fs, file_deleted_one s))
            (\<lambda>e n fs. Some (fs_record recorder ''delete_file'' ItemFile target_path e n fs, failed_one s)) fs
        else Some (fs, skipped_one s))"

definition delete_one_dir ::
  "retry_policy \<Rightarrow> (nat \<Rightarrow> string) option \<Rightarrow> string \<Rightarrow> delete_run \<Rightarrow> delete_run option" where
  "delete_one_dir policy recorder target_path run =
    (let (fs, s) = run; p = os_path target_path
     in if \<not> tree_exists (tree fs) p then Some (fs, skipped_one s)
        else if tree_is_dir (tree fs) p then
          attempt policy (remove_dir p)
            (\<lambda>_ fs. Some (fs, dir_deleted_one s))
            (\<lambda>_ _ fs. attempt policy (remove_dir_all p)
               (\<lambda>_ fs. Some (fs, dir_deleted_one s))
               (\<lambda>e n fs. Some (fs_record recorder ''delete_dir'' ItemDirectory target_path e n fs, failed_one s)) fs)
            fs
        else Some (fs, skipped_one s))"

text \<open>The loop over the entries: files are removed at once, directories are collected.\<close>

fun delete_files_loop ::
  "retry_policy \<Rightarrow> (nat \<Rightarrow> string) option \<Rightarrow> string \<Rightarrow> string \<Rightarrow> delete_entry io list \<Rightarrow> string list \<Rightarrow>
   delete_run \<Rightarrow> (string list \<times> delete_run) option" where
  "delete_files_loop policy recorder src tgt [] dirs run = Some (dirs, run)"
| "delete_files_loop policy recorder src tgt (Inl e # es) dirs (fs, s) =
    delete_files_loop policy recorder src tgt es dirs (fs, failed_one s)"
| "delete_files_loop policy recorder src tgt (Inr entry # es) dirs (fs, s) =
    (case de_type entry of
       DeleteFile \<Rightarrow>
         Option.bind (delete_one_file policy recorder (delete_file_target src tgt (de_path entry)) (fs, processed_one s))
           (delete_files_loop policy recorder src tgt es dirs)
     | DeleteDir \<Rightarrow> delete_files_loop policy recorder src tgt es (dirs @ [de_path entry]) (fs, processed_one s))"

fun delete_dirs_loop ::
  "retry_policy \<Rightarrow> (nat \<Rightarrow> string) option \<Rightarrow> string \<Rightarrow> string \<Rightarrow> bool \<Rightarrow> string list \<Rightarrow> delete_run \<Rightarrow> delete_run option" where
  "delete_dirs_loop policy recorder src tgt logical [] run = Some run"
| "delete_dirs_loop policy recorder src tgt logical (d # ds) run =
    Option.bind (delete_one_dir policy recorder (make_relative_and_join src tgt d logical) run)
      (delete_dirs_loop policy recorder src tgt logical ds)"

definition process_deletes ::
  "json_dec \<Rightarrow> byte list option \<Rightarrow> string \<Rightarrow> string \<Rightarrow> retry_policy \<Rightarrow> (nat \<Rightarrow> string) option \<Rightarrow> target_fs \<Rightarrow>
   (io_error + delete_run) option" where
  "process_deletes dec ctrl_file src tgt policy recorder fs =
    (case ctrl_file of
       None \<Rightarrow> Some (Inr (fs, delete_stats_default))
     | Some file \<Rightarrow>
         (case delete_reader_open dec file of
            Inl e \<Rightarrow> Some (Inl e)
          | Inr (rest, h) \<Rightarrow>
              Option.bind (delete_files_loop policy recorder src tgt (read_entries delete_decode rest) []
                  (fs, delete_stats_default)) (\<lambda>(dirs, run).
              Option.bind (delete_dirs_loop policy recorder src tgt (source_root h \<noteq> []) (rev (sort dirs)) run)
                (\<lambda>run. Some (Inr run)))))"

definition run_delete_phase ::
  "(byte list \<Rightarrow> byte list) \<Rightarrow> json_dec \<Rightarrow> files \<Rightarrow> string \<Rightarrow> string \<Rightarrow> retry_policy \<Rightarrow> (nat \<Rightarrow> string) option \<Rightarrow>
   target_fs \<Rightarrow> (io_error + delete_run) option" where
  "run_delete_phase sha256 dec ctrl_dir src tgt policy recorder fs =
    (case find_primary_control_file sha256 ctrl_dir ''delete'' of
       None \<Rightarrow> Some (Inr (fs, delete_stats_default))
     | Some name \<Rightarrow> process_deletes dec (file_content ctrl_dir name) src tgt policy recorder fs)"

section \<open>Where files are removed\<close>

lemma foldl_path_join:
  assumes "\<forall>p \<in> set ps. CHR ''/'' \<notin> set p"
  shows "os_path (foldl path_join base ps) = foldl norm_step (os_path base) ps"
  using assms
proof (induction ps arbitrary: base)
  case Nil
  then show ?case by simp
next
  case (Cons p ps)
  then have p: "CHR ''/'' \<notin> set p" by simp
  then have "\<not> prefix ''/'' p" by (cases p) auto
  with p have "os_path (path_join base p) = norm_step (os_path base) p"
    by (simp add: os_path_join_rel split_on_id)
  with Cons show ?case by simp
qed

lemma os_path_delete_target:
  "os_path (delete_file_target src tgt path) = foldl norm_step (os_path tgt) (split_on CHR ''/'' (delete_rel src path))"
  unfolding delete_file_target_def by (rule foldl_path_join) (auto dest: split_on_no_sep)

lemma delete_rel_make:
  "path_join tgt (delete_rel src path) = make_relative_and_join src tgt path False"
  by (simp add: delete_rel_def make_relative_and_join_def Let_def split: option.splits)














section \<open>What is removed when no call fails\<close>


lemma fs_call_good: "fs_faults fs = [] \<Longrightarrow> fs_call partial act fs =
  (case act (tree fs) of Inl e \<Rightarrow> (Inl e, fs) | Inr t \<Rightarrow> (Inr (), fs\<lparr>tree := t\<rparr>))"
  by (simp add: fs_call_def Let_def split: sum.splits)















section \<open>Properties\<close>




text \<open>
  C38. A file entry whose path has, where the source directory ends, the source's last component with
  more characters behind it, does not remove the file it names: the source prefix is stripped inside the
  component although the path is relative to the source. With \<open>..\<close> behind it, a file beside the target
  directory is removed.
\<close>

theorem delete_phase_escapes:
  assumes "delete_reader_open dec file = Inr (rest, h)"
    and "read_entries delete_decode rest = [Inr \<lparr>de_type = DeleteFile, de_path = path\<rparr>]" and "fs_faults fs = []"
    and "norm_parts src = ss @ [a]" and "norm_parts path = ss @ (a @ ''..'') # rs" and "rs \<noteq> []"
    and "tree_at (tree fs) (butlast (os_path tgt) @ rs) = Some (TreeFile i)"
  shows "\<exists>s. process_deletes dec (Some file) src tgt policy recorder fs =
      Some (Inr (fs\<lparr>tree := tree_without ((=) (butlast (os_path tgt) @ rs)) (tree fs)\<rparr>, s)) \<and> files_deleted s = 1"
proof -
  have clean: "clean_part (a @ ''..'')" "\<forall>p \<in> set rs. clean_part p"
    using norm_parts_clean [of path] assms(5) by simp_all
  have rel: "make_relative_and_join src [] path False = join_with CHR ''/'' (''..'' # rs)"
    using make_rel_sibling [OF assms(4,5), of "[]"] by (simp add: path_join_def)
  have "delete_rel src path = join_with CHR ''/'' (''..'' # rs)"
    using delete_rel_make [of "[]" src path] rel by (simp add: path_join_def split: if_splits)
  then have "split_on CHR ''/'' (delete_rel src path) = ''..'' # rs"
    using clean(2) by (simp del: join_with.simps, intro split_join) (auto simp: clean_part_def)
  then have target: "os_path (delete_file_target src tgt path) = butlast (os_path tgt) @ rs"
    using clean(2) by (simp add: os_path_delete_target foldl_norm_step_clean norm_step_def)
  let ?p = "butlast (os_path tgt) @ rs"
  have "remove_file ?p fs = (Inr (), fs\<lparr>tree := tree_without ((=) ?p) (tree fs)\<rparr>)"
    using assms(3,7) by (simp add: remove_file_def fs_call_good)
  moreover have "tree_exists (tree fs) ?p" "tree_is_file (tree fs) ?p"
    using assms(7) by (simp_all add: tree_exists_def tree_is_file_def tree_stat_plain)
  ultimately show ?thesis
    using assms(1,2) by (simp add: process_deletes_def delete_one_file_def Let_def target attempt_first
        delete_stats_default_def)
qed

text \<open>
  A symbolic link in the target whose destination is missing or is no regular file is never removed,
  although the control file lists it: \<^verbatim>\<open>exists\<close> and \<^verbatim>\<open>is_file\<close> follow the link.
\<close>

theorem delete_phase_keeps_links:
  assumes "delete_reader_open dec file = Inr (rest, h)"
    and "read_entries delete_decode rest = [Inr \<lparr>de_type = DeleteFile, de_path = path\<rparr>]"
    and "os_path (delete_file_target src tgt path) = p"
    and "tree_at (tree fs) p = Some (TreeLink q)" and "\<not> tree_is_file (tree fs) p"
  shows "\<exists>s. process_deletes dec (Some file) src tgt policy recorder fs = Some (Inr (fs, s))
    \<and> entries_failed s = 0 \<and> entries_skipped s = 1"
  using assms by (auto simp: process_deletes_def delete_one_file_def Let_def delete_stats_default_def)


section \<open>Concrete runs\<close>

lemma delete_counts_source: "source_root (fold delete_count es h) = source_root h"
  by (induction es arbitrary: h) (simp_all add: Let_def split: delete_entry_type.splits)

lemma sample_delete_file:
  assumes "\<forall>e \<in> set es. length (de_path e) < 1000 \<and> (\<forall>c \<in> set (de_path e). of_char c < (128 :: nat))"
  obtains ctrl rest h where "delete_reader_open plain_json_dec ctrl = Inr (rest, h)" "source_root h = ''/srv''"
    "read_entries delete_decode rest = map Inr es"
proof -
  have "\<exists>w w' f. create_record_writer plain_json_enc DELETE_MAGIC sample_header = Inr w
    \<and> write_all delete_write_entry w es = Inr w'
    \<and> finish_record_writer plain_json_enc DELETE_MAGIC w' = Inr f"
    by (rule sample_run; (rule delete_write_short)?) (use assms in \<open>auto simp: DELETE_MAGIC_def\<close>)
  then obtain w w' f where run: "create_record_writer plain_json_enc DELETE_MAGIC sample_header = Inr w"
    "write_all delete_write_entry w es = Inr w'" "finish_record_writer plain_json_enc DELETE_MAGIC w' = Inr f"
    by auto
  have "\<forall>e \<in> set es. delete_wf e"
    using assms by (auto simp: delete_wf_def intro!: rust_string_ascii)
  from del.file_roundtrip [OF plain_json_codec run(1) _ run(2) this run(3)]
  show thesis
    by (auto simp: delete_counts_source delete_reader_open_def intro: that)
qed

definition sample_tree :: tree where
  "sample_tree =
    [([''backup''], TreeDir 0 0), ([''backup'', ''a''], TreeDir 0 0), ([''backup'', ''a'', ''f''], TreeFile 1),
     ([''backup'', ''g''], TreeFile 2), ([''backup'', ''h''], TreeLink [''gone'']), ([''keys''], TreeFile 3)]"

definition sample_target :: target_fs where
  "sample_target = \<lparr>tree = sample_tree, fs_faults = [], fs_failures = []\<rparr>"




theorem delete_phase_escapes_witness:
  "\<exists>ctrl s. process_deletes plain_json_dec (Some ctrl) ''/data'' ''/backup'' \<lparr>max_retries = 3\<rparr> None sample_target =
      Some (Inr (sample_target\<lparr>tree := tree_without ((=) [''keys'']) sample_tree\<rparr>, s)) \<and> files_deleted s = 1"
proof -
  obtain ctrl rest h where f: "delete_reader_open plain_json_dec ctrl = Inr (rest, h)" "source_root h = ''/srv''"
    "read_entries delete_decode rest = map Inr [\<lparr>de_type = DeleteFile, de_path = ''/data../keys''\<rparr>]"
    by (rule sample_delete_file [of "[\<lparr>de_type = DeleteFile, de_path = ''/data../keys''\<rparr>]"]) auto
  have p: "norm_parts ''/data'' = [] @ [''data'']" "norm_parts ''/data../keys'' = [] @ (''data'' @ ''..'') # [''keys'']"
    "os_path ''/backup'' = [''backup'']"
    by code_simp+
  from delete_phase_escapes [OF f(1) f(3) [simplified] _ p(1,2), of sample_target "''/backup''" 3 "\<lparr>max_retries = 3\<rparr>" None]
  show ?thesis by (auto simp: sample_target_def sample_tree_def tree_at_def p(3))
qed

theorem delete_phase_keeps_links_witness:
  "\<exists>ctrl s. process_deletes plain_json_dec (Some ctrl) ''/data'' ''/backup'' \<lparr>max_retries = 3\<rparr> None sample_target =
      Some (Inr (sample_target, s)) \<and> entries_skipped s = 1"
proof -
  obtain ctrl rest h where f: "delete_reader_open plain_json_dec ctrl = Inr (rest, h)" "source_root h = ''/srv''"
    "read_entries delete_decode rest = map Inr [\<lparr>de_type = DeleteFile, de_path = ''/h''\<rparr>]"
    by (rule sample_delete_file [of "[\<lparr>de_type = DeleteFile, de_path = ''/h''\<rparr>]"]) auto
  have p: "os_path (delete_file_target ''/data'' ''/backup'' ''/h'') = [''backup'', ''h'']" by code_simp
  have k: "tree_is_file (tree sample_target) [''backup'', ''h''] = False" by code_simp
  from delete_phase_keeps_links [OF f(1) f(3) [simplified] p, of sample_target "[''gone'']" "\<lparr>max_retries = 3\<rparr>" None] k
  show ?thesis by (auto simp: sample_target_def sample_tree_def tree_at_def)
qed

end
