(* ===== verification/MtimePhase.thy ===== *)
theory MtimePhase
  imports TargetTree MtimeControl ControlFiles
begin

text \<open>
  \<^verbatim>\<open>native/backup/mtime.rs\<close>: the last phase of a local backup, which gives the directories of the
  target the times recorded for them, after the copy into them has changed these.
\<close>

section \<open>The phase\<close>

record mtime_stats =
  dirs_processed :: u64
  dirs_restored :: u64
  dirs_failed :: u64
  dirs_skipped :: u64

definition mtime_stats_default :: mtime_stats where
  "mtime_stats_default = \<lparr>dirs_processed = 0, dirs_restored = 0, dirs_failed = 0, dirs_skipped = 0\<rparr>"

text \<open>\<^verbatim>\<open>utimensat\<close> follows links. The times of a file are not part of the tree.\<close>

definition tree_set_times :: "string list \<Rightarrow> u64 \<Rightarrow> u64 \<Rightarrow> tree \<Rightarrow> tree" where
  "tree_set_times p a m t =
    map (\<lambda>(q, e). (q, if q = p then (case e of TreeDir _ _ \<Rightarrow> TreeDir a m | _ \<Rightarrow> e) else e)) t"

definition set_dir_times :: "string list \<Rightarrow> u64 \<Rightarrow> u64 \<Rightarrow> unit fs_op" where
  "set_dir_times p atime mtime = fs_call (\<lambda>_ t. t) (\<lambda>t.
    case follow 40 t p of
      None \<Rightarrow> Inl (errno 40)
    | Some q \<Rightarrow> (if tree_at t q = None then Inl (errno 2) else Inr (tree_set_times q atime mtime t)))"

definition mtime_one ::
  "retry_policy \<Rightarrow> (nat \<Rightarrow> string) option \<Rightarrow> string \<Rightarrow> mtime_dir_entry \<Rightarrow> target_fs \<times> mtime_stats \<Rightarrow>
   (target_fs \<times> mtime_stats) option" where
  "mtime_one policy recorder target_path entry run =
    (let (fs, s) = run; p = os_path target_path
     in if \<not> tree_exists (tree fs) p then Some (fs, s\<lparr>dirs_skipped := dirs_skipped s + 1\<rparr>)
        else attempt policy (set_dir_times p (md_atime entry) (md_mtime entry))
          (\<lambda>_ fs. Some (fs, s\<lparr>dirs_restored := dirs_restored s + 1\<rparr>))
          (\<lambda>e n fs. Some (fs_record recorder ''set_mtime'' ItemDirectory target_path e n fs,
             s\<lparr>dirs_failed := dirs_failed s + 1\<rparr>)) fs)"

fun mtime_loop ::
  "retry_policy \<Rightarrow> (nat \<Rightarrow> string) option \<Rightarrow> string \<Rightarrow> string \<Rightarrow> bool \<Rightarrow> mtime_dir_entry io list \<Rightarrow>
   target_fs \<times> mtime_stats \<Rightarrow> (target_fs \<times> mtime_stats) option" where
  "mtime_loop policy recorder src tgt logical [] run = Some run"
| "mtime_loop policy recorder src tgt logical (Inl e # es) (fs, s) =
    mtime_loop policy recorder src tgt logical es (fs, s\<lparr>dirs_failed := dirs_failed s + 1\<rparr>)"
| "mtime_loop policy recorder src tgt logical (Inr entry # es) (fs, s) =
    Option.bind (mtime_one policy recorder (make_relative_and_join src tgt (md_path entry) logical) entry
        (fs, s\<lparr>dirs_processed := dirs_processed s + 1\<rparr>))
      (mtime_loop policy recorder src tgt logical es)"

definition process_mtime ::
  "json_dec \<Rightarrow> byte list option \<Rightarrow> string \<Rightarrow> string \<Rightarrow> retry_policy \<Rightarrow> (nat \<Rightarrow> string) option \<Rightarrow> target_fs \<Rightarrow>
   (io_error + target_fs \<times> mtime_stats) option" where
  "process_mtime dec ctrl_file src tgt policy recorder fs =
    (case ctrl_file of
       None \<Rightarrow> Some (Inr (fs, mtime_stats_default))
     | Some ctrl \<Rightarrow>
         (case mtime_reader_open dec ctrl of
            Inl e \<Rightarrow> Some (Inl e)
          | Inr (rest, h) \<Rightarrow>
              map_option Inr (mtime_loop policy recorder src tgt (source_root h \<noteq> [])
                (read_entries mtime_decode rest) (fs, mtime_stats_default))))"

definition run_mtime_phase ::
  "(byte list \<Rightarrow> byte list) \<Rightarrow> json_dec \<Rightarrow> files \<Rightarrow> string \<Rightarrow> string \<Rightarrow> retry_policy \<Rightarrow> (nat \<Rightarrow> string) option \<Rightarrow>
   target_fs \<Rightarrow> (io_error + target_fs \<times> mtime_stats) option" where
  "run_mtime_phase sha256 dec ctrl_dir src tgt policy recorder fs =
    (case find_primary_control_file sha256 ctrl_dir ''mtime'' of
       None \<Rightarrow> Some (Inr (fs, mtime_stats_default))
     | Some name \<Rightarrow> process_mtime dec (file_content ctrl_dir name) src tgt policy recorder fs)"

section \<open>The tree with new times\<close>

definition names :: "tree \<Rightarrow> string list list" where
  "names t = map fst t"

text \<open>An entry without the times of a directory.\<close>

fun timeless :: "tree_entry \<Rightarrow> tree_entry" where
  "timeless (TreeDir _ _) = TreeDir 0 0"
| "timeless e = e"

definition tree_timeless :: "tree \<Rightarrow> tree" where
  "tree_timeless t = map (\<lambda>(q, e). (q, timeless e)) t"

lemma tree_set_times_timeless [simp]: "tree_timeless (tree_set_times p a m t) = tree_timeless t"
  unfolding tree_timeless_def tree_set_times_def by (auto split: tree_entry.splits)

lemma map_of_map_entries: "map_of (map (\<lambda>(q, e). (q, f q e)) t) q = map_option (f q) (map_of t q)"
  by (induction t) auto

lemma tree_at_set_times: "q \<noteq> [] \<Longrightarrow> tree_at (tree_set_times p a m t) q =
  (case tree_at t q of Some (TreeDir x y) \<Rightarrow> Some (if q = p then TreeDir a m else TreeDir x y) | e \<Rightarrow> e)"
  unfolding tree_at_def tree_set_times_def
  by (auto simp: map_of_map_entries split: option.split tree_entry.split)

lemma set_dir_times_timeless:
  "set_dir_times p a m fs = (r, fs') \<Longrightarrow> tree_timeless (tree fs') = tree_timeless (tree fs)"
  by (auto simp: set_dir_times_def fs_call_def Let_def
      split: list.splits option.splits fs_fault.splits sum.splits if_splits)

lemma mtime_one_timeless:
  "\<exists>run'. mtime_one policy recorder p entry run = Some run'
    \<and> tree_timeless (tree (fst run')) = tree_timeless (tree (fst run))"
proof -
  obtain fs s where run: "run = (fs, s)" by (cases run)
  show ?thesis
    unfolding mtime_one_def run
    by (auto simp: Let_def simp del: split_paired_Ex
        intro!: attempt_rule [of "\<lambda>fs'. tree_timeless (tree fs') = tree_timeless (tree fs)"]
        dest!: set_dir_times_timeless)
qed

lemma mtime_loop_timeless:
  "\<exists>run'. mtime_loop policy recorder src tgt logical es run = Some run'
    \<and> tree_timeless (tree (fst run')) = tree_timeless (tree (fst run))"
proof (induction es arbitrary: run)
  case Nil
  then show ?case by simp
next
  case (Cons r es)
  obtain fs s where run: "run = (fs, s)" by (cases run)
  show ?case
  proof (cases r)
    case (Inl e)
    with Cons.IH [of "(fs, s\<lparr>dirs_failed := dirs_failed s + 1\<rparr>)"] run show ?thesis by simp
  next
    case (Inr entry)
    obtain run1 where one: "mtime_one policy recorder (make_relative_and_join src tgt (md_path entry) logical) entry
        (fs, s\<lparr>dirs_processed := dirs_processed s + 1\<rparr>) = Some run1"
      "tree_timeless (tree (fst run1)) = tree_timeless (tree fs)"
      using mtime_one_timeless [of policy recorder "make_relative_and_join src tgt (md_path entry) logical" entry
          "(fs, s\<lparr>dirs_processed := dirs_processed s + 1\<rparr>)"] by auto
    with Cons.IH [of run1] run Inr show ?thesis by simp
  qed
qed

text \<open>The times a directory gets: those of the last entry that lists it.\<close>

fun last_times :: "string \<Rightarrow> mtime_dir_entry list \<Rightarrow> string list \<Rightarrow> u64 \<times> u64 \<Rightarrow> u64 \<times> u64" where
  "last_times tgt [] p t = t"
| "last_times tgt (e # es) p t =
    last_times tgt es p (if p = os_path tgt @ norm_parts (md_path e) then (md_atime e, md_mtime e) else t)"

lemma mtime_one_good:
  assumes "fs_faults fs = []" and "tree_at (tree fs) (os_path p) = None \<or> (\<exists>a m. tree_at (tree fs) (os_path p) = Some (TreeDir a m))"
  shows "\<exists>s'. mtime_one policy recorder p entry (fs, s) =
      Some (fs\<lparr>tree := tree_set_times (os_path p) (md_atime entry) (md_mtime entry) (tree fs)\<rparr>, s')
    \<and> dirs_failed s' = dirs_failed s"
proof (cases "tree_at (tree fs) (os_path p)")
  case None
  then have "tree_set_times (os_path p) a m (tree fs) = tree fs" for a m
    unfolding tree_set_times_def
    by (intro map_idI) (auto simp: tree_at_def map_of_eq_None_iff image_iff split: if_splits)
  with None show ?thesis
    by (simp add: mtime_one_def tree_exists_def tree_stat_plain Let_def)
next
  case (Some e)
  with assms(2) obtain a m where d: "tree_at (tree fs) (os_path p) = Some (TreeDir a m)" by auto
  then have "follow 40 (tree fs) (os_path p) = Some (os_path p)"
    by (simp add: numeral_eq_Suc)
  with d assms(1) have "set_dir_times (os_path p) (md_atime entry) (md_mtime entry) fs =
      (Inr (), fs\<lparr>tree := tree_set_times (os_path p) (md_atime entry) (md_mtime entry) (tree fs)\<rparr>)"
    by (simp add: set_dir_times_def fs_call_def Let_def)
  with d show ?thesis
    by (simp add: mtime_one_def tree_exists_def tree_stat_plain Let_def attempt_first)
qed

lemma mtime_loop_good:
  assumes "fs_faults fs = []" and "os_path tgt \<noteq> []"
    and "\<And>e. e \<in> set es \<Longrightarrow> tree_at (tree fs) (os_path tgt @ norm_parts (md_path e)) = None
      \<or> (\<exists>a m. tree_at (tree fs) (os_path tgt @ norm_parts (md_path e)) = Some (TreeDir a m))"
  shows "\<exists>fs' s'. mtime_loop policy recorder src tgt True (map Inr es) (fs, s) = Some (fs', s')
    \<and> dirs_failed s' = dirs_failed s
    \<and> (\<forall>p a m. p \<noteq> [] \<longrightarrow> tree_at (tree fs) p = Some (TreeDir a m) \<longrightarrow>
         tree_at (tree fs') p = Some (case last_times tgt es p (a, m) of (a', m') \<Rightarrow> TreeDir a' m'))"
  using assms
proof (induction es arbitrary: fs s)
  case Nil
  then show ?case by simp
next
  case (Cons e es)
  let ?p = "make_relative_and_join src tgt (md_path e) True"
  have p: "os_path ?p = os_path tgt @ norm_parts (md_path e)"
    by (simp add: path_simps norm_parts_clean)
  from mtime_one_good [of fs ?p policy recorder e "s\<lparr>dirs_processed := dirs_processed s + 1\<rparr>"] Cons.prems p
  obtain s1 where s1: "mtime_one policy recorder ?p e (fs, s\<lparr>dirs_processed := dirs_processed s + 1\<rparr>) =
      Some (fs\<lparr>tree := tree_set_times (os_path ?p) (md_atime e) (md_mtime e) (tree fs)\<rparr>, s1)"
    "dirs_failed s1 = dirs_failed s"
    by fastforce
  let ?fs = "fs\<lparr>tree := tree_set_times (os_path ?p) (md_atime e) (md_mtime e) (tree fs)\<rparr>"
  have "tree_at (tree ?fs) (os_path tgt @ norm_parts (md_path e')) = None
      \<or> (\<exists>a m. tree_at (tree ?fs) (os_path tgt @ norm_parts (md_path e')) = Some (TreeDir a m))"
    if "e' \<in> set es" for e'
    using Cons.prems(2) Cons.prems(3) [of e'] that by (fastforce simp: tree_at_set_times split: if_splits)
  from Cons.IH [of ?fs s1] this Cons.prems obtain fs' s' where
    "mtime_loop policy recorder src tgt True (map Inr es) (?fs, s1) = Some (fs', s')" "dirs_failed s' = dirs_failed s1"
    and at: "\<And>p a m. p \<noteq> [] \<Longrightarrow> tree_at (tree ?fs) p = Some (TreeDir a m) \<Longrightarrow>
         tree_at (tree fs') p = Some (case last_times tgt es p (a, m) of (a', m') \<Rightarrow> TreeDir a' m')"
    by auto
  moreover have "tree_at (tree fs') p = Some (case last_times tgt (e # es) p (a, m) of (a', m') \<Rightarrow> TreeDir a' m')"
    if "p \<noteq> []" "tree_at (tree fs) p = Some (TreeDir a m)" for p a m
    using at [OF that(1)] that p by (cases "p = os_path tgt @ norm_parts (md_path e)") (auto simp: tree_at_set_times)
  ultimately show ?case using s1 by auto
qed

section \<open>Properties\<close>

text \<open>
  C17. The mtime phase always returns and changes nothing but the times of directories, whatever calls
  fail. When none fails, every directory of the target has afterwards the times of the last entry that lists it,
  and the times it had if none does.
\<close>

theorem mtime_phase_times:
  assumes "mtime_reader_open dec ctrl = Inr (rest, h)" and "source_root h \<noteq> []"
    and "read_entries mtime_decode rest = map Inr es" and "os_path tgt \<noteq> []"
    and "\<forall>e \<in> set es. case tree_at (tree fs) (os_path tgt @ norm_parts (md_path e)) of
      None \<Rightarrow> True | Some x \<Rightarrow> timeless x = TreeDir 0 0"
  shows "\<exists>fs' s. process_mtime dec (Some ctrl) src tgt policy recorder fs = Some (Inr (fs', s))
    \<and> tree_timeless (tree fs') = tree_timeless (tree fs)
    \<and> (fs_faults fs = [] \<longrightarrow> dirs_failed s = 0 \<and>
        (\<forall>p a m. p \<noteq> [] \<longrightarrow> tree_at (tree fs) p = Some (TreeDir a m) \<longrightarrow>
          tree_at (tree fs') p = Some (case last_times tgt es p (a, m) of (a', m') \<Rightarrow> TreeDir a' m')))"
proof -
  let ?run = "mtime_loop policy recorder src tgt True (map Inr es) (fs, mtime_stats_default)"
  obtain fs' s where run: "?run = Some (fs', s)" and keep: "tree_timeless (tree fs') = tree_timeless (tree fs)"
    using mtime_loop_timeless [of policy recorder src tgt True "map Inr es" "(fs, mtime_stats_default)"] by auto
  have dirs: "tree_at (tree fs) (os_path tgt @ norm_parts (md_path e)) = None
      \<or> (\<exists>a m. tree_at (tree fs) (os_path tgt @ norm_parts (md_path e)) = Some (TreeDir a m))" if "e \<in> set es" for e
  proof (cases "tree_at (tree fs) (os_path tgt @ norm_parts (md_path e))")
    case (Some x)
    with assms(5) that show ?thesis by (cases x) force+
  qed simp
  have "dirs_failed s = 0 \<and> (\<forall>p a m. p \<noteq> [] \<longrightarrow> tree_at (tree fs) p = Some (TreeDir a m) \<longrightarrow>
          tree_at (tree fs') p = Some (case last_times tgt es p (a, m) of (a', m') \<Rightarrow> TreeDir a' m'))"
    if "fs_faults fs = []"
    using mtime_loop_good [OF that assms(4) dirs, where es = es and policy = policy and recorder = recorder and src = src and s = mtime_stats_default] run
    by (auto simp: mtime_stats_default_def)
  with run keep show ?thesis
    using assms(1-3) by (auto simp: process_mtime_def)
qed


section \<open>A concrete run\<close>

lemma mtime_counts_source: "source_root (fold mtime_count es h) = source_root h"
  by (induction es arbitrary: h) (simp_all add: mtime_count_def)

lemma sample_mtime_file:
  assumes "\<forall>e \<in> set es. length (md_path e) < 1000 \<and> (\<forall>c \<in> set (md_path e). of_char c < (128 :: nat))"
  obtains ctrl rest h where "mtime_reader_open plain_json_dec ctrl = Inr (rest, h)" "source_root h = ''/srv''"
    "read_entries mtime_decode rest = map Inr es"
proof -
  have "\<exists>w w' f. create_record_writer plain_json_enc MTIME_MAGIC sample_header = Inr w
    \<and> write_all mtime_write_dir w es = Inr w'
    \<and> finish_record_writer plain_json_enc MTIME_MAGIC w' = Inr f"
    by (rule sample_run; (rule mtime_write_short)?) (use assms in \<open>auto simp: MTIME_MAGIC_def\<close>)
  then obtain w w' f where run: "create_record_writer plain_json_enc MTIME_MAGIC sample_header = Inr w"
    "write_all mtime_write_dir w es = Inr w'" "finish_record_writer plain_json_enc MTIME_MAGIC w' = Inr f"
    by auto
  have "\<forall>e \<in> set es. mtime_wf e"
    using assms by (auto simp: mtime_wf_def intro!: rust_string_ascii)
  from mt.file_roundtrip [OF plain_json_codec run(1) _ run(2) this run(3)]
  show thesis
    by (auto simp: mtime_counts_source mtime_reader_open_def intro: that)
qed

definition sample_times :: "mtime_dir_entry list" where
  "sample_times =
    [\<lparr>md_path = ''/a'', md_mode = 493, md_uid = 0, md_gid = 0, md_atime = 5, md_mtime = 6\<rparr>,
     \<lparr>md_path = ''/a'', md_mode = 493, md_uid = 0, md_gid = 0, md_atime = 7, md_mtime = 8\<rparr>]"

theorem mtime_phase_times_witness:
  "\<exists>ctrl fs' s. process_mtime plain_json_dec (Some ctrl) ''/data'' ''/backup'' \<lparr>max_retries = 3\<rparr> None
      \<lparr>tree = [([''backup'', ''a''], TreeDir 1 2), ([''backup'', ''b''], TreeDir 3 4)], fs_faults = [], fs_failures = []\<rparr>
      = Some (Inr (fs', s))
    \<and> tree_at (tree fs') [''backup'', ''a''] = Some (TreeDir 7 8) \<and> tree_at (tree fs') [''backup'', ''b''] = Some (TreeDir 3 4)"
proof -
  obtain ctrl rest h where f: "mtime_reader_open plain_json_dec ctrl = Inr (rest, h)" "source_root h = ''/srv''"
    "read_entries mtime_decode rest = map Inr sample_times"
    by (rule sample_mtime_file [of sample_times]) (auto simp: sample_times_def)
  let ?fs = "\<lparr>tree = [([''backup'', ''a''], TreeDir 1 2), ([''backup'', ''b''], TreeDir 3 4)],
    fs_faults = [], fs_failures = []\<rparr>"
  have paths: "os_path ''/backup'' = [''backup'']" "norm_parts ''a'' = [''a'']"
    by code_simp+
  have "\<exists>fs' s. process_mtime plain_json_dec (Some ctrl) ''/data'' ''/backup'' \<lparr>max_retries = 3\<rparr> None ?fs = Some (Inr (fs', s))
    \<and> tree_timeless (tree fs') = tree_timeless (tree ?fs)
    \<and> (fs_faults ?fs = [] \<longrightarrow> dirs_failed s = 0 \<and>
        (\<forall>p a m. p \<noteq> [] \<longrightarrow> tree_at (tree ?fs) p = Some (TreeDir a m) \<longrightarrow>
          tree_at (tree fs') p = Some (case last_times ''/backup'' sample_times p (a, m) of (a', m') \<Rightarrow> TreeDir a' m')))"
    by (rule mtime_phase_times [OF f(1) _ f(3)]) (auto simp: f(2) paths sample_times_def tree_at_def)
  then obtain fs' s where "process_mtime plain_json_dec (Some ctrl) ''/data'' ''/backup'' \<lparr>max_retries = 3\<rparr> None ?fs
      = Some (Inr (fs', s))"
    and at: "\<And>p a m. p \<noteq> [] \<Longrightarrow> tree_at (tree ?fs) p = Some (TreeDir a m) \<Longrightarrow>
      tree_at (tree fs') p = Some (case last_times ''/backup'' sample_times p (a, m) of (a', m') \<Rightarrow> TreeDir a' m')"
    by auto
  moreover have "tree_at (tree fs') [''backup'', ''a''] = Some (TreeDir 7 8)"
    using at [of "[''backup'', ''a'']" 1 2] by (simp add: tree_at_def sample_times_def paths)
  moreover have "tree_at (tree fs') [''backup'', ''b''] = Some (TreeDir 3 4)"
    using at [of "[''backup'', ''b'']" 3 4] by (simp add: tree_at_def sample_times_def paths)
  ultimately show ?thesis by blast
qed

end
