(* ===== verification/FollowupPhases.thy ===== *)
theory FollowupPhases
  imports HardlinkPhase DeletePhase MtimePhase
begin





section \<open>The phases always return\<close>











section \<open>Properties\<close>


end
