(* ===== verification/DiskOps.thy ===== *)
theory DiskOps
  imports LocalTransport PathUtil
begin

text \<open>
  The calls of \<^verbatim>\<open>std::fs\<close> the blob and index code makes, on the disk of \<^verbatim>\<open>LocalTransport\<close>: every
  call may fail, a write after some of its bytes, a read may be short. \<^verbatim>\<open>File::flush\<close> does nothing on an
  unbuffered file.
\<close>

type_synonym 'a disk_op = "disk \<Rightarrow> (string + 'a) \<times> disk"

definition give :: "'a \<Rightarrow> 'a disk_op" where
  "give v d = (Inr v, d)"

definition give_up :: "string \<Rightarrow> 'a disk_op" where
  "give_up msg d = (Inl msg, d)"

definition disk_then :: "'a disk_op \<Rightarrow> ('a \<Rightarrow> 'b disk_op) \<Rightarrow> 'b disk_op" where
  "disk_then m f d = (case m d of (Inl e, d) \<Rightarrow> (Inl e, d) | (Inr v, d) \<Rightarrow> f v d)"

definition disk_call :: "(nat \<Rightarrow> disk \<Rightarrow> disk) \<Rightarrow> 'a disk_op \<Rightarrow> 'a disk_op" where
  "disk_call partial act d =
    (case next_fault d of
       Some (OpenFails msg) \<Rightarrow> (Inl msg, after_fault d)
     | Some (DataFails n msg) \<Rightarrow> (Inl msg, partial n (after_fault d))
     | None \<Rightarrow> act (after_fault d))"

definition on_files :: "(files \<Rightarrow> files) \<Rightarrow> disk \<Rightarrow> disk" where
  "on_files f d = d\<lparr>disk_files := f (disk_files d)\<rparr>"

definition create_dir_all :: "string \<Rightarrow> unit disk_op" where
  "create_dir_all path = disk_call (\<lambda>_ d. d) (give ())"

definition file_create :: "string \<Rightarrow> unit disk_op" where
  "file_create path = disk_call (\<lambda>_ d. d) (\<lambda>d. (Inr (), on_files (\<lambda>fs. file_set fs path []) d))"

definition write_all :: "string \<Rightarrow> byte list \<Rightarrow> unit disk_op" where
  "write_all path bs =
    disk_call (\<lambda>n. on_files (\<lambda>fs. file_append fs path (take n bs)))
      (\<lambda>d. (Inr (), on_files (\<lambda>fs. file_append fs path bs) d))"

definition file_open :: "string \<Rightarrow> unit disk_op" where
  "file_open path = disk_call (\<lambda>_ d. d) (\<lambda>d.
    case file_content (disk_files d) path of None \<Rightarrow> (Inl ''No such file or directory'', d) | Some c \<Rightarrow> (Inr (), d))"

definition content_of :: "disk \<Rightarrow> string \<Rightarrow> byte list" where
  "content_of d path = (case file_content (disk_files d) path of None \<Rightarrow> [] | Some c \<Rightarrow> c)"

text \<open>One read at a position, of at most \<open>m\<close> bytes, and the reads to the end.\<close>

definition file_read :: "string \<Rightarrow> nat \<Rightarrow> nat \<Rightarrow> byte list disk_op" where
  "file_read path pos m = disk_call (\<lambda>_ d. d) (\<lambda>d.
    let bs = take m (drop pos (content_of d path))
    in (Inr (take (read_amount d (length bs)) bs), d\<lparr>disk_reads := tl (disk_reads d)\<rparr>))"

definition read_to_end :: "string \<Rightarrow> byte list disk_op" where
  "read_to_end path = disk_call (\<lambda>_ d. d) (\<lambda>d. (Inr (content_of d path), d))"

definition file_rename :: "string \<Rightarrow> string \<Rightarrow> unit disk_op" where
  "file_rename old new = disk_call (\<lambda>_ d. d) (\<lambda>d.
    case file_content (disk_files d) old of
      None \<Rightarrow> (Inl ''No such file or directory'', d)
    | Some c \<Rightarrow> (Inr (), on_files (\<lambda>fs. file_set (AList.delete old fs) new c) d))"

section \<open>What the calls change\<close>

named_theorems disk_simps

lemma disk_then_simps [disk_simps]:
  "disk_then (give v) f d = f v d"
  "m d = (Inl e, d') \<Longrightarrow> disk_then m f d = (Inl e, d')"
  "m d = (Inr v, d') \<Longrightarrow> disk_then m f d = f v d'"
  by (simp_all add: disk_then_def give_def)

lemma disk_then_Inr:
  "disk_then m f d = (Inr w, d'') \<longleftrightarrow> (\<exists>v d'. m d = (Inr v, d') \<and> f v d' = (Inr w, d''))"
  by (auto simp: disk_then_def split: prod.splits sum.splits)

lemma give_eq [disk_simps]: "give v d = (Inr v, d)" by (simp add: give_def)

lemma on_files_simps [simp]:
  "disk_files (on_files f d) = f (disk_files d)" "disk_reads (on_files f d) = disk_reads d"
  "disk_faults (on_files f d) = disk_faults d"
  by (simp_all add: on_files_def)

lemma disk_files_reads [simp]: "disk_files (d\<lparr>disk_reads := r\<rparr>) = disk_files d" by simp

lemma content_of_on_files [simp]:
  "content_of (on_files (\<lambda>fs. file_set fs path c) d) p = (if p = path then c else content_of d p)"
  "content_of (on_files (\<lambda>fs. file_append fs path c) d) p = (if p = path then content_of d p @ c else content_of d p)"
  by (auto simp: content_of_def split: option.splits)

lemma file_content_delete [simp]:
  "file_content (AList.delete old fs) n = (if n = old then None else file_content fs n)"
  by (simp add: file_content_def delete_conv')

text \<open>
  A call touches only the files it names: whatever happens, it leaves the others alone. \<open>leaves P\<close> says that
  of the files satisfying \<open>P\<close>.
\<close>

definition leaves :: "(string \<Rightarrow> bool) \<Rightarrow> 'a disk_op \<Rightarrow> bool" where
  "leaves P m \<longleftrightarrow> (\<forall>d p. P p \<longrightarrow> file_content (disk_files (snd (m d))) p = file_content (disk_files d) p)"

named_theorems leaves_intros

lemma leavesD: "leaves P m \<Longrightarrow> m d = (r, d') \<Longrightarrow> P p \<Longrightarrow> file_content (disk_files d') p = file_content (disk_files d) p"
  unfolding leaves_def by (metis snd_conv)

lemma leaves_then [leaves_intros]: "leaves P m \<Longrightarrow> (\<And>v. leaves P (f v)) \<Longrightarrow> leaves P (disk_then m f)"
  unfolding leaves_def disk_then_def by (simp split: prod.splits sum.splits) (metis snd_conv)

lemma leaves_give [leaves_intros]: "leaves P (give v)" "leaves P (give_up e)"
  by (simp_all add: leaves_def give_def give_up_def)

lemma leaves_call [leaves_intros]:
  assumes "\<And>n d p. P p \<Longrightarrow> file_content (disk_files (partial n d)) p = file_content (disk_files d) p"
    and "leaves P act"
  shows "leaves P (disk_call partial act)"
  unfolding leaves_def
proof (intro allI impI)
  fix d p assume P: "P p"
  have a: "file_content (disk_files (snd (act (after_fault d)))) p = file_content (disk_files d) p"
    using assms(2) P by (simp add: leaves_def)
  show "file_content (disk_files (snd (disk_call partial act d))) p = file_content (disk_files d) p"
    by (auto simp: disk_call_def a assms(1) [OF P] split: option.splits io_fault.splits)
qed

lemma leaves_ops [leaves_intros]:
  "leaves P (create_dir_all path)" "leaves P (file_open path)" "leaves P (read_to_end path)"
  "leaves P (file_read path pos m)"
  "\<not> P path \<Longrightarrow> leaves P (file_create path)" "\<not> P path \<Longrightarrow> leaves P (write_all path bs)"
  "\<not> P old \<Longrightarrow> \<not> P new \<Longrightarrow> leaves P (file_rename old new)"
  unfolding create_dir_all_def file_open_def read_to_end_def file_read_def file_create_def write_all_def
    file_rename_def
  by (auto simp: leaves_def disk_call_def give_def Let_def split: option.splits io_fault.splits)

section \<open>Calls without faults\<close>

text \<open>The disk on which nothing fails; reads may still be short.\<close>

definition no_faults :: "disk \<Rightarrow> bool" where
  "no_faults d \<longleftrightarrow> (\<forall>f \<in> set (disk_faults d). f = None)"

lemma no_faults_after [simp]: "no_faults d \<Longrightarrow> no_faults (after_fault d)"
  by (cases "disk_faults d") (auto simp: no_faults_def after_fault_def)

lemma no_faults_simps [simp]:
  "no_faults (on_files f d) = no_faults d" "no_faults (d\<lparr>disk_reads := r\<rparr>) = no_faults d"
  "no_faults (d\<lparr>disk_files := fs\<rparr>) = no_faults d"
  by (simp_all add: no_faults_def)

lemma no_faults_next: "no_faults d \<Longrightarrow> next_fault d = None"
  by (cases "disk_faults d") (auto simp: no_faults_def next_fault_def)

lemma disk_call_good: "no_faults d \<Longrightarrow> disk_call partial act d = act (after_fault d)"
  by (simp add: disk_call_def no_faults_next)

lemma content_of_after [simp]: "content_of (after_fault d) p = content_of d p"
  by (simp add: content_of_def)

lemma content_of_reads [simp]: "content_of (d\<lparr>disk_reads := r\<rparr>) p = content_of d p"
  by (simp add: content_of_def)

section \<open>Paths\<close>

lemma join_with_snoc: "ps \<noteq> [] \<Longrightarrow> join_with c (ps @ [q]) = join_with c ps @ c # q"
  by (induction c ps rule: join_with.induct) auto

lemma dropWhile_no_dot: "CHR ''.'' \<notin> set ext \<Longrightarrow>
    dropWhile (\<lambda>c. c \<noteq> CHR ''.'') (rev (stem @ CHR ''.'' # ext)) = CHR ''.'' # rev stem"
  by (auto simp: dropWhile_append)

lemma file_stem_eq: "CHR ''.'' \<notin> set ext \<Longrightarrow> stem \<noteq> [] \<Longrightarrow> file_stem (stem @ CHR ''.'' # ext) = stem"
  unfolding file_stem_def dropWhile_no_dot by simp

lemma with_extension_eq:
  assumes "CHR ''.'' \<notin> set old" and "CHR ''/'' \<notin> set old" and "stem \<noteq> []" and "CHR ''/'' \<notin> set stem"
    and "stem @ CHR ''.'' # old \<noteq> ''..''"
  shows "path_with_extension (dir @ CHR ''/'' # stem @ CHR ''.'' # old) ext = dir @ CHR ''/'' # stem @ CHR ''.'' # ext"
proof -
  have s: "split_on CHR ''/'' (stem @ CHR ''.'' # old) = [stem @ CHR ''.'' # old]"
    using assms by (intro split_on_id) auto
  have "stem @ CHR ''.'' # old \<noteq> ''.''" using assms(3) by (cases stem) auto
  then show ?thesis using assms
    by (simp add: path_with_extension_def split_on_at s file_stem_eq join_with_snoc)
qed

text \<open>\<^verbatim>\<open>if let Some(parent) = path.parent()\<close>: the directory of a file is created when it is missing.\<close>

definition create_parent :: "string \<Rightarrow> unit disk_op" where
  "create_parent path = (case path_parent path of Some parent \<Rightarrow> create_dir_all parent | None \<Rightarrow> give ())"

lemma leaves_create_parent [leaves_intros]: "leaves P (create_parent path)"
  unfolding create_parent_def by (auto intro: leaves_intros split: option.splits)

lemma create_parent_good:
  assumes "no_faults d"
  obtains d' where "create_parent path d = (Inr (), d')" "disk_files d' = disk_files d" "no_faults d'"
  using assms by (cases "path_parent path") (simp_all add: create_parent_def give_def create_dir_all_def disk_call_good)

end
