(* ===== verification/AggregateIndex.thy ===== *)
theory AggregateIndex
  imports DiskOps
begin

text \<open>
  The data of \<^verbatim>\<open>backup/aggregate/mod.rs\<close> and the index of the shard layout,
  \<^verbatim>\<open>backup/aggregate/aggregate_index.rs\<close>: which blob holds which file. Bincode is a parameter; so is
  the order in which a \<^verbatim>\<open>HashMap\<close> is walked.
\<close>

section \<open>Blobs and their files\<close>

datatype aggregate_layout = DirLevel | Shard

definition layout_str :: "aggregate_layout \<Rightarrow> string" where
  "layout_str l = (case l of DirLevel \<Rightarrow> ''DIR_LEVEL'' | Shard \<Rightarrow> ''SHARD'')"

definition AGGREGATE_ROOT_DIR :: string where
  "AGGREGATE_ROOT_DIR = ''.AGGR''"

definition AGGREGATE_DIR_NAME :: string where
  "AGGREGATE_DIR_NAME = ''.AGGR_DIR''"

record aggregate_file_entry =
  afe_relative_path :: string
  afe_offset :: u64
  afe_size :: u64
  afe_ctime :: u64
  afe_mtime :: u64
  afe_mode :: u32
  afe_xattrs :: "string option"
  afe_acl :: "string option"

record aggregate_blob_meta =
  abm_blob_path :: string
  abm_blob_size :: u64
  abm_file_count :: u32
  abm_files :: "aggregate_file_entry list"
  abm_shard_id :: u16

record aggregate_config =
  agg_enabled :: bool
  agg_layout :: aggregate_layout
  max_blob_size :: u64
  file_threshold :: u64
  shard_count :: u16

definition aggregate_config_default :: aggregate_config where
  "aggregate_config_default =
    \<lparr>agg_enabled = False, agg_layout = Shard, max_blob_size = 64 * 1024 * 1024, file_threshold = 1024 * 1024,
     shard_count = 16\<rparr>"

definition aggregate_config_enabled :: aggregate_config where
  "aggregate_config_enabled = aggregate_config_default\<lparr>agg_enabled := True\<rparr>"

definition with_shard_count :: "u16 \<Rightarrow> aggregate_config \<Rightarrow> aggregate_config" where
  "with_shard_count count c = c\<lparr>shard_count := max count 1\<rparr>"

definition should_aggregate :: "u64 \<Rightarrow> aggregate_config \<Rightarrow> bool" where
  "should_aggregate file_size config \<longleftrightarrow>
    agg_enabled config \<and> file_size > 0 \<and> file_size < file_threshold config"

record aggregate_restore_info =
  ari_blob_path :: string
  ari_offset :: u64
  ari_size :: u64
  ari_mtime :: u64
  ari_mode :: u32
  ari_xattrs :: "string option"
  ari_acl :: "string option"

section \<open>The index\<close>

record binary_index_record =
  bir_relative_path :: string
  bir_blob_path :: string
  bir_offset :: u64
  bir_size :: u64
  bir_mtime :: u64
  bir_mode :: u32
  bir_xattrs :: "string option"
  bir_acl :: "string option"

type_synonym index_records = "(string \<times> aggregate_restore_info) list"

record aggregate_index =
  index_path :: string
  records :: index_records

definition BINARY_INDEX_FILE_NAME :: string where
  "BINARY_INDEX_FILE_NAME = ''AGGREGATE_INDEX.bidx''"

definition BINARY_INDEX_MAGIC :: "byte list" where
  "BINARY_INDEX_MAGIC = str_bytes ''BAGG0002''"

text \<open>What the code relies on: the order of a hash map is an order of its entries, and bincode reads back what it wrote.\<close>

record index_codec =
  enc_index :: "binary_index_record list \<Rightarrow> byte list"
  dec_index :: "byte list \<Rightarrow> string + binary_index_record list"
  hash_order :: "index_records \<Rightarrow> index_records"

definition hash_order_ok :: "index_codec \<Rightarrow> bool" where
  "hash_order_ok ic \<longleftrightarrow>
    (\<forall>m. set (hash_order ic m) = set m \<and> (distinct (map fst m) \<longrightarrow> distinct (map fst (hash_order ic m))))"

definition info_of_record :: "binary_index_record \<Rightarrow> aggregate_restore_info" where
  "info_of_record r =
    \<lparr>ari_blob_path = bir_blob_path r, ari_offset = bir_offset r, ari_size = bir_size r, ari_mtime = bir_mtime r,
     ari_mode = bir_mode r, ari_xattrs = bir_xattrs r, ari_acl = bir_acl r\<rparr>"

definition record_of_info :: "string \<times> aggregate_restore_info \<Rightarrow> binary_index_record" where
  "record_of_info e =
    \<lparr>bir_relative_path = fst e, bir_blob_path = ari_blob_path (snd e), bir_offset = ari_offset (snd e),
     bir_size = ari_size (snd e), bir_mtime = ari_mtime (snd e), bir_mode = ari_mode (snd e),
     bir_xattrs = ari_xattrs (snd e), bir_acl = ari_acl (snd e)\<rparr>"

definition reads_back :: "index_codec \<Rightarrow> index_records \<Rightarrow> bool" where
  "reads_back ic m \<longleftrightarrow>
    dec_index ic (enc_index ic (map record_of_info (hash_order ic m))) = Inr (map record_of_info (hash_order ic m))"

definition load_binary_index :: "index_codec \<Rightarrow> string \<Rightarrow> index_records disk_op" where
  "load_binary_index ic path =
    disk_then (file_open path) (\<lambda>_.
    disk_then (read_to_end path) (\<lambda>content.
      if length content < length BINARY_INDEX_MAGIC then give_up ''failed to fill whole buffer''
      else if take (length BINARY_INDEX_MAGIC) content \<noteq> BINARY_INDEX_MAGIC
      then give_up (''invalid aggregate index magic: '' @ path)
      else (case dec_index ic (drop (length BINARY_INDEX_MAGIC) content) of
              Inl e \<Rightarrow> give_up (''decode aggregate index: '' @ e)
            | Inr entries \<Rightarrow>
                give (fold (\<lambda>e. AList.update (bir_relative_path e) (info_of_record e)) entries []))))"

definition persist_binary_index :: "index_codec \<Rightarrow> string \<Rightarrow> index_records \<Rightarrow> unit disk_op" where
  "persist_binary_index ic path m =
    disk_then (create_parent path) (\<lambda>_.
      let temp_path = path_with_extension path ''tmp'' in
      disk_then (file_create temp_path) (\<lambda>_.
      disk_then (write_all temp_path BINARY_INDEX_MAGIC) (\<lambda>_.
      disk_then (write_all temp_path (enc_index ic (map record_of_info (hash_order ic m)))) (\<lambda>_.
        file_rename temp_path path))))"

definition aggregate_index_open :: "index_codec \<Rightarrow> string \<Rightarrow> aggregate_index disk_op" where
  "aggregate_index_open ic path =
    disk_then (create_parent path) (\<lambda>_ d.
      disk_then
        (if file_content (disk_files d) path \<noteq> None then load_binary_index ic path else give [])
        (\<lambda>m. give \<lparr>index_path = path, records = m\<rparr>) d)"

definition info_of_entry :: "aggregate_blob_meta \<Rightarrow> aggregate_file_entry \<Rightarrow> aggregate_restore_info" where
  "info_of_entry blob e =
    \<lparr>ari_blob_path = abm_blob_path blob, ari_offset = afe_offset e, ari_size = afe_size e, ari_mtime = afe_mtime e,
     ari_mode = afe_mode e, ari_xattrs = afe_xattrs e, ari_acl = afe_acl e\<rparr>"

definition add_blob :: "aggregate_blob_meta \<Rightarrow> aggregate_index \<Rightarrow> aggregate_index" where
  "add_blob blob i = i\<lparr>records :=
    fold (\<lambda>e. AList.update (afe_relative_path e) (info_of_entry blob e)) (abm_files blob) (records i)\<rparr>"

definition index_flush :: "index_codec \<Rightarrow> aggregate_index \<Rightarrow> unit disk_op" where
  "index_flush ic i = persist_binary_index ic (index_path i) (records i)"

definition query_file :: "aggregate_index \<Rightarrow> string \<Rightarrow> aggregate_restore_info option" where
  "query_file i relative_path = map_of (records i) relative_path"

definition is_aggregated :: "aggregate_index \<Rightarrow> string \<Rightarrow> bool" where
  "is_aggregated i relative_path \<longleftrightarrow> query_file i relative_path \<noteq> None"

section \<open>Maps as lists\<close>

lemma map_of_fold_update:
  "map_of (fold (\<lambda>e. AList.update (k e) (v e)) es m) = fold (\<lambda>e f. f(k e \<mapsto> v e)) es (map_of m)"
  by (induction es arbitrary: m) (simp_all add: update_conv')

lemma distinct_fold_update:
  "distinct (map fst m) \<Longrightarrow> distinct (map fst (fold (\<lambda>e. AList.update (k e) (v e)) es m))"
  by (induction es arbitrary: m) (simp_all add: distinct_update)

lemma fold_upd_map_of:
  "distinct (map k es) \<Longrightarrow> fold (\<lambda>e f. f(k e \<mapsto> v e)) es g x =
    (case map_of (map (\<lambda>e. (k e, v e)) es) x of None \<Rightarrow> g x | Some y \<Rightarrow> Some y)"
proof (induction es arbitrary: g)
  case (Cons e es)
  have "x = k e \<Longrightarrow> map_of (map (\<lambda>e. (k e, v e)) es) x = None"
    using Cons.prems by (auto simp: map_of_eq_None_iff)
  then show ?case using Cons by (auto split: option.splits)
qed simp

lemma info_of_record_of_info [simp]: "info_of_record (record_of_info e) = snd e"
  by (simp add: info_of_record_def record_of_info_def)

lemma length_magic [simp]: "length BINARY_INDEX_MAGIC = 8"
  by (simp add: BINARY_INDEX_MAGIC_def str_bytes_def)

lemma map_of_entries_permuted:
  assumes "hash_order_ok ic" and "distinct (map fst m)"
  shows "map_of (fold (\<lambda>e. AList.update (bir_relative_path e) (info_of_record e))
    (map record_of_info (hash_order ic m)) []) = map_of m"
proof -
  from assms have d: "distinct (map fst (hash_order ic m))" and s: "set (hash_order ic m) = set m"
    by (simp_all add: hash_order_ok_def)
  have k: "map bir_relative_path (map record_of_info (hash_order ic m)) = map fst (hash_order ic m)"
    by (simp add: record_of_info_def)
  have e: "map (\<lambda>e. (bir_relative_path e, info_of_record e)) (map record_of_info (hash_order ic m)) = hash_order ic m"
    by (simp add: comp_def) (simp add: record_of_info_def)
  have "map_of (fold (\<lambda>e. AList.update (bir_relative_path e) (info_of_record e))
      (map record_of_info (hash_order ic m)) []) = map_of (hash_order ic m)"
    using fold_upd_map_of [of bir_relative_path "map record_of_info (hash_order ic m)" info_of_record Map.empty] d
    unfolding map_of_fold_update k e by (auto split: option.splits)
  also have "\<dots> = map_of m"
    using d assms(2) s by (intro map_of_inject_set [THEN iffD2]) simp_all
  finally show ?thesis .
qed

definition index_file :: "index_codec \<Rightarrow> index_records \<Rightarrow> byte list" where
  "index_file ic m = BINARY_INDEX_MAGIC @ enc_index ic (map record_of_info (hash_order ic m))"

lemma load_index_file:
  assumes "hash_order_ok ic" and "reads_back ic m" and "distinct (map fst m)" and "no_faults d"
    and "file_content (disk_files d) path = Some (index_file ic m)"
  shows "\<exists>m' d'. load_binary_index ic path d = (Inr m', d') \<and> map_of m' = map_of m
    \<and> distinct (map fst m') \<and> disk_files d' = disk_files d \<and> no_faults d'"
  using assms map_of_entries_permuted [OF assms(1,3)] distinct_fold_update [of "[]"]
  by (simp add: load_binary_index_def disk_then_def file_open_def read_to_end_def disk_call_good
      content_of_def index_file_def give_def reads_back_def)

text \<open>Opening the index of a repository: an empty one when there is none.\<close>

definition index_content :: "index_codec \<Rightarrow> byte list option \<Rightarrow> (string \<Rightarrow> aggregate_restore_info option) \<Rightarrow> bool" where
  "index_content ic c q \<longleftrightarrow>
    (case c of None \<Rightarrow> q = Map.empty | Some b \<Rightarrow> \<exists>m. b = index_file ic m \<and> reads_back ic m \<and> distinct (map fst m) \<and> q = map_of m)"

lemma index_open_good:
  assumes "hash_order_ok ic" and "no_faults d" and "index_content ic (file_content (disk_files d) path) q"
  shows "\<exists>i d'. aggregate_index_open ic path d = (Inr i, d') \<and> query_file i = q \<and> index_path i = path
    \<and> distinct (map fst (records i)) \<and> disk_files d' = disk_files d \<and> no_faults d'"
proof -
  from create_parent_good [OF assms(2), of path] obtain d1 where
    p: "create_parent path d = (Inr (), d1)" and f1: "disk_files d1 = disk_files d" "no_faults d1" .
  show ?thesis
  proof (cases "file_content (disk_files d) path")
    case None
    with assms(3) f1 show ?thesis
      by (simp add: aggregate_index_open_def p give_def disk_then_def query_file_def
          index_content_def fun_eq_iff)
  next
    case (Some b)
    with assms(3) obtain m where m: "b = index_file ic m" "reads_back ic m" "distinct (map fst m)" "q = map_of m"
      by (auto simp: index_content_def)
    from load_index_file [OF assms(1) m(2,3) f1(2), of path] Some m(1) f1(1) obtain m' d' where
      "load_binary_index ic path d1 = (Inr m', d')" "map_of m' = map_of m" "distinct (map fst m')"
      "disk_files d' = disk_files d" "no_faults d'" by auto
    with Some f1 m(4) show ?thesis
      by (simp add: aggregate_index_open_def p disk_then_def give_def query_file_def fun_eq_iff)
  qed
qed

lemma index_tmp_path:
  "path_with_extension (dir @ CHR ''/'' # BINARY_INDEX_FILE_NAME) ''tmp'' = dir @ ''/AGGREGATE_INDEX.tmp''"
  using with_extension_eq [of "''bidx''" "''AGGREGATE_INDEX''" dir "''tmp''"] by (simp add: BINARY_INDEX_FILE_NAME_def)

lemma persist_cases:
  assumes "persist_binary_index ic (dir @ CHR ''/'' # BINARY_INDEX_FILE_NAME) m d = (r, d')"
  shows "r = Inr () \<and> file_content (disk_files d') (dir @ CHR ''/'' # BINARY_INDEX_FILE_NAME) = Some (index_file ic m)
    \<or> (\<exists>e. r = Inl e) \<and> file_content (disk_files d') (dir @ CHR ''/'' # BINARY_INDEX_FILE_NAME) =
        file_content (disk_files d) (dir @ CHR ''/'' # BINARY_INDEX_FILE_NAME)"
proof -
  let ?p = "dir @ CHR ''/'' # BINARY_INDEX_FILE_NAME" and ?t = "dir @ ''/AGGREGATE_INDEX.tmp''"
  have ne: "?p \<noteq> ?t" "?t \<noteq> ?p" by (simp_all add: BINARY_INDEX_FILE_NAME_def)
  obtain r1 d1 where 1: "create_parent ?p d = (r1, d1)"
    by (metis surj_pair)
  have f1: "file_content (disk_files d1) q = file_content (disk_files d) q" for q
    using leavesD [OF leaves_create_parent [of "\<lambda>_. True"] 1] by simp
  obtain r2 d2 where 2: "file_create ?t d1 = (r2, d2)" by (metis surj_pair)
  have f2: "r2 = Inr () \<Longrightarrow> file_content (disk_files d2) ?t = Some []" "file_content (disk_files d2) ?p = file_content (disk_files d) ?p"
    using 2 ne f1 by (auto simp: file_create_def disk_call_def split: option.splits io_fault.splits)
  obtain r3 d3 where 3: "write_all ?t BINARY_INDEX_MAGIC d2 = (r3, d3)" by (metis surj_pair)
  have f3: "r2 = Inr () \<Longrightarrow> r3 = Inr () \<Longrightarrow> file_content (disk_files d3) ?t = Some BINARY_INDEX_MAGIC"
    "file_content (disk_files d3) ?p = file_content (disk_files d) ?p"
    using 3 ne f2 by (auto simp: write_all_def disk_call_def split: option.splits io_fault.splits)
  obtain r4 d4 where 4: "write_all ?t (enc_index ic (map record_of_info (hash_order ic m))) d3 = (r4, d4)"
    by (metis surj_pair)
  have f4: "r2 = Inr () \<Longrightarrow> r3 = Inr () \<Longrightarrow> r4 = Inr () \<Longrightarrow> file_content (disk_files d4) ?t = Some (index_file ic m)"
    "file_content (disk_files d4) ?p = file_content (disk_files d) ?p"
    using 4 ne f3 by (auto simp: write_all_def disk_call_def index_file_def split: option.splits io_fault.splits)
  have *: "persist_binary_index ic ?p m d =
    (case r1 of Inl e \<Rightarrow> (Inl e, d1) | Inr _ \<Rightarrow>
     (case r2 of Inl e \<Rightarrow> (Inl e, d2) | Inr _ \<Rightarrow>
     (case r3 of Inl e \<Rightarrow> (Inl e, d3) | Inr _ \<Rightarrow>
     (case r4 of Inl e \<Rightarrow> (Inl e, d4) | Inr _ \<Rightarrow> file_rename ?t ?p d4))))"
    by (simp add: persist_binary_index_def index_tmp_path Let_def disk_then_def 1 2 3 4 split: sum.splits)
  have f5: "r2 = Inr () \<Longrightarrow> r3 = Inr () \<Longrightarrow> r4 = Inr () \<Longrightarrow> file_rename ?t ?p d4 = (r, d') \<Longrightarrow>
    r = Inr () \<and> file_content (disk_files d') ?p = Some (index_file ic m)
    \<or> (\<exists>e. r = Inl e) \<and> file_content (disk_files d') ?p = file_content (disk_files d) ?p"
    using f4 ne by (auto simp: file_rename_def disk_call_def split: option.splits io_fault.splits)
  from assms show ?thesis unfolding *
    using f1 f2 f3 f4 f5 by (auto split: sum.splits)
qed

section \<open>Properties\<close>

text \<open>
  C25. A flush replaces the index as a whole. When it succeeds, opening the index again finds for every
  path what the flushed index held; when it fails, at any call and after any number of bytes, the index file is
  the one from before.
\<close>

theorem index_flush_atomic:
  assumes "hash_order_ok ic" and "reads_back ic (records i)" and "distinct (map fst (records i))"
    and "index_path i = dir @ CHR ''/'' # BINARY_INDEX_FILE_NAME"
    and "index_flush ic i d = (r, d')" and "no_faults e" and "disk_files e = disk_files d'"
  shows "r = Inr () \<and> (\<exists>i' e'. aggregate_index_open ic (index_path i) e = (Inr i', e') \<and> query_file i' = query_file i)
    \<or> (\<exists>err. r = Inl err) \<and> file_content (disk_files d') (index_path i) = file_content (disk_files d) (index_path i)"
proof -
  from persist_cases [of ic dir "records i" d r d'] assms(4,5) consider
    "r = Inr ()" "file_content (disk_files d') (index_path i) = Some (index_file ic (records i))"
    | "\<exists>e. r = Inl e" "file_content (disk_files d') (index_path i) = file_content (disk_files d) (index_path i)"
    by (auto simp: index_flush_def)
  then show ?thesis
  proof cases
    case 1
    with assms(2,3,7) have "index_content ic (file_content (disk_files e) (index_path i)) (query_file i)"
      by (auto simp: index_content_def query_file_def fun_eq_iff)
    from index_open_good [OF assms(1,6) this] 1 show ?thesis by blast
  next
    case 2
    then show ?thesis by blast
  qed
qed

definition sample_info :: aggregate_restore_info where
  "sample_info = \<lparr>ari_blob_path = ''.AGGR/shard-000/b'', ari_offset = 3, ari_size = 4, ari_mtime = 2, ari_mode = 420,
    ari_xattrs = None, ari_acl = None\<rparr>"

definition sample_codec :: index_codec where
  "sample_codec = \<lparr>enc_index = (\<lambda>rs. [of_nat (length rs)]), dec_index = (\<lambda>_. Inr [record_of_info (''a/f'', sample_info)]),
    hash_order = rev\<rparr>"

lemma hash_order_sample [simp]: "hash_order_ok sample_codec"
  by (simp add: hash_order_ok_def sample_codec_def rev_map [symmetric])

theorem index_flush_atomic_witness:
  "\<exists>d i' e'. aggregate_index_open sample_codec ''/r/.AGGR/AGGREGATE_INDEX.bidx'' d = (Inr i', e')
    \<and> query_file i' ''a/f'' = Some sample_info"
proof -
  let ?d = "\<lparr>disk_files = [], disk_reads = [], disk_faults = []\<rparr>"
  let ?i = "\<lparr>index_path = ''/r/.AGGR/AGGREGATE_INDEX.bidx'', records = [(''a/f'', sample_info)]\<rparr>"
  obtain r d' where run: "index_flush sample_codec ?i ?d = (r, d')" by (metis surj_pair)
  have r: "r = Inr ()"
  proof -
    have nf: "no_faults ?d" by (simp add: no_faults_def)
    obtain d1 where 1: "create_parent ''/r/.AGGR/AGGREGATE_INDEX.bidx'' ?d = (Inr (), d1)" "no_faults d1"
      using create_parent_good [OF nf] by metis
    have t: "path_with_extension ''/r/.AGGR/AGGREGATE_INDEX.bidx'' ''tmp'' = ''/r/.AGGR/AGGREGATE_INDEX.tmp''"
      using index_tmp_path [of "''/r/.AGGR''"] by (simp add: BINARY_INDEX_FILE_NAME_def)
    show ?thesis using run 1
      by (simp add: index_flush_def persist_binary_index_def disk_then_def Let_def file_create_def write_all_def
          file_rename_def disk_call_good t)
  qed
  have reads: "reads_back sample_codec (records ?i)"
    by (simp add: reads_back_def sample_codec_def)
  let ?e = "\<lparr>disk_files = disk_files d', disk_reads = [], disk_faults = []\<rparr>"
  have "no_faults ?e" by (simp add: no_faults_def)
  from index_flush_atomic [OF hash_order_sample reads _ _ run this, of "''/r/.AGGR''"] r show ?thesis
    by (fastforce simp: BINARY_INDEX_FILE_NAME_def query_file_def)
qed

end
