(* ===== verification/AggregateDirIndex.thy ===== *)
theory AggregateDirIndex
  imports AggregateIndex
begin

text \<open>
  The index of the directory layout, \<^verbatim>\<open>backup/aggregate/aggregate_dir_index.rs\<close>: a SQLite database per
  directory. SQLite is a parameter: the database file a run of the statements writes, and what the query finds.
  The casts between \<^verbatim>\<open>u64\<close> and \<^verbatim>\<open>i64\<close> keep the bits, so the columns are words.
\<close>

section \<open>The database\<close>

record dir_row =
  dr_file_name :: string
  dr_blob_name :: string
  dr_offset :: u64
  dr_size :: u64
  dr_mtime :: u64
  dr_mode :: u32
  dr_xattrs :: "string option"
  dr_acl :: "string option"

text \<open>
  \<open>sq_write old rows\<close>: \<^verbatim>\<open>CREATE TABLE\<close> on the file as it is (\<open>None\<close> when there is none), then
  \<^verbatim>\<open>INSERT OR REPLACE\<close> of the rows, committed.
\<close>

record sqlite =
  sq_write :: "byte list option \<Rightarrow> dir_row list \<Rightarrow> string + byte list"
  sq_select :: "byte list \<Rightarrow> string \<Rightarrow> string + dir_row option"

text \<open>What the code relies on: the query finds the row inserted last under a name.\<close>

definition last_row :: "dir_row list \<Rightarrow> string \<Rightarrow> dir_row option" where
  "last_row rows name = map_of (map (\<lambda>r. (dr_file_name r, r)) (rev rows)) name"

definition selects :: "sqlite \<Rightarrow> dir_row list \<Rightarrow> byte list \<Rightarrow> bool" where
  "selects sq rows db \<longleftrightarrow> sq_write sq None rows = Inr db \<and> (\<forall>name. sq_select sq db name = Inr (last_row rows name))"

text \<open>\<^verbatim>\<open>CREATE TABLE\<close> fails when the table is there already.\<close>

definition table_exists :: "sqlite \<Rightarrow> byte list \<Rightarrow> bool" where
  "table_exists sq db \<longleftrightarrow> (\<forall>rows. \<exists>e. sq_write sq (Some db) rows = Inl e)"

definition SQLITE_INDEX_FILE_NAME :: string where
  "SQLITE_INDEX_FILE_NAME = ''AGGREGATE_IDX.sqlite''"

section \<open>Writing and reading it\<close>

definition dir_row_of :: "string \<Rightarrow> aggregate_file_entry \<Rightarrow> string + dir_row" where
  "dir_row_of blob_name e =
    (case path_file_name (afe_relative_path e) of
       None \<Rightarrow> Inl (''invalid relative path '' @ afe_relative_path e)
     | Some n \<Rightarrow> Inr \<lparr>dr_file_name = n, dr_blob_name = blob_name, dr_offset = afe_offset e, dr_size = afe_size e,
         dr_mtime = afe_mtime e, dr_mode = afe_mode e, dr_xattrs = afe_xattrs e, dr_acl = afe_acl e\<rparr>)"

fun all_ok :: "('e + 'a) list \<Rightarrow> 'e + 'a list" where
  "all_ok [] = Inr []"
| "all_ok (r # rs) = andThen r (\<lambda>x. andThen (all_ok rs) (\<lambda>xs. Inr (x # xs)))"

fun dir_rows :: "aggregate_blob_meta list \<Rightarrow> string + dir_row list" where
  "dir_rows [] = Inr []"
| "dir_rows (blob # blobs) =
    (case path_file_name (abm_blob_path blob) of
       None \<Rightarrow> Inl (''invalid blob path '' @ abm_blob_path blob)
     | Some blob_name \<Rightarrow>
         andThen (all_ok (map (dir_row_of blob_name) (abm_files blob))) (\<lambda>rows.
         andThen (dir_rows blobs) (\<lambda>more. Inr (rows @ more))))"

text \<open>An entry without a file name ends the run after the table was created; a failed statement leaves what it wrote.\<close>

definition sqlite_run :: "sqlite \<Rightarrow> string \<Rightarrow> (string + dir_row list) \<Rightarrow> unit disk_op" where
  "sqlite_run sq tmp rows =
    disk_call (\<lambda>n d. case sq_write sq (file_content (disk_files d) tmp) [] of
        Inl e \<Rightarrow> d | Inr db \<Rightarrow> on_files (\<lambda>fs. file_set fs tmp (take n db)) d)
      (\<lambda>d. case sq_write sq (file_content (disk_files d) tmp) (case rows of Inl _ \<Rightarrow> [] | Inr rs \<Rightarrow> rs) of
        Inl e \<Rightarrow> (Inl e, d)
      | Inr db \<Rightarrow> (map_sum id (\<lambda>_. ()) rows, on_files (\<lambda>fs. file_set fs tmp db) d))"

definition write_dir_index :: "sqlite \<Rightarrow> string \<Rightarrow> aggregate_blob_meta list \<Rightarrow> unit disk_op" where
  "write_dir_index sq path blobs =
    disk_then (create_parent path) (\<lambda>_.
      let tmp = path_with_extension path ''tmp'' in
      disk_then (sqlite_run sq tmp (dir_rows blobs)) (\<lambda>_. file_rename tmp path))"

definition info_of_row :: "string \<Rightarrow> dir_row \<Rightarrow> aggregate_restore_info" where
  "info_of_row blob_dir_rel r =
    \<lparr>ari_blob_path = to_slash (path_join blob_dir_rel (dr_blob_name r)), ari_offset = dr_offset r,
     ari_size = dr_size r, ari_mtime = dr_mtime r, ari_mode = dr_mode r, ari_xattrs = dr_xattrs r, ari_acl = dr_acl r\<rparr>"

definition read_dir_index ::
  "sqlite \<Rightarrow> string \<Rightarrow> string \<Rightarrow> string \<Rightarrow> aggregate_restore_info option disk_op" where
  "read_dir_index sq path file_name blob_dir_rel d =
    (case file_content (disk_files d) path of
       None \<Rightarrow> (Inr None, d)
     | Some db \<Rightarrow> disk_call (\<lambda>_ d. d)
         (\<lambda>d. (map_sum id (map_option (info_of_row blob_dir_rel)) (sq_select sq db file_name), d)) d)"

section \<open>What an index holds\<close>

lemma dir_tmp_path:
  "path_with_extension (dir @ CHR ''/'' # SQLITE_INDEX_FILE_NAME) ''tmp'' = dir @ ''/AGGREGATE_IDX.tmp''"
  using with_extension_eq [of "''sqlite''" "''AGGREGATE_IDX''" dir "''tmp''"] by (simp add: SQLITE_INDEX_FILE_NAME_def)

lemma write_dir_index_good:
  assumes "no_faults d" and "dir_rows blobs = Inr rows" and "selects sq rows db"
    and "file_content (disk_files d) (dir @ ''/AGGREGATE_IDX.tmp'') = None"
  obtains d' where "write_dir_index sq (dir @ CHR ''/'' # SQLITE_INDEX_FILE_NAME) blobs d = (Inr (), d')" "no_faults d'"
    "\<And>p. file_content (disk_files d') p =
      (if p = dir @ CHR ''/'' # SQLITE_INDEX_FILE_NAME then Some db else file_content (disk_files d) p)"
proof -
  obtain d1 where 1: "create_parent (dir @ CHR ''/'' # SQLITE_INDEX_FILE_NAME) d = (Inr (), d1)"
    "disk_files d1 = disk_files d" "no_faults d1" using create_parent_good [OF assms(1)] .
  from assms(3) have w: "sq_write sq None rows = Inr db" by (simp add: selects_def)
  have "\<exists>d'. write_dir_index sq (dir @ CHR ''/'' # SQLITE_INDEX_FILE_NAME) blobs d = (Inr (), d') \<and> no_faults d'
      \<and> (\<forall>p. file_content (disk_files d') p =
        (if p = dir @ CHR ''/'' # SQLITE_INDEX_FILE_NAME then Some db else file_content (disk_files d) p))"
    using 1 assms(2,4) w
    by (auto simp: write_dir_index_def disk_then_def dir_tmp_path Let_def sqlite_run_def disk_call_good file_rename_def)
  then show thesis using that by blast
qed

end
