(* ===== verification/Snowflake.thy ===== *)
theory Snowflake
  imports RustStr
begin

text \<open>
  The generator of blob names of \<^verbatim>\<open>backup/aggregate/mod.rs\<close>. The clock is the sequence of its
  readings in milliseconds since the epoch of the program (zero when it is before that); a reading is used
  up by every look at it. Waiting for the clock may take for ever, which is the result \<open>None\<close>.
\<close>

section \<open>The generator\<close>

record snowflake =
  last_timestamp :: u64
  sequence_no :: u16
  process_id :: u16

type_synonym clock = "nat \<Rightarrow> u64"

definition MAX_SEQUENCE :: u16 where
  "MAX_SEQUENCE = 4095"

definition snowflake_new :: "u16 \<Rightarrow> snowflake" where
  "snowflake_new pid = \<lparr>last_timestamp = 0, sequence_no = 0, process_id = and pid 0x3FF\<rparr>"

text \<open>The look at the clock with number \<open>i\<close> and the ones after it, until one is later than \<open>prev\<close>.\<close>

partial_function (option) wait_next_millis :: "clock \<Rightarrow> u64 \<Rightarrow> nat \<Rightarrow> (u64 \<times> nat) option" where
  "wait_next_millis clock prev i =
    (if clock i \<le> prev then wait_next_millis clock prev (i + 1) else Some (clock i, i + 1))"

definition compose_id :: "u64 \<Rightarrow> u16 \<Rightarrow> u16 \<Rightarrow> u64" where
  "compose_id timestamp pid s = or (or (push_bit 23 timestamp) (push_bit 12 (ucast pid))) (ucast s)"

definition next_timestamp :: "clock \<Rightarrow> snowflake \<Rightarrow> nat \<Rightarrow> (u64 \<times> nat) option" where
  "next_timestamp clock g i =
    (if clock i < last_timestamp g then wait_next_millis clock (last_timestamp g) (i + 1)
     else Some (clock i, i + 1))"

definition next_sequence :: "clock \<Rightarrow> snowflake \<Rightarrow> u64 \<Rightarrow> nat \<Rightarrow> (u64 \<times> u16 \<times> nat) option" where
  "next_sequence clock g timestamp i =
    (if timestamp = last_timestamp g then
       (if sequence_no g + 1 > MAX_SEQUENCE
        then map_option (\<lambda>(t, i). (t, 0, i)) (wait_next_millis clock timestamp i)
        else Some (timestamp, sequence_no g + 1, i))
     else Some (timestamp, 0, i))"

definition next_id :: "clock \<Rightarrow> snowflake \<Rightarrow> nat \<Rightarrow> (u64 \<times> snowflake \<times> nat) option" where
  "next_id clock g i =
    Option.bind (next_timestamp clock g i) (\<lambda>(timestamp, i).
    Option.bind (next_sequence clock g timestamp i) (\<lambda>(timestamp, s, i).
      Some (compose_id timestamp (process_id g) s,
        g\<lparr>last_timestamp := timestamp, sequence_no := s\<rparr>, i)))"

text \<open>\<^verbatim>\<open>{:016x}\<close>\<close>

definition low_hex_digit :: "nat \<Rightarrow> char" where
  "low_hex_digit d = (if d < 10 then char_of (48 + d) else char_of (87 + d))"

primrec hex_digits :: "nat \<Rightarrow> nat \<Rightarrow> string" where
  "hex_digits 0 n = []"
| "hex_digits (Suc k) n = hex_digits k (n div 16) @ [low_hex_digit (n mod 16)]"

definition blob_file_name :: "u64 \<Rightarrow> string" where
  "blob_file_name uid = hex_digits 16 (unat uid) @ ''.fpt.blob''"

definition generate_blob_name :: "clock \<Rightarrow> snowflake \<Rightarrow> nat \<Rightarrow> (string \<times> snowflake \<times> nat) option" where
  "generate_blob_name clock g i = map_option (\<lambda>(uid, g, i). (blob_file_name uid, g, i)) (next_id clock g i)"

text \<open>The names a generator hands out in succession.\<close>

primrec generate_names :: "nat \<Rightarrow> clock \<Rightarrow> snowflake \<Rightarrow> nat \<Rightarrow> string list option" where
  "generate_names 0 clock g i = Some []"
| "generate_names (Suc n) clock g i =
    Option.bind (generate_blob_name clock g i) (\<lambda>(name, g, i). map_option ((#) name) (generate_names n clock g i))"

section \<open>Names\<close>

lemma low_hex_digit_inj: "a < 16 \<Longrightarrow> b < 16 \<Longrightarrow> low_hex_digit a = low_hex_digit b \<Longrightarrow> a = b"
  by (auto simp: low_hex_digit_def split: if_splits dest!: arg_cong [of _ _ "of_char :: char \<Rightarrow> nat"])

lemma length_hex_digits [simp]: "length (hex_digits k n) = k"
  by (induction k arbitrary: n) simp_all

lemma hex_digits_inj: "m < 16 ^ k \<Longrightarrow> n < 16 ^ k \<Longrightarrow> hex_digits k m = hex_digits k n \<Longrightarrow> m = n"
proof (induction k arbitrary: m n)
  case (Suc k)
  then have "m div 16 = n div 16" by (intro Suc.IH) auto
  moreover have "m mod 16 = n mod 16"
    using Suc.prems(3) by (intro low_hex_digit_inj) simp_all
  ultimately show ?case by (metis div_mult_mod_eq)
qed simp

lemma blob_file_name_inj: "blob_file_name x = blob_file_name y \<longleftrightarrow> x = y"
proof
  assume "blob_file_name x = blob_file_name y"
  moreover have "unat z < 16 ^ 16" for z :: u64
    using unsigned_less [of z, where ?'a = nat] by simp
  ultimately have "unat x = unat y"
    by (intro hex_digits_inj) (simp_all add: blob_file_name_def)
  then show "x = y" by (simp add: word_unat_eq_iff)
qed simp

section \<open>Order of the identifiers\<close>

definition snowflake_ok :: "snowflake \<Rightarrow> bool" where
  "snowflake_ok g \<longleftrightarrow> sequence_no g \<le> MAX_SEQUENCE \<and> process_id g < 1024"

lemma nat_or_disjoint: "a < 2 ^ k \<Longrightarrow> or (push_bit k b) a = a + b * 2 ^ k" for a b :: nat
proof -
  assume a: "a < 2 ^ k"
  have "\<not> bit (push_bit k b) n \<or> \<not> bit a n" for n
  proof (cases "n < k")
    case False
    then have "a < 2 ^ n" using a by (meson le_less_linear less_le_trans one_le_numeral power_increasing)
    then have "\<not> bit a n" by (simp add: bit_iff_odd)
    then show ?thesis by simp
  qed (simp add: bit_push_bit_iff)
  then have "push_bit k b + a = or (push_bit k b) a"
    by (rule disjunctive_add)
  then show ?thesis by (simp add: push_bit_eq_mult)
qed

lemma unat_compose_id:
  assumes "timestamp < 2 ^ 41" and "pid < 1024" and "s \<le> MAX_SEQUENCE"
  shows "unat (compose_id timestamp pid s) = unat timestamp * 2 ^ 23 + unat pid * 2 ^ 12 + unat s"
proof -
  have t: "unat timestamp < 2 ^ 41" and p: "unat pid < 1024" and s: "unat s < 2 ^ 12"
    using assms by (simp_all add: word_less_nat_alt word_le_nat_alt MAX_SEQUENCE_def)
  have "unat timestamp * 2 ^ 23 < 2 ^ 41 * 2 ^ 23" using t by (simp del: power_Suc)
  then have ts: "unat (push_bit 23 timestamp) = push_bit 23 (unat timestamp)"
    unfolding unsigned_push_bit_eq by (simp add: take_bit_eq_mod push_bit_eq_mult)
  have ps: "unat (push_bit 12 (ucast pid :: u64)) = push_bit 12 (unat pid)"
    unfolding unsigned_push_bit_eq unsigned_ucast_eq using p by (simp add: take_bit_eq_mod push_bit_eq_mult)
  have us: "unat (ucast s :: u64) = unat s"
    using s by (simp add: unsigned_ucast_eq take_bit_eq_mod)
  have "push_bit 12 (unat pid) < 2 ^ 23" using p by (simp add: push_bit_eq_mult)
  have "or (or (push_bit 23 (unat timestamp)) (push_bit 12 (unat pid))) (unat s) =
      or (push_bit 23 (unat timestamp)) (or (push_bit 12 (unat pid)) (unat s))"
    by (simp add: or.assoc)
  also have "or (push_bit 12 (unat pid)) (unat s) = unat s + unat pid * 2 ^ 12"
    using s by (rule nat_or_disjoint)
  also have "or (push_bit 23 (unat timestamp)) (unat s + unat pid * 2 ^ 12) = unat s + unat pid * 2 ^ 12 + unat timestamp * 2 ^ 23"
    using s p by (intro nat_or_disjoint) simp
  finally show ?thesis
    by (simp add: compose_id_def unsigned_or_eq ts ps us)
qed

lemma wait_later: "wait_next_millis clock prev i = Some r \<Longrightarrow> prev < fst r \<and> (\<exists>k. fst r = clock k)"
proof (rule wait_next_millis.raw_induct [where P = "\<lambda>clock prev i r. prev < fst r \<and> (\<exists>k. fst r = clock k)"])
  fix wait and clock :: clock and prev i r
  assume "\<And>clock prev i r. wait clock prev i = Some r \<Longrightarrow> prev < fst r \<and> (\<exists>k. fst r = clock k)"
    and "(if clock i \<le> prev then wait clock prev (i + 1) else Some (clock i, i + 1)) = Some r"
  then show "prev < fst r \<and> (\<exists>k. fst r = clock k)"
    by (cases "clock i \<le> prev") (auto simp: word_le_nat_alt word_less_nat_alt)
qed

lemma wait_returns: "\<exists>j \<ge> i. prev < clock j \<Longrightarrow> wait_next_millis clock prev i \<noteq> None"
proof -
  assume "\<exists>j \<ge> i. prev < clock j"
  then obtain d where "prev < clock (i + d)" by (auto simp: le_iff_add)
  then show ?thesis
  proof (induction d arbitrary: i)
    case 0
    then have "(clock i \<le> prev) = False" by (simp add: word_le_nat_alt word_less_nat_alt)
    then show ?case by (subst wait_next_millis.simps) simp
  next
    case (Suc d)
    from Suc.IH [of "i + 1"] Suc.prems show ?case by (subst wait_next_millis.simps) simp
  qed
qed

lemma next_id_step:
  assumes "next_id clock g i = Some (uid, g', j)" and "snowflake_ok g" and "\<And>k. clock k < 2 ^ 41"
  shows "snowflake_ok g'" and "process_id g' = process_id g"
    and "uid = compose_id (last_timestamp g') (process_id g') (sequence_no g')"
    and "last_timestamp g' < 2 ^ 41"
    and "last_timestamp g < last_timestamp g'
      \<or> (last_timestamp g = last_timestamp g' \<and> sequence_no g < sequence_no g')"
proof -
  from assms(1) obtain t i1 t' s i2 where
    t: "next_timestamp clock g i = Some (t, i1)" and s: "next_sequence clock g t i1 = Some (t', s, i2)"
    and r: "uid = compose_id t' (process_id g) s" "g' = g\<lparr>last_timestamp := t', sequence_no := s\<rparr>"
    by (auto simp: next_id_def split: bind_splits)
  have t_le: "last_timestamp g \<le> t" and t_clock: "\<exists>k. t = clock k"
    using t wait_later by (fastforce simp: next_timestamp_def split: if_splits dest: wait_later)+
  have step: "s \<le> MAX_SEQUENCE \<and> (\<exists>k. t' = clock k)
      \<and> (last_timestamp g < t' \<or> (last_timestamp g = t' \<and> sequence_no g < s))"
  proof (cases "t = last_timestamp g")
    case True
    show ?thesis
    proof (cases "sequence_no g + 1 > MAX_SEQUENCE")
      case True
      with s \<open>t = last_timestamp g\<close> show ?thesis
        by (auto simp: next_sequence_def MAX_SEQUENCE_def dest!: wait_later)
    next
      case False
      have "sequence_no g \<le> 4095" using assms(2) by (simp add: snowflake_ok_def MAX_SEQUENCE_def)
      then have "sequence_no g < sequence_no g + 1"
        by (simp add: word_less_nat_alt word_le_nat_alt unat_word_ariths)
      moreover have no: "(MAX_SEQUENCE < sequence_no g + 1) = False" using False by simp
      moreover have "t' = t" "s = sequence_no g + 1"
        using s True by (simp_all add: next_sequence_def no)
      ultimately show ?thesis using True t_clock False by auto
    qed
  next
    case False
    with s t_le t_clock show ?thesis by (auto simp: next_sequence_def MAX_SEQUENCE_def)
  qed
  with assms(2,3) r show "snowflake_ok g'" "process_id g' = process_id g"
    "uid = compose_id (last_timestamp g') (process_id g') (sequence_no g')" "last_timestamp g' < 2 ^ 41"
    "last_timestamp g < last_timestamp g'
      \<or> (last_timestamp g = last_timestamp g' \<and> sequence_no g < sequence_no g')"
    by (auto simp: snowflake_ok_def)
qed

text \<open>The identifier a generator handed out last.\<close>

definition last_id :: "snowflake \<Rightarrow> nat" where
  "last_id g = unat (last_timestamp g) * 2 ^ 23 + unat (process_id g) * 2 ^ 12 + unat (sequence_no g)"

lemma next_id_increases:
  assumes "next_id clock g i = Some (uid, g', j)" and "snowflake_ok g" and "\<And>k. clock k < 2 ^ 41"
  shows "unat uid = last_id g' \<and> last_id g < last_id g' \<and> snowflake_ok g'"
proof -
  note step = next_id_step [OF assms]
  have "unat uid = last_id g'"
    using step(1,3,4) by (simp add: unat_compose_id snowflake_ok_def last_id_def)
  moreover have "last_id g < last_id g'"
  proof -
    have "unat (sequence_no g) < 2 ^ 12" "unat (process_id g) < 2 ^ 10"
      using assms(2) by (simp_all add: snowflake_ok_def MAX_SEQUENCE_def word_less_nat_alt word_le_nat_alt)
    with step(2,5) show ?thesis
      by (auto simp: last_id_def word_less_nat_alt)
  qed
  ultimately show ?thesis using step(1) by simp
qed

lemma generate_names_ids:
  assumes "generate_names n clock g i = Some ns" and "snowflake_ok g" and "\<And>k. clock k < 2 ^ 41"
  shows "\<exists>uids. ns = map blob_file_name uids \<and> length uids = n \<and> sorted_wrt (<) (last_id g # map unat uids)"
  using assms(1,2)
proof (induction n arbitrary: g i ns)
  case 0
  then show ?case by simp
next
  case (Suc n)
  then obtain uid g' j ns' where step: "next_id clock g i = Some (uid, g', j)"
    and rest: "generate_names n clock g' j = Some ns'" and ns: "ns = blob_file_name uid # ns'"
    by (auto simp: generate_blob_name_def split: bind_splits)
  note inc = next_id_increases [OF step Suc.prems(2) assms(3)]
  from Suc.IH [OF rest] inc obtain uids where "ns' = map blob_file_name uids" "length uids = n"
    "sorted_wrt (<) (last_id g' # map unat uids)" by auto
  with inc ns show ?case by (intro exI [of _ "uid # uids"]) auto
qed

lemma generate_names_distinct:
  assumes "generate_names n clock (snowflake_new pid) 0 = Some ns" and "\<And>k. clock k < 2 ^ 41"
  shows "\<exists>uids. ns = map blob_file_name uids \<and> length uids = n \<and> distinct uids"
proof -
  have "and pid 0x3FF < 1024"
    using word_and_le1 [of pid "0x3FF"] by (simp add: word_less_nat_alt word_le_nat_alt)
  then have "snowflake_ok (snowflake_new pid)"
    by (simp add: snowflake_ok_def snowflake_new_def MAX_SEQUENCE_def)
  from generate_names_ids [OF assms(1) this assms(2)] obtain uids where
    "ns = map blob_file_name uids" "length uids = n" "sorted_wrt (<) (map unat uids)"
    by auto
  then show ?thesis by (auto simp: strict_sorted_iff distinct_map)
qed

section \<open>Properties\<close>

text \<open>
  The blob names one generator hands out are pairwise different, also when the clock stands still
  or is set back, until the milliseconds since the epoch of the program need more than 41 bits.
\<close>

theorem snowflake_names_distinct:
  assumes "generate_names n clock (snowflake_new pid) 0 = Some ns" and "\<And>k. clock k < 2 ^ 41"
  shows "distinct ns \<and> length ns = n"
  using generate_names_distinct [OF assms] blob_file_name_inj by (auto simp: distinct_map inj_on_def)

text \<open>
  Two generators of the same process look at the clock independently. When their first looks read
  the same millisecond they hand out the same name, although the names are meant to be unique even across
  processes; the blob written second replaces the first one.
\<close>

theorem snowflake_generators_collide:
  assumes "clock i = clock j" and "clock i \<noteq> 0"
  shows "\<exists>name g h i' j'. generate_blob_name clock (snowflake_new pid) i = Some (name, g, i')
    \<and> generate_blob_name clock (snowflake_new pid) j = Some (name, h, j')"
  using assms by (simp add: generate_blob_name_def next_id_def next_timestamp_def next_sequence_def snowflake_new_def)

section \<open>Concrete runs\<close>

theorem snowflake_names_distinct_witness:
  "\<exists>ns. generate_names 3 (\<lambda>k. [5, 3, 4, 6, 6] ! min k 4) (snowflake_new 7) 0 = Some ns \<and> distinct ns"
proof -
  let ?clock = "\<lambda>k. [5, 3, 4, 6, 6] ! min k 4 :: u64"
  have wait: "wait_next_millis ?clock 5 2 = Some (6, 4)"
    by (subst wait_next_millis.simps, simp, subst wait_next_millis.simps, simp)
  have "\<exists>ns. generate_names 3 ?clock (snowflake_new 7) 0 = Some ns"
    by (simp add: numeral_3_eq_3 generate_blob_name_def next_id_def next_timestamp_def next_sequence_def snowflake_new_def
        wait [unfolded numeral_2_eq_2] MAX_SEQUENCE_def)
  then obtain ns where ns: "generate_names 3 ?clock (snowflake_new 7) 0 = Some ns" by blast
  have "?clock k < 2 ^ 41" for k
  proof -
    have "min k 4 \<in> {0, 1, 2, 3, 4}" by (cases "k \<le> 4") auto
    then show ?thesis by auto
  qed
  from snowflake_names_distinct [OF ns this] ns show ?thesis by blast
qed

theorem snowflake_generators_collide_witness:
  "\<exists>name g h i' j'. generate_blob_name (\<lambda>k. 1000) (snowflake_new 7) 0 = Some (name, g, i')
    \<and> generate_blob_name (\<lambda>k. 1000) (snowflake_new 7) 1 = Some (name, h, j')"
  by (rule snowflake_generators_collide) simp_all

end
