(* ===== verification/AggregateEngine.thy ===== *)
theory AggregateEngine
  imports AggregateDirIndex Snowflake
begin

text \<open>
  Packing small files into blobs on the local target: \<^verbatim>\<open>backup/aggregate/aggregate_engine.rs\<close>, its
  buffers in \<^verbatim>\<open>aggregate_local.rs\<close>, the copying of \<^verbatim>\<open>native/backup/local_block.rs\<close> and the part of
  \<^verbatim>\<open>native/backup/local_executor.rs\<close> that fills and writes the blobs.
\<close>

section \<open>Copying a file to a writer\<close>

text \<open>\<open>copied\<close> bytes are read and written; the destination is written at its end.\<close>

function copy_exact_loop :: "string \<Rightarrow> string \<Rightarrow> nat \<Rightarrow> nat \<Rightarrow> nat \<Rightarrow> u64 disk_op" where
  "copy_exact_loop src_path dst buffer copied remaining d =
    (if remaining = 0 then (Inr (of_nat copied), d)
     else (case file_read src_path copied (min buffer remaining) d of
             (Inl e, d) \<Rightarrow> (Inl e, d)
           | (Inr bs, d) \<Rightarrow>
               if bs = [] then (Inl (''short read while copying '' @ src_path), d)
               else (case write_all dst bs d of
                       (Inl e, d) \<Rightarrow> (Inl e, d)
                     | (Inr _, d) \<Rightarrow>
                         copy_exact_loop src_path dst buffer (copied + length bs) (remaining - length bs) d)))"
  by pat_completeness auto
termination by (relation "measure (\<lambda>(src, dst, buffer, copied, remaining, d). remaining)") auto

declare copy_exact_loop.simps [simp del]

definition copy_exact_file_to_writer :: "string \<Rightarrow> u64 \<Rightarrow> string \<Rightarrow> nat \<Rightarrow> u64 disk_op" where
  "copy_exact_file_to_writer src_path expected_size dst buffer =
    disk_then (file_open src_path) (\<lambda>_. copy_exact_loop src_path dst buffer 0 (unat expected_size))"

section \<open>The engine\<close>

record pending_local_file =
  plf_relative_path :: string
  plf_source_path :: string
  plf_size :: u64
  plf_ctime :: u64
  plf_mtime :: u64
  plf_mode :: u32
  plf_xattrs :: "string option"
  plf_acl :: "string option"

record aggregate_stats =
  blobs_created :: u64
  files_aggregated :: u64
  files_normal :: u64
  blob_bytes :: u64
  original_bytes :: u64
  active_shards :: u64

definition aggregate_stats_default :: aggregate_stats where
  "aggregate_stats_default = \<lparr>blobs_created = 0, files_aggregated = 0, files_normal = 0, blob_bytes = 0,
    original_bytes = 0, active_shards = 0\<rparr>"

text \<open>The names the generator of the engine hands out, one after the other, and how many it has.\<close>

record aggregate_engine =
  eng_config :: aggregate_config
  eng_source_base :: string
  eng_target_base :: string
  shard_index :: "aggregate_index option"
  dir_indexes :: "(string \<times> aggregate_blob_meta list) list"
  eng_stats :: aggregate_stats
  blob_names :: "nat \<Rightarrow> string"
  names_used :: nat

definition shard_index_path :: "string \<Rightarrow> string" where
  "shard_index_path base = path_join (path_join base AGGREGATE_ROOT_DIR) BINARY_INDEX_FILE_NAME"

definition aggregate_engine_new ::
  "index_codec \<Rightarrow> aggregate_config \<Rightarrow> string \<Rightarrow> string \<Rightarrow> (nat \<Rightarrow> string) \<Rightarrow> aggregate_engine disk_op" where
  "aggregate_engine_new ic config source_base target_base names =
    disk_then
      (if agg_layout config = Shard
       then disk_then (aggregate_index_open ic (shard_index_path target_base)) (\<lambda>i. give (Some i))
       else give None)
      (\<lambda>i. give \<lparr>eng_config = config, eng_source_base = source_base, eng_target_base = target_base, shard_index = i,
         dir_indexes = [], eng_stats = aggregate_stats_default, blob_names = names, names_used = 0\<rparr>)"

definition engine_should_aggregate :: "aggregate_engine \<Rightarrow> u64 \<Rightarrow> bool" where
  "engine_should_aggregate e file_size = should_aggregate file_size (eng_config e)"

definition relative_path_for_source :: "aggregate_engine \<Rightarrow> string \<Rightarrow> string" where
  "relative_path_for_source e source_path =
    to_slash (case path_strip_prefix source_path (eng_source_base e) of Some p \<Rightarrow> p | None \<Rightarrow> source_path)"

definition parent_dir_of :: "string \<Rightarrow> string" where
  "parent_dir_of relative_path = (case path_parent relative_path of Some p \<Rightarrow> to_slash p | None \<Rightarrow> [])"

definition aggregate_dir_for :: "string \<Rightarrow> string" where
  "aggregate_dir_for dir_rel =
    (if dir_rel = [] then AGGREGATE_DIR_NAME else path_join dir_rel AGGREGATE_DIR_NAME)"

text \<open>FNV-1a.\<close>

definition path_hash :: "string \<Rightarrow> u64" where
  "path_hash p = fold (\<lambda>b h. xor h (ucast b) * 1099511628211) (str_bytes p) 1469598103934665603"

definition clamp_shards :: "u64 \<Rightarrow> u64 \<Rightarrow> u16 \<Rightarrow> u16" where
  "clamp_shards bytes blob_size max_shards =
    min (max (ucast (saturating_add (bytes div blob_size) 1)) 1) max_shards"

definition preferred_shard_count :: "aggregate_engine \<Rightarrow> u64 \<Rightarrow> u16" where
  "preferred_shard_count e extra_bytes =
    clamp_shards (saturating_add (original_bytes (eng_stats e)) extra_bytes) (max (max_blob_size (eng_config e)) 1)
      (max (shard_count (eng_config e)) 1)"

definition shard_for_relative_path_with_hint :: "aggregate_engine \<Rightarrow> string \<Rightarrow> u64 \<Rightarrow> u16" where
  "shard_for_relative_path_with_hint e relative_path extra_bytes =
    ucast (path_hash relative_path mod ucast (preferred_shard_count e extra_bytes))"

definition shard_key :: "nat \<Rightarrow> string" where
  "shard_key n = ''shard-'' @ replicate (3 - length (nat_str n)) CHR ''0'' @ nat_str n"

definition bucket_key_for_relative_path :: "aggregate_engine \<Rightarrow> string \<Rightarrow> u64 \<Rightarrow> string" where
  "bucket_key_for_relative_path e relative_path extra_bytes =
    (case agg_layout (eng_config e) of
       DirLevel \<Rightarrow> parent_dir_of relative_path
     | Shard \<Rightarrow> shard_key (unat (shard_for_relative_path_with_hint e relative_path extra_bytes)))"

definition prepare_blob_path ::
  "aggregate_engine \<Rightarrow> string \<Rightarrow> string \<Rightarrow> (string \<times> string \<times> u16) disk_op" where
  "prepare_blob_path e bucket_key blob_name =
    (case agg_layout (eng_config e) of
       Shard \<Rightarrow>
         (let shard_dir = path_join AGGREGATE_ROOT_DIR bucket_key
          in disk_then (create_dir_all (path_join (eng_target_base e) shard_dir)) (\<lambda>_.
             let rel = to_slash (path_join shard_dir blob_name);
                 shard_id = (case Option.bind (strip_prefix ''shard-'' bucket_key) (parse_uint 16) of
                   Some n \<Rightarrow> of_nat n | None \<Rightarrow> 0)
             in give (rel, path_join (eng_target_base e) rel, shard_id)))
     | DirLevel \<Rightarrow>
         (let aggr_dir = aggregate_dir_for bucket_key
          in disk_then (create_dir_all (path_join (eng_target_base e) aggr_dir)) (\<lambda>_.
             let rel = to_slash (path_join aggr_dir blob_name)
             in give (rel, path_join (eng_target_base e) rel, 0))))"

definition entry_of_pending :: "pending_local_file \<Rightarrow> u64 \<Rightarrow> aggregate_file_entry" where
  "entry_of_pending f offset =
    \<lparr>afe_relative_path = plf_relative_path f, afe_offset = offset, afe_size = plf_size f, afe_ctime = plf_ctime f,
     afe_mtime = plf_mtime f, afe_mode = plf_mode f, afe_xattrs = plf_xattrs f, afe_acl = plf_acl f\<rparr>"

text \<open>The files are written one after the other; the offset is also the total size so far.\<close>

fun write_blob_files ::
  "string \<Rightarrow> nat \<Rightarrow> pending_local_file list \<Rightarrow> u64 \<Rightarrow> aggregate_file_entry list \<Rightarrow>
   (aggregate_file_entry list \<times> u64) disk_op" where
  "write_blob_files blob buffer [] offset es = give (es, offset)"
| "write_blob_files blob buffer (f # fs) offset es =
    disk_then (copy_exact_file_to_writer (plf_source_path f) (plf_size f) blob buffer) (\<lambda>_.
      write_blob_files blob buffer fs (offset + plf_size f) (es @ [entry_of_pending f offset]))"

definition push_dir_blob ::
  "string \<Rightarrow> aggregate_blob_meta \<Rightarrow> (string \<times> aggregate_blob_meta list) list \<Rightarrow> (string \<times> aggregate_blob_meta list) list" where
  "push_dir_blob key blob m =
    AList.update key ((case map_of m key of Some bs \<Rightarrow> bs | None \<Rightarrow> []) @ [blob]) m"

definition finish_blob ::
  "aggregate_engine \<Rightarrow> string \<Rightarrow> string \<Rightarrow> u64 \<Rightarrow> aggregate_file_entry list \<Rightarrow> u16 \<Rightarrow> aggregate_blob_meta \<times> aggregate_engine" where
  "finish_blob e bucket_key blob_rel_path total_size es shard_id =
    (let blob = \<lparr>abm_blob_path = blob_rel_path, abm_blob_size = total_size, abm_file_count = of_nat (length es),
           abm_files = es, abm_shard_id = shard_id\<rparr>;
         e = (case agg_layout (eng_config e) of
                Shard \<Rightarrow> e\<lparr>shard_index := map_option (add_blob blob) (shard_index e)\<rparr>
              | DirLevel \<Rightarrow> e\<lparr>dir_indexes := push_dir_blob bucket_key blob (dir_indexes e)\<rparr>);
         s = eng_stats e;
         active_buckets = (case agg_layout (eng_config e) of
                Shard \<Rightarrow> ucast (clamp_shards (saturating_add (original_bytes s) total_size)
                  (max (max_blob_size (eng_config e)) 1) (max (shard_count (eng_config e)) 1))
              | DirLevel \<Rightarrow> of_nat (length (dir_indexes e)))
     in (blob, e\<lparr>eng_stats := s\<lparr>blobs_created := blobs_created s + 1,
           files_aggregated := files_aggregated s + ucast (abm_file_count blob),
           blob_bytes := blob_bytes s + total_size, original_bytes := original_bytes s + total_size,
           active_shards := active_buckets\<rparr>\<rparr>))"

definition create_blob_from_local_files ::
  "string \<Rightarrow> pending_local_file list \<Rightarrow> nat \<Rightarrow> aggregate_engine \<times> disk \<Rightarrow>
   (string + aggregate_blob_meta) \<times> aggregate_engine \<times> disk" where
  "create_blob_from_local_files bucket_key files buffer run =
    (let (e, d) = run;
         blob_name = blob_names e (names_used e);
         e = e\<lparr>names_used := names_used e + 1\<rparr>
     in case disk_then (prepare_blob_path e bucket_key blob_name) (\<lambda>(rel, path, shard_id).
               disk_then (file_create path) (\<lambda>_.
               disk_then (write_blob_files path buffer files 0 []) (\<lambda>(es, total_size).
                 give (rel, shard_id, es, total_size)))) d of
          (Inl err, d) \<Rightarrow> (Inl err, e, d)
        | (Inr (rel, shard_id, es, total_size), d) \<Rightarrow>
            (let (blob, e) = finish_blob e bucket_key rel total_size es shard_id in (Inr blob, e, d)))"

text \<open>The indexes of the directories in the order \<open>order\<close> of a hash map; the engine of the shard layout has its index.\<close>

fun flush_dir_indexes :: "sqlite \<Rightarrow> string \<Rightarrow> (string \<times> aggregate_blob_meta list) list \<Rightarrow> unit disk_op" where
  "flush_dir_indexes sq target_base [] = give ()"
| "flush_dir_indexes sq target_base ((dir_rel, blobs) # rest) =
    disk_then (write_dir_index sq
      (path_join (path_join target_base (aggregate_dir_for dir_rel)) SQLITE_INDEX_FILE_NAME) blobs)
      (\<lambda>_. flush_dir_indexes sq target_base rest)"

definition flush_all_indexes ::
  "index_codec \<Rightarrow> sqlite \<Rightarrow> ((string \<times> aggregate_blob_meta list) list \<Rightarrow> (string \<times> aggregate_blob_meta list) list) \<Rightarrow>
   aggregate_engine \<Rightarrow> unit disk_op" where
  "flush_all_indexes ic sq order e =
    (case agg_layout (eng_config e) of
       Shard \<Rightarrow> (case shard_index e of Some i \<Rightarrow> index_flush ic i | None \<Rightarrow> give_up ''missing shard index'')
     | DirLevel \<Rightarrow> flush_dir_indexes sq (eng_target_base e) (order (dir_indexes e)))"

end
