(* ===== verification/AggregateLocal.thy ===== *)
theory AggregateLocal
  imports AggregateEngine "HOL-Library.Multiset"
begin

text \<open>
  The buffers of small files (\<^verbatim>\<open>backup/aggregate/aggregate_local.rs\<close>) and what
  \<^verbatim>\<open>native/backup/local_executor.rs\<close> does with them: a full buffer becomes a blob, the rest at the end
  of the copy, and then the indexes are written.
\<close>

section \<open>Buffers\<close>

record pending_local_buffer =
  plb_files :: "pending_local_file list"
  plb_current_size :: u64
  plb_max_size :: u64

definition buffer_new :: "u64 \<Rightarrow> pending_local_buffer" where
  "buffer_new max_bytes = \<lparr>plb_files = [], plb_current_size = 0, plb_max_size = max_bytes\<rparr>"

definition buffer_add_file :: "pending_local_file \<Rightarrow> pending_local_buffer \<Rightarrow> bool \<times> pending_local_buffer" where
  "buffer_add_file f b =
    (let b = b\<lparr>plb_current_size := plb_current_size b + plf_size f, plb_files := plb_files b @ [f]\<rparr>
     in (plb_current_size b \<ge> plb_max_size b, b))"

definition buffer_flush :: "pending_local_buffer \<Rightarrow> pending_local_file list \<times> pending_local_buffer" where
  "buffer_flush b = (plb_files b, b\<lparr>plb_current_size := 0, plb_files := []\<rparr>)"

record local_aggregate_state =
  las_buffers :: "(string \<times> pending_local_buffer) list"
  las_engine :: aggregate_engine

definition local_aggregate_new :: "aggregate_engine \<Rightarrow> local_aggregate_state" where
  "local_aggregate_new e = \<lparr>las_buffers = [], las_engine = e\<rparr>"

definition pending_file_for_source :: "string \<Rightarrow> string \<Rightarrow> file_meta \<Rightarrow> pending_local_file" where
  "pending_file_for_source relative_path source_path meta =
    \<lparr>plf_relative_path = relative_path, plf_source_path = source_path, plf_size = fm_size meta,
     plf_ctime = ucast (mc_ctime (fm_common meta)), plf_mtime = ucast (mc_mtime (fm_common meta)),
     plf_mode = mc_mode (fm_common meta), plf_xattrs = mc_xattributes (fm_common meta),
     plf_acl = mc_posix_access_acl (fm_common meta)\<rparr>"

definition local_add_file ::
  "string \<Rightarrow> pending_local_file \<Rightarrow> local_aggregate_state \<Rightarrow>
   (string \<times> pending_local_file list) option \<times> local_aggregate_state" where
  "local_add_file relative_path f st =
    (let bucket_key = bucket_key_for_relative_path (las_engine st) relative_path (plf_size f);
         buffer = (case map_of (las_buffers st) bucket_key of Some b \<Rightarrow> b
           | None \<Rightarrow> buffer_new (max_blob_size (eng_config (las_engine st))));
         (full, buffer) = buffer_add_file f buffer;
         (files, buffer) = (if full then buffer_flush buffer else ([], buffer))
     in (if full then Some (bucket_key, files) else None,
         st\<lparr>las_buffers := AList.update bucket_key buffer (las_buffers st)\<rparr>))"

text \<open>The buffers in the order \<open>order\<close> of the hash map.\<close>

definition local_flush_all ::
  "((string \<times> pending_local_buffer) list \<Rightarrow> (string \<times> pending_local_buffer) list) \<Rightarrow> local_aggregate_state \<Rightarrow>
   (string \<times> pending_local_file list) list \<times> local_aggregate_state" where
  "local_flush_all order st =
    (map (\<lambda>(k, b). (k, fst (buffer_flush b))) (filter (\<lambda>(k, b). plb_files b \<noteq> []) (order (las_buffers st))),
     st\<lparr>las_buffers := map (\<lambda>(k, b). (k, if plb_files b \<noteq> [] then snd (buffer_flush b) else b)) (las_buffers st)\<rparr>)"

section \<open>The executor\<close>

record aggregate_run =
  ar_state :: local_aggregate_state
  ar_disk :: disk
  ar_report :: copy_report

definition blob_written :: "pending_local_file list \<Rightarrow> copy_report \<Rightarrow> copy_report" where
  "blob_written files r = r\<lparr>rep_stats := (rep_stats r)
    \<lparr>files_copied := files_copied (rep_stats r) + of_nat (length files),
     bytes_copied := bytes_copied (rep_stats r) + sum_list (map plf_size files)\<rparr>\<rparr>"

definition blob_failed :: "retry_policy \<Rightarrow> string \<Rightarrow> string \<Rightarrow> pending_local_file list \<Rightarrow> copy_report \<Rightarrow> copy_report" where
  "blob_failed policy now err files r = r
    \<lparr>rep_stats := (rep_stats r)\<lparr>files_failed := files_failed (rep_stats r) + max (of_nat (length files)) 1\<rparr>,
     rep_failures := map_option (\<lambda>rs. rs @ map (\<lambda>f. record_from_detail now ''backup'' ''aggregate_blob'' ItemFile
       (plf_source_path f) err (max_retries policy + 1)) files) (rep_failures r)\<rparr>"

definition write_aggregate_blob ::
  "retry_policy \<Rightarrow> string \<Rightarrow> nat \<Rightarrow> string \<times> pending_local_file list \<Rightarrow> aggregate_run \<Rightarrow> aggregate_run" where
  "write_aggregate_blob policy now buffer job run =
    (case create_blob_from_local_files (fst job) (snd job) buffer (las_engine (ar_state run), ar_disk run) of
       (r, e, d) \<Rightarrow>
         \<lparr>ar_state = (ar_state run)\<lparr>las_engine := e\<rparr>, ar_disk = d,
          ar_report = (case r of
              Inr blob \<Rightarrow> blob_written (snd job) (ar_report run)
            | Inl err \<Rightarrow> blob_failed policy now err (snd job) (ar_report run))\<rparr>)"

definition aggregate_one_local_file ::
  "retry_policy \<Rightarrow> string \<Rightarrow> nat \<Rightarrow> file_meta \<times> string \<Rightarrow> aggregate_run \<Rightarrow> aggregate_run" where
  "aggregate_one_local_file policy now buffer item run =
    (let (meta, src_path) = item;
         relative_path = relative_path_for_source (las_engine (ar_state run)) src_path;
         pending = pending_file_for_source relative_path src_path meta
     in case local_add_file relative_path pending (ar_state run) of
          (None, st) \<Rightarrow> run\<lparr>ar_state := st\<rparr>
        | (Some job, st) \<Rightarrow> write_aggregate_blob policy now buffer job (run\<lparr>ar_state := st\<rparr>))"

text \<open>A failure to write the indexes is only logged.\<close>

definition flush_local_aggregate_state ::
  "index_codec \<Rightarrow> sqlite \<Rightarrow> ((string \<times> aggregate_blob_meta list) list \<Rightarrow> (string \<times> aggregate_blob_meta list) list) \<Rightarrow>
   ((string \<times> pending_local_buffer) list \<Rightarrow> (string \<times> pending_local_buffer) list) \<Rightarrow>
   retry_policy \<Rightarrow> string \<Rightarrow> nat \<Rightarrow> aggregate_run \<Rightarrow> aggregate_run" where
  "flush_local_aggregate_state ic sq dir_order buffer_order policy now copy_buffer_size run =
    (let (jobs, st) = local_flush_all buffer_order (ar_state run);
         run = fold (write_aggregate_blob policy now (clamp_copy_buffer_size copy_buffer_size)) jobs (run\<lparr>ar_state := st\<rparr>)
     in run\<lparr>ar_disk := snd (flush_all_indexes ic sq dir_order (las_engine (ar_state run)) (ar_disk run))\<rparr>)"

section \<open>Copying into a blob\<close>

text \<open>The bytes a file contributes to its blob: as many as the scan recorded.\<close>

definition readable :: "disk \<Rightarrow> pending_local_file \<Rightarrow> bool" where
  "readable d f \<longleftrightarrow>
    (\<exists>c. file_content (disk_files d) (plf_source_path f) = Some c \<and> unat (plf_size f) \<le> length c)"

definition recorded :: "disk \<Rightarrow> pending_local_file \<Rightarrow> byte list" where
  "recorded d f = take (unat (plf_size f)) (content_of d (plf_source_path f))"

lemma file_read_good:
  assumes "no_faults d" and "0 < m" and "pos < length (content_of d path)"
  obtains bs d' where "file_read path pos m d = (Inr bs, d')" "bs \<noteq> []" "length bs \<le> m"
    "bs = take (length bs) (drop pos (content_of d path))" "disk_files d' = disk_files d" "no_faults d'"
proof -
  let ?c = "take m (drop pos (content_of d path))"
  let ?k = "read_amount (after_fault d) (length ?c)"
  have "0 < length ?c" using assms(2,3) by simp
  then have k: "0 < ?k" "?k \<le> length ?c" by (rule read_amount_pos) (rule read_amount_le)
  show thesis
  proof (rule that)
    show "file_read path pos m d = (Inr (take ?k ?c), (after_fault d)\<lparr>disk_reads := tl (disk_reads (after_fault d))\<rparr>)"
      by (simp add: file_read_def disk_call_good [OF assms(1)] Let_def)
    show "take ?k ?c = take (length (take ?k ?c)) (drop pos (content_of d path))"
      using k(2) by (simp add: min_def)
  qed (use k assms(1) in auto)
qed

lemma write_all_good:
  "no_faults d \<Longrightarrow> \<exists>d'. write_all path bs d = (Inr (), d') \<and> no_faults d'
    \<and> disk_files d' = file_append (disk_files d) path bs"
  by (simp add: write_all_def disk_call_good)

lemma copy_exact_loop_good:
  assumes "no_faults d" and "src \<noteq> dst" and "0 < buffer" and "copied + remaining \<le> length (content_of d src)"
    and "file_content (disk_files d) dst = Some b"
  shows "\<exists>d'. copy_exact_loop src dst buffer copied remaining d = (Inr (of_nat (copied + remaining)), d') \<and> no_faults d'
    \<and> (\<forall>p. file_content (disk_files d') p = (if p = dst then Some (b @ take remaining (drop copied (content_of d src)))
          else file_content (disk_files d) p))"
  using assms(1,4,5)
proof (induction remaining arbitrary: copied d b rule: less_induct)
  case (less remaining)
  show ?case
  proof (cases "remaining = 0")
    case True
    with less.prems show ?thesis by (subst copy_exact_loop.simps) auto
  next
    case False
    obtain bs d1 where r: "file_read src copied (min buffer remaining) d = (Inr bs, d1)" "bs \<noteq> []"
      "length bs \<le> min buffer remaining" "bs = take (length bs) (drop copied (content_of d src))"
      "disk_files d1 = disk_files d" "no_faults d1"
      using file_read_good [OF less.prems(1), of "min buffer remaining" copied src] False less.prems(2) assms(3) by auto
    obtain d2 where w: "write_all dst bs d1 = (Inr (), d2)" "no_faults d2"
      "disk_files d2 = file_append (disk_files d1) dst bs" using write_all_good [OF r(6)] by blast
    have src: "content_of d2 src = content_of d src"
      using w(3) r(5) assms(2) by (simp add: content_of_def)
    have "\<exists>d'. copy_exact_loop src dst buffer (copied + length bs) (remaining - length bs) d2 =
        (Inr (of_nat (copied + length bs + (remaining - length bs))), d') \<and> no_faults d' \<and>
        (\<forall>p. file_content (disk_files d') p = (if p = dst
          then Some ((b @ bs) @ take (remaining - length bs) (drop (copied + length bs) (content_of d2 src)))
          else file_content (disk_files d2) p))"
    proof (rule less.IH)
      show "remaining - length bs < remaining" using r(2) False by (cases bs) auto
      show "copied + length bs + (remaining - length bs) \<le> length (content_of d2 src)"
        using less.prems(2) r(3) src by simp
      show "file_content (disk_files d2) dst = Some (b @ bs)" using w(3) r(5) less.prems(3) by simp
    qed (rule w(2))
    moreover have "bs @ take (remaining - length bs) (drop (copied + length bs) (content_of d src)) =
        take remaining (drop copied (content_of d src))"
    proof -
      have "take remaining (drop copied (content_of d src)) =
          take (length bs) (drop copied (content_of d src)) @ take (remaining - length bs) (drop (length bs) (drop copied (content_of d src)))"
        using r(3) take_add [of "length bs" "remaining - length bs" "drop copied (content_of d src)"] by simp
      then show ?thesis using r(4) by (simp add: add.commute)
    qed
    ultimately show ?thesis
      using False r w src by (subst copy_exact_loop.simps) auto
  qed
qed

lemma copy_exact_good:
  assumes "no_faults d" and "readable d f" and "plf_source_path f \<noteq> dst" and "0 < buffer"
    and "file_content (disk_files d) dst = Some b"
  shows "\<exists>d'. copy_exact_file_to_writer (plf_source_path f) (plf_size f) dst buffer d = (Inr (plf_size f), d') \<and> no_faults d'
    \<and> (\<forall>p. file_content (disk_files d') p = (if p = dst then Some (b @ recorded d f) else file_content (disk_files d) p))"
proof -
  from assms(2) obtain c where c: "file_content (disk_files d) (plf_source_path f) = Some c" "unat (plf_size f) \<le> length c"
    by (auto simp: readable_def)
  then have "file_open (plf_source_path f) d = (Inr (), after_fault d)"
    by (simp add: file_open_def disk_call_good assms(1))
  with copy_exact_loop_good [of "after_fault d" "plf_source_path f" dst buffer 0 "unat (plf_size f)" b] assms c show ?thesis
    by (fastforce simp: copy_exact_file_to_writer_def disk_then_def recorded_def content_of_def)
qed

section \<open>Where blobs are\<close>

definition blob_rel :: "nat \<Rightarrow> string \<Rightarrow> string" where
  "blob_rel k name = ''.AGGR/'' @ shard_key k @ CHR ''/'' # name"

definition plain_name :: "string \<Rightarrow> bool" where
  "plain_name name \<longleftrightarrow> CHR ''/'' \<notin> set name \<and> CHR 0x5C \<notin> set name"

lemma shard_key_chars: "c \<in> set (shard_key n) \<Longrightarrow> c \<noteq> CHR ''/'' \<and> c \<noteq> CHR 0x5C"
  using nat_str_no_char [of "CHR ''/''" n] nat_str_no_char [of "CHR 0x5C" n]
  by (auto simp: shard_key_def is_digit_def)

lemma to_slash_plain: "CHR 0x5C \<notin> set s \<Longrightarrow> to_slash s = s"
  by (rule to_slash_id)

lemma shard_blob_rel:
  assumes "plain_name name"
  shows "to_slash (path_join (path_join AGGREGATE_ROOT_DIR (shard_key k)) name) = blob_rel k name"
proof -
  obtain c cs where k: "shard_key k = c # cs" by (simp add: shard_key_def)
  have last: "last (shard_key k) \<noteq> CHR ''/''"
    using shard_key_chars [of "last (shard_key k)" k] k by simp
  have "\<not> prefix ''/'' (shard_key k)" by (simp add: shard_key_def)
  moreover have "\<not> prefix ''/'' name" using assms by (cases name) (auto simp: plain_name_def)
  ultimately have "path_join (path_join AGGREGATE_ROOT_DIR (shard_key k)) name = blob_rel k name"
    using last k by (simp add: path_join_def AGGREGATE_ROOT_DIR_def blob_rel_def)
  moreover have "CHR 0x5C \<notin> set (blob_rel k name)"
    using assms shard_key_chars [of "CHR 0x5C" k] by (auto simp: blob_rel_def plain_name_def)
  ultimately show ?thesis by (simp add: to_slash_plain)
qed

lemma path_join_tail: "\<not> prefix ''/'' p \<Longrightarrow> \<exists>pre. path_join base p = pre @ p \<and> (\<forall>q. \<not> prefix ''/'' q \<longrightarrow> path_join base q = pre @ q)"
  by (cases "base = [] \<or> last base = CHR ''/''") (auto simp: path_join_def)

lemma append_name_eq:
  assumes "p @ CHR ''/'' # a = q @ CHR ''/'' # b" and "CHR ''/'' \<notin> set a" and "CHR ''/'' \<notin> set b"
  shows "a = b"
  using assms
proof -
  have "takeWhile (\<lambda>c. c \<noteq> CHR ''/'') (rev (p @ CHR ''/'' # a)) = rev a"
    using assms(2) by (simp add: takeWhile_append)
  moreover have "takeWhile (\<lambda>c. c \<noteq> CHR ''/'') (rev (q @ CHR ''/'' # b)) = rev b"
    using assms(3) by (simp add: takeWhile_append)
  ultimately show ?thesis using assms(1) by (metis rev_rev_ident)
qed

lemma blob_path_name:
  assumes "path_join base (blob_rel k a) = path_join base (blob_rel j b)" and "plain_name a" and "plain_name b"
  shows "a = b"
proof -
  have "\<not> prefix ''/'' (blob_rel k a)" for k a by (simp add: blob_rel_def)
  with path_join_tail [of "blob_rel k a" base] assms(1) have "blob_rel k a = blob_rel j b" by auto
  then show ?thesis
    using append_name_eq [of "''.AGGR/'' @ shard_key k" a "''.AGGR/'' @ shard_key j" b] assms(2,3)
    by (simp add: blob_rel_def plain_name_def)
qed

section \<open>One blob\<close>

text \<open>An index entry that leads to the bytes of a file, in a blob with the \<open>n\<close>-th name for some \<open>n\<close>.\<close>

definition located :: "nat \<Rightarrow> disk \<Rightarrow> string \<Rightarrow> (nat \<Rightarrow> string) \<Rightarrow> aggregate_restore_info \<Rightarrow> byte list \<Rightarrow> bool" where
  "located N d base names info c \<longleftrightarrow>
    (\<exists>k n b. n < N \<and> ari_blob_path info = blob_rel k (names n) \<and> file_content (disk_files d) (path_join base (blob_rel k (names n))) = Some b
      \<and> unat (ari_offset info) + unat (ari_size info) < 2 ^ 64
      \<and> unat (ari_offset info) + unat (ari_size info) \<le> length b
      \<and> take (unat (ari_size info)) (drop (unat (ari_offset info)) b) = c)"

lemma located_kept:
  "located N d base names info c \<Longrightarrow>
   (\<And>p. file_content (disk_files d) p \<noteq> None \<Longrightarrow> file_content (disk_files d') p = file_content (disk_files d) p) \<Longrightarrow>
   located N d' base names info c"
  unfolding located_def by (metis option.distinct(1))

definition entry_for :: "byte list \<Rightarrow> disk \<Rightarrow> pending_local_file \<Rightarrow> aggregate_file_entry \<Rightarrow> bool" where
  "entry_for b d f e \<longleftrightarrow> afe_relative_path e = plf_relative_path f
    \<and> unat (afe_offset e) + unat (afe_size e) < 2 ^ 64 \<and> unat (afe_offset e) + unat (afe_size e) \<le> length b
    \<and> take (unat (afe_size e)) (drop (unat (afe_offset e)) b) = recorded d f"

lemma recorded_length: "readable d f \<Longrightarrow> length (recorded d f) = unat (plf_size f)"
  by (auto simp: readable_def recorded_def content_of_def)

lemma write_blob_files_good:
  assumes "no_faults d" and "0 < buffer" and "\<And>f. f \<in> set fs \<Longrightarrow> readable d f \<and> plf_source_path f \<noteq> blob"
    and "file_content (disk_files d) blob = Some b" and "length b = unat off"
    and "unat off + sum_list (map (\<lambda>f. unat (plf_size f)) fs) < 2 ^ 64"
  shows "\<exists>es' off' b' d'. write_blob_files blob buffer fs off es d = (Inr (es @ es', off'), d') \<and> no_faults d'
    \<and> (\<forall>p. file_content (disk_files d') p = (if p = blob then Some (b @ b') else file_content (disk_files d) p))
    \<and> list_all2 (entry_for (b @ b') d) fs es'"
  using assms(1,3-)
proof (induction fs arbitrary: off es d b)
  case Nil
  then show ?case by (auto simp: give_def)
next
  case (Cons f fs)
  have f: "readable d f" "plf_source_path f \<noteq> blob" using Cons.prems(2) by simp_all
  obtain d1 where c: "copy_exact_file_to_writer (plf_source_path f) (plf_size f) blob buffer d = (Inr (plf_size f), d1)"
    "no_faults d1"
    and d1: "\<And>p. file_content (disk_files d1) p = (if p = blob then Some (b @ recorded d f) else file_content (disk_files d) p)"
    using copy_exact_good [OF Cons.prems(1) f assms(2) Cons.prems(3)] by blast
  have rec: "recorded d1 g = recorded d g" "readable d1 g = readable d g" if "plf_source_path g \<noteq> blob" for g
    using that by (simp_all add: recorded_def readable_def content_of_def d1)
  have len: "length (recorded d f) = unat (plf_size f)" using f(1) by (rule recorded_length)
  have off: "unat (off + plf_size f) = unat off + unat (plf_size f)"
    using Cons.prems(5) by (simp add: unat_word_ariths)
  obtain es' off' b' d' where w:
    "write_blob_files blob buffer fs (off + plf_size f) (es @ [entry_of_pending f off]) d1 =
      (Inr ((es @ [entry_of_pending f off]) @ es', off'), d')" "no_faults d'"
    and d': "\<And>p. file_content (disk_files d') p =
      (if p = blob then Some ((b @ recorded d f) @ b') else file_content (disk_files d1) p)"
    and es': "list_all2 (entry_for ((b @ recorded d f) @ b') d1) fs es'"
    using Cons.IH [of d1 "b @ recorded d f" "off + plf_size f" "es @ [entry_of_pending f off]"] Cons.prems c(2) d1 len off rec
    by auto
  have "entry_for (b @ recorded d f @ b') d f (entry_of_pending f off)"
    using Cons.prems(4,5) len by (simp add: entry_for_def entry_of_pending_def)
  moreover have "list_all2 (entry_for (b @ recorded d f @ b') d) fs es'"
    using es' by (rule list.rel_mono_strong) (use Cons.prems(2) rec in \<open>auto simp: entry_for_def\<close>)
  ultimately show ?case
    using w d' d1 c by (intro exI [of _ "entry_of_pending f off # es'"] exI [of _ off'] exI [of _ "recorded d f @ b'"] exI [of _ d'])
      (simp add: disk_then_def)
qed

definition shard_engine :: "string \<Rightarrow> (nat \<Rightarrow> string) \<Rightarrow> aggregate_engine \<Rightarrow> bool" where
  "shard_engine base names e \<longleftrightarrow> agg_layout (eng_config e) = Shard \<and> eng_target_base e = base \<and> blob_names e = names
    \<and> (\<exists>i. shard_index e = Some i \<and> index_path i = shard_index_path base \<and> distinct (map fst (records i)))"

definition engine_query :: "aggregate_engine \<Rightarrow> string \<Rightarrow> aggregate_restore_info option" where
  "engine_query e p = Option.bind (shard_index e) (\<lambda>i. query_file i p)"

definition fresh_names :: "nat \<Rightarrow> disk \<Rightarrow> string \<Rightarrow> (nat \<Rightarrow> string) \<Rightarrow> nat \<Rightarrow> bool" where
  "fresh_names N d base names n \<longleftrightarrow>
    (\<forall>k m. n \<le> m \<longrightarrow> m < N \<longrightarrow> file_content (disk_files d) (path_join base (blob_rel k (names m))) = None)"

definition good_names :: "nat \<Rightarrow> (nat \<Rightarrow> string) \<Rightarrow> bool" where
  "good_names N names \<longleftrightarrow> (\<forall>n < N. plain_name (names n)) \<and> inj_on names {..<N}"

lemma finish_shard_blob:
  assumes "shard_engine base names e" and "finish_blob e key rel total_size es sid = (blob, e')"
  shows "shard_engine base names e'" and "names_used e' = names_used e" and "eng_config e' = eng_config e"
    and "eng_source_base e' = eng_source_base e"
    and "engine_query e' = fold (\<lambda>e f. f(afe_relative_path e \<mapsto> info_of_entry blob e)) es (engine_query e)"
    and "abm_blob_path blob = rel"
proof -
  from assms(1) obtain i where i: "agg_layout (eng_config e) = Shard" "shard_index e = Some i"
    "index_path i = shard_index_path base" "distinct (map fst (records i))" by (auto simp: shard_engine_def)
  define blob0 where "blob0 = \<lparr>abm_blob_path = rel, abm_blob_size = total_size, abm_file_count = of_nat (length es),
     abm_files = es, abm_shard_id = sid\<rparr>"
  have r: "blob = blob0" "shard_index e' = Some (add_blob blob0 i)" "names_used e' = names_used e"
    "eng_config e' = eng_config e" "eng_source_base e' = eng_source_base e" "eng_target_base e' = eng_target_base e"
    "blob_names e' = blob_names e"
    using assms(2) i by (auto simp: finish_blob_def Let_def blob0_def)
  then show "names_used e' = names_used e" "eng_config e' = eng_config e" "eng_source_base e' = eng_source_base e"
    "abm_blob_path blob = rel"
    by (simp_all add: blob0_def)
  show "shard_engine base names e'"
    using r i assms(1) distinct_fold_update by (auto simp: shard_engine_def add_blob_def)
  show "engine_query e' = fold (\<lambda>e f. f(afe_relative_path e \<mapsto> info_of_entry blob e)) es (engine_query e)"
  proof -
    have "engine_query e' = map_of (records (add_blob blob0 i))" "engine_query e = map_of (records i)"
      using r i by (simp_all add: engine_query_def query_file_def fun_eq_iff)
    moreover have "abm_files blob0 = es" by (simp add: blob0_def)
    ultimately show ?thesis using r(1) by (simp add: add_blob_def map_of_fold_update)
  qed
qed

lemma file_create_good:
  "no_faults d \<Longrightarrow> \<exists>d'. file_create path d = (Inr (), d') \<and> no_faults d' \<and> disk_files d' = file_set (disk_files d) path []"
  by (simp add: file_create_def disk_call_good)

lemma create_dir_all_good: "no_faults d \<Longrightarrow> create_dir_all path d = (Inr (), after_fault d)"
  by (simp add: create_dir_all_def disk_call_good give_def)

lemma create_blob_good:
  assumes "shard_engine base names e" and "good_names N names" and "fresh_names N d base names (names_used e)"
    and "no_faults d" and "0 < buffer" and "\<And>f. f \<in> set fs \<Longrightarrow> readable d f"
    and "sum_list (map (\<lambda>f. unat (plf_size f)) fs) < 2 ^ 64" and "names_used e < N"
  shows "\<exists>blob e' d' es. create_blob_from_local_files (shard_key k) fs buffer (e, d) = (Inr blob, e', d')
    \<and> shard_engine base names e' \<and> names_used e' = names_used e + 1 \<and> eng_config e' = eng_config e
    \<and> eng_source_base e' = eng_source_base e
    \<and> no_faults d' \<and> fresh_names N d' base names (names_used e')
    \<and> (\<forall>p. file_content (disk_files d) p \<noteq> None \<longrightarrow> file_content (disk_files d') p = file_content (disk_files d) p)
    \<and> engine_query e' = fold (\<lambda>e f. f(afe_relative_path e \<mapsto> info_of_entry blob e)) es (engine_query e)
    \<and> list_all2 (\<lambda>f e. afe_relative_path e = plf_relative_path f \<and> located N d' base names (info_of_entry blob e) (recorded d f)) fs es"
proof -
  let ?name = "names (names_used e)"
  let ?path = "path_join base (blob_rel k ?name)"
  have plain: "n < N \<Longrightarrow> plain_name (names n)" for n using assms(2) by (simp add: good_names_def)
  have none: "file_content (disk_files d) ?path = None"
    using assms(3,8) by (simp add: fresh_names_def)
  have e: "agg_layout (eng_config e) = Shard" "eng_target_base e = base" "blob_names e = names"
    using assms(1) by (simp_all add: shard_engine_def)
  obtain d1 where d1: "file_create ?path (after_fault d) = (Inr (), d1)" "no_faults d1"
    "disk_files d1 = file_set (disk_files d) ?path []"
    using file_create_good [of "after_fault d" ?path] assms(4) by auto
  have src: "readable d1 f \<and> plf_source_path f \<noteq> ?path" "recorded d1 f = recorded d f" if "f \<in> set fs" for f
    using assms(6) [OF that] none by (auto simp: readable_def recorded_def content_of_def d1(3))
  obtain es off' b' d' where w: "write_blob_files ?path buffer fs 0 [] d1 = (Inr (es, off'), d')" "no_faults d'"
    and d': "\<And>p. file_content (disk_files d') p = (if p = ?path then Some b' else file_content (disk_files d1) p)"
    and es: "list_all2 (entry_for b' d1) fs es"
    using write_blob_files_good [of d1 buffer fs ?path "[]" 0 "[]"] src(1) d1(2,3) assms(5,7) by auto
  obtain sid where prep: "prepare_blob_path (e\<lparr>names_used := names_used e + 1\<rparr>) (shard_key k) ?name d =
      (Inr (blob_rel k ?name, ?path, sid), after_fault d)"
    using e assms(4) shard_blob_rel [OF plain [OF assms(8)], of k]
    by (simp add: prepare_blob_path_def Let_def disk_then_def create_dir_all_good give_def)
  obtain blob e' where fin: "finish_blob (e\<lparr>names_used := names_used e + 1\<rparr>) (shard_key k) (blob_rel k ?name) off' es sid = (blob, e')"
    by (metis surj_pair)
  have run: "create_blob_from_local_files (shard_key k) fs buffer (e, d) = (Inr blob, e', d')"
    using prep d1(1) w(1) fin e(3) by (simp add: create_blob_from_local_files_def disk_then_def give_def Let_def)
  have eng: "shard_engine base names (e\<lparr>names_used := names_used e + 1\<rparr>)"
    "engine_query (e\<lparr>names_used := names_used e + 1\<rparr>) = engine_query e"
    using assms(1) by (auto simp: shard_engine_def engine_query_def)
  note finished = finish_shard_blob [OF eng(1) fin]
  have fresh: "fresh_names N d' base names (names_used e + 1)"
    unfolding fresh_names_def
  proof (intro allI impI)
    fix j m assume m: "names_used e + 1 \<le> m" "m < N"
    have "path_join base (blob_rel j (names m)) \<noteq> ?path"
    proof
      assume "path_join base (blob_rel j (names m)) = ?path"
      then have "names m = ?name" using blob_path_name plain m(2) assms(8) by blast
      then have "m = names_used e"
        using assms(2,8) m(2) inj_onD [of names "{..<N}" m "names_used e"] by (simp add: good_names_def)
      then show False using m(1) by simp
    qed
    then show "file_content (disk_files d') (path_join base (blob_rel j (names m))) = None"
      using assms(3) m by (simp add: d' d1(3) fresh_names_def)
  qed
  have "list_all2 (\<lambda>f e. afe_relative_path e = plf_relative_path f
      \<and> located N d' base names (info_of_entry blob e) (recorded d f)) fs es"
    using es
  proof (rule list.rel_mono_strong)
    fix f x assume f: "f \<in> set fs" and x: "entry_for b' d1 f x"
    have "located N d' base names (info_of_entry blob x) (recorded d f)"
      unfolding located_def
      using src(2) [OF f] finished(6) d' x assms(8)
      by (intro exI [of _ k] exI [of _ "names_used e"] exI [of _ b']) (simp add: entry_for_def info_of_entry_def)
    with x show "afe_relative_path x = plf_relative_path f \<and> located N d' base names (info_of_entry blob x) (recorded d f)"
      by (simp add: entry_for_def)
  qed
  moreover have "\<forall>p. file_content (disk_files d) p \<noteq> None \<longrightarrow> file_content (disk_files d') p = file_content (disk_files d) p"
    using none by (simp add: d' d1(3))
  ultimately show ?thesis
    using run finished eng w(2) fresh by (intro exI [of _ blob] exI [of _ e'] exI [of _ d'] exI [of _ es]) simp
qed

section \<open>The whole copy\<close>

text \<open>
  What holds between the steps: the files of \<open>ps\<close> were added, those of \<open>J\<close> are being written, the others are in a
  buffer or where the index says. The disk \<open>d\<close> and the report \<open>r\<close> are those of the start.
\<close>

definition run_ok ::
  "nat \<Rightarrow> disk \<Rightarrow> copy_report \<Rightarrow> string \<Rightarrow> (nat \<Rightarrow> string) \<Rightarrow> string \<Rightarrow> pending_local_file set \<Rightarrow> pending_local_file list \<Rightarrow>
   aggregate_run \<Rightarrow> bool" where
  "run_ok N d r base names src_base J ps run \<longleftrightarrow>
    shard_engine base names (las_engine (ar_state run)) \<and> eng_source_base (las_engine (ar_state run)) = src_base
    \<and> no_faults (ar_disk run)
    \<and> fresh_names N (ar_disk run) base names (names_used (las_engine (ar_state run)))
    \<and> (\<forall>p. file_content (disk_files d) p \<noteq> None \<longrightarrow>
         file_content (disk_files (ar_disk run)) p = file_content (disk_files d) p)
    \<and> distinct (map fst (las_buffers (ar_state run)))
    \<and> (\<forall>(k, b) \<in> set (las_buffers (ar_state run)). mset (plb_files b) \<subseteq># mset ps \<and> (\<exists>n. k = shard_key n))
    \<and> (\<forall>f \<in> set ps. f \<in> J
         \<or> (\<exists>k b. map_of (las_buffers (ar_state run)) k = Some b \<and> f \<in> set (plb_files b))
         \<or> (\<exists>info. engine_query (las_engine (ar_state run)) (plf_relative_path f) = Some info
              \<and> located N (ar_disk run) base names info (recorded d f)))
    \<and> files_failed (rep_stats (ar_report run)) = files_failed (rep_stats r)
    \<and> rep_failures (ar_report run) = rep_failures r"

definition good_files :: "disk \<Rightarrow> pending_local_file list \<Rightarrow> bool" where
  "good_files d ps \<longleftrightarrow> (\<forall>f \<in> set ps. readable d f) \<and> inj_on plf_relative_path (set ps)
    \<and> sum_list (map (\<lambda>f. unat (plf_size f)) ps) < 2 ^ 64"

lemma sum_sub_mset:
  assumes "mset fs \<subseteq># mset ps"
  shows "sum_list (map (\<lambda>f. unat (g f)) fs) \<le> sum_list (map (\<lambda>f. unat (g f)) ps)"
proof -
  from assms obtain M where "mset ps = mset fs + M" by (metis subset_mset.le_iff_add)
  then have "sum_mset (image_mset (\<lambda>f. unat (g f)) (mset ps)) =
      sum_mset (image_mset (\<lambda>f. unat (g f)) (mset fs)) + sum_mset (image_mset (\<lambda>f. unat (g f)) M)"
    by simp
  then show ?thesis by (simp add: sum_mset_sum_list [symmetric])
qed

lemma fold_upd_entry:
  assumes "list_all2 (\<lambda>f e. key e = rel f \<and> Q f (v e)) fs es" and "f \<in> set fs" and "inj_on rel (set fs)"
  shows "\<exists>info. fold (\<lambda>e g. g(key e \<mapsto> v e)) es q (rel f) = Some info \<and> Q f info"
  using assms
proof (induction fs arbitrary: es rule: rev_induct)
  case (snoc x fs)
  then obtain e es' where es: "es = es' @ [e]" "list_all2 (\<lambda>f e. key e = rel f \<and> Q f (v e)) fs es'"
    "key e = rel x" "Q x (v e)"
    by (auto simp: list_all2_append1 list_all2_Cons1)
  show ?case
  proof (cases "f = x")
    case False
    then have "rel f \<noteq> rel x" using snoc.prems(2,3) by (auto simp: inj_on_def)
    with snoc.IH [OF es(2)] snoc.prems(2,3) False es show ?thesis by (auto simp: inj_on_def)
  qed (use es in auto)
qed simp

lemma fold_upd_other:
  assumes "list_all2 (\<lambda>f e. key e = rel f \<and> Q f e) fs es" and "k \<notin> rel ` set fs"
  shows "fold (\<lambda>e g. g(key e \<mapsto> v e)) es q k = q k"
  using assms
proof (induction fs es arbitrary: q rule: list_all2_induct)
  case (Cons f fs e es)
  then have "k \<noteq> key e" by auto
  with Cons show ?case by simp
qed simp

lemma write_names_used:
  "names_used (las_engine (ar_state (write_aggregate_blob policy now buffer job run))) =
    Suc (names_used (las_engine (ar_state run)))"
proof -
  have "names_used (fst (snd (create_blob_from_local_files key fs buffer (e, d)))) = Suc (names_used e)" for key fs e d
    by (simp add: create_blob_from_local_files_def finish_blob_def Let_def split: prod.splits sum.splits aggregate_layout.splits)
  then show ?thesis by (simp add: write_aggregate_blob_def split: prod.splits) (metis fst_conv snd_conv)
qed

lemma one_names_used:
  "names_used (las_engine (ar_state run)) \<le>
    names_used (las_engine (ar_state (aggregate_one_local_file policy now buffer item run)))"
  by (auto simp: aggregate_one_local_file_def write_names_used local_add_file_def Let_def split: prod.splits option.splits)

lemma names_used_fold:
  "(\<And>item run. names_used (las_engine (ar_state run)) \<le> names_used (las_engine (ar_state (g item run)))) \<Longrightarrow>
   names_used (las_engine (ar_state run)) \<le> names_used (las_engine (ar_state (fold g items run)))"
  by (induction items arbitrary: run) (auto intro: le_trans)

lemma write_blob_ok:
  assumes "run_ok N d r base names sb (set fs \<union> J) ps run" and "good_files d ps" and "good_names N names"
    and "mset fs \<subseteq># mset ps" and "0 < buffer" and "names_used (las_engine (ar_state run)) < N"
  shows "run_ok N d r base names sb J ps (write_aggregate_blob policy now buffer (shard_key k, fs) run)"
proof -
  let ?e = "las_engine (ar_state run)" and ?d = "ar_disk run"
  note ok = assms(1) [unfolded run_ok_def]
  have sub: "set fs \<subseteq> set ps" using assms(4) by (metis set_mset_mono set_mset_mset)
  have old: "readable ?d f" "recorded ?d f = recorded d f" if "f \<in> set ps" for f
    using that assms(2) ok by (force simp: good_files_def readable_def recorded_def content_of_def)+
  have "sum_list (map (\<lambda>f. unat (plf_size f)) fs) < 2 ^ 64"
    using sum_sub_mset [OF assms(4), of plf_size] assms(2) by (simp add: good_files_def)
  with create_blob_good [of base names ?e N ?d buffer fs k] ok old(1) sub assms(3,5,6) obtain blob e' d' es where
    run: "create_blob_from_local_files (shard_key k) fs buffer (?e, ?d) = (Inr blob, e', d')"
    and e': "shard_engine base names e'" "eng_source_base e' = sb" "no_faults d'" "fresh_names N d' base names (names_used e')"
    and kept: "\<And>p. file_content (disk_files ?d) p \<noteq> None \<Longrightarrow> file_content (disk_files d') p = file_content (disk_files ?d) p"
    and q: "engine_query e' = fold (\<lambda>e f. f(afe_relative_path e \<mapsto> info_of_entry blob e)) es (engine_query ?e)"
    and es: "list_all2 (\<lambda>f e. afe_relative_path e = plf_relative_path f
      \<and> located N d' base names (info_of_entry blob e) (recorded ?d f)) fs es"
    by blast
  have inj: "inj_on plf_relative_path (set fs)"
    using assms(2) sub inj_on_subset by (auto simp: good_files_def)
  have "f \<in> J \<or> (\<exists>k b. map_of (las_buffers (ar_state run)) k = Some b \<and> f \<in> set (plb_files b))
      \<or> (\<exists>info. engine_query e' (plf_relative_path f) = Some info \<and> located N d' base names info (recorded d f))"
    if f: "f \<in> set ps" for f
  proof (cases "f \<in> set fs")
    case True
    from fold_upd_entry [where key = afe_relative_path and rel = plf_relative_path and v = "info_of_entry blob"
        and Q = "\<lambda>f info. located N d' base names info (recorded ?d f)", OF es True inj, of "engine_query ?e"]
    show ?thesis using q old(2) [OF f] by auto
  next
    case False
    then have "plf_relative_path f \<notin> plf_relative_path ` set fs"
      using assms(2) sub f by (auto simp: good_files_def inj_on_def)
    from fold_upd_other [where key = afe_relative_path and rel = plf_relative_path and v = "info_of_entry blob"
        and Q = "\<lambda>f e. located N d' base names (info_of_entry blob e) (recorded ?d f)", OF es this] q have "engine_query e' (plf_relative_path f) = engine_query ?e (plf_relative_path f)"
      by simp
    with ok f False located_kept [OF _ kept] show ?thesis by (metis UnE)
  qed
  moreover have "\<forall>p. file_content (disk_files d) p \<noteq> None \<longrightarrow> file_content (disk_files d') p = file_content (disk_files d) p"
    using ok kept by metis
  ultimately show ?thesis
    using ok e' run unfolding run_ok_def write_aggregate_blob_def by (simp add: blob_written_def)
qed

lemma add_file_ok:
  assumes "run_ok N d r base names sb {} ps run"
    and "local_add_file (plf_relative_path f) f (ar_state run) = (job, st)"
  shows "(case job of
      None \<Rightarrow> run_ok N d r base names sb {} (ps @ [f]) (run\<lparr>ar_state := st\<rparr>)
    | Some (key, fs) \<Rightarrow> run_ok N d r base names sb (set fs) (ps @ [f]) (run\<lparr>ar_state := st\<rparr>)
        \<and> mset fs \<subseteq># mset (ps @ [f]) \<and> (\<exists>k. key = shard_key k))"
proof -
  note ok = assms(1) [unfolded run_ok_def]
  let ?st = "ar_state run"
  obtain k where key: "bucket_key_for_relative_path (las_engine ?st) (plf_relative_path f) (plf_size f) = shard_key k"
    using ok by (auto simp: bucket_key_for_relative_path_def shard_engine_def)
  define b where "b = (case map_of (las_buffers ?st) (shard_key k) of Some b \<Rightarrow> b
      | None \<Rightarrow> buffer_new (max_blob_size (eng_config (las_engine ?st))))"
  define full where "full = fst (buffer_add_file f b)"
  define b' where "b' = (if full then snd (buffer_flush (snd (buffer_add_file f b))) else snd (buffer_add_file f b))"
  have st: "st = ?st\<lparr>las_buffers := AList.update (shard_key k) b' (las_buffers ?st)\<rparr>"
    and job: "job = (if full then Some (shard_key k, plb_files b @ [f]) else None)"
    using assms(2) unfolding local_add_file_def key Let_def b_def [symmetric]
    by (auto simp: full_def b'_def buffer_add_file_def buffer_flush_def Let_def split: if_splits)
  have sub: "mset (plb_files b) \<subseteq># mset ps"
  proof (cases "map_of (las_buffers ?st) (shard_key k)")
    case (Some x)
    then have "(shard_key k, x) \<in> set (las_buffers ?st)" by (rule map_of_SomeD)
    with ok Some show ?thesis by (auto simp: b_def)
  qed (simp add: b_def buffer_new_def)
  have files: "plb_files b' = (if full then [] else plb_files b @ [f])"
    by (simp add: b'_def buffer_add_file_def buffer_flush_def Let_def)
  have sub': "mset (plb_files x) \<subseteq># mset (ps @ [f]) \<and> (\<exists>n. j = shard_key n)"
    if "(j, x) \<in> set (AList.update (shard_key k) b' (las_buffers ?st))" for j x
  proof -
    have d': "distinct (map fst (AList.update (shard_key k) b' (las_buffers ?st)))"
      using ok by (simp add: distinct_update)
    have "map_of (AList.update (shard_key k) b' (las_buffers ?st)) j = Some x"
      using that d' by simp
    then have "j = shard_key k \<and> x = b' \<or> (j, x) \<in> set (las_buffers ?st)"
      by (auto simp: update_conv' split: if_splits dest: map_of_SomeD)
    then show ?thesis
    proof (elim disjE conjE)
      assume "(j, x) \<in> set (las_buffers ?st)"
      then show ?thesis using ok subset_mset.order_trans [of _ "mset ps" "mset ps + {#f#}"] by fastforce
    next
      assume "j = shard_key k" "x = b'"
      then show ?thesis using files sub by auto
    qed
  qed
  have held: "g \<in> (if full then set (plb_files b @ [f]) else {})
      \<or> (\<exists>j x. map_of (las_buffers st) j = Some x \<and> g \<in> set (plb_files x))
      \<or> (\<exists>info. engine_query (las_engine ?st) (plf_relative_path g) = Some info
          \<and> located N (ar_disk run) base names info (recorded d g))" if "g \<in> set (ps @ [f])" for g
  proof (cases "g \<in> set (plb_files b @ [f])")
    case True
    then show ?thesis using files by (auto simp: st update_conv')
  next
    case False
    with that ok consider j x where "map_of (las_buffers ?st) j = Some x" "g \<in> set (plb_files x)"
      | "\<exists>info. engine_query (las_engine ?st) (plf_relative_path g) = Some info
          \<and> located N (ar_disk run) base names info (recorded d g)" by auto
    then show ?thesis
    proof cases
      case 1
      with False have "j \<noteq> shard_key k" by (auto simp: b_def)
      with 1 show ?thesis by (auto simp: st update_conv')
    qed blast
  qed
  have "run_ok N d r base names sb (if full then set (plb_files b @ [f]) else {}) (ps @ [f]) (run\<lparr>ar_state := st\<rparr>)"
    unfolding run_ok_def using ok sub' held by (auto simp: st distinct_update)
  then show ?thesis using sub by (auto simp: job)
qed

lemma aggregate_one_ok:
  assumes "run_ok N d r base names sb {} ps run" and "good_names N names" and "0 < buffer"
    and "f = pending_file_for_source (relative_path_for_source (las_engine (ar_state run)) src) src meta"
    and "good_files d (ps @ [f])"
    and "names_used (las_engine (ar_state (aggregate_one_local_file policy now buffer (meta, src) run))) \<le> N"
  shows "run_ok N d r base names sb {} (ps @ [f]) (aggregate_one_local_file policy now buffer (meta, src) run)"
proof -
  obtain job st where add: "local_add_file (plf_relative_path f) f (ar_state run) = (job, st)"
    by (metis surj_pair)
  have rel: "relative_path_for_source (las_engine (ar_state run)) src = plf_relative_path f"
    using assms(4) by (simp add: pending_file_for_source_def)
  have pending: "pending_file_for_source (plf_relative_path f) src meta = f"
    using assms(4) unfolding rel by (rule sym)
  have run: "aggregate_one_local_file policy now buffer (meta, src) run =
      (case job of None \<Rightarrow> run\<lparr>ar_state := st\<rparr> | Some job \<Rightarrow> write_aggregate_blob policy now buffer job (run\<lparr>ar_state := st\<rparr>))"
    by (simp add: aggregate_one_local_file_def Let_def rel pending add split: option.splits)
  show ?thesis
  proof (cases job)
    case None
    with add_file_ok [OF assms(1) add] show ?thesis by (simp add: run)
  next
    case (Some j)
    obtain key fs where j: "j = (key, fs)" by (cases j)
    from add_file_ok [OF assms(1) add] Some j obtain k where "run_ok N d r base names sb (set fs \<union> {}) (ps @ [f]) (run\<lparr>ar_state := st\<rparr>)"
      "mset fs \<subseteq># mset (ps @ [f])" "key = shard_key k" by auto
    moreover have "names_used (las_engine st) < N" using assms(6) Some by (simp add: run write_names_used)
    ultimately show ?thesis using write_blob_ok [where J = "{}", OF _ assms(5,2) _ assms(3)] Some j by (simp add: run)
  qed
qed

definition pending_of :: "string \<Rightarrow> file_meta \<times> string \<Rightarrow> pending_local_file" where
  "pending_of src_base item = pending_file_for_source
     (to_slash (case path_strip_prefix (snd item) src_base of Some p \<Rightarrow> p | None \<Rightarrow> snd item)) (snd item) (fst item)"

lemma good_files_append: "good_files d (ps @ qs) \<Longrightarrow> good_files d ps"
  by (auto simp: good_files_def intro: inj_on_subset)

lemma aggregate_all_ok:
  assumes "run_ok N d r base names sb {} ps run" and "good_names N names" and "0 < buffer"
    and "good_files d (ps @ map (pending_of sb) items)"
    and "names_used (las_engine (ar_state (fold (aggregate_one_local_file policy now buffer) items run))) \<le> N"
  shows "run_ok N d r base names sb {} (ps @ map (pending_of sb) items)
    (fold (aggregate_one_local_file policy now buffer) items run)"
  using assms(1,4,5)
proof (induction items arbitrary: ps run)
  case (Cons item items)
  obtain meta src where item: "item = (meta, src)" by (cases item)
  have "eng_source_base (las_engine (ar_state run)) = sb" using Cons.prems(1) by (simp add: run_ok_def)
  then have "pending_of sb item = pending_file_for_source (relative_path_for_source (las_engine (ar_state run)) src) src meta"
    by (cases "path_strip_prefix src sb") (simp_all add: pending_of_def item relative_path_for_source_def)
  moreover have "names_used (las_engine (ar_state (aggregate_one_local_file policy now buffer item run))) \<le> N"
    using names_used_fold [where g = "aggregate_one_local_file policy now buffer", OF one_names_used,
        of "aggregate_one_local_file policy now buffer item run" items] Cons.prems(3) by simp
  ultimately have "run_ok N d r base names sb {} (ps @ [pending_of sb item]) (aggregate_one_local_file policy now buffer item run)"
    using aggregate_one_ok [OF Cons.prems(1) assms(2,3)] Cons.prems(2) good_files_append [of d "ps @ [pending_of sb item]"]
    by (simp add: item)
  from Cons.IH [OF this] Cons.prems(2,3) show ?case by simp
qed simp

text \<open>The walk over a hash map meets every buffer.\<close>

definition walks :: "('a list \<Rightarrow> 'a list) \<Rightarrow> bool" where
  "walks order \<longleftrightarrow> (\<forall>m. set (order m) = set m)"

definition emptied :: "local_aggregate_state \<Rightarrow> bool" where
  "emptied st \<longleftrightarrow> (\<forall>(k, b) \<in> set (las_buffers st). plb_files b = [])"

lemma flush_all_ok:
  assumes "run_ok N d r base names sb {} ps run" and "walks order" and "local_flush_all order (ar_state run) = (jobs, st)"
  shows "run_ok N d r base names sb (\<Union>(set ` snd ` set jobs)) ps (run\<lparr>ar_state := st\<rparr>)" and "emptied st"
    and "\<And>key fs. (key, fs) \<in> set jobs \<Longrightarrow> mset fs \<subseteq># mset ps \<and> (\<exists>k. key = shard_key k)"
proof -
  note ok = assms(1) [unfolded run_ok_def]
  let ?bs = "las_buffers (ar_state run)"
  have jobs: "jobs = map (\<lambda>(k, b). (k, plb_files b)) (filter (\<lambda>(k, b). plb_files b \<noteq> []) (order ?bs))"
    and st: "st = (ar_state run)\<lparr>las_buffers :=
      map (\<lambda>(k, b). (k, if plb_files b \<noteq> [] then snd (buffer_flush b) else b)) ?bs\<rparr>"
    using assms(3) by (simp_all add: local_flush_all_def buffer_flush_def)
  have set: "set (order ?bs) = set ?bs" using assms(2) by (simp add: walks_def)
  show emp: "emptied st" by (auto simp: emptied_def st buffer_flush_def)
  show "mset fs \<subseteq># mset ps \<and> (\<exists>k. key = shard_key k)" if "(key, fs) \<in> set jobs" for key fs
    using that ok set by (auto simp: jobs)
  have new: "mset (plb_files b) \<subseteq># mset ps \<and> (\<exists>n. k = shard_key n)" if "(k, b) \<in> set (las_buffers st)" for k b
    using that ok emp by (auto simp: st buffer_flush_def)
  have flight: "f \<in> \<Union>(set ` snd ` set jobs)" if "map_of ?bs k = Some b" "f \<in> set (plb_files b)" for k b f
  proof -
    have "(k, b) \<in> set (order ?bs)" using map_of_SomeD [OF that(1)] set by simp
    then have "(k, plb_files b) \<in> set jobs" using that(2) by (auto simp: jobs image_iff)
    then show ?thesis using that(2) by force
  qed
  have keys: "map fst (las_buffers st) = map fst ?bs" by (simp add: st comp_def case_prod_beta)
  have eng: "las_engine st = las_engine (ar_state run)" by (simp add: st)
  show "run_ok N d r base names sb (\<Union>(set ` snd ` set jobs)) ps (run\<lparr>ar_state := st\<rparr>)"
  proof -
    have "\<forall>f \<in> set ps. f \<in> \<Union>(set ` snd ` set jobs)
        \<or> (\<exists>k b. map_of (las_buffers st) k = Some b \<and> f \<in> set (plb_files b))
        \<or> (\<exists>info. engine_query (las_engine st) (plf_relative_path f) = Some info
            \<and> located N (ar_disk run) base names info (recorded d f))"
      using ok flight unfolding eng by blast
    moreover have "\<forall>(k, b) \<in> set (las_buffers st). mset (plb_files b) \<subseteq># mset ps \<and> (\<exists>n. k = shard_key n)"
      using new by blast
    moreover have "distinct (map fst (las_buffers st))" using ok keys by simp
    ultimately show ?thesis unfolding run_ok_def using ok by (simp add: eng)
  qed
qed

lemma write_jobs_ok:
  assumes "run_ok N d r base names sb (\<Union>(set ` snd ` set jobs)) ps run" and "good_files d ps" and "good_names N names"
    and "\<And>key fs. (key, fs) \<in> set jobs \<Longrightarrow> mset fs \<subseteq># mset ps \<and> (\<exists>k. key = shard_key k)"
    and "0 < buffer" and "emptied (ar_state run)"
    and "names_used (las_engine (ar_state (fold (write_aggregate_blob policy now buffer) jobs run))) \<le> N"
  shows "run_ok N d r base names sb {} ps (fold (write_aggregate_blob policy now buffer) jobs run)
    \<and> emptied (ar_state (fold (write_aggregate_blob policy now buffer) jobs run))"
  using assms(1,4,6,7)
proof (induction jobs arbitrary: run)
  case (Cons job jobs)
  obtain key fs where job: "job = (key, fs)" by (cases job)
  with Cons.prems(2) obtain k where k: "mset fs \<subseteq># mset ps" "key = shard_key k" by auto
  have "run_ok N d r base names sb (\<Union>(set ` snd ` set jobs)) ps (write_aggregate_blob policy now buffer (shard_key k, fs) run)"
  proof (intro write_blob_ok assms(2,3,5) k(1))
    have "names_used (las_engine (ar_state (write_aggregate_blob policy now buffer job run))) \<le> N"
      using names_used_fold [where g = "write_aggregate_blob policy now buffer" and items = jobs
          and run = "write_aggregate_blob policy now buffer job run"] Cons.prems(4)
      by (simp add: write_names_used)
    then show "names_used (las_engine (ar_state run)) < N" by (simp add: write_names_used)
  qed (use Cons.prems(1) in \<open>simp add: job\<close>)
  moreover have "emptied (ar_state (write_aggregate_blob policy now buffer (shard_key k, fs) run))"
    using Cons.prems(3) by (simp add: emptied_def write_aggregate_blob_def split: prod.splits)
  ultimately show ?case using Cons.IH Cons.prems(2,4) k(2) unfolding job by (metis fold_simps(2) list.set_intros(2))
qed simp

section \<open>The index at the end\<close>

lemma persist_good:
  assumes "no_faults d"
  shows "\<exists>d'. persist_binary_index ic (dir @ CHR ''/'' # BINARY_INDEX_FILE_NAME) m d = (Inr (), d') \<and> no_faults d'
    \<and> file_content (disk_files d') (dir @ CHR ''/'' # BINARY_INDEX_FILE_NAME) = Some (index_file ic m)
    \<and> (\<forall>p. p \<noteq> dir @ CHR ''/'' # BINARY_INDEX_FILE_NAME \<longrightarrow> p \<noteq> dir @ CHR ''/'' # ''AGGREGATE_INDEX.tmp'' \<longrightarrow>
        file_content (disk_files d') p = file_content (disk_files d) p)"
proof -
  obtain d1 where "create_parent (dir @ CHR ''/'' # BINARY_INDEX_FILE_NAME) d = (Inr (), d1)"
    "disk_files d1 = disk_files d" "no_faults d1" using create_parent_good [OF assms] .
  then show ?thesis
    by (simp add: persist_binary_index_def index_tmp_path Let_def disk_then_def file_create_def write_all_def
        file_rename_def disk_call_good index_file_def)
qed

lemma shard_index_path_eq: "shard_index_path base = path_join base ''.AGGR'' @ CHR ''/'' # BINARY_INDEX_FILE_NAME"
proof -
  have "last (path_join base ''.AGGR'') \<noteq> CHR ''/''" "path_join base ''.AGGR'' \<noteq> []"
    by (auto simp: path_join_def)
  then show ?thesis
    by (simp add: shard_index_path_def AGGREGATE_ROOT_DIR_def path_join_def [of "path_join base ''.AGGR''"]
        BINARY_INDEX_FILE_NAME_def)
qed

text \<open>The names of blobs are not those of the index and of its temporary file.\<close>

definition blob_like :: "nat \<Rightarrow> (nat \<Rightarrow> string) \<Rightarrow> bool" where
  "blob_like N names \<longleftrightarrow> (\<forall>n < N. suffix ''.fpt.blob'' (names n))"

lemma blob_path_no_index:
  assumes "good_names N names" and "blob_like N names" and "n < N"
  shows "path_join base (blob_rel k (names n)) \<noteq> dir @ CHR ''/'' # BINARY_INDEX_FILE_NAME"
    and "path_join base (blob_rel k (names n)) \<noteq> dir @ CHR ''/'' # ''AGGREGATE_INDEX.tmp''"
proof -
  obtain pre where pre: "path_join base (blob_rel k (names n)) = (pre @ ''.AGGR/'' @ shard_key k) @ CHR ''/'' # names n"
    using path_join_tail [of "blob_rel k (names n)" base] by (auto simp: blob_rel_def)
  have "suffix ''.fpt.blob'' (names n)" "CHR ''/'' \<notin> set (names n)"
    using assms by (auto simp: blob_like_def good_names_def plain_name_def)
  moreover have "names n \<noteq> BINARY_INDEX_FILE_NAME" "names n \<noteq> ''AGGREGATE_INDEX.tmp''"
    using calculation(1) by (auto simp: BINARY_INDEX_FILE_NAME_def suffix_def)
  ultimately show "path_join base (blob_rel k (names n)) \<noteq> dir @ CHR ''/'' # BINARY_INDEX_FILE_NAME"
    "path_join base (blob_rel k (names n)) \<noteq> dir @ CHR ''/'' # ''AGGREGATE_INDEX.tmp''"
    using append_name_eq [of "pre @ ''.AGGR/'' @ shard_key k" "names n" dir] unfolding pre
    by (auto simp: BINARY_INDEX_FILE_NAME_def)
qed

definition final_records :: "aggregate_run \<Rightarrow> index_records" where
  "final_records run = (case shard_index (las_engine (ar_state run)) of Some i \<Rightarrow> records i | None \<Rightarrow> [])"

lemma flush_state_ok:
  assumes "run_ok N d r base names sb {} ps run" and "good_files d ps" and "good_names N names" and "blob_like N names"
    and "walks buffer_order" and "names_used (las_engine (ar_state run')) \<le> N"
    and "run' = flush_local_aggregate_state ic sq dir_order buffer_order policy now copy_size run"
  shows "file_content (disk_files (ar_disk run')) (shard_index_path base) = Some (index_file ic (final_records run'))"
    and "distinct (map fst (final_records run'))" and "no_faults (ar_disk run')"
    and "\<And>f. f \<in> set ps \<Longrightarrow> \<exists>info. map_of (final_records run') (plf_relative_path f) = Some info
      \<and> located N (ar_disk run') base names info (recorded d f)"
    and "files_failed (rep_stats (ar_report run')) = files_failed (rep_stats r)"
    and "rep_failures (ar_report run') = rep_failures r"
proof -
  obtain jobs st where flush: "local_flush_all buffer_order (ar_state run) = (jobs, st)" by (metis surj_pair)
  let ?run = "fold (write_aggregate_blob policy now (clamp_copy_buffer_size copy_size)) jobs (run\<lparr>ar_state := st\<rparr>)"
  note fl = flush_all_ok [OF assms(1,5) flush]
  have ok: "run_ok N d r base names sb {} ps ?run" and emp: "emptied (ar_state ?run)"
    using write_jobs_ok [OF fl(1) assms(2,3) fl(3) clamp_pos] fl(2) assms(6)
    by (simp_all add: assms(7) flush_local_aggregate_state_def flush Let_def)
  note ok = ok [unfolded run_ok_def]
  then obtain i where i: "shard_index (las_engine (ar_state ?run)) = Some i" "index_path i = shard_index_path base"
    "distinct (map fst (records i))" "agg_layout (eng_config (las_engine (ar_state ?run))) = Shard"
    by (auto simp: shard_engine_def)
  let ?dir = "path_join base ''.AGGR''"
  obtain d' where d': "persist_binary_index ic (shard_index_path base) (records i) (ar_disk ?run) = (Inr (), d')" "no_faults d'"
    "file_content (disk_files d') (shard_index_path base) = Some (index_file ic (records i))"
    "\<And>p. p \<noteq> shard_index_path base \<Longrightarrow> p \<noteq> ?dir @ CHR ''/'' # ''AGGREGATE_INDEX.tmp'' \<Longrightarrow>
        file_content (disk_files d') p = file_content (disk_files (ar_disk ?run)) p"
    using persist_good [of "ar_disk ?run" ic ?dir "records i"] ok unfolding shard_index_path_eq [symmetric] by auto
  have run': "run' = ?run\<lparr>ar_disk := d'\<rparr>"
    using i d'(1) by (simp add: assms(7) flush_local_aggregate_state_def flush flush_all_indexes_def index_flush_def)
  have recs: "final_records run' = records i" using i(1) by (simp add: final_records_def run')
  show "file_content (disk_files (ar_disk run')) (shard_index_path base) = Some (index_file ic (final_records run'))"
    "distinct (map fst (final_records run'))" "no_faults (ar_disk run')"
    using recs d' i(3) by (simp_all add: run')
  show "files_failed (rep_stats (ar_report run')) = files_failed (rep_stats r)"
    "rep_failures (ar_report run') = rep_failures r"
    using ok by (simp_all add: run')
  fix f assume f: "f \<in> set ps"
  have "\<nexists>k b. map_of (las_buffers (ar_state ?run)) k = Some b \<and> f \<in> set (plb_files b)"
    using emp by (fastforce simp: emptied_def dest: map_of_SomeD)
  with ok f obtain info where info: "engine_query (las_engine (ar_state ?run)) (plf_relative_path f) = Some info"
    "located N (ar_disk ?run) base names info (recorded d f)" by blast
  have "map_of (final_records run') (plf_relative_path f) = Some info"
    using info(1) i(1) recs by (simp add: engine_query_def query_file_def)
  moreover have "located N (ar_disk run') base names info (recorded d f)"
  proof -
    have "file_content (disk_files d') (path_join base (blob_rel k (names n))) =
        file_content (disk_files (ar_disk ?run)) (path_join base (blob_rel k (names n)))" if "n < N" for k n
      using blob_path_no_index [OF assms(3,4) that, of base k ?dir] by (intro d'(4)) (simp_all add: shard_index_path_eq)
    with info(2) show ?thesis unfolding located_def run' by fastforce
  qed
  ultimately show "\<exists>info. map_of (final_records run') (plf_relative_path f) = Some info
      \<and> located N (ar_disk run') base names info (recorded d f)" by blast
qed

lemma engine_new_good:
  assumes "hash_order_ok ic" and "no_faults d" and "agg_layout config = Shard"
    and "index_content ic (file_content (disk_files d) (shard_index_path base)) q" and "fresh_names N d base names 0"
  shows "\<exists>e d'. aggregate_engine_new ic config src_base base names d = (Inr e, d') \<and> disk_files d' = disk_files d
    \<and> run_ok N d r base names src_base {} [] \<lparr>ar_state = local_aggregate_new e, ar_disk = d', ar_report = r\<rparr>"
proof -
  from index_open_good [OF assms(1,2,4)] obtain i d' where i:
    "aggregate_index_open ic (shard_index_path base) d = (Inr i, d')" "index_path i = shard_index_path base"
    "distinct (map fst (records i))" "disk_files d' = disk_files d" "no_faults d'" by blast
  show ?thesis
    using assms(3,5) i
    by (simp add: aggregate_engine_new_def disk_then_def give_def run_ok_def shard_engine_def local_aggregate_new_def
        fresh_names_def)
qed

lemma flush_state_names:
  "names_used (las_engine (ar_state run)) \<le> names_used (las_engine (ar_state
    (flush_local_aggregate_state ic sq dir_order buffer_order policy now copy_size run)))"
  using names_used_fold [where g = "write_aggregate_blob policy now (clamp_copy_buffer_size copy_size)"
      and run = "run\<lparr>ar_state := snd (local_flush_all buffer_order (ar_state run))\<rparr>"]
  by (simp add: flush_local_aggregate_state_def Let_def write_names_used local_flush_all_def)

end
