(* ===== verification/AggregateRestore.thy ===== *)
theory AggregateRestore
  imports AggregateLocal
begin

text \<open>
  Reading a repository back: \<^verbatim>\<open>backup/aggregate/aggregate_restore.rs\<close>, the source of
  \<^verbatim>\<open>backup/restore_pipeline.rs\<close> and the restore policies of \<^verbatim>\<open>backup.rs\<close>. A file that the
  index knows is cut out of its blob; any other is read from its own place in the repository.
\<close>

section \<open>Reading blobs\<close>

record restore_engine =
  re_source_base :: string
  blob_cache :: "(string \<times> byte list) list"
  blobs_read :: u64
  cache_hits :: u64
  cache_misses :: u64

definition restore_engine_new :: "string \<Rightarrow> restore_engine" where
  "restore_engine_new base = \<lparr>re_source_base = base, blob_cache = [], blobs_read = 0, cache_hits = 0, cache_misses = 0\<rparr>"

text \<open>\<open>None\<close> is the panic of a slice that ends before it starts, after the sum has wrapped.\<close>

definition slice_blob :: "byte list \<Rightarrow> u64 \<Rightarrow> u64 \<Rightarrow> (string + byte list) option" where
  "slice_blob blob_data offset len =
    (let start = unat offset; stop = unat (offset + len)
     in if stop \<le> length blob_data
        then (if start \<le> stop then Some (Inr (take (stop - start) (drop start blob_data))) else None)
        else Some (Inl ''offset + size exceeds blob size''))"

definition read_from_blob ::
  "string \<Rightarrow> u64 \<Rightarrow> u64 \<Rightarrow> restore_engine \<times> disk \<Rightarrow> ((string + byte list) \<times> restore_engine \<times> disk) option" where
  "read_from_blob blob_rel_path offset len run =
    (let (re, d) = run; blob_path = path_join (re_source_base re) blob_rel_path
     in case map_of (blob_cache re) blob_path of
          Some blob_data \<Rightarrow>
            map_option (\<lambda>r. (r, re\<lparr>cache_hits := cache_hits re + 1\<rparr>, d)) (slice_blob blob_data offset len)
        | None \<Rightarrow>
            (case disk_then (file_open blob_path) (\<lambda>_. read_to_end blob_path) d of
               (Inl e, d) \<Rightarrow> Some (Inl e, re, d)
             | (Inr blob_data, d) \<Rightarrow>
                 map_option (\<lambda>r. (r, re\<lparr>blob_cache := AList.update blob_path blob_data (blob_cache re),
                   cache_misses := cache_misses re + 1, blobs_read := blobs_read re + 1\<rparr>, d))
                   (slice_blob blob_data offset len)))"

section \<open>The source of a restore\<close>

record restore_source =
  d_repo_base :: string
  rs_layout :: aggregate_layout
  rs_aggregate :: restore_engine
  index_cache :: "(string \<times> aggregate_index) list"

definition restore_source_new :: "string \<Rightarrow> aggregate_layout \<Rightarrow> restore_source" where
  "restore_source_new base layout =
    \<lparr>d_repo_base = base, rs_layout = layout, rs_aggregate = restore_engine_new base, index_cache = []\<rparr>"

definition get_or_open_index ::
  "index_codec \<Rightarrow> string \<Rightarrow> restore_source \<times> disk \<Rightarrow> (string + aggregate_index) \<times> restore_source \<times> disk" where
  "get_or_open_index ic path run =
    (let (src, d) = run
     in case map_of (index_cache src) path of
          Some i \<Rightarrow> (Inr i, src, d)
        | None \<Rightarrow>
            (case aggregate_index_open ic path d of
               (Inl e, d) \<Rightarrow> (Inl (''open aggregate index '' @ path @ '': '' @ e), src, d)
             | (Inr i, d) \<Rightarrow> (Inr i, src\<lparr>index_cache := AList.update path i (index_cache src)\<rparr>, d)))"

definition aggregate_lookup ::
  "index_codec \<Rightarrow> sqlite \<Rightarrow> string \<Rightarrow> restore_source \<times> disk \<Rightarrow>
   (string + aggregate_restore_info option) \<times> restore_source \<times> disk" where
  "aggregate_lookup ic sq rel_path run =
    (case rs_layout (fst run) of
       Shard \<Rightarrow>
         (case get_or_open_index ic (shard_index_path (d_repo_base (fst run))) run of
            (r, run) \<Rightarrow> (map_sum id (\<lambda>i. query_file i rel_path) r, run))
     | DirLevel \<Rightarrow>
         (let parent = (case path_parent rel_path of Some p \<Rightarrow> p | None \<Rightarrow> []);
              blob_dir = (if parent = [] then AGGREGATE_DIR_NAME else path_join parent AGGREGATE_DIR_NAME);
              path = path_join (path_join (d_repo_base (fst run)) blob_dir) SQLITE_INDEX_FILE_NAME
          in case path_file_name rel_path of
               None \<Rightarrow> (Inl (''invalid restore path '' @ rel_path), run)
             | Some name \<Rightarrow>
                 (case read_dir_index sq path name (to_slash blob_dir) (snd run) of
                    (Inl e, d) \<Rightarrow> (Inl (''query dir aggregate index '' @ path @ '': '' @ e), fst run, d)
                  | (Inr info, d) \<Rightarrow> (Inr info, fst run, d))))"

definition restore_read_block ::
  "index_codec \<Rightarrow> sqlite \<Rightarrow> copy_block \<Rightarrow> restore_source \<times> disk \<Rightarrow>
   (((copy_block \<times> string) + copy_block) \<times> restore_source \<times> disk) option" where
  "restore_read_block ic sq block run =
    (let finish = (\<lambda>r run. case r of
           Inr buf \<Rightarrow>
             (let offset = saturating_add (cb_src_offset block) (of_nat (length buf))
              in (Inr (block\<lparr>cb_src_offset := offset, cb_is_last := (offset \<ge> cb_file_size block), cb_data := buf\<rparr>), run))
         | Inl msg \<Rightarrow> (Inl (block, msg), run))
     in case aggregate_lookup ic sq (to_slash (cb_src_path block)) run of
          (Inl e, run) \<Rightarrow> Some (finish (Inl (''lookup aggregated: '' @ e)) run)
        | (Inr (Some info), src, d) \<Rightarrow>
            map_option (\<lambda>(r, re, d). finish (map_sum (\<lambda>e. ''read aggregated: '' @ e) id r) (src\<lparr>rs_aggregate := re\<rparr>, d))
              (read_from_blob (ari_blob_path info) (ari_offset info) (ari_size info) (rs_aggregate src, d))
        | (Inr None, src, d) \<Rightarrow>
            (case read_local_file_chunk (path_join (d_repo_base src) (cb_src_path block)) (cb_src_offset block)
                    (cb_file_size block) DEFAULT_COPY_BUFFER_SIZE d of
               (r, d) \<Rightarrow> Some (finish r (src, d))))"

section \<open>Restore policies\<close>

datatype restore_policy = Replace | Skip | KeepNewer

definition should_restore :: "restore_policy \<Rightarrow> nat option \<Rightarrow> bool \<Rightarrow> nat option \<Rightarrow> bool" where
  "should_restore policy source_mtime target_exists target_mtime =
    (case policy of
       Replace \<Rightarrow> True
     | Skip \<Rightarrow> \<not> target_exists
     | KeepNewer \<Rightarrow>
         if \<not> target_exists then True
         else (case (source_mtime, target_mtime) of
                 (Some src, Some tgt) \<Rightarrow> src > tgt
               | (Some _, None) \<Rightarrow> True
               | (None, Some _) \<Rightarrow> False
               | (None, None) \<Rightarrow> True))"

section \<open>What is read\<close>

lemma slice_blob_within:
  assumes "unat off + unat len < 2 ^ 64" and "unat off + unat len \<le> length b"
  shows "slice_blob b off len = Some (Inr (take (unat len) (drop (unat off) b)))"
proof -
  have "unat (off + len) = unat off + unat len" using assms(1) by (simp add: unat_word_ariths)
  then show ?thesis using assms(2) by (simp add: slice_blob_def)
qed

lemma read_located:
  assumes "located N d base names info c" and "no_faults d" and "re_source_base re = base"
    and "map_of (blob_cache re) (path_join base (ari_blob_path info)) = None"
  shows "\<exists>re' d'. read_from_blob (ari_blob_path info) (ari_offset info) (ari_size info) (re, d) = Some (Inr c, re', d')"
proof -
  from assms(1) obtain b where b: "file_content (disk_files d) (path_join base (ari_blob_path info)) = Some b"
    "unat (ari_offset info) + unat (ari_size info) < 2 ^ 64" "unat (ari_offset info) + unat (ari_size info) \<le> length b"
    "take (unat (ari_size info)) (drop (unat (ari_offset info)) b) = c"
    by (auto simp: located_def)
  have "disk_then (file_open (path_join base (ari_blob_path info)))
      (\<lambda>_. read_to_end (path_join base (ari_blob_path info))) d = (Inr b, after_fault (after_fault d))"
    using b(1) assms(2) by (simp add: disk_then_def file_open_def read_to_end_def disk_call_good content_of_def)
  then show ?thesis
    using assms(3,4) b(4) slice_blob_within [OF b(2,3)] by (simp add: read_from_blob_def)
qed

lemma restore_from_index:
  assumes "hash_order_ok ic" and "reads_back ic m" and "distinct (map fst m)" and "no_faults d"
    and "file_content (disk_files d) (shard_index_path base) = Some (index_file ic m)"
    and "map_of m (to_slash (cb_src_path block)) = Some info" and "located N d base names info c"
  shows "\<exists>run. restore_read_block ic sq block (restore_source_new base Shard, d) =
    Some (Inr (block\<lparr>cb_src_offset := saturating_add (cb_src_offset block) (of_nat (length c)),
      cb_is_last := (saturating_add (cb_src_offset block) (of_nat (length c)) \<ge> cb_file_size block), cb_data := c\<rparr>), run)"
proof -
  have "index_content ic (file_content (disk_files d) (shard_index_path base)) (map_of m)"
    using assms(2,3,5) by (auto simp: index_content_def)
  from index_open_good [OF assms(1,4) this] obtain i d' where i: "aggregate_index_open ic (shard_index_path base) d = (Inr i, d')"
    "query_file i = map_of m" "disk_files d' = disk_files d" "no_faults d'" by blast
  have "located N d' base names info c" using assms(7) i(3) by (simp add: located_def)
  from read_located [OF this i(4), of "restore_engine_new base"] obtain re d'' where
    "read_from_blob (ari_blob_path info) (ari_offset info) (ari_size info) (restore_engine_new base, d') = Some (Inr c, re, d'')"
    by (auto simp: restore_engine_new_def)
  then show ?thesis
    using i(1,2) assms(6)
    by (simp add: restore_read_block_def restore_source_new_def aggregate_lookup_def get_or_open_index_def Let_def)
qed

section \<open>A backup session and its restore\<close>

text \<open>
  The aggregated files of one copy: the engine, the files one after the other, and the flush at the end, as
  \<^verbatim>\<open>spawn_local_common_copy_pipeline\<close> runs them.
\<close>

definition aggregate_session ::
  "index_codec \<Rightarrow> sqlite \<Rightarrow> ((string \<times> aggregate_blob_meta list) list \<Rightarrow> (string \<times> aggregate_blob_meta list) list) \<Rightarrow>
   ((string \<times> pending_local_buffer) list \<Rightarrow> (string \<times> pending_local_buffer) list) \<Rightarrow>
   aggregate_config \<Rightarrow> string \<Rightarrow> string \<Rightarrow> (nat \<Rightarrow> string) \<Rightarrow> retry_policy \<Rightarrow> string \<Rightarrow> nat \<Rightarrow>
   (file_meta \<times> string) list \<Rightarrow> disk \<Rightarrow> copy_report \<Rightarrow> string + aggregate_run" where
  "aggregate_session ic sq dir_order buffer_order config source_base target_base names policy now copy_buffer_size
     items d r =
    (case aggregate_engine_new ic config source_base target_base names d of
       (Inl e, d) \<Rightarrow> Inl e
     | (Inr e, d) \<Rightarrow>
         Inr (flush_local_aggregate_state ic sq dir_order buffer_order policy now copy_buffer_size
           (fold (aggregate_one_local_file policy now (clamp_copy_buffer_size copy_buffer_size)) items
             \<lparr>ar_state = local_aggregate_new e, ar_disk = d, ar_report = r\<rparr>)))"

text \<open>The names a session used are those its generator handed out.\<close>

definition generated_names :: "clock \<Rightarrow> u16 \<Rightarrow> (nat \<Rightarrow> string) \<Rightarrow> nat \<Rightarrow> bool" where
  "generated_names clock pid names n \<longleftrightarrow>
    (\<forall>k. clock k < 2 ^ 41) \<and> generate_names n clock (snowflake_new pid) 0 = Some (map names [0..<n])"

lemma hex_digit_plain: "d < 16 \<Longrightarrow> low_hex_digit d \<noteq> CHR ''/'' \<and> low_hex_digit d \<noteq> CHR 0x5C"
  by (auto simp: low_hex_digit_def dest!: arg_cong [of _ _ "of_char :: char \<Rightarrow> nat"])

lemma hex_digits_plain: "c \<in> set (hex_digits k n) \<Longrightarrow> c \<noteq> CHR ''/'' \<and> c \<noteq> CHR 0x5C"
  using hex_digit_plain by (induction k arbitrary: n) auto

lemma generated_names_good:
  assumes "generated_names clock pid names n"
  shows "good_names n names" and "blob_like n names"
proof -
  from generate_names_distinct [of n clock pid "map names [0..<n]"] assms obtain uids where
    u: "map names [0..<n] = map blob_file_name uids" "length uids = n" "distinct uids"
    by (auto simp: generated_names_def)
  have nth: "names i = blob_file_name (uids ! i)" if "i < n" for i
    using that u(2) arg_cong [OF u(1), of "\<lambda>xs. xs ! i"] by simp
  have plain: "plain_name (blob_file_name x)" for x
    using hex_digits_plain [of _ 16 "unat x"] by (auto simp: plain_name_def blob_file_name_def)
  have inj: "inj_on names {..<n}"
    using u(2,3) nth by (auto simp: inj_on_def blob_file_name_inj nth_eq_iff_index_eq)
  show "good_names n names" using nth plain inj by (simp add: good_names_def)
  show "blob_like n names" using nth by (simp add: blob_like_def blob_file_name_def suffix_def)
qed

section \<open>Properties\<close>

text \<open>
  C11. Small files survive the way into blobs and back. After a session of the shard layout on a disk
  without failures (reads may be short), restoring any of its files from the repository reads exactly
  the bytes the scan recorded of it, in one block that completes the file; no file is counted as failed.
\<close>

theorem aggregated_files_restored:
  assumes "hash_order_ok ic" and "walks buffer_order" and "agg_layout config = Shard" and "no_faults d"
    and "index_content ic (file_content (disk_files d) (shard_index_path base)) q"
    and "good_files d (map (pending_of source_base) items)"
    and "aggregate_session ic sq dir_order buffer_order config source_base base names policy now copy_size items d r = Inr run"
    and "names_used (las_engine (ar_state run)) = n" and "generated_names clock pid names n" and "fresh_names n d base names 0"
    and "reads_back ic (final_records run)"
    and "(meta, src_path) \<in> set items" and "to_slash rel = plf_relative_path (pending_of source_base (meta, src_path))"
  shows "files_failed (rep_stats (ar_report run)) = files_failed (rep_stats r)
    \<and> (\<exists>block s. restore_read_block ic sq (new_block meta rel dst) (restore_source_new base Shard, ar_disk run) = Some (Inr block, s)
        \<and> cb_data block = take (unat (fm_size meta)) (content_of d src_path) \<and> read_complete block)"
proof -
  let ?one = "aggregate_one_local_file policy now (clamp_copy_buffer_size copy_size)"
  from engine_new_good [OF assms(1,4,3,5,10), of source_base r] obtain e d' where
    new: "aggregate_engine_new ic config source_base base names d = (Inr e, d')"
    and start: "run_ok n d r base names source_base {} [] \<lparr>ar_state = local_aggregate_new e, ar_disk = d', ar_report = r\<rparr>"
    by blast
  let ?mid = "fold ?one items \<lparr>ar_state = local_aggregate_new e, ar_disk = d', ar_report = r\<rparr>"
  have run: "run = flush_local_aggregate_state ic sq dir_order buffer_order policy now copy_size ?mid"
    using assms(7) new by (simp add: aggregate_session_def)
  note names = generated_names_good [OF assms(9)]
  have "names_used (las_engine (ar_state ?mid)) \<le> n"
    using flush_state_names [of ?mid ic sq dir_order buffer_order policy now copy_size] assms(8) run by simp
  with aggregate_all_ok [OF start names(1) clamp_pos] assms(6)
  have mid: "run_ok n d r base names source_base {} (map (pending_of source_base) items) ?mid" by simp
  note flushed = flush_state_ok [OF mid assms(6) names assms(2) eq_imp_le [OF assms(8)] run]
  let ?f = "pending_of source_base (meta, src_path)"
  have "?f \<in> set (map (pending_of source_base) items)" using assms(12) by (metis image_eqI list.set_map)
  with flushed(4) obtain info where info: "map_of (final_records run) (to_slash rel) = Some info"
    "located n (ar_disk run) base names info (recorded d ?f)" and "readable d ?f"
    using assms(6,13) by (metis good_files_def)
  have size: "plf_size ?f = fm_size meta" "plf_source_path ?f = src_path"
    by (simp_all add: pending_of_def pending_file_for_source_def)
  have "length (recorded d ?f) = unat (fm_size meta)"
    using recorded_length [OF \<open>readable d ?f\<close>] size by simp
  then have end_offset: "saturating_add 0 (of_nat (length (recorded d ?f))) = fm_size meta"
    using saturating_add_exact [of 0 "unat (fm_size meta)"] unsigned_less [of "fm_size meta"] by simp
  let ?b = "new_block meta rel dst"
  have b: "cb_src_path ?b = rel" "cb_src_offset ?b = 0" "cb_file_size ?b = fm_size meta"
    by (simp_all add: new_block_def)
  have "\<exists>s. restore_read_block ic sq ?b (restore_source_new base Shard, ar_disk run) =
      Some (Inr (?b\<lparr>cb_src_offset := fm_size meta, cb_is_last := True, cb_data := recorded d ?f\<rparr>), s)"
    using restore_from_index [OF assms(1,11) flushed(2,3,1), of ?b info n names "recorded d ?f" sq] info
    by (simp only: b end_offset order.refl simp_thms)
  then obtain s where "restore_read_block ic sq ?b (restore_source_new base Shard, ar_disk run) =
      Some (Inr (?b\<lparr>cb_src_offset := fm_size meta, cb_is_last := True, cb_data := recorded d ?f\<rparr>), s)" by blast
  moreover have "recorded d ?f = take (unat (fm_size meta)) (content_of d src_path)"
    using size by (simp add: recorded_def)
  ultimately show ?thesis
    using flushed(5) b by (simp add: read_complete_def)
qed

text \<open>
  C35. An index entry outlives the file it was made for. When a later session copies a file directly, because
  it has grown beyond the threshold, the entry of the earlier session is still found first: the restore reads
  the old bytes out of the blob, whatever the direct copy holds, and reads them again at the next offset.
\<close>

theorem stale_index_entry_restored:
  assumes "hash_order_ok ic" and "reads_back ic m" and "distinct (map fst m)" and "no_faults d"
    and "file_content (disk_files d) (shard_index_path base) = Some (index_file ic m)"
    and "map_of m (to_slash (cb_src_path block)) = Some info" and "located N d base names info old"
    and "file_content (disk_files d) (path_join base (cb_src_path block)) = Some new"
  shows "\<exists>block' s. restore_read_block ic sq block (restore_source_new base Shard, d) = Some (Inr block', s)
    \<and> cb_data block' = old
    \<and> cb_src_offset block' = saturating_add (cb_src_offset block) (of_nat (length old))"
proof -
  from restore_from_index [OF assms(1-7), of sq] obtain s where
    "restore_read_block ic sq block (restore_source_new base Shard, d) =
      Some (Inr (block\<lparr>cb_src_offset := saturating_add (cb_src_offset block) (of_nat (length old)),
        cb_is_last := (saturating_add (cb_src_offset block) (of_nat (length old)) \<ge> cb_file_size block), cb_data := old\<rparr>), s)"
    by blast
  then show ?thesis by simp
qed

text \<open>
  When a blob cannot be written, every file of it is counted as failed and recorded with its source path
  and the error, and none of them enters the index, which then still says what it said before.
\<close>

theorem failed_blob_reported:
  assumes "create_blob_from_local_files key fs buffer (las_engine (ar_state run), ar_disk run) = (Inl err, e, d)"
    and "rep_failures (ar_report run) = Some rs" and "fs \<noteq> []" and "length fs < 2 ^ 64"
  shows "let run' = write_aggregate_blob policy now buffer (key, fs) run
    in engine_query (las_engine (ar_state run')) = engine_query (las_engine (ar_state run))
      \<and> files_copied (rep_stats (ar_report run')) = files_copied (rep_stats (ar_report run))
      \<and> files_failed (rep_stats (ar_report run')) = files_failed (rep_stats (ar_report run)) + of_nat (length fs)
      \<and> rep_failures (ar_report run') = Some (rs @ map (\<lambda>f. record_from_detail now ''backup'' ''aggregate_blob''
          ItemFile (plf_source_path f) err (max_retries policy + 1)) fs)"
proof -
  have "e = (las_engine (ar_state run))\<lparr>names_used := names_used (las_engine (ar_state run)) + 1\<rparr>"
    using assms(1) by (auto simp: create_blob_from_local_files_def Let_def split: sum.splits prod.splits)
  moreover have "max (of_nat (length fs)) (1 :: u64) = of_nat (length fs)"
  proof (rule max_absorb1)
    have "unat (of_nat (length fs) :: u64) = length fs" using assms(4) by (simp add: unat_of_nat)
    moreover have "0 < length fs" using assms(3) by simp
    ultimately show "1 \<le> (of_nat (length fs) :: u64)" by (simp add: word_le_nat_alt Suc_le_eq)
  qed
  ultimately show ?thesis
    using assms(1,2) by (simp add: write_aggregate_blob_def blob_failed_def engine_query_def fun_eq_iff)
qed

text \<open>
  A failure to write the index at the end is only logged: the counters and the failure records
  are those of a session whose index was written, though the index file still is the one from before
  and none of the new blobs can be found.
\<close>

theorem index_failure_unreported:
  assumes "shard_index (las_engine (ar_state run)) = Some i" and "index_path i = shard_index_path base"
    and "agg_layout (eng_config (las_engine (ar_state run))) = Shard"
    and "local_flush_all buffer_order (ar_state run) = ([], st)"
    and "index_flush ic i (ar_disk run) = (Inl err, d)"
  shows "let run' = flush_local_aggregate_state ic sq dir_order buffer_order policy now copy_size run
    in ar_report run' = ar_report run
      \<and> file_content (disk_files (ar_disk run')) (shard_index_path base) =
          file_content (disk_files (ar_disk run)) (shard_index_path base)"
proof -
  have "las_engine st = las_engine (ar_state run)" using assms(4) by (auto simp: local_flush_all_def)
  moreover have "file_content (disk_files d) (shard_index_path base) = file_content (disk_files (ar_disk run)) (shard_index_path base)"
    using persist_cases [of ic "path_join base ''.AGGR''" "records i" "ar_disk run" "Inl err" d] assms(2,5)
    by (simp add: index_flush_def shard_index_path_eq)
  ultimately show ?thesis
    using assms by (simp add: flush_local_aggregate_state_def flush_all_indexes_def)
qed

text \<open>
  Two engines on one repository lose entries. Each control file of a sharded copy has an engine of its
  own; both load the index when they start and both write it when they end. The second write wins: a file in
  a blob of the first engine is no longer in the index, although it was counted as copied.
\<close>

theorem concurrent_flush_loses_entries:
  assumes "hash_order_ok ic" and "distinct (map fst (records i))"
    and "index_path i = dir @ CHR ''/'' # BINARY_INDEX_FILE_NAME"
    and "index_flush ic (add_blob blob1 i) d = (Inr (), d1)" and "index_flush ic (add_blob blob2 i) d1 = (Inr (), d2)"
    and "reads_back ic (records (add_blob blob2 i))" and "no_faults d2"
    and "e \<in> set (abm_files blob1)" and "query_file i (afe_relative_path e) = None"
    and "afe_relative_path e \<notin> afe_relative_path ` set (abm_files blob2)"
  shows "\<exists>i' d'. aggregate_index_open ic (index_path i) d2 = (Inr i', d')
    \<and> query_file (add_blob blob1 i) (afe_relative_path e) \<noteq> None \<and> query_file i' (afe_relative_path e) = None"
proof -
  let ?p = "afe_relative_path e"
  have path: "index_path (add_blob b i) = index_path i" for b by (simp add: add_blob_def)
  have q: "query_file (add_blob b i) = fold (\<lambda>e f. f(afe_relative_path e \<mapsto> info_of_entry b e)) (abm_files b) (query_file i)" for b
  proof -
    have "query_file j = map_of (records j)" for j by (simp add: query_file_def fun_eq_iff)
    then show ?thesis by (simp add: add_blob_def map_of_fold_update)
  qed
  have found: "fold (\<lambda>e f. f(afe_relative_path e \<mapsto> v e)) es g x \<noteq> None" if "x \<in> afe_relative_path ` set es" for v es g x
    using that by (induction es rule: rev_induct) auto
  have "query_file (add_blob blob1 i) ?p \<noteq> None" unfolding q by (rule found [OF imageI [OF assms(8)]])
  moreover have "query_file (add_blob blob2 i) ?p = None"
  proof -
    have "fold (\<lambda>e f. f(afe_relative_path e \<mapsto> v e)) es g x = g x" if "x \<notin> afe_relative_path ` set es" for v es g x
      using that by (induction es rule: rev_induct) auto
    from this [OF assms(10)] assms(9) show ?thesis unfolding q by (rule trans)
  qed
  moreover have "index_content ic (file_content (disk_files d2) (index_path i)) (query_file (add_blob blob2 i))"
  proof -
    have "file_content (disk_files d2) (index_path i) = Some (index_file ic (records (add_blob blob2 i)))"
      using persist_cases [of ic dir "records (add_blob blob2 i)" d1 "Inr ()" d2] assms(3,5) by (simp add: index_flush_def path)
    moreover have "distinct (map fst (records (add_blob blob2 i)))"
      using assms(2) distinct_fold_update by (simp add: add_blob_def)
    ultimately show ?thesis using assms(6) by (auto simp: index_content_def query_file_def fun_eq_iff)
  qed
  ultimately show ?thesis using index_open_good [OF assms(1,7)] by metis
qed

lemma last_path_join: "q \<noteq> [] \<Longrightarrow> last (path_join b q) = last q \<and> path_join b q \<noteq> []"
  by (auto simp: path_join_def)

lemma dir_index_path:
  "path_join (path_join base (aggregate_dir_for dir_rel)) SQLITE_INDEX_FILE_NAME =
    path_join base (aggregate_dir_for dir_rel) @ CHR ''/'' # SQLITE_INDEX_FILE_NAME"
proof -
  have a: "aggregate_dir_for dir_rel \<noteq> []" "last (aggregate_dir_for dir_rel) = CHR ''R''"
    by (simp_all add: aggregate_dir_for_def AGGREGATE_DIR_NAME_def last_path_join)
  then have "path_join base (aggregate_dir_for dir_rel) \<noteq> []" "last (path_join base (aggregate_dir_for dir_rel)) = CHR ''R''"
    by (simp_all add: last_path_join)
  then show ?thesis by (simp add: path_join_def [of "path_join base (aggregate_dir_for dir_rel)"] SQLITE_INDEX_FILE_NAME_def)
qed

text \<open>
  The index of a directory is written anew from the blobs of one session. Whatever it held before, a
  file of that directory that the session did not pack again is no longer found, though its
  blob is still there; the restore then looks for a direct copy, which was never made.
\<close>

theorem dir_index_forgets_earlier_sessions:
  assumes "agg_layout (eng_config e) = DirLevel" and "dir_indexes e = [(dir_rel, blobs)]" and "order [(dir_rel, blobs)] = [(dir_rel, blobs)]"
    and "dir_rows blobs = Inr rows" and "selects sq rows db" and "no_faults d"
    and "file_content (disk_files d) (path_join (eng_target_base e) (aggregate_dir_for dir_rel) @ ''/AGGREGATE_IDX.tmp'') = None"
    and "name \<notin> dr_file_name ` set rows"
  shows "\<exists>d' d''. flush_all_indexes ic sq order e d = (Inr (), d')
    \<and> read_dir_index sq (path_join (path_join (eng_target_base e) (aggregate_dir_for dir_rel)) SQLITE_INDEX_FILE_NAME)
        name blob_dir d' = (Inr None, d'')"
proof -
  let ?dir = "path_join (eng_target_base e) (aggregate_dir_for dir_rel)"
  obtain d' where d': "write_dir_index sq (?dir @ CHR ''/'' # SQLITE_INDEX_FILE_NAME) blobs d = (Inr (), d')" "no_faults d'"
    "file_content (disk_files d') (?dir @ CHR ''/'' # SQLITE_INDEX_FILE_NAME) = Some db"
    using write_dir_index_good [OF assms(6,4,5,7)] by metis
  have "last_row rows name = None"
    using assms(8) by (auto simp: last_row_def map_of_eq_None_iff)
  with assms(5) have "sq_select sq db name = Inr None" by (simp add: selects_def)
  with d' assms(1-3) show ?thesis
    by (simp add: flush_all_indexes_def disk_then_def give_def dir_index_path read_dir_index_def disk_call_good)
qed

section \<open>Concrete runs\<close>

definition sample_source :: disk where
  "sample_source = \<lparr>disk_files = [(''/s/f'', [7, 8, 9])], disk_reads = [1], disk_faults = []\<rparr>"

definition sample_small :: file_meta where
  "sample_small = (sample_file ''f'')\<lparr>fm_size := 2\<rparr>"

definition sample_names :: "nat \<Rightarrow> string" where
  "sample_names n = blob_file_name (compose_id 5 7 0)"

definition sample_pending :: pending_local_file where
  "sample_pending = pending_file_for_source ''f'' ''/s/f'' sample_small"

definition sample_engine :: aggregate_engine where
  "sample_engine = \<lparr>eng_config = aggregate_config_enabled, eng_source_base = ''/s'', eng_target_base = ''/r'',
    shard_index = Some \<lparr>index_path = shard_index_path ''/r'', records = []\<rparr>, dir_indexes = [],
    eng_stats = aggregate_stats_default, blob_names = sample_names, names_used = 0\<rparr>"

lemma sample_pending_of: "pending_of ''/s'' (sample_small, ''/s/f'') = sample_pending"
proof -
  have "path_strip_prefix ''/s/f'' ''/s'' = Some ''f''" by code_simp
  moreover have "to_slash ''f'' = ''f''" by code_simp
  ultimately show ?thesis by (simp add: pending_of_def sample_pending_def)
qed

lemma no_index: "shard_index_path base \<noteq> ''/s/f''"
  by (auto simp: shard_index_path_eq BINARY_INDEX_FILE_NAME_def append_eq_Cons_conv)

lemma sample_engine_new:
  "\<exists>d. aggregate_engine_new ic aggregate_config_enabled ''/s'' ''/r'' sample_names sample_source = (Inr sample_engine, d)
    \<and> no_faults d \<and> disk_files d = disk_files sample_source"
proof -
  have nf: "no_faults sample_source" by (simp add: no_faults_def sample_source_def)
  obtain d where d: "create_parent (shard_index_path ''/r'') sample_source = (Inr (), d)"
    "disk_files d = disk_files sample_source" "no_faults d" using create_parent_good [OF nf] .
  have "file_content (disk_files sample_source) (shard_index_path ''/r'') = None"
    using no_index by (simp add: sample_source_def file_content_def)
  then show ?thesis using d
    by (simp add: aggregate_engine_new_def aggregate_index_open_def disk_then_def give_def sample_engine_def
        aggregate_config_enabled_def aggregate_config_default_def)
qed

lemma sample_bucket: "bucket_key_for_relative_path sample_engine p 2 = shard_key 0"
  by (simp add: bucket_key_for_relative_path_def sample_engine_def aggregate_config_enabled_def aggregate_config_default_def
      shard_for_relative_path_with_hint_def preferred_shard_count_def clamp_shards_def aggregate_stats_default_def saturating_add_def)
definition sample_records :: index_records where
  "sample_records = [(''f'', \<lparr>ari_blob_path = blob_rel 0 (sample_names 0), ari_offset = 0, ari_size = 2, ari_mtime = 0,
    ari_mode = mc_mode (fm_common sample_small), ari_xattrs = mc_xattributes (fm_common sample_small),
    ari_acl = mc_posix_access_acl (fm_common sample_small)\<rparr>)]"

lemma sample_name_plain: "plain_name (sample_names n)"
  using hex_digits_plain by (auto simp: sample_names_def plain_name_def blob_file_name_def)

lemma sample_blob_path: "path_join ''/r'' (blob_rel 0 (sample_names 0)) \<noteq> ''/s/f''"
  by (simp add: path_join_def blob_rel_def)

lemma sample_fields: "plf_source_path sample_pending = ''/s/f''" "plf_size sample_pending = 2"
  "plf_relative_path sample_pending = ''f''"
  by (simp_all add: sample_pending_def pending_file_for_source_def sample_small_def)

lemma sample_blob:
  assumes "no_faults d" and "disk_files d = disk_files sample_source"
  shows "\<exists>blob e d'. create_blob_from_local_files (shard_key 0) [sample_pending] (clamp_copy_buffer_size 0) (sample_engine, d)
    = (Inr blob, e, d') \<and> no_faults d' \<and> agg_layout (eng_config e) = Shard \<and> names_used e = 1
    \<and> shard_index e = Some \<lparr>index_path = shard_index_path ''/r'', records = sample_records\<rparr>"
proof -
  let ?path = "path_join ''/r'' (blob_rel 0 (sample_names 0))"
  obtain d1 where d1: "file_create ?path (after_fault d) = (Inr (), d1)" "no_faults d1"
    "disk_files d1 = file_set (disk_files d) ?path []"
    using file_create_good [of "after_fault d" ?path] assms(1) by auto
  have "readable d1 sample_pending"
    using d1(3) assms(2) sample_blob_path by (simp add: readable_def sample_fields sample_source_def file_content_def file_set_def)
  from copy_exact_good [OF d1(2) this, of ?path "clamp_copy_buffer_size 0" "[]"] sample_blob_path d1(3) obtain d2 where
    d2: "copy_exact_file_to_writer ''/s/f'' 2 ?path (clamp_copy_buffer_size 0) d1 = (Inr 2, d2)" "no_faults d2"
    by (auto simp: sample_fields)
  have prep: "prepare_blob_path (sample_engine\<lparr>names_used := 1\<rparr>) (shard_key 0) (sample_names 0) d =
      (Inr (blob_rel 0 (sample_names 0), ?path, case Option.bind (strip_prefix ''shard-'' (shard_key 0)) (parse_uint 16) of
         Some n \<Rightarrow> of_nat n | None \<Rightarrow> 0), after_fault d)"
    using assms(1) shard_blob_rel [OF sample_name_plain, of 0]
    by (simp add: prepare_blob_path_def sample_engine_def aggregate_config_enabled_def aggregate_config_default_def
        Let_def disk_then_def create_dir_all_good give_def)
  have start: "blob_names sample_engine = sample_names" "names_used sample_engine = 0" by (simp_all add: sample_engine_def)
  obtain sid where prep: "prepare_blob_path (sample_engine\<lparr>names_used := 1\<rparr>) (shard_key 0) (sample_names 0) d =
      (Inr (blob_rel 0 (sample_names 0), ?path, sid), after_fault d)" using prep by blast
  have "create_blob_from_local_files (shard_key 0) [sample_pending] (clamp_copy_buffer_size 0) (sample_engine, d) =
      (let (blob, e) = finish_blob (sample_engine\<lparr>names_used := 1\<rparr>) (shard_key 0) (blob_rel 0 (sample_names 0)) 2
        [entry_of_pending sample_pending 0] sid in (Inr blob, e, d2))"
    using prep d1(1) d2(1) by (simp add: create_blob_from_local_files_def Let_def disk_then_def sample_fields give_def start)
  then show ?thesis using d2(2)
    by (simp add: finish_blob_def Let_def)
       (simp add: sample_engine_def aggregate_config_enabled_def aggregate_config_default_def add_blob_def entry_of_pending_def
        sample_fields info_of_entry_def sample_records_def sample_pending_def pending_file_for_source_def sample_small_def sample_file_def sample_common_def)
qed
definition restore_codec :: index_codec where
  "restore_codec = \<lparr>enc_index = (\<lambda>rs. []), dec_index = (\<lambda>_. Inr (map record_of_info sample_records)), hash_order = rev\<rparr>"

definition no_sqlite :: sqlite where
  "no_sqlite = \<lparr>sq_write = (\<lambda>_ _. Inl ''''), sq_select = (\<lambda>_ _. Inr None)\<rparr>"

definition empty_report :: copy_report where
  "empty_report = \<lparr>rep_stats = stats_default, rep_failures = Some []\<rparr>"

lemma sample_session:
  "\<exists>run. aggregate_session restore_codec no_sqlite id id aggregate_config_enabled ''/s'' ''/r'' sample_names
      \<lparr>max_retries = 0\<rparr> '''' 0 [(sample_small, ''/s/f'')] sample_source empty_report = Inr run
    \<and> final_records run = sample_records \<and> names_used (las_engine (ar_state run)) = 1"
proof -
  obtain d where new: "aggregate_engine_new restore_codec aggregate_config_enabled ''/s'' ''/r'' sample_names sample_source =
      (Inr sample_engine, d)" "no_faults d" "disk_files d = disk_files sample_source"
    using sample_engine_new by blast
  obtain blob e d' where blob: "create_blob_from_local_files (shard_key 0) [sample_pending] (clamp_copy_buffer_size 0) (sample_engine, d)
      = (Inr blob, e, d')" "names_used e = 1"
    "shard_index e = Some \<lparr>index_path = shard_index_path ''/r'', records = sample_records\<rparr>"
    using sample_blob [OF new(2,3)] by blast
  have "relative_path_for_source sample_engine ''/s/f'' = ''f''"
    using sample_pending_of by (cases "path_strip_prefix ''/s/f'' ''/s''")
      (simp_all add: relative_path_for_source_def sample_engine_def pending_of_def sample_pending_def pending_file_for_source_def)
  then have one: "aggregate_one_local_file \<lparr>max_retries = 0\<rparr> '''' (clamp_copy_buffer_size 0) (sample_small, ''/s/f'')
      \<lparr>ar_state = local_aggregate_new sample_engine, ar_disk = d, ar_report = empty_report\<rparr> =
      \<lparr>ar_state = \<lparr>las_buffers = [(shard_key 0, \<lparr>plb_files = [sample_pending], plb_current_size = 2,
          plb_max_size = max_blob_size aggregate_config_enabled\<rparr>)], las_engine = sample_engine\<rparr>,
        ar_disk = d, ar_report = empty_report\<rparr>"
    by (simp add: aggregate_one_local_file_def Let_def sample_pending_def [symmetric] local_add_file_def local_aggregate_new_def
        sample_fields sample_bucket buffer_new_def buffer_add_file_def)
      (simp add: sample_engine_def aggregate_config_enabled_def aggregate_config_default_def)
  show ?thesis
    using new(1) blob
    by (simp add: aggregate_session_def one flush_local_aggregate_state_def local_flush_all_def buffer_flush_def Let_def
        write_aggregate_blob_def final_records_def)
qed

theorem aggregated_files_restored_witness:
  "\<exists>run block s. restore_read_block restore_codec no_sqlite (new_block sample_small ''f'' ''f'') (restore_source_new ''/r'' Shard, run)
      = Some (Inr block, s) \<and> cb_data block = [7, 8]"
proof -
  from sample_session obtain run where run: "aggregate_session restore_codec no_sqlite id id aggregate_config_enabled ''/s'' ''/r''
      sample_names \<lparr>max_retries = 0\<rparr> '''' 0 [(sample_small, ''/s/f'')] sample_source empty_report = Inr run"
    "final_records run = sample_records" "names_used (las_engine (ar_state run)) = 1" by blast
  have 1: "hash_order_ok restore_codec" by (simp add: hash_order_ok_def restore_codec_def rev_map [symmetric])
  have 2: "walks id" by (simp add: walks_def)
  have 3: "agg_layout aggregate_config_enabled = Shard" by (simp add: aggregate_config_enabled_def aggregate_config_default_def)
  have 4: "no_faults sample_source" by (simp add: no_faults_def sample_source_def)
  have 5: "index_content restore_codec (file_content (disk_files sample_source) (shard_index_path ''/r'')) Map.empty"
    using no_index by (simp add: index_content_def sample_source_def file_content_def)
  have 6: "good_files sample_source (map (pending_of ''/s'') [(sample_small, ''/s/f'')])"
    by (simp add: good_files_def sample_pending_of sample_fields readable_def sample_source_def file_content_def)
  have 7: "generated_names (\<lambda>_. 5) 7 sample_names 1"
    by (simp add: generated_names_def generate_blob_name_def next_id_def next_timestamp_def next_sequence_def snowflake_new_def
        sample_names_def)
  have 8: "fresh_names 1 sample_source ''/r'' sample_names 0"
    by (simp add: fresh_names_def sample_source_def file_content_def path_join_def blob_rel_def)
  have 9: "reads_back restore_codec (final_records run)"
    by (simp add: reads_back_def restore_codec_def run(2)) (simp add: sample_records_def)
  have 10: "to_slash ''f'' = plf_relative_path (pending_of ''/s'' (sample_small, ''/s/f''))"
    by (simp add: sample_pending_of sample_fields to_slash_def)
  show ?thesis
    using aggregated_files_restored [where dst = "''f''", OF 1 2 3 4 5 6 run(1,3) 7 8 9 _ 10]
    by (auto simp: sample_small_def content_of_def sample_source_def file_content_def)
qed
theorem stale_index_entry_restored_witness:
  "\<exists>d block s. file_content (disk_files d) ''/r/f'' = Some [1, 2, 3, 4]
    \<and> restore_read_block restore_codec no_sqlite (new_block (sample_small\<lparr>fm_size := 4\<rparr>) ''f'' ''f'') (restore_source_new ''/r'' Shard, d)
      = Some (Inr block, s) \<and> cb_data block = [7, 8] \<and> cb_src_offset block = 2"
proof -
  let ?blob = "path_join ''/r'' (blob_rel 0 (sample_names 0))"
  let ?d = "\<lparr>disk_files = [(''/r/f'', [1, 2, 3, 4]), (?blob, [7, 8]),
      (shard_index_path ''/r'', index_file restore_codec sample_records)], disk_reads = [], disk_faults = []\<rparr>"
  have ne: "?blob \<noteq> shard_index_path ''/r''"
    using blob_path_no_index(1) [of 1 sample_names 0 "''/r''" 0 "path_join ''/r'' ''.AGGR''"] sample_name_plain
    by (simp add: shard_index_path_eq good_names_def blob_like_def sample_names_def blob_file_name_def suffix_def inj_on_def)
  have ne2: "?blob \<noteq> ''/r/f''" "shard_index_path ''/r'' \<noteq> ''/r/f''" "path_join ''/r'' ''f'' = ''/r/f''"
    by (simp_all add: path_join_def blob_rel_def shard_index_path_def AGGREGATE_ROOT_DIR_def BINARY_INDEX_FILE_NAME_def)
  have 1: "hash_order_ok restore_codec" by (simp add: hash_order_ok_def restore_codec_def rev_map [symmetric])
  have 2: "reads_back restore_codec sample_records" by (simp add: reads_back_def restore_codec_def) (simp add: sample_records_def)
  have 3: "distinct (map fst sample_records)" by (simp add: sample_records_def)
  have 4: "no_faults ?d" by (simp add: no_faults_def)
  have 5: "file_content (disk_files ?d) (shard_index_path ''/r'') = Some (index_file restore_codec sample_records)"
    using ne ne2 by (simp add: file_content_def)
  obtain info where info: "map_of sample_records ''f'' = Some info" "ari_blob_path info = blob_rel 0 (sample_names 0)"
    "ari_offset info = 0" "ari_size info = 2" by (simp add: sample_records_def)
  have 6: "map_of sample_records (to_slash (cb_src_path (new_block (sample_small\<lparr>fm_size := 4\<rparr>) ''f'' ''f''))) = Some info"
    using info(1) by (simp add: new_block_def to_slash_def)
  have 7: "located 1 ?d ''/r'' sample_names info [7, 8]"
    unfolding located_def using info(2-4) ne2
    by (intro exI [of _ 0] exI [of _ "[7, 8]"]) (simp add: file_content_def)
  have 8: "file_content (disk_files ?d) (path_join ''/r'' (cb_src_path (new_block (sample_small\<lparr>fm_size := 4\<rparr>) ''f'' ''f''))) = Some [1, 2, 3, 4]"
    using ne2 by (simp add: file_content_def new_block_def)
  have f: "file_content (disk_files ?d) ''/r/f'' = Some [1, 2, 3, 4]" by (simp add: file_content_def)
  from stale_index_entry_restored [OF 1 2 3 4 5 6 7 8, of no_sqlite] f show ?thesis
    by (intro exI [of _ ?d]) (simp add: new_block_def saturating_add_def)
qed

theorem failed_blob_reported_witness:
  "files_failed (rep_stats (ar_report (write_aggregate_blob \<lparr>max_retries = 0\<rparr> '''' 1 (''shard-000'', [sample_pending])
    \<lparr>ar_state = local_aggregate_new sample_engine, ar_disk = sample_source\<lparr>disk_faults := [Some (OpenFails ''denied'')]\<rparr>,
     ar_report = empty_report\<rparr>))) = 1"
proof -
  let ?run = "\<lparr>ar_state = local_aggregate_new sample_engine, ar_disk = sample_source\<lparr>disk_faults := [Some (OpenFails ''denied'')]\<rparr>,
     ar_report = empty_report\<rparr>"
  obtain e d where "create_blob_from_local_files ''shard-000'' [sample_pending] 1 (las_engine (ar_state ?run), ar_disk ?run) = (Inl ''denied'', e, d)"
    by (simp add: create_blob_from_local_files_def prepare_blob_path_def sample_engine_def aggregate_config_enabled_def
        aggregate_config_default_def Let_def disk_then_def create_dir_all_def disk_call_def next_fault_def local_aggregate_new_def)
  from failed_blob_reported [OF this, of "[]" "\<lparr>max_retries = 0\<rparr>" "''''"] show ?thesis
    by (simp add: empty_report_def stats_default_def Let_def)
qed

theorem index_failure_unreported_witness:
  "\<exists>run'. run' = flush_local_aggregate_state restore_codec no_sqlite id id \<lparr>max_retries = 0\<rparr> '''' 0
      \<lparr>ar_state = local_aggregate_new sample_engine, ar_disk = sample_source\<lparr>disk_faults := [None, Some (OpenFails ''disk full'')]\<rparr>,
       ar_report = empty_report\<rparr>
    \<and> ar_report run' = empty_report"
proof -
  let ?d = "sample_source\<lparr>disk_faults := [None, Some (OpenFails ''disk full'')]\<rparr>"
  let ?run = "\<lparr>ar_state = local_aggregate_new sample_engine, ar_disk = ?d, ar_report = empty_report\<rparr>"
  let ?i = "\<lparr>index_path = shard_index_path ''/r'', records = []\<rparr>"
  have i: "shard_index (las_engine (ar_state ?run)) = Some ?i" "index_path ?i = shard_index_path ''/r''"
    "agg_layout (eng_config (las_engine (ar_state ?run))) = Shard"
    by (simp_all add: local_aggregate_new_def sample_engine_def aggregate_config_enabled_def aggregate_config_default_def)
  have flush: "local_flush_all id (ar_state ?run) = ([], ar_state ?run)"
    by (simp add: local_flush_all_def local_aggregate_new_def)
  have "path_parent (shard_index_path ''/r'') = Some ''/r/.AGGR''" by code_simp
  then obtain d where "index_flush restore_codec ?i (ar_disk ?run) = (Inl ''disk full'', d)"
    by (simp add: index_flush_def persist_binary_index_def create_parent_def create_dir_all_def disk_then_def disk_call_def
        next_fault_def after_fault_def give_def Let_def file_create_def)
  from index_failure_unreported [OF i flush this, of no_sqlite id "\<lparr>max_retries = 0\<rparr>" "''''" 0] show ?thesis by (simp add: Let_def)
qed

definition sample_blob_meta :: "string \<Rightarrow> aggregate_blob_meta" where
  "sample_blob_meta p = \<lparr>abm_blob_path = ''.AGGR/shard-000/b'', abm_blob_size = 2, abm_file_count = 1,
     abm_files = [entry_of_pending (sample_pending\<lparr>plf_relative_path := p\<rparr>) 0], abm_shard_id = 0\<rparr>"

theorem concurrent_flush_loses_entries_witness:
  "\<exists>ic i' d d' d2. aggregate_index_open ic (shard_index_path ''/r'') d2 = (Inr i', d')
    \<and> index_flush ic (add_blob (sample_blob_meta ''a'') \<lparr>index_path = shard_index_path ''/r'', records = []\<rparr>) sample_source = (Inr (), d)
    \<and> query_file i' ''a'' = None"
proof -
  let ?i = "\<lparr>index_path = shard_index_path ''/r'', records = []\<rparr>"
  let ?i2 = "add_blob (sample_blob_meta ''b'') ?i"
  let ?ic = "\<lparr>enc_index = (\<lambda>rs. []), dec_index = (\<lambda>_. Inr (map record_of_info (records ?i2))), hash_order = (\<lambda>m. m)\<rparr>"
  have nf: "no_faults sample_source" by (simp add: no_faults_def sample_source_def)
  note path = shard_index_path_eq [of "''/r''"]
  obtain d1 where 1: "index_flush ?ic (add_blob (sample_blob_meta ''a'') ?i) sample_source = (Inr (), d1)" "no_faults d1"
    using persist_good [OF nf, of ?ic "path_join ''/r'' ''.AGGR''"] unfolding path [symmetric] index_flush_def by (auto simp: add_blob_def)
  obtain d2 where 2: "index_flush ?ic ?i2 d1 = (Inr (), d2)" "no_faults d2"
    using persist_good [OF 1(2), of ?ic "path_join ''/r'' ''.AGGR''"] unfolding path [symmetric] index_flush_def by (auto simp: add_blob_def)
  have entry: "abm_files (sample_blob_meta p) = [entry_of_pending (sample_pending\<lparr>plf_relative_path := p\<rparr>) 0]" for p
    by (simp add: sample_blob_meta_def)
  from concurrent_flush_loses_entries [of ?ic ?i "path_join ''/r'' ''.AGGR''", OF _ _ _ 1(1) 2(1) _ 2(2),
      of "entry_of_pending (sample_pending\<lparr>plf_relative_path := ''a''\<rparr>) 0"] 1(1)
  show ?thesis
    by (simp add: hash_order_ok_def path [symmetric] reads_back_def entry query_file_def entry_of_pending_def) blast
qed

theorem dir_index_forgets_earlier_sessions_witness:
  "\<exists>sq e d' d''. flush_all_indexes restore_codec sq id e sample_source = (Inr (), d')
    \<and> read_dir_index sq (path_join (path_join ''/r'' (aggregate_dir_for ''d'')) SQLITE_INDEX_FILE_NAME) ''f'' ''d/.AGGR_DIR'' d' = (Inr None, d'')"
proof -
  let ?blob = "sample_blob_meta ''d/g''"
  let ?row = "\<lparr>dr_file_name = ''g'', dr_blob_name = ''b'', dr_offset = 0, dr_size = 2,
      dr_mtime = plf_mtime sample_pending, dr_mode = plf_mode sample_pending, dr_xattrs = plf_xattrs sample_pending,
      dr_acl = plf_acl sample_pending\<rparr>"
  let ?sq = "\<lparr>sq_write = (\<lambda>old rows. Inr []), sq_select = (\<lambda>_ name. Inr (last_row [?row] name))\<rparr>"
  let ?e = "sample_engine\<lparr>eng_config := aggregate_config_enabled\<lparr>agg_layout := DirLevel\<rparr>, dir_indexes := [(''d'', [?blob])]\<rparr>"
  have nf: "no_faults sample_source" by (simp add: no_faults_def sample_source_def)
  have names: "path_file_name ''d/g'' = Some ''g''" "path_file_name ''.AGGR/shard-000/b'' = Some ''b''" by code_simp+
  have rows: "dir_rows [?blob] = Inr [?row]"
    by (simp add: sample_blob_meta_def names dir_row_of_def entry_of_pending_def sample_fields)
  have sel: "selects ?sq [?row] []" by (simp add: selects_def)
  have base: "eng_target_base ?e = ''/r''" by (simp add: sample_engine_def)
  have tmp: "file_content (disk_files sample_source) (path_join (eng_target_base ?e) (aggregate_dir_for ''d'') @ ''/AGGREGATE_IDX.tmp'') = None"
    by (simp add: base sample_source_def file_content_def path_join_def aggregate_dir_for_def AGGREGATE_DIR_NAME_def)
  from dir_index_forgets_earlier_sessions [OF _ _ _ rows sel nf tmp, of id "''f''" restore_codec "''d/.AGGR_DIR''"] show ?thesis
    unfolding base by (simp del: split_paired_Ex) blast
qed

end
