(* ===== verification/LocalExecutor.thy ===== *)
theory LocalExecutor
  imports TargetTree LocalTransport
begin

text \<open>
  The direct copy of \<^verbatim>\<open>native/backup/local_executor.rs\<close> with the helpers it calls in
  \<^verbatim>\<open>local_block.rs\<close> and \<^verbatim>\<open>local_metadata.rs\<close>, and the producer and the workers of
  \<^verbatim>\<open>native/backup/local_copy.rs\<close> around it as a step relation. The file system has contents, directories and
  links; links are followed where the call follows them, as in \<^verbatim>\<open>TargetTree\<close>. Any call may fail, a
  write after some bytes, a read may be short. Extended attributes and ACLs, whose errors are only logged,
  are left out.
\<close>

section \<open>Files, directories and links\<close>

datatype node = FileNode "byte list" | DirNode | LinkNode "string list"

type_synonym nodes = "(string list \<times> node) list"

record lfs =
  lfs_nodes :: nodes
  lfs_faults :: "(os_error \<times> nat) option list"
  lfs_reads :: "nat list"

definition node_at :: "nodes \<Rightarrow> string list \<Rightarrow> node option" where
  "node_at t p = (if p = [] then Some DirNode else map_of t p)"

fun tree_entry_of :: "node \<Rightarrow> tree_entry" where
  "tree_entry_of (FileNode c) = TreeFile 0"
| "tree_entry_of DirNode = TreeDir 0 0"
| "tree_entry_of (LinkNode q) = TreeLink q"

text \<open>Where a path leads when links are followed.\<close>

definition resolve :: "nodes \<Rightarrow> string list \<Rightarrow> string list option" where
  "resolve t p = follow 40 (map (map_prod id tree_entry_of) t) p"

definition resolved_node :: "nodes \<Rightarrow> string list \<Rightarrow> node option" where
  "resolved_node t p = Option.bind (resolve t p) (node_at t)"

definition file_bytes :: "nodes \<Rightarrow> string list \<Rightarrow> byte list" where
  "file_bytes t p = (case node_at t p of Some (FileNode c) \<Rightarrow> c | _ \<Rightarrow> [])"

type_synonym 'a lfs_op = "lfs \<Rightarrow> (os_error + 'a) \<times> lfs"

definition lfs_call :: "(nat \<Rightarrow> nodes \<Rightarrow> nodes) \<Rightarrow> 'a lfs_op \<Rightarrow> 'a lfs_op" where
  "lfs_call partial act fs =
    (let fs' = fs\<lparr>lfs_faults := tl (lfs_faults fs)\<rparr>
     in case lfs_faults fs of
          Some (e, n) # _ \<Rightarrow> (Inl e, fs'\<lparr>lfs_nodes := partial n (lfs_nodes fs)\<rparr>)
        | _ \<Rightarrow> act fs')"

text \<open>\<^verbatim>\<open>create_dir_all\<close>: what exists on the way must be a directory.\<close>

definition missing_dirs :: "nodes \<Rightarrow> string list \<Rightarrow> string list list" where
  "missing_dirs t p = filter (\<lambda>q. node_at t q = None) (prefixes p)"

definition mkdir_all :: "string list \<Rightarrow> unit lfs_op" where
  "mkdir_all p = lfs_call (\<lambda>n t. map (\<lambda>q. (q, DirNode)) (take n (missing_dirs t p)) @ t) (\<lambda>fs.
    if list_ex (\<lambda>q. node_at (lfs_nodes fs) q \<noteq> None \<and> resolved_node (lfs_nodes fs) q \<noteq> Some DirNode) (prefixes p)
    then (Inl (errno 20), fs)
    else (Inr (), fs\<lparr>lfs_nodes := map (\<lambda>q. (q, DirNode)) (missing_dirs (lfs_nodes fs) p) @ lfs_nodes fs\<rparr>))"

text \<open>\<^verbatim>\<open>File::open\<close> and \<^verbatim>\<open>File::create\<close> give the place they opened; opening a directory succeeds, reading it fails.\<close>

definition open_source :: "string list \<Rightarrow> string list lfs_op" where
  "open_source p = lfs_call (\<lambda>_ t. t) (\<lambda>fs.
    case resolve (lfs_nodes fs) p of
      None \<Rightarrow> (Inl (errno 40), fs)
    | Some q \<Rightarrow> (if node_at (lfs_nodes fs) q = None then (Inl (errno 2), fs) else (Inr q, fs)))"

definition create_target :: "string list \<Rightarrow> string list lfs_op" where
  "create_target p = lfs_call (\<lambda>_ t. t) (\<lambda>fs.
    case resolve (lfs_nodes fs) p of
      None \<Rightarrow> (Inl (errno 40), fs)
    | Some q \<Rightarrow>
        (if node_at (lfs_nodes fs) q = Some DirNode then (Inl (errno 21), fs)
         else if resolved_node (lfs_nodes fs) (butlast q) \<noteq> Some DirNode then (Inl (errno 2), fs)
         else (Inr q, fs\<lparr>lfs_nodes := AList.update q (FileNode []) (lfs_nodes fs)\<rparr>)))"

definition read_source :: "string list \<Rightarrow> nat \<Rightarrow> nat \<Rightarrow> byte list lfs_op" where
  "read_source q pos m = lfs_call (\<lambda>_ t. t) (\<lambda>fs.
    if node_at (lfs_nodes fs) q = Some DirNode then (Inl (errno 21), fs)
    else let bs = take m (drop pos (file_bytes (lfs_nodes fs) q));
             k = (case lfs_reads fs of [] \<Rightarrow> length bs | n # _ \<Rightarrow> min (length bs) (max n 1))
         in (Inr (take k bs), fs\<lparr>lfs_reads := tl (lfs_reads fs)\<rparr>))"

definition node_write :: "string list \<Rightarrow> nat \<Rightarrow> byte list \<Rightarrow> nodes \<Rightarrow> nodes" where
  "node_write q pos bs t = AList.update q (FileNode (put_at pos bs (file_bytes t q))) t"

definition write_target :: "string list \<Rightarrow> nat \<Rightarrow> byte list \<Rightarrow> unit lfs_op" where
  "write_target q pos bs = lfs_call (\<lambda>n. node_write q pos (take n bs))
    (\<lambda>fs. (Inr (), fs\<lparr>lfs_nodes := node_write q pos bs (lfs_nodes fs)\<rparr>))"

definition unlink_file :: "string list \<Rightarrow> unit lfs_op" where
  "unlink_file p = lfs_call (\<lambda>_ t. t) (\<lambda>fs.
    case node_at (lfs_nodes fs) p of
      None \<Rightarrow> (Inl (errno 2), fs)
    | Some DirNode \<Rightarrow> (Inl (errno 21), fs)
    | Some _ \<Rightarrow> (Inr (), fs\<lparr>lfs_nodes := AList.delete p (lfs_nodes fs)\<rparr>))"

definition make_link :: "string list \<Rightarrow> string list \<Rightarrow> unit lfs_op" where
  "make_link target p = lfs_call (\<lambda>_ t. t) (\<lambda>fs.
    if node_at (lfs_nodes fs) p \<noteq> None then (Inl (errno 17), fs)
    else if resolved_node (lfs_nodes fs) (butlast p) \<noteq> Some DirNode then (Inl (errno 2), fs)
    else (Inr (), fs\<lparr>lfs_nodes := AList.update p (LinkNode target) (lfs_nodes fs)\<rparr>))"

section \<open>Copying the bytes\<close>

lemma node_write_no_growth:
  assumes "copied + length bs \<le> length (file_bytes t src)"
  shows "length (file_bytes (node_write dst copied bs t) src) = length (file_bytes t src)"
  using assms by (auto simp: file_bytes_def node_write_def node_at_def update_conv' put_at_def
      split: option.splits node.splits if_splits)

lemma read_sourceD:
  "read_source q pos m fs = (Inr bs, fs') \<Longrightarrow>
    bs = take (length bs) (drop pos (file_bytes (lfs_nodes fs) q)) \<and> lfs_nodes fs' = lfs_nodes fs"
  by (auto simp: read_source_def lfs_call_def Let_def min_def split: list.splits option.splits if_splits)

lemma write_targetD:
  "write_target q pos bs fs = (Inr u, fs') \<Longrightarrow> lfs_nodes fs' = node_write q pos bs (lfs_nodes fs)"
  by (auto simp: write_target_def lfs_call_def Let_def split: list.splits option.splits)

lemma copy_step_decreases:
  assumes "read_source src copied buffer fs = (Inr bs, fs1)" and "bs \<noteq> []"
    and "write_target dst copied bs fs1 = (Inr u, fs2)"
  shows "length (file_bytes (lfs_nodes fs2) src) - (copied + length bs) < length (file_bytes (lfs_nodes fs) src) - copied"
proof -
  from read_sourceD [OF assms(1)] have bs: "length bs \<le> length (file_bytes (lfs_nodes fs) src) - copied"
    and same: "lfs_nodes fs1 = lfs_nodes fs"
    by (metis length_drop length_take min.cobounded1, simp)
  have "0 < length bs" using assms(2) by simp
  with bs have "copied + length bs \<le> length (file_bytes (lfs_nodes fs) src)" by linarith
  from node_write_no_growth [OF this, of dst] write_targetD [OF assms(3)] same
  have "length (file_bytes (lfs_nodes fs2) src) = length (file_bytes (lfs_nodes fs) src)" by simp
  with bs \<open>0 < length bs\<close> show ?thesis by linarith
qed

text \<open>\<^verbatim>\<open>copy_stream\<close>: both files are read and written at the number of bytes copied.\<close>

function copy_stream_loop :: "string list \<Rightarrow> string list \<Rightarrow> nat \<Rightarrow> nat \<Rightarrow> nat lfs_op" where
  "copy_stream_loop src dst buffer copied fs =
    (case read_source src copied buffer fs of
       (Inl e, fs) \<Rightarrow> (Inl e, fs)
     | (Inr bs, fs) \<Rightarrow>
         if bs = [] then (Inr copied, fs)
         else (case write_target dst copied bs fs of
                 (Inl e, fs) \<Rightarrow> (Inl e, fs)
               | (Inr _, fs) \<Rightarrow> copy_stream_loop src dst buffer (copied + length bs) fs))"
  by pat_completeness auto
termination
  by (relation "measure (\<lambda>(src, dst, buffer, copied, fs). length (file_bytes (lfs_nodes fs) src) - copied)")
    (auto dest!: sym [of "(_, _)"] intro!: copy_step_decreases)

declare copy_stream_loop.simps [simp del]

definition copy_stream :: "string list \<Rightarrow> string list \<Rightarrow> nat \<Rightarrow> nat lfs_op" where
  "copy_stream src dst buffer = copy_stream_loop src dst buffer 0"

text \<open>The link is made anew when something exists at its path; \<^verbatim>\<open>exists\<close> follows links.\<close>

definition create_symlink :: "string list \<Rightarrow> string list \<Rightarrow> unit lfs_op" where
  "create_symlink dst target fs =
    (if resolved_node (lfs_nodes fs) dst \<noteq> None
     then (case unlink_file dst fs of (Inl e, fs) \<Rightarrow> (Inl e, fs) | (Inr _, fs) \<Rightarrow> make_link target dst fs)
     else make_link target dst fs)"

section \<open>Executing a plan\<close>

text \<open>\<open>None\<close> is the \<^verbatim>\<open>unreachable!\<close> of the retry loop.\<close>

type_synonym local_run = "lfs \<times> copy_report"

type_synonym 'a run_op = "local_run \<Rightarrow> ((os_error + 'a) \<times> local_run) option"

definition run_then :: "'a run_op \<Rightarrow> ('a \<Rightarrow> 'b run_op) \<Rightarrow> 'b run_op" where
  "run_then m f run = Option.bind (m run) (\<lambda>(r, run). case r of Inl e \<Rightarrow> Some (Inl e, run) | Inr v \<Rightarrow> f v run)"

definition run_lfs :: "'a lfs_op \<Rightarrow> 'a run_op" where
  "run_lfs op run = (case op (fst run) of (r, fs) \<Rightarrow> Some (r, fs, snd run))"

definition retry_local_io :: "retry_policy \<Rightarrow> 'a lfs_op \<Rightarrow> 'a run_op" where
  "retry_local_io policy op run =
    map_option (\<lambda>(r, fs). (map_sum fst id r, fs, snd run)) (retry_sync policy op (fst run))"

definition run_stats :: "(backup_stats \<Rightarrow> backup_stats) \<Rightarrow> unit run_op" where
  "run_stats g run = Some (Inr (), fst run, (snd run)\<lparr>rep_stats := g (rep_stats (snd run))\<rparr>)"

definition record_failure ::
  "retry_policy \<Rightarrow> string \<Rightarrow> string \<Rightarrow> failure_item_type \<Rightarrow> string \<Rightarrow> os_error \<Rightarrow> copy_report \<Rightarrow> copy_report" where
  "record_failure policy now operation item_type path e rep = rep\<lparr>rep_failures := map_option (\<lambda>rs.
     rs @ [record_from_io_error now ''backup'' operation item_type path e (max_retries policy + 1)]) (rep_failures rep)\<rparr>"

definition or_record :: "retry_policy \<Rightarrow> string \<Rightarrow> string \<Rightarrow> string \<Rightarrow> 'a run_op \<Rightarrow> 'a run_op" where
  "or_record policy now operation path m run = map_option (\<lambda>(r, fs, rep).
     (r, fs, case r of Inl e \<Rightarrow> record_failure policy now operation ItemFile path e rep | Inr _ \<Rightarrow> rep)) (m run)"

definition make_parent :: "retry_policy \<Rightarrow> string \<Rightarrow> unit run_op" where
  "make_parent policy dst_path =
    (if os_path dst_path = [] then (\<lambda>run. Some (Inr (), run))
     else retry_local_io policy (mkdir_all (butlast (os_path dst_path))))"

text \<open>The target of a link is read from its own directory.\<close>

definition link_target :: "string \<Rightarrow> string \<Rightarrow> string list" where
  "link_target dst_path target =
    (if prefix ''/'' target then os_path target
     else foldl norm_step (butlast (os_path dst_path)) (split_on CHR ''/'' target))"

definition copy_one_local_file ::
  "retry_policy \<Rightarrow> string \<Rightarrow> nat \<Rightarrow> file_meta \<Rightarrow> string \<Rightarrow> string \<Rightarrow> unit run_op" where
  "copy_one_local_file policy now buffer meta src_path dst_path =
    (case mc_symlink_target_path (fm_common meta) of
       Some target \<Rightarrow>
         run_then (make_parent policy dst_path) (\<lambda>_.
         run_then (run_lfs (create_symlink (os_path dst_path) (link_target dst_path target))) (\<lambda>_.
           run_stats inc_files_copied))
     | None \<Rightarrow>
         run_then (make_parent policy dst_path) (\<lambda>_.
         run_then (or_record policy now ''open_source'' src_path (retry_local_io policy (open_source (os_path src_path)))) (\<lambda>src.
         run_then (run_stats inc_src_opened) (\<lambda>_.
         run_then (or_record policy now ''create_target'' dst_path (retry_local_io policy (create_target (os_path dst_path)))) (\<lambda>dst.
         run_then (run_stats inc_dst_opened) (\<lambda>_.
         run_then (or_record policy now ''copy_stream'' src_path (run_lfs (copy_stream src dst buffer))) (\<lambda>copied.
           run_stats (\<lambda>s. inc_files_copied (inc_src_closed (inc_dst_closed (add_bytes_copied (of_nat copied) s)))))))))))"

text \<open>What a worker does with a plan. \<open>agg\<close> is the aggregation state, when there is one.\<close>

definition execute_local_file_plan ::
  "retry_policy \<Rightarrow> string \<Rightarrow> nat \<Rightarrow> (file_meta \<Rightarrow> string \<Rightarrow> local_run \<Rightarrow> local_run) option \<Rightarrow> file_copy_plan \<Rightarrow> unit run_op" where
  "execute_local_file_plan policy now buffer agg plan =
    (case plan of
       Direct meta src_path dst_path \<Rightarrow> copy_one_local_file policy now buffer meta src_path dst_path
     | Aggregate meta src_path \<Rightarrow>
         (case agg of
            None \<Rightarrow> (\<lambda>run. Some (Inl \<lparr>raw_os_error = None, os_message = ''missing aggregate state''\<rparr>, run))
          | Some aggregate \<Rightarrow> (\<lambda>run. Some (Inr (), aggregate meta src_path run))))"

definition work_on ::
  "retry_policy \<Rightarrow> string \<Rightarrow> nat \<Rightarrow> (file_meta \<Rightarrow> string \<Rightarrow> local_run \<Rightarrow> local_run) option \<Rightarrow> file_copy_plan \<Rightarrow>
   local_run \<Rightarrow> local_run option" where
  "work_on policy now buffer agg plan run =
    map_option (\<lambda>(r, fs, rep). (fs, case r of Inl _ \<Rightarrow> count_failed rep | Inr _ \<Rightarrow> rep))
      (execute_local_file_plan policy now buffer agg plan run)"

text \<open>What the producer does with an entry: directories are made at once, files are sent to the workers.\<close>

definition make_directory :: "retry_policy \<Rightarrow> string \<Rightarrow> string \<Rightarrow> local_run \<Rightarrow> local_run option" where
  "make_directory policy now dst_path run =
    map_option (\<lambda>(r, fs, rep). (fs, case r of
        Inl e \<Rightarrow> record_failure policy now ''create_dir'' ItemDirectory dst_path e
          (rep\<lparr>rep_stats := inc_dirs_failed (rep_stats rep)\<rparr>)
      | Inr _ \<Rightarrow> rep\<lparr>rep_stats := inc_dirs_created (rep_stats rep)\<rparr>))
      (retry_local_io policy (mkdir_all (os_path dst_path)) run)"

section \<open>Producer and workers\<close>

text \<open>
  The entries still to come, the plans in the channel, and the run. A step is one of the producer, which waits
  while the channel is full, or a worker taking the plan at the front.
\<close>

record copy_state =
  cs_entries :: "copy_plan_entry list"
  cs_queue :: "file_copy_plan list"
  cs_run :: local_run

inductive copy_step ::
  "retry_policy \<Rightarrow> string \<Rightarrow> nat \<Rightarrow> (file_meta \<Rightarrow> string \<Rightarrow> local_run \<Rightarrow> local_run) option \<Rightarrow> nat \<Rightarrow>
   copy_state \<Rightarrow> copy_state \<Rightarrow> bool"
  for policy now buffer agg capacity where
  produce_dir: "make_directory policy now dst_path run = Some run' \<Longrightarrow>
    copy_step policy now buffer agg capacity
      \<lparr>cs_entries = PlanDirectory meta dst_path # es, cs_queue = q, cs_run = run\<rparr>
      \<lparr>cs_entries = es, cs_queue = q, cs_run = run'\<rparr>"
| produce_file: "length q < capacity \<Longrightarrow>
    copy_step policy now buffer agg capacity
      \<lparr>cs_entries = PlanFile plan # es, cs_queue = q, cs_run = run\<rparr>
      \<lparr>cs_entries = es, cs_queue = q @ [plan], cs_run = run\<rparr>"
| work: "work_on policy now buffer agg plan run = Some run' \<Longrightarrow>
    copy_step policy now buffer agg capacity
      \<lparr>cs_entries = es, cs_queue = plan # q, cs_run = run\<rparr>
      \<lparr>cs_entries = es, cs_queue = q, cs_run = run'\<rparr>"


section \<open>Every file is counted once\<close>

definition counts :: "u64 \<Rightarrow> 'a run_op \<Rightarrow> bool" where
  "counts k m \<longleftrightarrow> (\<forall>run. \<exists>r run'. m run = Some (r, run')
    \<and> files_failed (rep_stats (snd run')) = files_failed (rep_stats (snd run))
    \<and> files_copied (rep_stats (snd run')) =
        files_copied (rep_stats (snd run)) + (case r of Inl _ \<Rightarrow> 0 | Inr _ \<Rightarrow> k))"

named_theorems counts_intros

lemma countsE:
  assumes "counts k m"
  obtains r run' where "m run = Some (r, run')"
    "files_failed (rep_stats (snd run')) = files_failed (rep_stats (snd run))"
    "files_copied (rep_stats (snd run')) = files_copied (rep_stats (snd run)) + (case r of Inl _ \<Rightarrow> 0 | Inr _ \<Rightarrow> k)"
  using assms unfolding counts_def by metis

lemma counts_then [counts_intros]:
  assumes "counts 0 m" and "\<And>v. counts k (f v)"
  shows "counts k (run_then m f)"
  unfolding counts_def
proof
  fix run
  obtain r run1 where m: "m run = Some (r, run1)"
    "files_failed (rep_stats (snd run1)) = files_failed (rep_stats (snd run))"
    "files_copied (rep_stats (snd run1)) = files_copied (rep_stats (snd run)) + (case r of Inl _ \<Rightarrow> 0 | Inr _ \<Rightarrow> 0)"
    using countsE [OF assms(1)] .
  show "\<exists>r run'. run_then m f run = Some (r, run')
    \<and> files_failed (rep_stats (snd run')) = files_failed (rep_stats (snd run))
    \<and> files_copied (rep_stats (snd run')) = files_copied (rep_stats (snd run)) + (case r of Inl _ \<Rightarrow> 0 | Inr _ \<Rightarrow> k)"
  proof (cases r)
    case (Inl e)
    with m show ?thesis by (simp add: run_then_def)
  next
    case (Inr v)
    obtain r' run2 where "f v run1 = Some (r', run2)"
      "files_failed (rep_stats (snd run2)) = files_failed (rep_stats (snd run1))"
      "files_copied (rep_stats (snd run2)) = files_copied (rep_stats (snd run1)) + (case r' of Inl _ \<Rightarrow> 0 | Inr _ \<Rightarrow> k)"
      using countsE [OF assms(2)] .
    with m Inr show ?thesis by (simp add: run_then_def)
  qed
qed

lemma counts_basic [counts_intros]:
  "counts 0 (run_lfs op)" "counts 0 (\<lambda>run. Some (Inr (), run))" "counts k (\<lambda>run. Some (Inl e, run))"
  by (auto simp: counts_def run_lfs_def split: sum.splits prod.splits)

lemma counts_retry [counts_intros]: "counts 0 (retry_local_io policy op)"
  by (auto simp: counts_def retry_local_io_def retry_sync_def retry_sync_item_def retry_loop_new split: sum.splits prod.splits)

lemma counts_parent [counts_intros]: "counts 0 (make_parent policy dst)"
  by (simp add: make_parent_def counts_intros)

lemma counts_or_record [counts_intros]: "counts 0 m \<Longrightarrow> counts 0 (or_record policy now operation path m)"
  unfolding counts_def or_record_def record_failure_def
  by (fastforce split: sum.splits prod.splits)

lemma counts_stats [counts_intros]:
  "counts 0 (run_stats inc_src_opened)" "counts 0 (run_stats inc_dst_opened)" "counts 1 (run_stats inc_files_copied)"
  "counts 1 (run_stats (\<lambda>s. inc_files_copied (inc_src_closed (inc_dst_closed (add_bytes_copied n s)))))"
  by (simp_all add: counts_def run_stats_def inc_src_opened_def inc_dst_opened_def inc_files_copied_def inc_src_closed_def
      inc_dst_closed_def add_bytes_copied_def)

lemma counts_copy_one: "counts 1 (copy_one_local_file policy now buffer meta src dst)"
  unfolding copy_one_local_file_def by (auto intro!: counts_intros split: option.splits)

definition files_done :: "local_run \<Rightarrow> u64" where
  "files_done run = files_copied (rep_stats (snd run)) + files_failed (rep_stats (snd run))"

lemma work_on_counts: "\<exists>run'. work_on policy now buffer None plan run = Some run' \<and> files_done run' = files_done run + 1"
proof -
  have "counts 1 (execute_local_file_plan policy now buffer None plan)"
    unfolding execute_local_file_plan_def
    by (auto intro!: counts_copy_one counts_intros split: file_copy_plan.splits)
  then obtain r run' where "execute_local_file_plan policy now buffer None plan run = Some (r, run')"
    "files_failed (rep_stats (snd run')) = files_failed (rep_stats (snd run))"
    "files_copied (rep_stats (snd run')) = files_copied (rep_stats (snd run)) + (case r of Inl _ \<Rightarrow> 0 | Inr _ \<Rightarrow> 1)"
    by (rule countsE)
  then show ?thesis
    by (cases run'; cases r) (simp_all add: work_on_def files_done_def count_failed_def inc_files_failed_def)
qed

lemma make_directory_counts: "\<exists>run'. make_directory policy now dst run = Some run' \<and> files_done run' = files_done run"
  by (auto simp: make_directory_def retry_local_io_def retry_sync_def retry_sync_item_def retry_loop_new files_done_def
      record_failure_def inc_dirs_failed_def inc_dirs_created_def split: sum.splits prod.splits)

text \<open>The files of the entries still to come.\<close>

primrec file_plans :: "copy_plan_entry list \<Rightarrow> nat" where
  "file_plans [] = 0"
| "file_plans (e # es) = (case e of PlanFile p \<Rightarrow> 1 | PlanDirectory m d \<Rightarrow> 0) + file_plans es"

definition accounted :: "copy_state \<Rightarrow> u64" where
  "accounted s = files_done (cs_run s) + of_nat (length (cs_queue s)) + of_nat (file_plans (cs_entries s))"

lemma copy_step_accounted:
  assumes "copy_step policy now buffer None capacity s s'"
  shows "accounted s' = accounted s"
  using assms
proof cases
  case (produce_dir dst run run' meta es q)
  then show ?thesis using make_directory_counts [of policy now dst run] by (auto simp: accounted_def)
next
  case (produce_file q plan es run)
  then show ?thesis by (simp add: accounted_def)
next
  case (work plan run run' es q)
  then show ?thesis using work_on_counts [of policy now buffer plan run] by (auto simp: accounted_def)
qed




section \<open>One file, copied\<close>

definition quiet :: "lfs \<Rightarrow> bool" where
  "quiet fs \<longleftrightarrow> (\<forall>f \<in> set (lfs_faults fs). f = None)"

lemma lfs_call_quiet: "quiet fs \<Longrightarrow> lfs_call partial act fs = act (fs\<lparr>lfs_faults := tl (lfs_faults fs)\<rparr>)"
  by (cases "lfs_faults fs") (auto simp: quiet_def lfs_call_def Let_def)

lemma quiet_tl [simp]: "quiet fs \<Longrightarrow> quiet (fs\<lparr>lfs_faults := tl (lfs_faults fs)\<rparr>)"
  by (cases "lfs_faults fs") (auto simp: quiet_def)

lemma quiet_simps [simp]: "quiet (fs\<lparr>lfs_nodes := t\<rparr>) = quiet fs" "quiet (fs\<lparr>lfs_reads := r\<rparr>) = quiet fs"
  by (simp_all add: quiet_def)

lemma retry_first: "op fs = (Inr v, fs') \<Longrightarrow> retry_local_io policy op (fs, rep) = Some (Inr v, fs', rep)"
proof -
  assume "op fs = (Inr v, fs')"
  then have "try_up_to n (\<lambda>_ s. with_unit (op s)) () fs = (Inr v, fs')" for n
    by (cases n) simp_all
  then show ?thesis
    by (simp add: retry_local_io_def retry_sync_def retry_sync_item_def retry_loop_new)
qed

lemma node_at_update: "q \<noteq> [] \<Longrightarrow> node_at (AList.update q n t) p = (if p = q then Some n else node_at t p)"
  by (simp add: node_at_def update_conv')

lemma put_at_end: "length c = pos \<Longrightarrow> put_at pos bs c = c @ bs"
  by (simp add: put_at_def)

lemma copy_stream_loop_quiet:
  assumes "quiet fs" and "node_at (lfs_nodes fs) src = Some (FileNode c)" and "src \<noteq> dst" and "dst \<noteq> []" and "0 < buffer"
    and "copied \<le> length c" and "node_at (lfs_nodes fs) dst = Some (FileNode (take copied c))"
  shows "\<exists>fs'. copy_stream_loop src dst buffer copied fs = (Inr (length c), fs') \<and> quiet fs'
    \<and> (\<forall>p. node_at (lfs_nodes fs') p = (if p = dst then Some (FileNode c) else node_at (lfs_nodes fs) p))"
  using assms(1,2,6,7)
proof (induction "length c - copied" arbitrary: copied fs rule: less_induct)
  case less
  have src: "file_bytes (lfs_nodes fs) src = c" using less.prems(2) by (simp add: file_bytes_def)
  let ?bs = "take buffer (drop copied c)"
  let ?k = "case lfs_reads fs of [] \<Rightarrow> length ?bs | n # _ \<Rightarrow> min (length ?bs) (max n 1)"
  define fs1 where "fs1 = fs\<lparr>lfs_faults := tl (lfs_faults fs), lfs_reads := tl (lfs_reads fs)\<rparr>"
  have read: "read_source src copied buffer fs = (Inr (take ?k ?bs), fs1)"
    unfolding read_source_def lfs_call_quiet [OF less.prems(1)] fs1_def by (simp add: less.prems(2) src Let_def)
  have fs1: "quiet fs1" "lfs_nodes fs1 = lfs_nodes fs"
  proof -
    have "quiet (fs\<lparr>lfs_faults := tl (lfs_faults fs)\<rparr>)" using less.prems(1) by simp
    then show "quiet fs1" by (simp add: fs1_def quiet_def)
  qed (simp add: fs1_def)
  show ?case
  proof (cases "copied = length c")
    case True
    with read fs1 less.prems(4) show ?thesis by (subst copy_stream_loop.simps) auto
  next
    case False
    with less.prems(3) assms(5) have "?bs \<noteq> []" by simp
    then have k: "0 < ?k" "?k \<le> length ?bs" by (auto split: list.splits)
    define bs where "bs = take ?k ?bs"
    have bs: "bs \<noteq> []" "length bs \<le> length c - copied" "bs = take (length bs) (drop copied c)"
      using k \<open>?bs \<noteq> []\<close> by (auto simp: bs_def min_def)
    define fs2 where "fs2 = fs1\<lparr>lfs_faults := tl (lfs_faults fs1), lfs_nodes := node_write dst copied bs (lfs_nodes fs1)\<rparr>"
    have written: "write_target dst copied bs fs1 = (Inr (), fs2)"
      unfolding write_target_def lfs_call_quiet [OF fs1(1)] fs2_def by simp
    have "quiet fs2" using fs1(1) unfolding fs2_def by (cases "lfs_faults fs1") (auto simp: quiet_def)
    have dst: "file_bytes (lfs_nodes fs) dst = take copied c" using less.prems(4) fs1(2) by (simp add: file_bytes_def)
    have "take copied c @ bs = take (copied + length bs) c" using bs(3) by (metis take_add)
    then have nodes: "node_at (lfs_nodes fs2) p = (if p = dst then Some (FileNode (take (copied + length bs) c)) else node_at (lfs_nodes fs) p)" for p
      using fs1(2) less.prems(3) assms(4) by (simp add: fs2_def node_write_def dst node_at_update put_at_end)
    have "\<exists>fs'. copy_stream_loop src dst buffer (copied + length bs) fs2 = (Inr (length c), fs') \<and> quiet fs'
      \<and> (\<forall>p. node_at (lfs_nodes fs') p = (if p = dst then Some (FileNode c) else node_at (lfs_nodes fs2) p))"
    proof (rule less.hyps)
      show "length c - (copied + length bs) < length c - copied" using bs(1,2) by (cases bs) auto
    qed (use \<open>quiet fs2\<close> nodes less.prems(2,3) assms(3) bs(2) in auto)
    then obtain fs' where fs': "copy_stream_loop src dst buffer (copied + length bs) fs2 = (Inr (length c), fs')" "quiet fs'"
      "\<And>p. node_at (lfs_nodes fs') p = (if p = dst then Some (FileNode c) else node_at (lfs_nodes fs2) p)" by blast
    have "read_source src copied buffer fs = (Inr bs, fs1)" using read by (simp only: bs_def)
    then have "copy_stream_loop src dst buffer copied fs = (Inr (length c), fs')"
      using written bs(1) fs'(1) by (subst copy_stream_loop.simps) simp
    then show ?thesis using fs'(2,3) nodes by auto
  qed
qed

lemma tree_at_nodes: "tree_at (map (map_prod id tree_entry_of) t) p =
    (if p = [] then Some (TreeDir 0 0) else map_option tree_entry_of (map_of t p))"
proof -
  have "map_of (map (map_prod id tree_entry_of) t) p = map_option tree_entry_of (map_of t p)" by (induction t) auto
  then show ?thesis by (simp add: tree_at_def)
qed

lemma tree_link_iff: "tree_at (map (map_prod id tree_entry_of) t) p = Some (TreeLink q) \<longleftrightarrow> node_at t p = Some (LinkNode q)"
  by (cases "map_of t p") (auto simp: tree_at_nodes node_at_def elim!: tree_entry_of.elims)

lemma follow_plain: "\<nexists>q. tree_at t p = Some (TreeLink q) \<Longrightarrow> follow n t p = Some p"
  by (cases n) (auto split: option.splits tree_entry.splits)

lemma follow_link: "tree_at t p = Some (TreeLink q) \<Longrightarrow> follow (Suc n) t p = follow n t q"
  by simp

lemma resolve_plain: "\<forall>q. node_at t p \<noteq> Some (LinkNode q) \<Longrightarrow> resolve t p = Some p"
  unfolding resolve_def by (rule follow_plain) (simp add: tree_link_iff)

lemma resolve_link:
  assumes "node_at t p = Some (LinkNode q)" and "\<forall>r. node_at t q \<noteq> Some (LinkNode r)"
  shows "resolve t p = Some q"
proof -
  have "follow (Suc 39) (map (map_prod id tree_entry_of) t) p = follow 39 (map (map_prod id tree_entry_of) t) q"
    by (rule follow_link) (simp add: tree_link_iff assms(1))
  moreover have "follow 39 (map (map_prod id tree_entry_of) t) q = Some q"
    by (rule follow_plain) (simp add: tree_link_iff assms(2))
  moreover have "(40 :: nat) = Suc 39" by simp
  ultimately show ?thesis unfolding resolve_def by metis
qed

lemma mkdir_all_quiet:
  assumes "quiet fs" and "\<And>q. prefix q p \<Longrightarrow> node_at (lfs_nodes fs) q = None \<or> node_at (lfs_nodes fs) q = Some DirNode"
  shows "\<exists>fs'. mkdir_all p fs = (Inr (), fs') \<and> quiet fs' \<and> (\<forall>q. node_at (lfs_nodes fs') q =
    (if prefix q p \<and> node_at (lfs_nodes fs) q = None then Some DirNode else node_at (lfs_nodes fs) q))"
proof -
  let ?t = "lfs_nodes fs"
  have ok: "\<not> list_ex (\<lambda>q. node_at ?t q \<noteq> None \<and> resolved_node ?t q \<noteq> Some DirNode) (prefixes p)"
  proof -
    have res: "resolved_node ?t q = Some DirNode" if "prefix q p" "node_at ?t q \<noteq> None" for q
    proof -
      have "node_at ?t q = Some DirNode" using assms(2) [OF that(1)] that(2) by simp
      then show ?thesis using resolve_plain [of ?t q] by (simp add: resolved_node_def)
    qed
    show ?thesis unfolding list_ex_iff using res by (metis in_set_prefixes)
  qed
  have "node_at (map (\<lambda>q. (q, DirNode)) (missing_dirs ?t p) @ ?t) q =
      (if prefix q p \<and> node_at ?t q = None then Some DirNode else node_at ?t q)" for q
  proof (cases "q = []")
    case False
    have "map_of (map (\<lambda>q. (q, DirNode)) xs) q = (if q \<in> set xs then Some DirNode else None)" for xs
      by (induction xs) auto
    with False show ?thesis by (auto simp: node_at_def missing_dirs_def map_add_def split: option.splits)
  qed (simp add: node_at_def)
  then show ?thesis using assms(1) ok by (simp add: mkdir_all_def lfs_call_quiet)
qed

text \<open>A copy to a path that leads to \<open>q\<close>, once the parent directories are there.\<close>

lemma copy_onto:
  assumes "quiet fs" and "node_at (lfs_nodes fs) src = Some (FileNode c)" and "resolve (lfs_nodes fs) dst = Some q"
    and "node_at (lfs_nodes fs) q \<noteq> Some DirNode" and "resolved_node (lfs_nodes fs) (butlast q) = Some DirNode"
    and "src \<noteq> q" and "0 < buffer"
  shows "\<exists>fs1 fs2 fs3. open_source src fs = (Inr src, fs1) \<and> create_target dst fs1 = (Inr q, fs2)
    \<and> copy_stream src q buffer fs2 = (Inr (length c), fs3)
    \<and> (\<forall>p. node_at (lfs_nodes fs3) p = (if p = q then Some (FileNode c) else node_at (lfs_nodes fs) p))"
proof -
  let ?fs1 = "fs\<lparr>lfs_faults := tl (lfs_faults fs)\<rparr>"
  have q: "q \<noteq> []" using assms(4) by (auto simp: node_at_def)
  have 1: "open_source src fs = (Inr src, ?fs1)" "quiet ?fs1"
    using assms(1,2) by (simp_all add: open_source_def lfs_call_quiet resolve_plain)
  let ?fs2 = "?fs1\<lparr>lfs_faults := tl (lfs_faults ?fs1), lfs_nodes := AList.update q (FileNode []) (lfs_nodes fs)\<rparr>"
  have 2: "create_target dst ?fs1 = (Inr q, ?fs2)" "quiet ?fs2"
    using assms(3-5) 1(2) quiet_tl [OF 1(2)] by (simp_all add: create_target_def lfs_call_quiet quiet_def)
  have n2: "node_at (lfs_nodes ?fs2) p = (if p = q then Some (FileNode []) else node_at (lfs_nodes fs) p)" for p
    using q by (simp add: node_at_update)
  from copy_stream_loop_quiet [OF 2(2), of src c q buffer 0] assms(2,6,7) q n2
  obtain fs3 where "copy_stream_loop src q buffer 0 ?fs2 = (Inr (length c), fs3)"
    "\<forall>p. node_at (lfs_nodes fs3) p = (if p = q then Some (FileNode c) else node_at (lfs_nodes ?fs2) p)" by auto
  with 1(1) 2(1) n2 show ?thesis by (simp add: copy_stream_def)
qed

lemma copy_one_onto:
  assumes "mc_symlink_target_path (fm_common meta) = None" and "os_path dst_path \<noteq> []"
    and "mkdir_all (butlast (os_path dst_path)) fs = (Inr (), fs0)" and "quiet fs0"
    and "node_at (lfs_nodes fs0) (os_path src_path) = Some (FileNode c)" and "resolve (lfs_nodes fs0) (os_path dst_path) = Some q"
    and "node_at (lfs_nodes fs0) q \<noteq> Some DirNode" and "resolved_node (lfs_nodes fs0) (butlast q) = Some DirNode"
    and "os_path src_path \<noteq> q" and "0 < buffer"
  shows "\<exists>fs' rep'. copy_one_local_file policy now buffer meta src_path dst_path (fs, rep) = Some (Inr (), fs', rep')
    \<and> files_copied (rep_stats rep') = files_copied (rep_stats rep) + 1
    \<and> bytes_copied (rep_stats rep') = bytes_copied (rep_stats rep) + of_nat (length c)
    \<and> (\<forall>p. node_at (lfs_nodes fs') p = (if p = q then Some (FileNode c) else node_at (lfs_nodes fs0) p))"
proof -
  from copy_onto [OF assms(4-10)] obtain fs1 fs2 fs3 where
    ops: "open_source (os_path src_path) fs0 = (Inr (os_path src_path), fs1)" "create_target (os_path dst_path) fs1 = (Inr q, fs2)"
    "copy_stream (os_path src_path) q buffer fs2 = (Inr (length c), fs3)"
    and nodes: "\<forall>p. node_at (lfs_nodes fs3) p = (if p = q then Some (FileNode c) else node_at (lfs_nodes fs0) p)" by blast
  note first = retry_first [of "mkdir_all (butlast (os_path dst_path))" fs "()" fs0, OF assms(3)]
    retry_first [of "open_source (os_path src_path)" fs0 "os_path src_path" fs1, OF ops(1)]
    retry_first [of "create_target (os_path dst_path)" fs1 q fs2, OF ops(2)]
  show ?thesis
    using nodes by (simp add: copy_one_local_file_def assms(1,2) run_then_def make_parent_def first or_record_def run_stats_def
        run_lfs_def ops(3) inc_src_opened_def inc_dst_opened_def inc_files_copied_def inc_src_closed_def inc_dst_closed_def
        add_bytes_copied_def)
qed

section \<open>Properties\<close>

text \<open>
  C15. However the producer and the workers interleave, and whatever calls fail, no file is lost from
  the accounts: the files copied and failed, the plans in the channel and the files still to be sent always
  add up to the number of files of the plan, so that at the end every file is counted once.
\<close>

theorem local_copy_accounts:
  assumes "(copy_step policy now buffer None capacity)\<^sup>*\<^sup>* \<lparr>cs_entries = es, cs_queue = [], cs_run = run\<rparr> s"
  shows "files_done (cs_run s) + of_nat (length (cs_queue s)) + of_nat (file_plans (cs_entries s)) =
    files_done run + of_nat (file_plans es)"
proof -
  from assms have "accounted s = accounted \<lparr>cs_entries = es, cs_queue = [], cs_run = run\<rparr>"
    by induction (simp_all add: copy_step_accounted)
  then show ?thesis by (simp add: accounted_def)
qed



text \<open>
  C29. A file replaces what a link points to. When the repository holds a link at the target path, because
  the source had one there at the last backup, copying the regular file that took its place opens the link,
  truncates the file it leads to, wherever that is, and leaves the link in the repository.
\<close>

theorem copy_writes_through_link:
  assumes "quiet fs" and "mc_symlink_target_path (fm_common meta) = None" and "0 < buffer"
    and "node_at (lfs_nodes fs) (os_path src_path) = Some (FileNode c)"
    and "os_path dst_path \<noteq> []" and "node_at (lfs_nodes fs) (os_path dst_path) = Some (LinkNode q)"
    and "node_at (lfs_nodes fs) q = Some (FileNode old)" and "q \<noteq> os_path src_path"
    and "\<And>p. prefix p (butlast (os_path dst_path)) \<Longrightarrow> node_at (lfs_nodes fs) p = Some DirNode"
    and "node_at (lfs_nodes fs) (butlast q) = Some DirNode"
  shows "\<exists>fs' rep'. copy_one_local_file policy now buffer meta src_path dst_path (fs, rep) = Some (Inr (), fs', rep')
    \<and> node_at (lfs_nodes fs') q = Some (FileNode c)
    \<and> node_at (lfs_nodes fs') (os_path dst_path) = Some (LinkNode q)
    \<and> files_copied (rep_stats rep') = files_copied (rep_stats rep) + 1"
proof -
  let ?dst = "os_path dst_path"
  from mkdir_all_quiet [OF assms(1), of "butlast ?dst"] assms(9) obtain fs0 where
    mk: "mkdir_all (butlast ?dst) fs = (Inr (), fs0)" "quiet fs0"
    and n0: "\<And>q. node_at (lfs_nodes fs0) q =
      (if prefix q (butlast ?dst) \<and> node_at (lfs_nodes fs) q = None then Some DirNode else node_at (lfs_nodes fs) q)" by auto
  have same: "node_at (lfs_nodes fs0) p = node_at (lfs_nodes fs) p" for p using n0 assms(9) [of p] by auto
  have "resolve (lfs_nodes fs0) ?dst = Some q"
    by (rule resolve_link) (simp_all add: same assms(6,7))
  moreover have "resolved_node (lfs_nodes fs0) (butlast q) = Some DirNode"
    using resolve_plain [of "lfs_nodes fs0" "butlast q"] assms(10) by (simp add: resolved_node_def same)
  ultimately obtain fs' rep' where "copy_one_local_file policy now buffer meta src_path dst_path (fs, rep) = Some (Inr (), fs', rep')"
    "files_copied (rep_stats rep') = files_copied (rep_stats rep) + 1"
    "\<forall>p. node_at (lfs_nodes fs') p = (if p = q then Some (FileNode c) else node_at (lfs_nodes fs0) p)"
    using copy_one_onto [OF assms(2,5) mk, of src_path c q buffer policy now rep] assms(3,4,7,8) same by fastforce
  moreover have "?dst \<noteq> q" using assms(6,7) by auto
  ultimately show ?thesis using same assms(6) by fastforce
qed

text \<open>
  A link that dangles in the repository cannot be replaced. Whether something is at the path is asked
  with \<^verbatim>\<open>exists\<close>, which follows the link and finds nothing, so the old link is not removed and making the
  new one fails. The file is counted as failed, without a record in the failure log.
\<close>

theorem dangling_link_not_replaced:
  assumes "quiet fs" and "mc_symlink_target_path (fm_common meta) = Some target"
    and "os_path dst_path \<noteq> []" and "node_at (lfs_nodes fs) (os_path dst_path) = Some (LinkNode q)"
    and "node_at (lfs_nodes fs) q = None"
    and "\<And>p. prefix p (butlast (os_path dst_path)) \<Longrightarrow> node_at (lfs_nodes fs) p = Some DirNode"
  shows "\<exists>fs' rep'. work_on policy now buffer agg (Direct meta src_path dst_path) (fs, rep) = Some (fs', rep')
    \<and> node_at (lfs_nodes fs') (os_path dst_path) = Some (LinkNode q)
    \<and> files_failed (rep_stats rep') = files_failed (rep_stats rep) + 1 \<and> rep_failures rep' = rep_failures rep"
proof -
  let ?dst = "os_path dst_path"
  from mkdir_all_quiet [OF assms(1), of "butlast ?dst"] assms(6) obtain fs0 where
    mk: "mkdir_all (butlast ?dst) fs = (Inr (), fs0)" "quiet fs0"
    and n0: "\<And>q. node_at (lfs_nodes fs0) q =
      (if prefix q (butlast ?dst) \<and> node_at (lfs_nodes fs) q = None then Some DirNode else node_at (lfs_nodes fs) q)" by auto
  have same: "node_at (lfs_nodes fs0) p = node_at (lfs_nodes fs) p" for p using n0 assms(6) [of p] by auto
  have "resolve (lfs_nodes fs0) ?dst = Some q"
    by (rule resolve_link) (simp_all add: same assms(4,5))
  then have "resolved_node (lfs_nodes fs0) ?dst = None" by (simp add: resolved_node_def same assms(5))
  then have "create_symlink ?dst (link_target dst_path target) fs0 = (Inl (errno 17), fs0\<lparr>lfs_faults := tl (lfs_faults fs0)\<rparr>)"
    by (simp add: create_symlink_def make_link_def lfs_call_quiet mk(2) same assms(4))
  then show ?thesis
    using same assms(4) retry_first [of "mkdir_all (butlast ?dst)" fs "()" fs0, OF mk(1)]
    by (simp add: work_on_def execute_local_file_plan_def copy_one_local_file_def assms(2,3) run_then_def make_parent_def
        run_lfs_def count_failed_def inc_files_failed_def)
qed

section \<open>Concrete runs\<close>

definition sample_nodes :: "nodes \<Rightarrow> lfs" where
  "sample_nodes extra = \<lparr>lfs_nodes = [([''s''], DirNode), ([''s'', ''f''], FileNode [1, 2, 3]), ([''r''], DirNode)] @ extra,
    lfs_faults = [], lfs_reads = [1]\<rparr>"

definition plain_report :: copy_report where
  "plain_report = \<lparr>rep_stats = stats_default, rep_failures = Some []\<rparr>"

lemma sample_paths: "os_path ''/s/f'' = [''s'', ''f'']" "os_path ''/r/d/f'' = [''r'', ''d'', ''f'']" "os_path ''/r/f'' = [''r'', ''f'']"
  by code_simp+

lemma sample_quiet: "quiet (sample_nodes extra)"
  by (simp add: quiet_def sample_nodes_def)

lemma sample_no_link: "mc_symlink_target_path (fm_common (sample_file ''f'')) = None"
  by (simp add: sample_file_def sample_common_def)


theorem local_copy_accounts_witness:
  "\<exists>s :: copy_state. files_done (cs_run s) + of_nat (length (cs_queue s)) + of_nat (file_plans (cs_entries s)) =
    files_done (sample_nodes [], plain_report) + 1 \<and> cs_queue s \<noteq> []"
proof -
  let ?plan = "Direct (sample_file ''f'') ''/s/f'' ''/r/f''"
  let ?s = "\<lparr>cs_entries = [], cs_queue = [] @ [?plan], cs_run = (sample_nodes [], plain_report)\<rparr>"
  have "copy_step \<lparr>max_retries = 0\<rparr> '''' 1 None 1
      \<lparr>cs_entries = [PlanFile ?plan], cs_queue = [], cs_run = (sample_nodes [], plain_report)\<rparr> ?s"
    by (rule copy_step.produce_file) simp
  then have "(copy_step \<lparr>max_retries = 0\<rparr> '''' 1 None 1)\<^sup>*\<^sup>*
      \<lparr>cs_entries = [PlanFile ?plan], cs_queue = [], cs_run = (sample_nodes [], plain_report)\<rparr> ?s" by blast
  from local_copy_accounts [OF this] show ?thesis by (intro exI [of _ ?s]) simp
qed



theorem copy_writes_through_link_witness:
  "\<exists>fs' rep'. copy_one_local_file \<lparr>max_retries = 0\<rparr> '''' 2 (sample_file ''f'') ''/s/f'' ''/r/f''
      (sample_nodes [([''r'', ''f''], LinkNode [''secret'']), ([''secret''], FileNode [9])], plain_report) = Some (Inr (), fs', rep')
    \<and> node_at (lfs_nodes fs') [''secret''] = Some (FileNode [1, 2, 3]) \<and> node_at (lfs_nodes fs') [''r'', ''f''] = Some (LinkNode [''secret''])"
proof -
  let ?fs = "sample_nodes [([''r'', ''f''], LinkNode [''secret'']), ([''secret''], FileNode [9])]"
  have n: "node_at (lfs_nodes ?fs) [''s'', ''f''] = Some (FileNode [1, 2, 3])" "node_at (lfs_nodes ?fs) [''r'', ''f''] = Some (LinkNode [''secret''])"
    "node_at (lfs_nodes ?fs) [''secret''] = Some (FileNode [9])" "node_at (lfs_nodes ?fs) [''r''] = Some DirNode" "node_at (lfs_nodes ?fs) [] = Some DirNode"
    by (simp_all add: sample_nodes_def node_at_def)
  have above: "node_at (lfs_nodes ?fs) p = Some DirNode" if "prefix p (butlast (os_path ''/r/f''))" for p
    using that n by (cases p) (auto simp: sample_paths)
  show ?thesis
    using copy_writes_through_link [OF sample_quiet sample_no_link, of 2 _ "''/s/f''" "[1, 2, 3]" "''/r/f''" "[''secret'']" "[9]", OF _ _ _ _ _ _ above] n
    by (fastforce simp: sample_paths)
qed

theorem dangling_link_not_replaced_witness:
  "\<exists>fs' rep'. work_on \<lparr>max_retries = 0\<rparr> '''' 2 None
      (Direct ((sample_file ''f'')\<lparr>fm_common := (fm_common (sample_file ''f''))\<lparr>mc_symlink_target_path := Some ''new''\<rparr>\<rparr>) ''/s/f'' ''/r/f'')
      (sample_nodes [([''r'', ''f''], LinkNode [''old''])], plain_report) = Some (fs', rep')
    \<and> files_failed (rep_stats rep') = 1 \<and> rep_failures rep' = Some []"
proof -
  let ?fs = "sample_nodes [([''r'', ''f''], LinkNode [''old''])]"
  let ?meta = "(sample_file ''f'')\<lparr>fm_common := (fm_common (sample_file ''f''))\<lparr>mc_symlink_target_path := Some ''new''\<rparr>\<rparr>"
  have n: "node_at (lfs_nodes ?fs) [''r'', ''f''] = Some (LinkNode [''old''])" "node_at (lfs_nodes ?fs) [''old''] = None"
    "node_at (lfs_nodes ?fs) [''r''] = Some DirNode" "node_at (lfs_nodes ?fs) [] = Some DirNode"
    by (simp_all add: sample_nodes_def node_at_def)
  have above: "node_at (lfs_nodes ?fs) p = Some DirNode" if "prefix p (butlast (os_path ''/r/f''))" for p
    using that n by (cases p) (auto simp: sample_paths)
  show ?thesis
    using dangling_link_not_replaced [OF sample_quiet, of ?meta "''new''" "''/r/f''" _ "[''old'']", OF _ _ _ _ above,
        of "\<lparr>max_retries = 0\<rparr>" "''''" 2 None "''/s/f''" plain_report] n
    by (fastforce simp: sample_paths plain_report_def stats_default_def)
qed

end
