(* ===== verification/ScanEngine.thy ===== *)
theory ScanEngine
  imports Diff MtimeControl HardlinkControl ShardedControl
begin

text \<open>
  \<^verbatim>\<open>scanner/engine.rs\<close>: the writer threads that store what a scan finds, and the control files
  generated from it. All writers share the metadata directory, each with files of its own shard; a call
  of one writer leaves the files of the others alone (\<open>store_frame\<close>), so the calls are taken one after
  the other, in any order. A writer that cannot write panics (\<^verbatim>\<open>expect\<close>, \<^verbatim>\<open>unwrap\<close>).
\<close>

section \<open>What a scan hands over\<close>

text \<open>\<^verbatim>\<open>DirBatchScanResult\<close>\<close>

record dir_batch =
  db_dir :: dir_meta
  db_files :: "file_meta list"
  db_partial :: bool
  db_complete :: bool

text \<open>\<^verbatim>\<open>unwrap\<close> and \<^verbatim>\<open>expect\<close>\<close>

fun unwrap :: "'e + 'a \<Rightarrow> meta_error + 'a" where
  "unwrap (Inl e) = Inl MetaPanic"
| "unwrap (Inr x) = Inr x"

section \<open>The writer threads\<close>

record writer_thread =
  wt_shard :: u32
  wt_meta :: meta_repo_writer
  wt_dcache :: bin_writer
  wt_fcache :: bin_writer

record meta_store =
  st_files :: files
  st_index :: "hardlink_index option"

definition start_writer :: "diff_formats \<Rightarrow> nat \<Rightarrow> files \<Rightarrow> meta_error + files \<times> writer_thread" where
  "start_writer fm i fs =
    (let shard = of_nat i :: u32; (fs, mw) = meta_repo_new fs (ucast shard)
     in andThen (unwrap (bin_writer_open (fmt_dirs fm) fs (dir_cache_name shard))) (\<lambda>(fs, dw).
        andThen (unwrap (bin_writer_open (fmt_files fm) fs (file_cache_name shard))) (\<lambda>(fs, fw).
          Inr (fs, \<lparr>wt_shard = shard, wt_meta = mw, wt_dcache = dw, wt_fcache = fw\<rparr>))))"

fun start_writers :: "diff_formats \<Rightarrow> nat list \<Rightarrow> files \<Rightarrow> meta_error + files \<times> writer_thread list" where
  "start_writers fm [] fs = Inr (fs, [])"
| "start_writers fm (i # is) fs =
    andThen (start_writer fm i fs) (\<lambda>(fs, t).
    andThen (start_writers fm is fs) (\<lambda>(fs, ts). Inr (fs, t # ts)))"

text \<open>Tracking a file with several links in the shared index.\<close>

definition track_hardlink ::
  "bool \<Rightarrow> dir_meta \<Rightarrow> file_meta \<Rightarrow> meta_locator \<Rightarrow> hardlink_index option \<Rightarrow> hardlink_index option" where
  "track_hardlink scan_hardlinks dir f loc index =
    (if scan_hardlinks \<and> 1 < fm_links f
     then map_option (\<lambda>idx. fst (add_file idx
            \<lparr>sf_inode = mc_id (fm_common f), sf_device = mc_devno (fm_common f),
             sf_link_count = ucast (fm_links f), sf_meta_fid = fst loc, sf_meta_offset = snd loc,
             sf_path = join_logical (dm_path dir) (mc_name (fm_common f))\<rparr>)) index
     else index)"

text \<open>The loop over the files of a batch, which collects their cache entries.\<close>

fun store_files ::
  "diff_formats \<Rightarrow> (byte list \<Rightarrow> byte list) \<Rightarrow> bool \<Rightarrow> dir_meta \<Rightarrow> file_meta list \<Rightarrow>
   meta_store \<times> meta_repo_writer \<Rightarrow> meta_error + (meta_store \<times> meta_repo_writer) \<times> file_cache_entry list" where
  "store_files fm sha256 hl dir [] s = Inr (s, [])"
| "store_files fm sha256 hl dir (f # fs) (st, mw) =
    andThen (unwrap (repo_write_filemeta (fmt_meta fm) (st_files st, mw) f)) (\<lambda>((files, mw), loc).
    andThen (store_files fm sha256 hl dir fs
        (st\<lparr>st_files := files, st_index := track_hardlink hl dir f loc (st_index st)\<rparr>, mw)) (\<lambda>(s, fes).
      Inr (s, (file_cache_entry_from sha256 (fmt_meta fm) f)\<lparr>fce_meta_loc := loc\<rparr> # fes)))"

definition process_scan_result ::
  "diff_formats \<Rightarrow> (byte list \<Rightarrow> byte list) \<Rightarrow> bool \<Rightarrow> dir_batch \<Rightarrow> meta_store \<times> writer_thread \<Rightarrow>
   meta_error + meta_store \<times> writer_thread" where
  "process_scan_result fm sha256 hl b s =
    (let (st, t) = s
     in andThen (unwrap (repo_write_dirmeta (fmt_meta fm) (st_files st, wt_meta t) (db_dir b))) (\<lambda>((files, mw), dmeta_loc).
        let files_count = length (db_files b); fcache_offset = snd (bin_current (wt_fcache t))
        in andThen (store_files fm sha256 hl (db_dir b) (db_files b) (st\<lparr>st_files := files\<rparr>, mw)) (\<lambda>((st, mw), fcaches).
           andThen (unwrap (bin_write_all (fmt_files fm) (st_files st, wt_fcache t) (sort_key fce_id fcaches)))
             (\<lambda>((files, fw), _).
           let dcache = (dir_cache_entry_from sha256 (fmt_meta fm) (db_dir b))
                 \<lparr>dce_meta_loc := dmeta_loc, dce_files_count := of_nat files_count,
                  dce_fcache_fid := wt_shard t, dce_fcache_offset := fcache_offset\<rparr>
           in andThen (unwrap (bin_write (fmt_dirs fm) (files, wt_dcache t) dcache)) (\<lambda>((files, dw), _).
             Inr (st\<lparr>st_files := files\<rparr>, t\<lparr>wt_meta := mw, wt_dcache := dw, wt_fcache := fw\<rparr>))))))"

text \<open>The writers take the batches from the queue in some order: a schedule of writers and batches.\<close>

fun run_writers ::
  "diff_formats \<Rightarrow> (byte list \<Rightarrow> byte list) \<Rightarrow> bool \<Rightarrow> (nat \<times> dir_batch) list \<Rightarrow> meta_store \<times> writer_thread list \<Rightarrow>
   meta_error + meta_store \<times> writer_thread list" where
  "run_writers fm sha256 hl [] s = Inr s"
| "run_writers fm sha256 hl ((i, b) # sched) (st, ts) =
    andThen (process_scan_result fm sha256 hl b (st, ts ! i)) (\<lambda>(st, t).
      run_writers fm sha256 hl sched (st, ts[i := t]))"

definition write_scan ::
  "diff_formats \<Rightarrow> (byte list \<Rightarrow> byte list) \<Rightarrow> bool \<Rightarrow> nat \<Rightarrow> (nat \<times> dir_batch) list \<Rightarrow> files \<Rightarrow> meta_error + meta_store" where
  "write_scan fm sha256 hl writer_count sched fs =
    andThen (start_writers fm [0..<writer_count] fs) (\<lambda>(fs, ts).
    andThen (run_writers fm sha256 hl sched
        (\<lparr>st_files = fs, st_index = (if hl then Some index_new else None)\<rparr>, ts)) (\<lambda>(st, ts). Inr st))"

section \<open>The control files of a scan\<close>

record shard_option =
  so_enabled :: bool
  so_num_shards :: nat
  so_max_entries_copy :: nat
  so_max_entries_other :: nat
  so_max_size :: u64

text \<open>A copy control file is written directly or split into shards.\<close>

datatype copy_sink = PlainCopy control_writer | ShardedCopy shard_manager

fun sink_write_dir ::
  "(byte list \<Rightarrow> byte list) \<Rightarrow> json_enc \<Rightarrow> dir_control_entry \<Rightarrow> copy_sink \<Rightarrow> meta_error + copy_sink" where
  "sink_write_dir sha256 enc e (PlainCopy w) = andThen (unwrap (copy_write_dir w e)) (\<lambda>w. Inr (PlainCopy w))"
| "sink_write_dir sha256 enc e (ShardedCopy m) =
    andThen (lift_io (write_directory sha256 enc m e None)) (\<lambda>m. Inr (ShardedCopy m))"

fun sink_write_file ::
  "(byte list \<Rightarrow> byte list) \<Rightarrow> json_enc \<Rightarrow> string \<Rightarrow> file_control_entry \<Rightarrow> copy_sink \<Rightarrow> meta_error + copy_sink" where
  "sink_write_file sha256 enc dir e (PlainCopy w) = andThen (unwrap (copy_write_file w e)) (\<lambda>w. Inr (PlainCopy w))"
| "sink_write_file sha256 enc dir e (ShardedCopy m) =
    andThen (lift_io (shard_write_file sha256 enc m dir e)) (\<lambda>m. Inr (ShardedCopy m))"

definition shard_manager_of :: "shard_option \<Rightarrow> u64 \<Rightarrow> files \<Rightarrow> shard_manager" where
  "shard_manager_of so now ctrl =
    set_max_files_per_batch
      (with_policy ctrl ''copy'' (max (so_num_shards so) 1) (MaxSize (so_max_size so) (so_max_entries_copy so)) now)
      (- 1)"

definition mtime_entry_of :: "dir_meta \<Rightarrow> mtime_dir_entry" where
  "mtime_entry_of d =
    \<lparr>md_path = dm_path d, md_mode = mc_mode (dm_common d), md_uid = 0, md_gid = 0,
     md_atime = ucast (mc_atime (dm_common d)), md_mtime = ucast (mc_mtime (dm_common d))\<rparr>"

text \<open>\<^verbatim>\<open>FileCacheIterator::from\<close> and \<^verbatim>\<open>DirCacheIterator::from\<close>\<close>

definition file_cache_iterator :: "bin_reader \<Rightarrow> u32 \<Rightarrow> u32 \<Rightarrow> bin_iterator" where
  "file_cache_iterator r count index = \<lparr>it_index = index, it_total_count = count, it_reader = r\<rparr>"

definition dir_cache_iterator :: "dir_cache_entry fixed_codec \<Rightarrow> bin_reader \<Rightarrow> bin_iterator" where
  "dir_cache_iterator cd r = \<lparr>it_index = 0, it_total_count = total_count cd r, it_reader = r\<rparr>"

definition dcache_names :: "files \<Rightarrow> string list" where
  "dcache_names fs = filter (prefix ''dcache_'') (map fst fs)"

text \<open>A loop over all directory entries of all cache files.\<close>

definition for_dcache_entries ::
  "diff_formats \<Rightarrow> files \<Rightarrow> (dir_cache_entry \<Rightarrow> 's \<Rightarrow> meta_error + 's) \<Rightarrow> 's \<Rightarrow> meta_error + 's" where
  "for_dcache_entries fm fs body s =
    fold_err (\<lambda>name s. andThen (unwrap (bin_reader_open fs name)) (\<lambda>r.
        fold_err body (bin_items (fmt_dirs fm) (dir_cache_iterator (fmt_dirs fm) r)) s))
      (dcache_names fs) s"

definition full_file_step ::
  "(byte list \<Rightarrow> byte list) \<Rightarrow> json_enc \<Rightarrow> diff_formats \<Rightarrow> files \<Rightarrow> string \<Rightarrow> file_cache_entry \<Rightarrow> copy_sink \<Rightarrow>
   meta_error + copy_sink" where
  "full_file_step sha256 enc fm fs dir fe sink =
    andThen (unwrap (get_fmeta (fmt_meta fm) fs (fce_meta_loc fe))) (\<lambda>fmeta.
      sink_write_file sha256 enc dir (file_entry (mc_name (fm_common fmeta)) FileNew fe) sink)"

definition full_dir_step ::
  "(byte list \<Rightarrow> byte list) \<Rightarrow> json_enc \<Rightarrow> diff_formats \<Rightarrow> files \<Rightarrow> dir_cache_entry \<Rightarrow>
   copy_sink \<times> control_writer \<Rightarrow> meta_error + copy_sink \<times> control_writer" where
  "full_dir_step sha256 enc fm fs e s =
    (let (sink, mw) = s
     in andThen (unwrap (get_dmeta (fmt_meta fm) fs (dce_meta_loc e))) (\<lambda>dmeta.
        andThen (sink_write_dir sha256 enc (dir_entry (dm_path dmeta) DirNew e) sink) (\<lambda>sink.
        andThen (unwrap (mtime_write_dir mw (mtime_entry_of dmeta))) (\<lambda>mw.
          if dce_files_count e = 0 then Inr (sink, mw)
          else andThen (unwrap (bin_reader_open fs (file_cache_name (dce_fcache_fid e)))) (\<lambda>r.
               andThen (fold_err (full_file_step sha256 enc fm fs (dm_path dmeta))
                   (bin_items (fmt_files fm) (file_cache_iterator r (dce_files_count e) (start_idx e))) sink) (\<lambda>sink.
                 Inr (sink, mw)))))))"

fun finish_sink ::
  "(byte list \<Rightarrow> byte list) \<Rightarrow> json_enc \<Rightarrow> files \<Rightarrow> copy_sink \<Rightarrow> meta_error + files" where
  "finish_sink sha256 enc ctrl (PlainCopy w) =
    andThen (unwrap (copy_finish enc w)) (\<lambda>content.
      Inr (file_set ctrl (primary_control_file_name sha256 ''copy'') content))"
| "finish_sink sha256 enc ctrl (ShardedCopy m) =
    andThen (lift_io (shard_finish enc m)) (\<lambda>(ctrl, _). Inr ctrl)"

definition full_control_files ::
  "(byte list \<Rightarrow> byte list) \<Rightarrow> json_enc \<Rightarrow> u64 \<Rightarrow> diff_formats \<Rightarrow> shard_option \<Rightarrow> string \<Rightarrow> string \<Rightarrow> files \<Rightarrow> files \<Rightarrow>
   meta_error + files" where
  "full_control_files sha256 enc now fm so kind root fs ctrl =
    andThen (if so_enabled so then Inr (ShardedCopy (shard_manager_of so now ctrl))
             else andThen (unwrap (copy_writer_new enc (source_header now kind root))) (\<lambda>w. Inr (PlainCopy w))) (\<lambda>sink.
    andThen (unwrap (mtime_writer_new enc now kind root)) (\<lambda>mw.
    andThen (for_dcache_entries fm fs (full_dir_step sha256 enc fm fs) (sink, mw)) (\<lambda>(sink, mw).
    andThen (finish_sink sha256 enc ctrl sink) (\<lambda>ctrl.
    andThen (unwrap (mtime_finish enc mw)) (\<lambda>content.
      Inr (file_set ctrl (primary_control_file_name sha256 ''mtime'') content))))))"

text \<open>Splitting the copy control file of an incremental scan.\<close>

definition split_step ::
  "(byte list \<Rightarrow> byte list) \<Rightarrow> json_enc \<Rightarrow> control_entry io \<Rightarrow> string \<times> shard_manager \<Rightarrow> (string \<times> shard_manager) io" where
  "split_step sha256 enc item s =
    (let (current_dir_path, m) = s
     in andThen item (\<lambda>entry. case entry of
          EntryDir d \<Rightarrow> andThen (write_directory sha256 enc m d None) (\<lambda>m. Inr (dc_path d, m))
        | EntryFile f \<Rightarrow> andThen (shard_write_file sha256 enc m current_dir_path f) (\<lambda>m. Inr (current_dir_path, m))))"

definition split_copy_control_file ::
  "(byte list \<Rightarrow> byte list) \<Rightarrow> json_enc \<Rightarrow> json_dec \<Rightarrow> u64 \<Rightarrow> shard_option \<Rightarrow> files \<Rightarrow> files io" where
  "split_copy_control_file sha256 enc dec now so ctrl =
    (let copy_path = primary_control_file_name sha256 ''copy''
     in case file_content ctrl copy_path of
          None \<Rightarrow> Inr ctrl
        | Some content \<Rightarrow>
            andThen (copy_reader_open dec content) (\<lambda>(rest, _).
            andThen (fold_err (split_step sha256 enc) (read_entries copy_decode rest) ([], shard_manager_of so now ctrl))
              (\<lambda>(_, m).
            andThen (shard_finish enc m) (\<lambda>(ctrl, _). Inr (AList.delete copy_path ctrl)))))"

definition mtime_step :: "diff_formats \<Rightarrow> files \<Rightarrow> dir_cache_entry \<Rightarrow> control_writer \<Rightarrow> meta_error + control_writer" where
  "mtime_step fm fs e mw =
    andThen (unwrap (get_dmeta (fmt_meta fm) fs (dce_meta_loc e))) (\<lambda>dmeta.
      unwrap (mtime_write_dir mw (mtime_entry_of dmeta)))"

definition incremental_control_files ::
  "(byte list \<Rightarrow> byte list) \<Rightarrow> json_enc \<Rightarrow> json_dec \<Rightarrow> u64 \<Rightarrow> diff_formats \<Rightarrow> shard_option \<Rightarrow> string \<Rightarrow> string \<Rightarrow>
   files \<Rightarrow> files \<Rightarrow> files \<Rightarrow> meta_error + files" where
  "incremental_control_files sha256 enc dec now fm so kind root prev_fs fs ctrl =
    andThen (generate_incremental_control_files fm enc now (Some prev_fs) fs kind root) (\<lambda>(copy_file, delete_file, _).
    let ctrl = file_set (file_set ctrl (primary_control_file_name sha256 ''copy'') copy_file)
                 (primary_control_file_name sha256 ''delete'') delete_file
    in andThen (unwrap (mtime_writer_new enc now kind root)) (\<lambda>mw.
       andThen (for_dcache_entries fm fs (mtime_step fm fs) mw) (\<lambda>mw.
       andThen (unwrap (mtime_finish enc mw)) (\<lambda>content.
         let ctrl = file_set ctrl (primary_control_file_name sha256 ''mtime'') content
         in if so_enabled so then lift_io (split_copy_control_file sha256 enc dec now so ctrl) else Inr ctrl))))"

definition scan_control_files ::
  "(byte list \<Rightarrow> byte list) \<Rightarrow> json_enc \<Rightarrow> json_dec \<Rightarrow> u64 \<Rightarrow> diff_formats \<Rightarrow> shard_option \<Rightarrow> string \<Rightarrow> string \<Rightarrow>
   files option \<Rightarrow> files \<Rightarrow> files \<Rightarrow> meta_error + files" where
  "scan_control_files sha256 enc dec now fm so kind root prev_fs fs ctrl =
    (case prev_fs of
       Some prev \<Rightarrow> incremental_control_files sha256 enc dec now fm so kind root prev fs ctrl
     | None \<Rightarrow> full_control_files sha256 enc now fm so kind root fs ctrl)"

text \<open>A batch of empty files, for the examples.\<close>

definition sample_batch :: "string \<Rightarrow> string list \<Rightarrow> dir_batch" where
  "sample_batch path names =
    \<lparr>db_dir = sample_dir path, db_files = map sample_file names, db_partial = False, db_complete = True\<rparr>"

end
