(* ===== verification/ControlWriting.thy ===== *)
theory ControlWriting
  imports DiffSync MtimeControl HardlinkControl
begin

text \<open>
  Writing a whole control file: with entries of ordinary length and a source that fits the header, every
  step succeeds, and the finished file is read back as the entries. Proved once for all formats, in the
  locale \<open>record_file\<close>.
\<close>

section \<open>A control file from a list of entries\<close>

definition keeps_source :: "(control_writer \<Rightarrow> 'a \<Rightarrow> control_writer io) \<Rightarrow> 'a \<Rightarrow> bool" where
  "keeps_source put e \<longleftrightarrow> (\<forall>w. \<exists>w'. put w e = Inr w' \<and> same_source w w')"

context record_file
begin

lemma short_file:
  assumes "json_codec enc dec" and "enc (source_kind h) = Inr k" and "enc (source_root h) = Inr r"
    and "length magic + length k + length r \<le> 3874" and "header_size h = of_nat CONTROL_HEADER_SIZE"
    and "\<forall>e \<in> set es. wf e \<and> keeps_source put e"
  shows "\<exists>w w' f rest. create_record_writer enc magic h = Inr w \<and> write_all put w es = Inr w'
    \<and> finish_record_writer enc magic w' = Inr f
    \<and> open_record_reader dec f magic = Inr (rest, fold count es h)
    \<and> read_entries decode rest = map (\<lambda>e. Inr (view e)) es"
proof -
  let ?w = "\<lparr>records = [], header = h\<rparr>"
  have fits: "\<exists>block. write_header_block enc magic h' = Inr block"
    if "source_kind h' = source_kind h" "source_root h' = source_root h" for h'
    by (rule write_header_block_short [of enc h' k r magic]) (use that assms(2-4) in simp_all)
  have new: "create_record_writer enc magic h = Inr ?w"
    using fits [of h] by (auto simp: create_record_writer_def)
  obtain w' where w': "write_all put ?w es = Inr w'" "source_kind (header w') = source_kind h"
    "source_root (header w') = source_root h"
    using write_all_total [of es put ?w] assms(6) by (auto simp: keeps_source_def same_source_def)
  obtain f where f: "finish_record_writer enc magic w' = Inr f"
    using fits [OF w'(2,3)] by (auto simp: finish_record_writer_def)
  from file_roundtrip [OF assms(1) new assms(5) w'(1) _ f] assms(6) new w'(1) f show ?thesis
    by auto
qed

end

lemma keeps_source_copy: "short_entry e \<Longrightarrow> keeps_source copy_put (as_item e) \<and> copy_item_wf (as_item e)"
  using put_short_entry copy_item_wf_short [of "[e]"] by (auto simp: keeps_source_def)

lemma keeps_source_delete: "short_text (de_path e) \<Longrightarrow> keeps_source delete_write_entry e \<and> delete_wf e"
  using put_short_delete by (auto simp: keeps_source_def delete_wf_def short_text_def)

lemma keeps_source_mtime: "short_text (md_path e) \<Longrightarrow> keeps_source mtime_write_dir e \<and> mtime_wf e"
  by (auto simp: keeps_source_def same_source_def mtime_write_dir_def codec_simps write_record_def
      mtime_payload_def Let_def mtime_count_def mtime_wf_def short_text_def)

fun short_hardlink :: "hardlink_entry \<Rightarrow> bool" where
  "short_hardlink (HardInode i) = True"
| "short_hardlink (HardFile f) = short_text (hf_path f)"

lemma keeps_source_hardlink: "short_hardlink e \<Longrightarrow> keeps_source hardlink_put e \<and> hardlink_wf e"
  by (cases e) (auto simp: keeps_source_def same_source_def hardlink_write_inode_def hardlink_write_file_def
      codec_simps write_record_def hard_inode_payload_def hard_file_payload_def Let_def short_text_def)

end
