(* ===== verification/FullBackup.thy ===== *)
theory FullBackup
  imports ScanEngine ControlWriting "HOL-Library.Multiset"
begin

text \<open>
  What the writers of \<^verbatim>\<open>scanner/engine.rs\<close> store and the control files made from it: the files of a
  writer's shard hold the batches it took, in order, and a full backup's copy control file lists every
  directory of every batch with its files, under locators that find the metadata the scan collected.
\<close>

section \<open>The files of a shard\<close>

definition meta_file :: "u32 \<Rightarrow> string \<Rightarrow> bool" where
  "meta_file i name \<longleftrightarrow> (\<exists>g. name = meta_file_name (encode_meta_file_id (ucast i) g))"

definition writer_file :: "u32 \<Rightarrow> string \<Rightarrow> bool" where
  "writer_file i name \<longleftrightarrow> name = dir_cache_name i \<or> name = file_cache_name i \<or> meta_file i name"

lemma cache_name_inj: "dir_cache_name i = dir_cache_name j \<longleftrightarrow> i = j" "file_cache_name i = file_cache_name j \<longleftrightarrow> i = j"
  by (auto simp: dir_cache_name_def file_cache_name_def nat_str_inj word_unat_eq_iff)

lemma cache_names_differ [simp]:
  "dir_cache_name i \<noteq> file_cache_name j" "file_cache_name j \<noteq> dir_cache_name i"
  "dir_cache_name i \<noteq> meta_file_name k" "meta_file_name k \<noteq> dir_cache_name i"
  "file_cache_name i \<noteq> meta_file_name k" "meta_file_name k \<noteq> file_cache_name i"
  by (auto simp: dir_cache_name_def file_cache_name_def meta_file_name_def split: prod.splits)

lemma dcache_prefix: "prefix ''dcache_'' (dir_cache_name i)" "\<not> prefix ''dcache_'' (file_cache_name i)"
  "\<not> prefix ''dcache_'' (meta_file_name k)"
  by (auto simp: dir_cache_name_def file_cache_name_def meta_file_name_def split: prod.splits)

lemma ucast_shard: "unat i < 2 ^ 16 \<Longrightarrow> unat j < 2 ^ 16 \<Longrightarrow> (ucast i :: u16) = ucast j \<Longrightarrow> i = (j :: u32)"
proof -
  assume "unat i < 2 ^ 16" "unat j < 2 ^ 16" "(ucast i :: u16) = ucast j"
  then have "unat (ucast i :: u16) = unat (ucast j :: u16)" by simp
  then have "unat i mod 2 ^ 16 = unat j mod 2 ^ 16"
    by (simp add: unsigned_ucast_eq take_bit_eq_mod)
  with \<open>unat i < 2 ^ 16\<close> \<open>unat j < 2 ^ 16\<close> have "unat i = unat j"
    by simp
  then show "i = j" by (simp add: word_unat_eq_iff)
qed

lemma writer_files_differ:
  assumes "unat i < 2 ^ 16" and "unat j < 2 ^ 16" and "i \<noteq> j" and "writer_file i name"
  shows "\<not> writer_file j name"
proof -
  have "(ucast i :: u16) \<noteq> ucast j"
    using assms(1-3) ucast_shard by blast
  then have "encode_meta_file_id (ucast i) g \<noteq> encode_meta_file_id (ucast j) g'" for g g'
    by (metis decode_encode_file_id prod.inject)
  with assms(3,4) show ?thesis
    by (auto simp: writer_file_def meta_file_def cache_name_inj meta_file_name_inj)
qed

text \<open>What a writer may do to the directory: extend and add files named by \<open>P\<close>, but no directory cache.\<close>

definition store_frame :: "(string \<Rightarrow> bool) \<Rightarrow> files \<Rightarrow> files \<Rightarrow> bool" where
  "store_frame P fs fs' \<longleftrightarrow> extends_files fs fs' \<and> dcache_names fs' = dcache_names fs
    \<and> (\<forall>name. \<not> P name \<longrightarrow> file_content fs' name = file_content fs name)"

definition content_frame :: "(string \<Rightarrow> bool) \<Rightarrow> files \<Rightarrow> files \<Rightarrow> bool" where
  "content_frame P fs fs' \<longleftrightarrow> extends_files fs fs'
    \<and> (\<forall>name. \<not> P name \<longrightarrow> file_content fs' name = file_content fs name)"

lemma store_content: "store_frame P fs fs' \<Longrightarrow> content_frame P fs fs'"
  by (simp add: store_frame_def content_frame_def)

lemma store_frame_mono: "store_frame P fs fs' \<Longrightarrow> (\<And>name. P name \<Longrightarrow> Q name) \<Longrightarrow> store_frame Q fs fs'"
  by (auto simp: store_frame_def)

lemma store_frame_refl [simp]: "store_frame P fs fs"
  by (simp add: store_frame_def extends_files_def)

lemma store_frame_trans: "store_frame P a b \<Longrightarrow> store_frame P b c \<Longrightarrow> store_frame P a c"
  using extends_files_trans [of a b c] by (auto simp: store_frame_def)

lemma names_append: "map fst (file_append fs name bytes) =
    (if file_content fs name = None then map fst fs @ [name] else map fst fs)"
  by (auto simp: file_append_def file_set_def file_content_def update_keys map_of_eq_None_iff
      dest!: map_of_SomeD split: option.splits intro: rev_image_eqI)

lemma names_open: "map fst (file_open_append fs name) =
    (if file_content fs name = None then map fst fs @ [name] else map fst fs)"
  by (auto simp: file_open_append_def file_set_def file_content_def update_keys map_of_eq_None_iff)

lemma dcache_names_append: "file_content fs name \<noteq> None \<or> \<not> prefix ''dcache_'' name \<Longrightarrow>
    dcache_names (file_append fs name bytes) = dcache_names fs"
  by (auto simp: dcache_names_def names_append)

lemma dcache_names_open:
  "dcache_names (file_open_append fs name) =
    dcache_names fs @ (if file_content fs name = None \<and> prefix ''dcache_'' name then [name] else [])"
  by (simp add: dcache_names_def names_open)

lemma store_frame_append:
  "P name \<Longrightarrow> file_content fs name \<noteq> None \<or> \<not> prefix ''dcache_'' name \<Longrightarrow>
   store_frame P fs (file_append fs name bytes)"
  by (auto simp: store_frame_def extends_files_append dcache_names_append)

lemma store_frame_open:
  "P name \<Longrightarrow> \<not> prefix ''dcache_'' name \<Longrightarrow> store_frame P fs (file_open_append fs name)"
  by (auto simp: store_frame_def extends_files_open dcache_names_open)

lemma meta_writer_file: "writer_shard r = ucast i \<Longrightarrow> meta_file i (segment_name r g)"
  by (auto simp: meta_file_def segment_name_def)

section \<open>Writing metadata\<close>

text \<open>The room used up: every full segment has less than \<open>2 ^ 20\<close> bytes to spare.\<close>

definition META_ENTRY_MAX :: nat where
  "META_ENTRY_MAX = 2 ^ 20"

definition meta_size :: "meta_bincode \<Rightarrow> meta_variant \<Rightarrow> nat" where
  "meta_size bc v = 5 + length (variant_payload bc v)"

definition repo_used :: "meta_repo_writer \<Rightarrow> nat \<Rightarrow> bool" where
  "repo_used r used \<longleftrightarrow> max_size r = None
    \<and> unat (current_segment_id r) * (2 ^ 31 - META_ENTRY_MAX) + unat (mw_offset (current_writer r)) \<le> used"

definition meta_ok :: "meta_bincode \<Rightarrow> meta_variant \<Rightarrow> bool" where
  "meta_ok bc v \<longleftrightarrow> round_trips bc v \<and> meta_size bc v \<le> META_ENTRY_MAX"

lemma MAX_FILE_SIZE_eq: "unat MAX_FILE_SIZE = 2 ^ 31"
  by (simp add: MAX_FILE_SIZE_def)

lemma repo_used_segment:
  assumes "repo_used r used" and "used < 2 ^ 46"
  shows "unat (current_segment_id r) + 1 < 2 ^ 16"
proof (rule ccontr)
  assume "\<not> unat (current_segment_id r) + 1 < 2 ^ 16"
  then have "65535 * (2 ^ 31 - META_ENTRY_MAX) \<le> unat (current_segment_id r) * (2 ^ 31 - META_ENTRY_MAX)"
    by (intro mult_le_mono1) simp
  with assms show False
    by (simp add: repo_used_def META_ENTRY_MAX_def)
qed

lemma repo_write_frame:
  assumes inv: "repo_inv fs r" and shard: "writer_shard r = ucast i" and ok: "meta_ok bc v"
    and used: "repo_used r used" and w: "repo_write bc (fs, r) v = Inr ((fs', r'), loc)"
  shows "store_frame (meta_file i) fs fs' \<and> repo_used r' (used + meta_size bc v)"
proof -
  let ?p = "variant_payload bc v"
  let ?needed = "5 + of_nat (length ?p) :: u32"
  have len: "5 + length ?p \<le> 2 ^ 20"
    using ok by (simp add: meta_ok_def meta_size_def META_ENTRY_MAX_def)
  have "?needed = of_nat (5 + length ?p)" by simp
  then have needed: "unat ?needed = 5 + length ?p"
    using len by (simp only:) (subst unat_of_nat, simp)
  obtain fs1 r1 where room: "check_room fs r ?needed = (fs1, r1)" by fastforce
  have name: "mw_name (current_writer r) = segment_name r (current_segment_id r)"
    and content: "file_content fs (mw_name (current_writer r)) \<noteq> None"
    and le: "unat (mw_offset (current_writer r)) \<le> 2 ^ 31"
    using inv used by (auto simp: repo_inv_def repo_used_def repo_limit_def word_le_nat_alt MAX_FILE_SIZE_eq)
  have max: "max_size r = None" using used by (simp add: repo_used_def)
  have sum: "unat (mw_offset (current_writer r) + ?needed) = unat (mw_offset (current_writer r)) + (5 + length ?p)"
    using le len by (subst unat_add_lem [THEN iffD1]) (simp_all add: needed)
  have step: "store_frame (meta_file i) fs fs1 \<and> writer_shard r1 = writer_shard r \<and> max_size r1 = None
      \<and> mw_name (current_writer r1) = segment_name r1 (current_segment_id r1)
      \<and> file_content fs1 (mw_name (current_writer r1)) \<noteq> None
      \<and> unat (current_segment_id r1) * (2 ^ 31 - META_ENTRY_MAX) + unat (mw_offset (current_writer r1)) \<le> used
      \<and> unat (mw_offset (current_writer r1)) + (5 + length ?p) < 2 ^ 32"
  proof (cases "MAX_FILE_SIZE < mw_offset (current_writer r) + ?needed")
    case True
    let ?name = "segment_name r (current_segment_id r + 1)"
    have "2 ^ 31 < unat (mw_offset (current_writer r)) + (5 + length ?p)"
      using True sum by (simp add: word_less_nat_alt MAX_FILE_SIZE_eq)
    then have big: "2 ^ 31 - META_ENTRY_MAX \<le> unat (mw_offset (current_writer r))"
      using len by (simp add: META_ENTRY_MAX_def)
    have eq: "fs1 = file_open_append fs ?name"
      "r1 = r\<lparr>current_segment_id := current_segment_id r + 1, current_writer := \<lparr>mw_name = ?name, mw_offset = 0\<rparr>\<rparr>"
      using room True max by (auto simp: check_room_def Let_def meta_writer_open_def meta_writer_size_def
          current_file_id_def segment_name_def)
    have "store_frame (meta_file i) fs fs1"
      unfolding eq(1) by (rule store_frame_open) (simp_all add: meta_writer_file [OF shard], simp add: segment_name_def dcache_prefix)
    moreover have "unat (current_segment_id r + 1) \<le> unat (current_segment_id r) + 1"
      by (simp add: unat_word_ariths)
    then have "unat (current_segment_id r + 1) * (2 ^ 31 - META_ENTRY_MAX)
        \<le> (unat (current_segment_id r) + 1) * (2 ^ 31 - META_ENTRY_MAX)"
      by (rule mult_le_mono1)
    moreover have "(unat (current_segment_id r) + 1) * k = unat (current_segment_id r) * k + k" for k
      by simp
    ultimately show ?thesis
      using used big len by (simp add: eq repo_used_def segment_name_def)
  next
    case False
    then have "fs1 = fs" "r1 = r"
      using room max by (auto simp: check_room_def Let_def meta_writer_size_def)
    with name content used le len max show ?thesis
      by (auto simp: repo_used_def)
  qed
  have off: "unat (mw_offset (current_writer r1) + ?needed) = unat (mw_offset (current_writer r1)) + (5 + length ?p)"
    using step by (subst unat_add_lem [THEN iffD1]) (simp_all add: needed)
  have eq: "fs' = file_append fs1 (mw_name (current_writer r1)) (tlv (variant_tag v) ?p)"
    "r' = r1\<lparr>current_writer := (current_writer r1)\<lparr>mw_offset := mw_offset (current_writer r1) + ?needed\<rparr>\<rparr>"
    using w len by (auto simp: repo_write_cases room write_entry_def Let_def)
  have "store_frame (meta_file i) fs1 fs'"
    unfolding eq(1) using step shard by (intro store_frame_append) (auto simp: meta_writer_file)
  with step store_frame_trans have "store_frame (meta_file i) fs fs'" by blast
  with step off show ?thesis
    by (simp add: eq(2) repo_used_def meta_size_def)
qed

lemma repo_write_step:
  assumes inv: "repo_inv fs r" and shard: "writer_shard r = ucast i" and ok: "meta_ok bc v"
    and used: "repo_used r used" and bound: "used < 2 ^ 46"
  shows "\<exists>fs' r' loc. repo_write bc (fs, r) v = Inr ((fs', r'), loc) \<and> repo_inv fs' r'
    \<and> writer_shard r' = ucast i \<and> store_frame (meta_file i) fs fs' \<and> repo_used r' (used + meta_size bc v)
    \<and> get_meta bc fs' loc = Inr v"
proof -
  have lim: "repo_limit r = MAX_FILE_SIZE"
    using used by (simp add: repo_used_def repo_limit_def)
  have "round_trips bc v" "entry_fits bc (repo_limit r) v"
    using ok unfolding lim by (auto simp: meta_ok_def meta_size_def META_ENTRY_MAX_def entry_fits_def MAX_FILE_SIZE_eq)
  from repo_write_ok [OF this(1) inv this(2) repo_used_segment [OF used bound]]
  obtain fs' r' loc where w: "repo_write bc (fs, r) v = Inr ((fs', r'), loc)" "repo_inv fs' r'"
    "get_meta bc fs' loc = Inr v" "writer_shard r' = writer_shard r"
    by blast
  with repo_write_frame [OF inv shard ok used w(1)] shard show ?thesis by auto
qed

section \<open>What a batch leaves behind\<close>

text \<open>What the code relies on of bincode for the cache entries: their sizes, and that it parses what it printed.\<close>

definition formats_ok :: "diff_formats \<Rightarrow> bool" where
  "formats_ok fm \<longleftrightarrow> fixed_size (fmt_files fm) = FILE_CACHE_SIZE \<and> fixed_size (fmt_dirs fm) = DIR_CACHE_SIZE
    \<and> (\<forall>e. codec_ok (fmt_files fm) e) \<and> (\<forall>e. codec_ok (fmt_dirs fm) e)"

definition batch_ok :: "diff_formats \<Rightarrow> dir_batch \<Rightarrow> bool" where
  "batch_ok fm b \<longleftrightarrow> meta_ok (fmt_meta fm) (MetaDir (db_dir b)) \<and> short_text (dm_path (db_dir b))
    \<and> list_all (\<lambda>f. meta_ok (fmt_meta fm) (MetaFile f) \<and> short_text (mc_name (fm_common f))) (db_files b)"

definition files_size :: "diff_formats \<Rightarrow> file_meta list \<Rightarrow> nat" where
  "files_size fm fs = (\<Sum>f \<leftarrow> fs. meta_size (fmt_meta fm) (MetaFile f))"

definition batch_size :: "diff_formats \<Rightarrow> dir_batch \<Rightarrow> nat" where
  "batch_size fm b = meta_size (fmt_meta fm) (MetaDir (db_dir b)) + files_size fm (db_files b)"

definition file_stored ::
  "diff_formats \<Rightarrow> (byte list \<Rightarrow> byte list) \<Rightarrow> files \<Rightarrow> file_cache_entry \<Rightarrow> file_meta \<Rightarrow> bool" where
  "file_stored fm sha256 fs fe f \<longleftrightarrow> get_fmeta (fmt_meta fm) fs (fce_meta_loc fe) = Inr f
    \<and> fce_id fe = mc_id (fm_common f) \<and> fce_hash fe = digest_hash sha256 (enc_file (fmt_meta fm) f)"

definition files_by_id :: "dir_batch \<Rightarrow> file_meta list" where
  "files_by_id b = sort_key (\<lambda>f. mc_id (fm_common f)) (db_files b)"

text \<open>A batch with its directory entry and its file entries, which start at index \<open>k\<close> of the file cache.\<close>

type_synonym stored_batch = "dir_cache_entry \<times> file_cache_entry list \<times> dir_batch"

fun batch_stored ::
  "diff_formats \<Rightarrow> (byte list \<Rightarrow> byte list) \<Rightarrow> files \<Rightarrow> u32 \<Rightarrow> nat \<Rightarrow> stored_batch \<Rightarrow> bool" where
  "batch_stored fm sha256 fs i k (de, fes, b) \<longleftrightarrow>
    get_dmeta (fmt_meta fm) fs (dce_meta_loc de) = Inr (db_dir b)
    \<and> dce_id de = mc_id (dm_common (db_dir b)) \<and> dce_hash de = digest_hash sha256 (enc_dir (fmt_meta fm) (db_dir b))
    \<and> dce_files_count de = of_nat (length (db_files b)) \<and> dce_fcache_fid de = i
    \<and> dce_fcache_offset de = of_nat (k * FILE_CACHE_SIZE)
    \<and> list_all2 (file_stored fm sha256 fs) fes (files_by_id b)"

abbreviation rec_dir :: "stored_batch \<Rightarrow> dir_cache_entry" where "rec_dir \<equiv> fst"
abbreviation rec_files :: "stored_batch \<Rightarrow> file_cache_entry list" where "rec_files r \<equiv> fst (snd r)"
abbreviation rec_batch :: "stored_batch \<Rightarrow> dir_batch" where "rec_batch r \<equiv> snd (snd r)"

fun stored_from ::
  "diff_formats \<Rightarrow> (byte list \<Rightarrow> byte list) \<Rightarrow> files \<Rightarrow> u32 \<Rightarrow> nat \<Rightarrow> stored_batch list \<Rightarrow> bool" where
  "stored_from fm sha256 fs i k [] = True"
| "stored_from fm sha256 fs i k (r # rs) =
    (batch_stored fm sha256 fs i k r \<and> stored_from fm sha256 fs i (k + length (rec_files r)) rs)"

definition all_files :: "stored_batch list \<Rightarrow> file_cache_entry list" where
  "all_files rs = concat (map (\<lambda>r. rec_files r) rs)"

lemma all_files_simps [simp]: "all_files [] = []" "all_files (r # rs) = rec_files r @ all_files rs"
  "all_files (rs @ qs) = all_files rs @ all_files qs"
  by (simp_all add: all_files_def)

lemma stored_from_append:
  "stored_from fm sha256 fs i k (rs @ qs) \<longleftrightarrow>
    stored_from fm sha256 fs i k rs \<and> stored_from fm sha256 fs i (k + length (all_files rs)) qs"
  by (induction rs arbitrary: k) (auto simp: add.assoc)

lemma get_fmeta_extends: "get_fmeta bc fs loc = Inr f \<Longrightarrow> extends_files fs fs' \<Longrightarrow> get_fmeta bc fs' loc = Inr f"
  by (auto simp: get_fmeta_def andThen_Inr_iff dest: get_meta_extends)

lemma get_dmeta_extends: "get_dmeta bc fs loc = Inr d \<Longrightarrow> extends_files fs fs' \<Longrightarrow> get_dmeta bc fs' loc = Inr d"
  by (auto simp: get_dmeta_def andThen_Inr_iff dest: get_meta_extends)

lemma batch_stored_extends:
  "batch_stored fm sha256 fs i k r \<Longrightarrow> extends_files fs fs' \<Longrightarrow> batch_stored fm sha256 fs' i k r"
  by (cases r) (auto simp: file_stored_def intro: get_dmeta_extends get_fmeta_extends elim!: list_all2_mono)

lemma stored_from_extends:
  "stored_from fm sha256 fs i k rs \<Longrightarrow> extends_files fs fs' \<Longrightarrow> stored_from fm sha256 fs' i k rs"
  by (induction rs arbitrary: k) (auto intro: batch_stored_extends)

text \<open>Sorting two lists that correspond by keys that agree.\<close>

lemma list_all2_insort:
  assumes "list_all2 R xs ys" and "R x y" and "\<And>x y. R x y \<Longrightarrow> f x = g y"
  shows "list_all2 R (insort_key f x xs) (insort_key g y ys)"
  using assms(1,2) assms(3) [OF assms(2)]
  by (induction xs ys rule: list_all2_induct) (auto dest: assms(3))

lemma list_all2_sort:
  assumes "list_all2 R xs ys" and "\<And>x y. R x y \<Longrightarrow> f x = g y"
  shows "list_all2 R (sort_key f xs) (sort_key g ys)"
  using assms(1) by (induction xs ys rule: list_all2_induct) (auto intro: list_all2_insort assms(2))

text \<open>The loop over the files.\<close>

lemma store_files_step:
  assumes "repo_inv (st_files st) mw" and "writer_shard mw = ucast i" and "repo_used mw used"
    and "\<forall>f \<in> set fs. meta_ok (fmt_meta fm) (MetaFile f)" and "used + files_size fm fs < 2 ^ 46"
  shows "\<exists>st' mw' fes. store_files fm sha256 hl dir fs (st, mw) = Inr ((st', mw'), fes)
    \<and> repo_inv (st_files st') mw' \<and> writer_shard mw' = ucast i \<and> repo_used mw' (used + files_size fm fs)
    \<and> store_frame (meta_file i) (st_files st) (st_files st') \<and> list_all2 (file_stored fm sha256 (st_files st')) fes fs"
  using assms
proof (induction fs arbitrary: st mw used)
  case Nil
  then show ?case by (simp add: files_size_def)
next
  case (Cons f fs)
  let ?size = "meta_size (fmt_meta fm) (MetaFile f)"
  have ok: "meta_ok (fmt_meta fm) (MetaFile f)" and bound: "used < 2 ^ 46"
    and total: "used + ?size + files_size fm fs < 2 ^ 46"
    using Cons.prems by (simp_all add: files_size_def)
  from repo_write_step [OF Cons.prems(1,2) ok Cons.prems(3) bound] obtain files mw1 loc where
    w: "repo_write_filemeta (fmt_meta fm) (st_files st, mw) f = Inr ((files, mw1), loc)"
    and inv: "repo_inv files mw1" "writer_shard mw1 = ucast i" "store_frame (meta_file i) (st_files st) files"
      "repo_used mw1 (used + ?size)" and got: "get_meta (fmt_meta fm) files loc = Inr (MetaFile f)"
    by auto
  let ?st = "st\<lparr>st_files := files, st_index := track_hardlink hl dir f loc (st_index st)\<rparr>"
  have "\<exists>st' mw' fes. store_files fm sha256 hl dir fs (?st, mw1) = Inr ((st', mw'), fes)
    \<and> repo_inv (st_files st') mw' \<and> writer_shard mw' = ucast i \<and> repo_used mw' (used + ?size + files_size fm fs)
    \<and> store_frame (meta_file i) (st_files ?st) (st_files st') \<and> list_all2 (file_stored fm sha256 (st_files st')) fes fs"
    by (rule Cons.IH) (use inv Cons.prems(4) total in simp_all)
  then obtain st' mw' fes where r: "store_files fm sha256 hl dir fs (?st, mw1) = Inr ((st', mw'), fes)"
    "repo_inv (st_files st') mw'" "writer_shard mw' = ucast i" "repo_used mw' (used + ?size + files_size fm fs)"
    "store_frame (meta_file i) files (st_files st')" "list_all2 (file_stored fm sha256 (st_files st')) fes fs"
    by auto
  have "get_fmeta (fmt_meta fm) (st_files st') loc = Inr f"
    using get_meta_extends [OF got] r(5) by (simp add: get_fmeta_def store_frame_def)
  then have "file_stored fm sha256 (st_files st') ((file_cache_entry_from sha256 (fmt_meta fm) f)\<lparr>fce_meta_loc := loc\<rparr>) f"
    by (simp add: file_stored_def file_cache_entry_from_def)
  with w r store_frame_trans [OF inv(3) r(5)] show ?case
    by (simp add: files_size_def add.assoc)
qed

text \<open>Appending to a cache file.\<close>

lemma bin_write_all_frame:
  assumes "bin_write_all cd (fs, w) ys = Inr ((fs', w'), is)" and "file_content fs (bw_name w) \<noteq> None"
  shows "store_frame (\<lambda>n. n = bw_name w) fs fs' \<and> bw_name w' = bw_name w
    \<and> bw_index w' = bw_index w + of_nat (length ys)
    \<and> bw_offset w' = bw_offset w + of_nat (length ys * fixed_size cd)"
  using assms
proof (induction ys arbitrary: fs w "is")
  case Nil
  then show ?case by simp
next
  case (Cons y ys)
  from Cons.prems(1) obtain buffer fs1 w1 ks where
    fs1: "fs1 = file_append fs (bw_name w) buffer"
    and w1: "w1 = w\<lparr>bw_offset := bw_offset w + of_nat (fixed_size cd), bw_index := bw_index w + 1\<rparr>"
    and rest: "bin_write_all cd (fs1, w1) ys = Inr ((fs', w'), ks)"
    by (fastforce simp: bin_write_def andThen_Inr_iff split: if_splits)
  have "store_frame (\<lambda>n. n = bw_name w) fs fs1"
    unfolding fs1 using Cons.prems(2) by (intro store_frame_append) simp_all
  moreover have "file_content fs1 (bw_name w1) \<noteq> None"
    by (simp add: fs1 w1)
  ultimately show ?case
    using Cons.IH [OF rest] by (auto simp: w1 algebra_simps intro: store_frame_trans)
qed

definition cache_holds :: "'a fixed_codec \<Rightarrow> files \<Rightarrow> string \<Rightarrow> bin_writer \<Rightarrow> 'a list \<Rightarrow> bool" where
  "cache_holds cd fs name w xs \<longleftrightarrow> bw_name w = name \<and> bw_index w = of_nat (length xs)
    \<and> bw_offset w = of_nat (length xs * fixed_size cd)
    \<and> (\<exists>c. file_content fs name = Some c \<and> holds_items cd c xs)"

lemma cache_write:
  assumes "cache_holds cd fs name w xs" and "\<forall>y. codec_ok cd y"
  shows "\<exists>fs' w' is. bin_write_all cd (fs, w) ys = Inr ((fs', w'), is) \<and> cache_holds cd fs' name w' (xs @ ys)
    \<and> store_frame (\<lambda>n. n = name) fs fs'"
proof -
  from assms(1) obtain c where c: "file_content fs (bw_name w) = Some c" "holds_items cd c xs"
    and w: "bw_name w = name" "bw_index w = of_nat (length xs)" "bw_offset w = of_nat (length xs * fixed_size cd)"
    by (auto simp: cache_holds_def)
  from bin_write_all_ok [OF c(2,1) w(2)] assms(2) obtain fs' w' ks c' where
    r: "bin_write_all cd (fs, w) ys = Inr ((fs', w'), ks)" "file_content fs' (bw_name w) = Some c'"
      "holds_items cd c' (xs @ ys)"
    by blast
  from bin_write_all_frame [OF r(1)] c(1) r w show ?thesis
    by (auto simp: cache_holds_def algebra_simps)
qed

lemma bin_write_single: "bin_write_all cd s [y] = andThen (bin_write cd s y) (\<lambda>(s, i). Inr (s, [i]))"
  by simp

lemma cache_holds_frame:
  "cache_holds cd fs name w xs \<Longrightarrow> content_frame P fs fs' \<Longrightarrow> \<not> P name \<Longrightarrow> cache_holds cd fs' name w xs"
  by (auto simp: cache_holds_def content_frame_def)

lemma repo_inv_frame:
  "repo_inv fs r \<Longrightarrow> content_frame P fs fs' \<Longrightarrow> (\<And>g. \<not> P (segment_name r g)) \<Longrightarrow> repo_inv fs' r"
  by (auto simp: repo_inv_def content_frame_def)

text \<open>The state of a writer that has taken the batches of \<open>rs\<close>.\<close>

definition thread_ok ::
  "diff_formats \<Rightarrow> (byte list \<Rightarrow> byte list) \<Rightarrow> files \<Rightarrow> writer_thread \<Rightarrow> stored_batch list \<Rightarrow> bool" where
  "thread_ok fm sha256 fs t rs \<longleftrightarrow>
    repo_inv fs (wt_meta t) \<and> writer_shard (wt_meta t) = ucast (wt_shard t)
    \<and> repo_used (wt_meta t) (\<Sum>r \<leftarrow> rs. batch_size fm (rec_batch r))
    \<and> cache_holds (fmt_dirs fm) fs (dir_cache_name (wt_shard t)) (wt_dcache t) (map rec_dir rs)
    \<and> cache_holds (fmt_files fm) fs (file_cache_name (wt_shard t)) (wt_fcache t) (all_files rs)
    \<and> stored_from fm sha256 fs (wt_shard t) 0 rs"

lemma thread_ok_frame:
  assumes "thread_ok fm sha256 fs t rs" and "content_frame (writer_file j) fs fs'"
    and "unat (wt_shard t) < 2 ^ 16" and "unat j < 2 ^ 16" and "wt_shard t \<noteq> j"
  shows "thread_ok fm sha256 fs' t rs"
proof -
  have other: "\<not> writer_file j name" if "writer_file (wt_shard t) name" for name
    using writer_files_differ [OF assms(3-5) that] .
  have "\<not> writer_file j (segment_name (wt_meta t) g)" for g
    using assms(1) by (intro other) (auto simp: thread_ok_def writer_file_def meta_writer_file)
  then have "repo_inv fs' (wt_meta t)"
    using assms(1,2) repo_inv_frame by (auto simp: thread_ok_def)
  moreover have "\<not> writer_file j (dir_cache_name (wt_shard t))" "\<not> writer_file j (file_cache_name (wt_shard t))"
    by (rule other, simp add: writer_file_def)+
  moreover have "extends_files fs fs'"
    using assms(2) by (simp add: content_frame_def)
  ultimately show ?thesis
    using assms(1) by (auto simp: thread_ok_def intro: cache_holds_frame [OF _ assms(2)] stored_from_extends)
qed

lemma process_scan_result_ok:
  assumes fm: "formats_ok fm" and t: "thread_ok fm sha256 (st_files st) t rs" and b: "batch_ok fm b"
    and bound: "(\<Sum>r \<leftarrow> rs. batch_size fm (rec_batch r)) + batch_size fm b < 2 ^ 46"
  shows "\<exists>st' t' de fes. process_scan_result fm sha256 hl b (st, t) = Inr (st', t')
    \<and> wt_shard t' = wt_shard t \<and> thread_ok fm sha256 (st_files st') t' (rs @ [(de, fes, b)])
    \<and> store_frame (writer_file (wt_shard t)) (st_files st) (st_files st')"
proof -
  let ?i = "wt_shard t"
  let ?used = "\<Sum>r \<leftarrow> rs. batch_size fm (rec_batch r)"
  let ?size = "meta_size (fmt_meta fm) (MetaDir (db_dir b))"
  have sizes: "fixed_size (fmt_files fm) = FILE_CACHE_SIZE" "\<forall>e. codec_ok (fmt_files fm) e" "\<forall>e. codec_ok (fmt_dirs fm) e"
    using fm by (simp_all add: formats_ok_def)
  have ok: "meta_ok (fmt_meta fm) (MetaDir (db_dir b))" "\<forall>f \<in> set (db_files b). meta_ok (fmt_meta fm) (MetaFile f)"
    using b by (auto simp: batch_ok_def list_all_iff)
  have total: "?used + ?size + files_size fm (db_files b) < 2 ^ 46" and b1: "?used < 2 ^ 46"
    using bound by (simp_all add: batch_size_def)
  note inv = t [unfolded thread_ok_def]
  have inv0: "repo_inv (st_files st) (wt_meta t)" "writer_shard (wt_meta t) = ucast ?i" "repo_used (wt_meta t) ?used"
    using inv by simp_all
  from repo_write_step [OF inv0(1,2) ok(1) inv0(3) b1] obtain files1 mw1 dloc where
    w: "repo_write_dirmeta (fmt_meta fm) (st_files st, wt_meta t) (db_dir b) = Inr ((files1, mw1), dloc)"
    and inv1: "repo_inv files1 mw1" "writer_shard mw1 = ucast ?i" "store_frame (meta_file ?i) (st_files st) files1"
      "repo_used mw1 (?used + ?size)" and got: "get_meta (fmt_meta fm) files1 dloc = Inr (MetaDir (db_dir b))"
    by auto
  have "repo_inv (st_files (st\<lparr>st_files := files1\<rparr>)) mw1" using inv1(1) by simp
  from store_files_step [OF this inv1(2,4) ok(2) total, of sha256 hl "db_dir b"] obtain st2 mw2 fes where
    s: "store_files fm sha256 hl (db_dir b) (db_files b) (st\<lparr>st_files := files1\<rparr>, mw1) = Inr ((st2, mw2), fes)"
    and inv2: "repo_inv (st_files st2) mw2" "writer_shard mw2 = ucast ?i" "store_frame (meta_file ?i) files1 (st_files st2)"
      "repo_used mw2 (?used + ?size + files_size fm (db_files b))"
      "list_all2 (file_stored fm sha256 (st_files st2)) fes (db_files b)"
    by auto
  have fr2: "store_frame (meta_file ?i) (st_files st) (st_files st2)"
    using store_frame_trans [OF inv1(3) inv2(3)] .
  have fc: "cache_holds (fmt_files fm) (st_files st2) (file_cache_name ?i) (wt_fcache t) (all_files rs)"
    by (rule cache_holds_frame [OF _ store_content [OF fr2]]) (use inv in \<open>auto simp: meta_file_def\<close>)
  have dc: "cache_holds (fmt_dirs fm) (st_files st2) (dir_cache_name ?i) (wt_dcache t) (map rec_dir rs)"
    by (rule cache_holds_frame [OF _ store_content [OF fr2]]) (use inv in \<open>auto simp: meta_file_def\<close>)
  from cache_write [OF fc sizes(2), of "sort_key fce_id fes"] obtain files3 fw ks where
    f: "bin_write_all (fmt_files fm) (st_files st2, wt_fcache t) (sort_key fce_id fes) = Inr ((files3, fw), ks)"
    "cache_holds (fmt_files fm) files3 (file_cache_name ?i) fw (all_files rs @ sort_key fce_id fes)"
    "store_frame (\<lambda>n. n = file_cache_name ?i) (st_files st2) files3"
    by blast
  define de where "de = (dir_cache_entry_from sha256 (fmt_meta fm) (db_dir b))
      \<lparr>dce_meta_loc := dloc, dce_files_count := of_nat (length (db_files b)),
       dce_fcache_fid := ?i, dce_fcache_offset := bw_offset (wt_fcache t)\<rparr>"
  have "cache_holds (fmt_dirs fm) files3 (dir_cache_name ?i) (wt_dcache t) (map rec_dir rs)"
    using cache_holds_frame [OF dc store_content [OF f(3)]] by simp
  from cache_write [OF this sizes(3), of "[de]"] obtain files4 dw js where
    d: "bin_write_all (fmt_dirs fm) (files3, wt_dcache t) [de] = Inr ((files4, dw), js)"
    "cache_holds (fmt_dirs fm) files4 (dir_cache_name ?i) dw (map rec_dir rs @ [de])"
    "store_frame (\<lambda>n. n = dir_cache_name ?i) files3 files4"
    by blast
  from d(1) obtain j where dw: "bin_write (fmt_dirs fm) (files3, wt_dcache t) de = Inr ((files4, dw), j)"
    by (auto simp: bin_write_single andThen_Inr_iff)
  let ?st = "st2\<lparr>st_files := files4\<rparr>"
  let ?t = "t\<lparr>wt_meta := mw2, wt_dcache := dw, wt_fcache := fw\<rparr>"
  let ?r = "(de, sort_key fce_id fes, b)"
  have run: "process_scan_result fm sha256 hl b (st, t) = Inr (?st, ?t)"
    using w s f(1) dw by (simp add: process_scan_result_def bin_current_def de_def [symmetric])
  have fr3: "store_frame (\<lambda>n. n = file_cache_name ?i \<or> n = dir_cache_name ?i) (st_files st2) files4"
    by (rule store_frame_trans [OF store_frame_mono [OF f(3)] store_frame_mono [OF d(3)]]) auto
  have fr: "store_frame (writer_file ?i) (st_files st) files4"
    by (rule store_frame_trans [OF store_frame_mono [OF fr2] store_frame_mono [OF fr3]])
      (auto simp: writer_file_def)
  have ext: "extends_files (st_files st2) files4" "extends_files (st_files st) files4"
    and "extends_files files1 (st_files st2)"
    using fr3 fr inv2(3) by (simp_all add: store_frame_def)
  then have ext1: "extends_files files1 files4"
    using extends_files_trans by blast
  have "repo_inv files4 mw2"
    using repo_inv_frame [OF inv2(1) store_content [OF fr3]] by (simp add: segment_name_def)
  moreover have "cache_holds (fmt_files fm) files4 (file_cache_name ?i) fw (all_files rs @ sort_key fce_id fes)"
    using cache_holds_frame [OF f(2) store_content [OF d(3)]] by simp
  moreover have "stored_from fm sha256 files4 ?i 0 rs"
    using inv ext(2) by (auto intro: stored_from_extends)
  moreover have "batch_stored fm sha256 files4 ?i (length (all_files rs)) ?r"
  proof -
    have "get_dmeta (fmt_meta fm) files4 dloc = Inr (db_dir b)"
      using get_meta_extends [OF got ext1] by (simp add: get_dmeta_def)
    moreover have "list_all2 (file_stored fm sha256 (st_files st2)) (sort_key fce_id fes) (files_by_id b)"
      unfolding files_by_id_def by (rule list_all2_sort [OF inv2(5)]) (simp add: file_stored_def)
    then have "list_all2 (file_stored fm sha256 files4) (sort_key fce_id fes) (files_by_id b)"
      by (rule list_all2_mono) (auto simp: file_stored_def intro: get_fmeta_extends ext(1))
    moreover have "bw_offset (wt_fcache t) = of_nat (length (all_files rs) * FILE_CACHE_SIZE)"
      using inv sizes(1) by (simp add: cache_holds_def)
    ultimately show ?thesis
      by (simp add: de_def dir_cache_entry_from_def)
  qed
  ultimately have "thread_ok fm sha256 files4 ?t (rs @ [?r])"
    using d(2) inv2(2,4) by (simp add: thread_ok_def stored_from_append batch_size_def add.assoc)
  with run fr show ?thesis
    by (intro exI [of _ ?st] exI [of _ ?t] exI [of _ de] exI [of _ "sort_key fce_id fes"]) simp
qed

section \<open>All writers\<close>

definition writers_ok ::
  "diff_formats \<Rightarrow> (byte list \<Rightarrow> byte list) \<Rightarrow> files \<Rightarrow> writer_thread list \<Rightarrow> stored_batch list list \<Rightarrow> bool" where
  "writers_ok fm sha256 fs ts rss \<longleftrightarrow> length rss = length ts \<and> length ts \<le> 2 ^ 16
    \<and> (\<forall>i < length ts. wt_shard (ts ! i) = of_nat i \<and> thread_ok fm sha256 fs (ts ! i) (rss ! i))"

definition batches_size :: "diff_formats \<Rightarrow> dir_batch list \<Rightarrow> nat" where
  "batches_size fm bs = (\<Sum>b \<leftarrow> bs. batch_size fm b)"

lemma unat_shard: "i < 2 ^ 16 \<Longrightarrow> unat (of_nat i :: u32) = i"
  by (simp add: unat_of_nat)

lemma shard_eq: "i < 2 ^ 16 \<Longrightarrow> j < 2 ^ 16 \<Longrightarrow> (of_nat i :: u32) = of_nat j \<longleftrightarrow> i = j"
  using unat_shard by metis

lemma mset_concat_update:
  "i < length xss \<Longrightarrow> mset (concat (xss[i := xss ! i @ ys])) = mset (concat xss) + mset ys"
proof -
  assume i: "i < length xss"
  have "mset (concat xss) = mset (concat (take i xss @ xss ! i # drop (Suc i) xss))"
    using id_take_nth_drop [OF i] by simp
  then show ?thesis
    by (simp add: upd_conv_take_nth_drop [OF i] ac_simps)
qed

lemma batches_size_mset: "mset bs = mset bs' \<Longrightarrow> batches_size fm bs = batches_size fm bs'"
  unfolding batches_size_def by (metis mset_map sum_mset_sum_list)

lemma thread_size: "i < length rss \<Longrightarrow> (\<Sum>r \<leftarrow> rss ! i. batch_size fm (rec_batch r))
    \<le> batches_size fm (map rec_batch (concat rss))"
proof -
  assume i: "i < length rss"
  then have "concat rss = concat (take i rss) @ rss ! i @ concat (drop (Suc i) rss)"
    by (metis concat.simps(2) concat_append id_take_nth_drop)
  then show ?thesis
    by (simp add: batches_size_def comp_def)
qed

lemma writer_step_ok:
  assumes fm: "formats_ok fm" and ok: "writers_ok fm sha256 (st_files st) ts rss" and i: "i < length ts"
    and b: "batch_ok fm b" and bound: "batches_size fm (map rec_batch (concat rss)) + batch_size fm b < 2 ^ 46"
  shows "\<exists>st' t' r. process_scan_result fm sha256 hl b (st, ts ! i) = Inr (st', t')
    \<and> writers_ok fm sha256 (st_files st') (ts[i := t']) (rss[i := rss ! i @ [r]]) \<and> rec_batch r = b
    \<and> dcache_names (st_files st') = dcache_names (st_files st)"
proof -
  have len: "length rss = length ts" "length ts \<le> 2 ^ 16"
    using ok by (simp_all add: writers_ok_def)
  have each: "wt_shard (ts ! j) = of_nat j \<and> thread_ok fm sha256 (st_files st) (ts ! j) (rss ! j)" if "j < length ts" for j
    using ok that by (simp_all add: writers_ok_def)
  have "(\<Sum>r \<leftarrow> rss ! i. batch_size fm (rec_batch r)) + batch_size fm b < 2 ^ 46"
    using thread_size [of i rss fm] bound i len(1) by simp
  from process_scan_result_ok [OF fm _ b this] each [OF i] obtain st' t' de fes where
    p: "process_scan_result fm sha256 hl b (st, ts ! i) = Inr (st', t')" "wt_shard t' = of_nat i"
    and t: "thread_ok fm sha256 (st_files st') t' (rss ! i @ [(de, fes, b)])"
    and fr: "store_frame (writer_file (of_nat i)) (st_files st) (st_files st')"
    by (metis (no_types, lifting))
  have "wt_shard (ts[i := t'] ! j) = of_nat j
      \<and> thread_ok fm sha256 (st_files st') (ts[i := t'] ! j) (rss[i := rss ! i @ [(de, fes, b)]] ! j)"
    if j: "j < length ts" for j
  proof (cases "j = i")
    case True
    with p t i len show ?thesis by simp
  next
    case False
    have small: "i < 2 ^ 16" "j < 2 ^ 16"
      using i j len(2) by simp_all
    have "thread_ok fm sha256 (st_files st') (ts ! j) (rss ! j)"
      using each [OF j] small False
      by (intro thread_ok_frame [OF _ store_content [OF fr]]) (simp_all add: unat_shard shard_eq)
    with False each [OF j] show ?thesis by simp
  qed
  then have "writers_ok fm sha256 (st_files st') (ts[i := t']) (rss[i := rss ! i @ [(de, fes, b)]])"
    using len by (simp add: writers_ok_def)
  with p fr show ?thesis
    by (intro exI [of _ st'] exI [of _ t'] exI [of _ "(de, fes, b)"]) (simp add: store_frame_def)
qed

lemma run_writers_ok:
  assumes "formats_ok fm" and "writers_ok fm sha256 (st_files st) ts rss"
    and "\<forall>(i, b) \<in> set sched. i < length ts \<and> batch_ok fm b"
    and "batches_size fm (map rec_batch (concat rss)) + batches_size fm (map snd sched) < 2 ^ 46"
  shows "\<exists>st' ts' rss'. run_writers fm sha256 hl sched (st, ts) = Inr (st', ts')
    \<and> writers_ok fm sha256 (st_files st') ts' rss' \<and> length ts' = length ts
    \<and> mset (map rec_batch (concat rss')) = mset (map rec_batch (concat rss)) + mset (map snd sched)
    \<and> dcache_names (st_files st') = dcache_names (st_files st)"
  using assms(2-4)
proof (induction sched arbitrary: st ts rss)
  case Nil
  then show ?case by auto
next
  case (Cons x sched)
  obtain i b where x: "x = (i, b)" by fastforce
  have i: "i < length ts" "batch_ok fm b"
    and bound: "batches_size fm (map rec_batch (concat rss)) + batch_size fm b < 2 ^ 46"
    using Cons.prems(2,3) x by (auto simp: batches_size_def)
  from writer_step_ok [OF assms(1) Cons.prems(1) i bound] obtain st1 t r where
    p: "process_scan_result fm sha256 hl b (st, ts ! i) = Inr (st1, t)"
    and ok: "writers_ok fm sha256 (st_files st1) (ts[i := t]) (rss[i := rss ! i @ [r]])" and r: "rec_batch r = b"
    and names: "dcache_names (st_files st1) = dcache_names (st_files st)"
    by blast
  let ?rss = "rss[i := rss ! i @ [r]]"
  have "i < length rss" using i(1) Cons.prems(1) by (simp add: writers_ok_def)
  from mset_concat_update [OF this, of "[r]"]
  have ms: "mset (map rec_batch (concat ?rss)) = mset (map rec_batch (concat rss)) + {#b#}"
    by (simp add: r)
  then have "batches_size fm (map rec_batch (concat ?rss)) = batches_size fm (b # map rec_batch (concat rss))"
    by (intro batches_size_mset) simp
  then have "batches_size fm (map rec_batch (concat ?rss)) + batches_size fm (map snd sched) < 2 ^ 46"
    using Cons.prems(3) x by (simp add: batches_size_def)
  from Cons.IH [OF ok _ this] Cons.prems(2) obtain st' ts' rss' where
    "run_writers fm sha256 hl sched (st1, ts[i := t]) = Inr (st', ts')"
    "writers_ok fm sha256 (st_files st') ts' rss'" "length ts' = length ts"
    "mset (map rec_batch (concat rss')) = mset (map rec_batch (concat ?rss)) + mset (map snd sched)"
    "dcache_names (st_files st') = dcache_names (st_files st1)"
    by auto
  with p x names ms show ?case by auto
qed

text \<open>The writers begin in an empty directory.\<close>

definition unused :: "files \<Rightarrow> nat \<Rightarrow> nat \<Rightarrow> bool" where
  "unused fs k n \<longleftrightarrow> (\<forall>j name. k \<le> j \<longrightarrow> j < n \<longrightarrow> writer_file (of_nat j) name \<longrightarrow> file_content fs name = None)"

lemma cache_opened:
  assumes "file_content fs name = None" and "0 < fixed_size cd"
  shows "\<exists>w. bin_writer_open cd fs name = Inr (file_open_append fs name, w)
    \<and> cache_holds cd (file_open_append fs name) name w []"
  using assms by (simp add: bin_writer_open_def Let_def cache_holds_def holds_items_def)

lemma start_writer_ok:
  assumes fm: "formats_ok fm" and k: "k < n" "n \<le> 2 ^ 16" and fresh: "unused fs k n"
  shows "\<exists>fs' t. start_writer fm k fs = Inr (fs', t) \<and> wt_shard t = of_nat k \<and> thread_ok fm sha256 fs' t []
    \<and> content_frame (writer_file (of_nat k)) fs fs' \<and> unused fs' (Suc k) n
    \<and> dcache_names fs' = dcache_names fs @ [dir_cache_name (of_nat k)]"
proof -
  let ?k = "of_nat k :: u32"
  have none: "file_content fs name = None" if "writer_file ?k name" for name
    using fresh that k by (auto simp: unused_def)
  have sizes: "0 < fixed_size (fmt_files fm)" "0 < fixed_size (fmt_dirs fm)"
    using fm by (simp_all add: formats_ok_def FILE_CACHE_SIZE_def DIR_CACHE_SIZE_def)
  have no_meta: "no_meta_files fs (ucast ?k)"
    unfolding no_meta_files_def using none by (auto simp: writer_file_def meta_file_def)
  obtain fs1 mw where m: "meta_repo_new fs (ucast ?k) = (fs1, mw)" by fastforce
  let ?meta = "meta_file_name (encode_meta_file_id (ucast ?k) 0)"
  have fs1: "fs1 = file_open_append fs ?meta" and mw: "max_size mw = None" "mw_offset (current_writer mw) = 0"
    using m by (auto simp: meta_repo_new_def meta_writer_open_def Let_def)
  have "mw\<lparr>max_size := None\<rparr> = mw"
    using mw(1) by (cases mw) simp
  with repo_inv_new [OF no_meta m, of None] have inv: "repo_inv fs1 mw" "writer_shard mw = ucast ?k"
    "current_segment_id mw = 0"
    by simp_all
  let ?fs2 = "file_open_append fs1 (dir_cache_name ?k)"
  let ?fs3 = "file_open_append ?fs2 (file_cache_name ?k)"
  have "file_content fs1 (dir_cache_name ?k) = None" "file_content ?fs2 (file_cache_name ?k) = None"
    using none by (simp_all add: fs1 writer_file_def)
  from cache_opened [OF this(1) sizes(2)] cache_opened [OF this(2) sizes(1)] obtain dw fw where
    d: "bin_writer_open (fmt_dirs fm) fs1 (dir_cache_name ?k) = Inr (?fs2, dw)"
      "cache_holds (fmt_dirs fm) ?fs2 (dir_cache_name ?k) dw []"
    and f: "bin_writer_open (fmt_files fm) ?fs2 (file_cache_name ?k) = Inr (?fs3, fw)"
      "cache_holds (fmt_files fm) ?fs3 (file_cache_name ?k) fw []"
    by blast
  let ?t = "\<lparr>wt_shard = ?k, wt_meta = mw, wt_dcache = dw, wt_fcache = fw\<rparr>"
  have run: "start_writer fm k fs = Inr (?fs3, ?t)"
    using m d f by (simp add: start_writer_def Let_def)
  have "repo_inv ?fs3 mw"
    using inv(1) by (auto simp: repo_inv_def segment_name_def)
  moreover have "cache_holds (fmt_dirs fm) ?fs3 (dir_cache_name ?k) dw []"
    using d(2) by (simp add: cache_holds_def)
  ultimately have "thread_ok fm sha256 ?fs3 ?t []"
    using inv f(2) mw by (simp add: thread_ok_def repo_used_def)
  moreover have fr: "content_frame (writer_file ?k) fs ?fs3"
    unfolding content_frame_def extends_files_def
    by (auto simp: fs1 writer_file_def meta_file_def)
  moreover have "unused ?fs3 (Suc k) n"
    unfolding unused_def
  proof (intro allI impI)
    fix j name
    assume j: "Suc k \<le> j" "j < n" and name: "writer_file (of_nat j) name"
    have "\<not> writer_file ?k name"
      using j k by (intro writer_files_differ [OF _ _ _ name]) (simp_all add: unat_shard shard_eq)
    with fr have "file_content ?fs3 name = file_content fs name"
      unfolding content_frame_def by blast
    also have "\<dots> = None"
      using fresh j name unfolding unused_def using Suc_leD by blast
    finally show "file_content ?fs3 name = None" .
  qed
  moreover have "dcache_names ?fs3 = dcache_names fs @ [dir_cache_name ?k]"
    using none by (simp add: dcache_names_open fs1 dcache_prefix writer_file_def)
  ultimately show ?thesis
    using run by (intro exI [of _ ?fs3] exI [of _ ?t]) simp
qed

lemma start_writers_ok:
  assumes fm: "formats_ok fm" and n: "n \<le> 2 ^ 16"
  shows "k \<le> n \<Longrightarrow> length ts = k \<Longrightarrow> unused fs k n \<Longrightarrow> writers_ok fm sha256 fs ts (replicate k []) \<Longrightarrow>
    \<exists>fs' ts'. start_writers fm [k..<n] fs = Inr (fs', ts') \<and> length ts' = n - k
      \<and> writers_ok fm sha256 fs' (ts @ ts') (replicate n [])
      \<and> dcache_names fs' = dcache_names fs @ map (\<lambda>i. dir_cache_name (of_nat i)) [k..<n]"
proof (induction "n - k" arbitrary: k ts fs)
  case 0
  then show ?case by simp
next
  case (Suc m)
  then have k: "k < n" by simp
  from start_writer_ok [OF fm k n Suc.prems(3)] obtain fs1 t where
    s: "start_writer fm k fs = Inr (fs1, t)" "wt_shard t = of_nat k" "thread_ok fm sha256 fs1 t []"
    "content_frame (writer_file (of_nat k)) fs fs1" "unused fs1 (Suc k) n"
    "dcache_names fs1 = dcache_names fs @ [dir_cache_name (of_nat k)]"
    by blast
  have "wt_shard ((ts @ [t]) ! i) = of_nat i \<and> thread_ok fm sha256 fs1 ((ts @ [t]) ! i) (replicate (Suc k) [] ! i)"
    if i: "i < Suc k" for i
  proof (cases "i = k")
    case True
    with s Suc.prems(2) show ?thesis by (simp add: nth_append del: replicate_Suc)
  next
    case False
    with i have lt: "i < k" by simp
    then have t: "wt_shard (ts ! i) = of_nat i" "thread_ok fm sha256 fs (ts ! i) []"
      using Suc.prems(2,4) by (simp_all add: writers_ok_def)
    have small: "i < 2 ^ 16" "k < 2 ^ 16" using lt k n by simp_all
    have "thread_ok fm sha256 fs1 (ts ! i) []"
      using t small lt by (intro thread_ok_frame [OF t(2) s(4)]) (simp_all add: unat_shard shard_eq)
    with t lt Suc.prems(2) show ?thesis by (simp add: nth_append del: replicate_Suc)
  qed
  then have "writers_ok fm sha256 fs1 (ts @ [t]) (replicate (Suc k) [])"
    using Suc.prems(2) k n by (simp add: writers_ok_def del: replicate_Suc)
  moreover have "m = n - Suc k" "Suc k \<le> n" "length (ts @ [t]) = Suc k"
    using Suc.hyps(2) Suc.prems(2) k by simp_all
  ultimately obtain fs' ts' where
    "start_writers fm [Suc k..<n] fs1 = Inr (fs', ts')" "length ts' = n - Suc k"
    "writers_ok fm sha256 fs' (ts @ t # ts') (replicate n [])"
    "dcache_names fs' = dcache_names fs1 @ map (\<lambda>i. dir_cache_name (of_nat i)) [Suc k..<n]"
    using Suc.hyps(1) [of "Suc k" "ts @ [t]" fs1, OF _ _ _ s(5)] by auto
  with s k show ?case
    by (simp add: upt_conv_Cons Suc_diff_Suc del: upt_Suc)
qed

lemma write_scan_ok:
  assumes fm: "formats_ok fm" and n: "n \<le> 2 ^ 16"
    and sched: "\<forall>(i, b) \<in> set sched. i < n \<and> batch_ok fm b" and size: "batches_size fm (map snd sched) < 2 ^ 46"
  shows "\<exists>st ts rss. write_scan fm sha256 hl n sched [] = Inr st \<and> writers_ok fm sha256 (st_files st) ts rss
    \<and> length ts = n \<and> mset (map rec_batch (concat rss)) = mset (map snd sched)
    \<and> dcache_names (st_files st) = map (\<lambda>i. dir_cache_name (of_nat i)) [0..<n]"
proof -
  have "unused [] 0 n" "writers_ok fm sha256 [] [] (replicate 0 [])"
    by (simp_all add: unused_def file_content_def writers_ok_def)
  from start_writers_ok [OF fm n _ _ this] obtain fs ts where
    s: "start_writers fm [0..<n] [] = Inr (fs, ts)" "length ts = n" "writers_ok fm sha256 fs ts (replicate n [])"
    "dcache_names fs = map (\<lambda>i. dir_cache_name (of_nat i)) [0..<n]"
    by (auto simp: dcache_names_def)
  let ?st = "\<lparr>st_files = fs, st_index = (if hl then Some index_new else None)\<rparr>"
  have "writers_ok fm sha256 (st_files ?st) ts (replicate n [])" using s(3) by simp
  from run_writers_ok [OF fm this, of sched hl] sched size s obtain st' ts' rss' where
    "run_writers fm sha256 hl sched (?st, ts) = Inr (st', ts')" "writers_ok fm sha256 (st_files st') ts' rss'"
    "length ts' = n" "mset (map rec_batch (concat rss')) = mset (map snd sched)"
    "dcache_names (st_files st') = map (\<lambda>i. dir_cache_name (of_nat i)) [0..<n]"
    by (auto simp: batches_size_def)
  with s(1) show ?thesis
    by (intro exI [of _ st'] exI [of _ ts'] exI [of _ rss']) (simp add: write_scan_def)
qed

section \<open>The entries of a full backup\<close>

lemma bin_items_slice:
  assumes held: "holds_items cd c xs" "0 < fixed_size cd" and "k + n \<le> length xs" and "length xs < 2 ^ 32"
  shows "bin_items cd \<lparr>it_index = of_nat k, it_total_count = of_nat n,
      it_reader = \<lparr>br_content = c, br_size = length c\<rparr>\<rparr> = take n (drop k xs)"
  using assms(3)
proof (induction n arbitrary: k)
  case 0
  then show ?case by (subst bin_items.simps) (simp add: bin_iterator_next_def)
next
  case (Suc n)
  have k: "k < length xs" "Suc n < 2 ^ 32" using Suc.prems assms(4) by simp_all
  have nz: "(of_nat (Suc n) :: u32) \<noteq> 0"
  proof
    assume "(of_nat (Suc n) :: u32) = 0"
    then have "unat (of_nat (Suc n) :: u32) = 0" by simp
    moreover have "unat (of_nat (Suc n) :: u32) = Suc n"
      using k(2) by (subst unat_of_nat) simp
    ultimately show False by simp
  qed
  have uk: "unat (of_nat k :: u32) = k"
    using k assms(4) by (simp add: unat_of_nat)
  have "read_object cd \<lparr>br_content = c, br_size = length c\<rparr> (of_nat k) = Inr (xs ! k)"
    using read_object_held [OF held, of "of_nat k"] uk k by simp
  then have "bin_iterator_next cd \<lparr>it_index = of_nat k, it_total_count = of_nat (Suc n),
      it_reader = \<lparr>br_content = c, br_size = length c\<rparr>\<rparr>
    = (Some (xs ! k), \<lparr>it_index = of_nat (Suc k), it_total_count = of_nat n,
        it_reader = \<lparr>br_content = c, br_size = length c\<rparr>\<rparr>)"
    using nz by (simp add: bin_iterator_next_def add.commute)
  with Suc.IH [of "Suc k"] Suc.prems k show ?case
    by (subst bin_items.simps) (simp add: Cons_nth_drop_Suc [symmetric])
qed

text \<open>What a stored batch contributes to the copy and to the mtime control file.\<close>

definition file_control :: "file_cache_entry \<Rightarrow> file_meta \<Rightarrow> control_entry" where
  "file_control fe f = EntryFile (file_entry (mc_name (fm_common f)) FileNew fe)"

fun rec_entries :: "stored_batch \<Rightarrow> control_entry list" where
  "rec_entries (de, fes, b) =
    EntryDir (dir_entry (dm_path (db_dir b)) DirNew de) # map2 file_control fes (files_by_id b)"

definition rec_mtime :: "stored_batch \<Rightarrow> mtime_dir_entry" where
  "rec_mtime r = mtime_entry_of (db_dir (rec_batch r))"

lemma full_files_plain:
  assumes "list_all2 (file_stored fm sha256 fs) fes metas"
    and "write_all copy_put w (map as_item (map2 file_control fes metas)) = Inr w'"
  shows "fold_err (full_file_step sha enc fm fs dir) fes (PlainCopy w) = Inr (PlainCopy w')"
  using assms
proof (induction fes metas arbitrary: w rule: list_all2_induct)
  case (Cons fe fes f metas)
  then obtain w1 where w1: "copy_write_file w (file_entry (mc_name (fm_common f)) FileNew fe) = Inr w1"
    "write_all copy_put w1 (map as_item (map2 file_control fes metas)) = Inr w'"
    by (auto simp: andThen_Inr_iff file_control_def)
  from Cons.IH [OF w1(2)] w1(1) Cons.hyps(1) show ?case
    by (simp add: full_file_step_def file_stored_def)
qed simp

lemma start_idx_at: "k * FILE_CACHE_SIZE < 2 ^ 32 \<Longrightarrow> dce_fcache_offset e = of_nat (k * FILE_CACHE_SIZE) \<Longrightarrow>
    start_idx e = of_nat k"
proof -
  assume k: "k * FILE_CACHE_SIZE < 2 ^ 32" and off: "dce_fcache_offset e = of_nat (k * FILE_CACHE_SIZE)"
  have "unat (of_nat (k * FILE_CACHE_SIZE) :: u32) = k * FILE_CACHE_SIZE"
    using k by (subst unat_of_nat) simp
  moreover have "unat (of_nat FILE_CACHE_SIZE :: u32) = FILE_CACHE_SIZE"
    by (simp add: FILE_CACHE_SIZE_def)
  ultimately have "unat (start_idx e) = k"
    unfolding start_idx_def off unat_div by (simp add: FILE_CACHE_SIZE_def)
  moreover have "unat (of_nat k :: u32) = k"
    using k by (subst unat_of_nat) (simp add: FILE_CACHE_SIZE_def)
  ultimately show ?thesis
    by (simp add: word_unat_eq_iff)
qed

lemma full_dir_plain:
  assumes fm: "formats_ok fm" and stored: "batch_stored fm sha256 fs i k (de, fes, b)"
    and c: "file_content fs (file_cache_name i) = Some c" "holds_items (fmt_files fm) c xs"
    and at: "drop k xs = fes @ ys" and small: "length xs * FILE_CACHE_SIZE < 2 ^ 32"
    and w: "write_all copy_put w (map as_item (rec_entries (de, fes, b))) = Inr w'"
    and m: "mtime_write_dir mw (mtime_entry_of (db_dir b)) = Inr mw'"
  shows "full_dir_step sha enc fm fs de (PlainCopy w, mw) = Inr (PlainCopy w', mw')"
proof -
  let ?n = "length fes"
  from stored have d: "get_dmeta (fmt_meta fm) fs (dce_meta_loc de) = Inr (db_dir b)"
    "dce_files_count de = of_nat (length (db_files b))" "dce_fcache_fid de = i"
    "dce_fcache_offset de = of_nat (k * FILE_CACHE_SIZE)" "list_all2 (file_stored fm sha256 fs) fes (files_by_id b)"
    by simp_all
  have n: "?n = length (db_files b)"
    using list_all2_lengthD [OF d(5)] by (simp add: files_by_id_def)
  from w obtain w1 where w1: "copy_write_dir w (dir_entry (dm_path (db_dir b)) DirNew de) = Inr w1"
    "write_all copy_put w1 (map as_item (map2 file_control fes (files_by_id b))) = Inr w'"
    by (auto simp: andThen_Inr_iff write_dir_as_item)
  have len: "length xs - k = ?n + length ys"
    using arg_cong [OF at, of length] by simp
  show ?thesis
  proof (cases "?n = 0")
    case True
    with w1(2) have "w1 = w'" by simp
    with True n d w1(1) m show ?thesis by (simp add: full_dir_step_def)
  next
    case False
    then have "0 < ?n" by simp
    then have k: "k + ?n \<le> length xs" using len by linarith
    then have "k * FILE_CACHE_SIZE \<le> length xs * FILE_CACHE_SIZE" by (intro mult_le_mono1) simp
    then have "k * FILE_CACHE_SIZE < 2 ^ 32" using small by linarith
    from start_idx_at [OF this d(4)] have idx: "start_idx de = of_nat k" .
    have lt: "length xs < 2 ^ 32" using small by (simp add: FILE_CACHE_SIZE_def)
    have "(of_nat ?n :: u32) \<noteq> 0"
    proof
      assume "(of_nat ?n :: u32) = 0"
      then have "unat (of_nat ?n :: u32) = 0" by simp
      moreover have "unat (of_nat ?n :: u32) = ?n" using k lt by (subst unat_of_nat) simp
      ultimately show False using False by simp
    qed
    moreover have "bin_items (fmt_files fm) (file_cache_iterator \<lparr>br_content = c, br_size = length c\<rparr>
        (of_nat ?n) (of_nat k)) = fes"
      using bin_items_slice [OF c(2) _ k lt] fm at
      by (simp add: file_cache_iterator_def formats_ok_def FILE_CACHE_SIZE_def)
    ultimately show ?thesis
      using d n w1 m idx c(1) full_files_plain [OF d(5) w1(2)]
      by (simp add: full_dir_step_def bin_reader_open_def)
  qed
qed

lemma full_shard_plain:
  assumes fm: "formats_ok fm" and c: "file_content fs (file_cache_name i) = Some c" "holds_items (fmt_files fm) c xs"
    and small: "length xs * FILE_CACHE_SIZE < 2 ^ 32"
  shows "stored_from fm sha256 fs i k rs \<Longrightarrow> drop k xs = all_files rs \<Longrightarrow>
    write_all copy_put w (map as_item (concat (map rec_entries rs))) = Inr w' \<Longrightarrow>
    write_all mtime_write_dir mw (map rec_mtime rs) = Inr mw' \<Longrightarrow>
    fold_err (full_dir_step sha enc fm fs) (map rec_dir rs) (PlainCopy w, mw) = Inr (PlainCopy w', mw')"
proof (induction rs arbitrary: k w mw)
  case (Cons r rs)
  obtain de fes b where r: "r = (de, fes, b)" by (cases r)
  from Cons.prems(3) obtain w1 where w1: "write_all copy_put w (map as_item (rec_entries r)) = Inr w1"
    "write_all copy_put w1 (map as_item (concat (map rec_entries rs))) = Inr w'"
    by (auto simp: write_all_append andThen_Inr_iff simp del: rec_entries.simps)
  from Cons.prems(4) obtain mw1 where m1: "mtime_write_dir mw (rec_mtime r) = Inr mw1"
    "write_all mtime_write_dir mw1 (map rec_mtime rs) = Inr mw'"
    by (auto simp: andThen_Inr_iff)
  have at: "drop k xs = fes @ all_files rs" using Cons.prems(2) by (simp add: r)
  have here: "batch_stored fm sha256 fs i k (de, fes, b)" using Cons.prems(1) by (simp add: r)
  have step: "full_dir_step sha enc fm fs de (PlainCopy w, mw) = Inr (PlainCopy w1, mw1)"
    by (rule full_dir_plain [OF fm here c at small])
      (use w1(1) m1(1) in \<open>simp_all add: r rec_mtime_def\<close>)
  have "drop (k + length fes) xs = all_files rs"
    using at by (metis append_eq_conv_conj drop_drop add.commute)
  with Cons.IH [of "k + length fes" w1 mw1] Cons.prems(1) w1(2) m1(2) step show ?case
    by (simp add: r)
qed simp

definition scan_entries :: "dir_batch list \<Rightarrow> nat" where
  "scan_entries bs = (\<Sum>b \<leftarrow> bs. 1 + length (db_files b))"

lemma stored_entries:
  "stored_from fm sha256 fs i k rs \<Longrightarrow> scan_entries (map rec_batch rs) = length rs + length (all_files rs)"
proof (induction rs arbitrary: k)
  case (Cons r rs)
  obtain de fes b where r: "r = (de, fes, b)" by (cases r)
  from Cons.prems have "length fes = length (db_files b)"
    by (auto simp: r files_by_id_def dest: list_all2_lengthD)
  moreover have "scan_entries (map rec_batch rs) = length rs + length (all_files rs)"
    by (rule Cons.IH [of "k + length fes"]) (use Cons.prems in \<open>simp add: r\<close>)
  ultimately show ?case by (simp add: r scan_entries_def)
qed (simp add: scan_entries_def)

lemma full_control_loop:
  assumes fm: "formats_ok fm" and ok: "writers_ok fm sha256 fs ts rss"
    and small: "\<forall>rs \<in> set rss. scan_entries (map rec_batch rs) * DIR_CACHE_SIZE < 2 ^ 32"
  shows "\<forall>i \<in> set is. i < length ts \<Longrightarrow>
    write_all copy_put w (map as_item (concat (map rec_entries (concat (map ((!) rss) is))))) = Inr w' \<Longrightarrow>
    write_all mtime_write_dir mw (map rec_mtime (concat (map ((!) rss) is))) = Inr mw' \<Longrightarrow>
    fold_err (\<lambda>name s. andThen (unwrap (bin_reader_open fs name)) (\<lambda>r.
        fold_err (full_dir_step sha enc fm fs) (bin_items (fmt_dirs fm) (dir_cache_iterator (fmt_dirs fm) r)) s))
      (map (\<lambda>i. dir_cache_name (of_nat i)) is) (PlainCopy w, mw) = Inr (PlainCopy w', mw')"
proof (induction "is" arbitrary: w mw)
  case (Cons i "is")
  let ?rs = "rss ! i"
  have i: "i < length ts" "?rs \<in> set rss" and len: "length rss = length ts"
    using Cons.prems(1) ok by (simp_all add: writers_ok_def)
  have t: "wt_shard (ts ! i) = of_nat i" "thread_ok fm sha256 fs (ts ! i) ?rs"
    using ok i by (simp_all add: writers_ok_def)
  from t obtain dc fc where dc: "file_content fs (dir_cache_name (of_nat i)) = Some dc"
      "holds_items (fmt_dirs fm) dc (map rec_dir ?rs)"
    and fc: "file_content fs (file_cache_name (of_nat i)) = Some fc" "holds_items (fmt_files fm) fc (all_files ?rs)"
    and stored: "stored_from fm sha256 fs (of_nat i) 0 ?rs"
    by (auto simp: thread_ok_def cache_holds_def)
  have sizes: "fixed_size (fmt_dirs fm) = DIR_CACHE_SIZE" "0 < fixed_size (fmt_dirs fm)"
    using fm by (simp_all add: formats_ok_def DIR_CACHE_SIZE_def)
  have bound: "(length ?rs + length (all_files ?rs)) * DIR_CACHE_SIZE < 2 ^ 32"
    using small i(2) stored_entries [OF stored] by auto
  then have lt: "length (map rec_dir ?rs) < 2 ^ 32" "length (all_files ?rs) * FILE_CACHE_SIZE < 2 ^ 32"
    by (simp_all add: DIR_CACHE_SIZE_def FILE_CACHE_SIZE_def)
  let ?r = "\<lparr>br_content = dc, br_size = length dc\<rparr>"
  have "length dc div DIR_CACHE_SIZE = length ?rs"
    using dc(2) sizes(1) by (simp add: holds_items_def DIR_CACHE_SIZE_def)
  then have items: "bin_items (fmt_dirs fm) (dir_cache_iterator (fmt_dirs fm) ?r) = map rec_dir ?rs"
    using bin_items_slice [OF dc(2) sizes(2) _ lt(1), of 0 "length ?rs"]
    by (simp add: dir_cache_iterator_def total_count_def sizes(1))
  from Cons.prems(2) obtain w1 where w1: "write_all copy_put w (map as_item (concat (map rec_entries ?rs))) = Inr w1"
    "write_all copy_put w1 (map as_item (concat (map rec_entries (concat (map ((!) rss) is))))) = Inr w'"
    by (auto simp: write_all_append andThen_Inr_iff simp del: rec_entries.simps)
  from Cons.prems(3) obtain mw1 where m1: "write_all mtime_write_dir mw (map rec_mtime ?rs) = Inr mw1"
    "write_all mtime_write_dir mw1 (map rec_mtime (concat (map ((!) rss) is))) = Inr mw'"
    by (auto simp: write_all_append andThen_Inr_iff)
  have "fold_err (full_dir_step sha enc fm fs) (map rec_dir ?rs) (PlainCopy w, mw) = Inr (PlainCopy w1, mw1)"
    by (rule full_shard_plain [OF fm fc lt(2) stored _ w1(1) m1(1)]) simp
  with Cons.IH [OF _ w1(2) m1(2)] Cons.prems(1) dc(1) items show ?case
    by (simp add: bin_reader_open_def)
qed simp

section \<open>Properties\<close>

text \<open>What the entries of a directory say about a batch of the scan.\<close>

definition lists_file :: "diff_formats \<Rightarrow> files \<Rightarrow> control_entry \<Rightarrow> file_meta \<Rightarrow> bool" where
  "lists_file fm fs e f \<longleftrightarrow> (case e of
     EntryFile c \<Rightarrow> fc_name c = mc_name (fm_common f) \<and> fc_diff c = FileNew
       \<and> get_fmeta (fmt_meta fm) fs (fc_meta_fid c, fc_meta_offset c) = Inr f
   | EntryDir c \<Rightarrow> False)"

definition lists_batch :: "diff_formats \<Rightarrow> files \<Rightarrow> control_entry list \<Rightarrow> dir_batch \<Rightarrow> bool" where
  "lists_batch fm fs es b \<longleftrightarrow> (case es of
     EntryDir c # fes \<Rightarrow> dc_path c = dm_path (db_dir b) \<and> dc_diff c = DirNew
       \<and> get_dmeta (fmt_meta fm) fs (dc_meta_fid c, dc_meta_offset c) = Inr (db_dir b)
       \<and> dc_files_count c = of_nat (length (db_files b))
       \<and> list_all2 (lists_file fm fs) fes (files_by_id b)
   | _ \<Rightarrow> False)"

lemma stored_listed: "batch_stored fm sha256 fs i k r \<Longrightarrow> lists_batch fm fs (rec_entries r) (rec_batch r)"
  by (cases r) (auto simp: lists_batch_def dir_entry_def list_all2_conv_all_nth file_stored_def
      file_control_def file_entry_def lists_file_def)

lemma all_stored: "stored_from fm sha256 fs i k rs \<Longrightarrow> r \<in> set rs \<Longrightarrow> \<exists>k. batch_stored fm sha256 fs i k r"
  by (induction rs arbitrary: k) auto

lemma rec_entries_short:
  assumes "batch_ok fm (rec_batch r)"
  shows "list_all short_entry (rec_entries r)"
proof -
  obtain de fes b where r: "r = (de, fes, b)" by (cases r)
  have "short_text (mc_name (fm_common f))" if "f \<in> set (files_by_id b)" for f
    using that assms by (auto simp: r files_by_id_def batch_ok_def list_all_iff)
  then show ?thesis
    using assms by (auto simp: r list_all_iff file_control_def dir_entry_def batch_ok_def dest: set_zip_rightD)
qed

lemma scan_entries_part:
  assumes "rs \<in> set rss"
  shows "scan_entries (map rec_batch rs) \<le> scan_entries (map rec_batch (concat rss))"
proof -
  from split_list [OF assms] obtain a b where "rss = a @ rs # b" by blast
  then show ?thesis by (simp add: scan_entries_def comp_def)
qed

lemma scan_entries_mset: "mset bs = mset bs' \<Longrightarrow> scan_entries bs = scan_entries bs'"
  unfolding scan_entries_def by (metis mset_map sum_mset_sum_list)

lemma full_backup_written:
  assumes "json_codec enc dec" and "enc kind = Inr k" and "enc root = Inr r" and "length k + length r \<le> 3800"
    and "formats_ok fm" and "n \<le> 2 ^ 16" and "\<not> so_enabled so"
    and "\<forall>(i, b) \<in> set sched. i < n \<and> batch_ok fm b"
    and "batches_size fm (map snd sched) < 2 ^ 46" and "scan_entries (map snd sched) * DIR_CACHE_SIZE < 2 ^ 32"
  shows "\<exists>st cf mf rest mrest h mh bs ess.
    write_scan fm sha256 hl n sched [] = Inr st
    \<and> full_control_files sha enc now fm so kind root (st_files st) ctrl
      = Inr (file_set (file_set ctrl (primary_control_file_name sha ''copy'') cf)
          (primary_control_file_name sha ''mtime'') mf)
    \<and> copy_reader_open dec cf = Inr (rest, h)
    \<and> read_entries copy_decode rest = map Inr (concat ess) \<and> list_all short_entry (concat ess)
    \<and> list_all2 (lists_batch fm (st_files st)) ess bs \<and> mset bs = mset (map snd sched)
    \<and> mtime_reader_open dec mf = Inr (mrest, mh)
    \<and> read_entries mtime_decode mrest = map (\<lambda>b. Inr (mtime_entry_of (db_dir b))) bs"
proof -
  obtain st ts rss where st: "write_scan fm sha256 hl n sched [] = Inr st"
    and ok: "writers_ok fm sha256 (st_files st) ts rss" and len: "length ts = n"
    and ms: "mset (map rec_batch (concat rss)) = mset (map snd sched)"
    and names: "dcache_names (st_files st) = map (\<lambda>i. dir_cache_name (of_nat i)) [0..<n]"
    using write_scan_ok [OF assms(5,6,8,9)] by blast
  have lrss: "length rss = n" using ok len by (simp add: writers_ok_def)
  then have nths: "map ((!) rss) [0..<n] = rss" by (auto simp: map_nth)
  let ?rs = "concat rss"
  let ?es = "concat (map rec_entries ?rs)"
  let ?h = "source_header now kind root"
  have small: "\<forall>rs \<in> set rss. scan_entries (map rec_batch rs) * DIR_CACHE_SIZE < 2 ^ 32"
  proof
    fix rs assume "rs \<in> set rss"
    from scan_entries_part [OF this] scan_entries_mset [OF ms]
    have "scan_entries (map rec_batch rs) * DIR_CACHE_SIZE \<le> scan_entries (map snd sched) * DIR_CACHE_SIZE"
      by (intro mult_le_mono1) simp
    with assms(10) show "scan_entries (map rec_batch rs) * DIR_CACHE_SIZE < 2 ^ 32" by linarith
  qed
  have batches: "batch_ok fm (rec_batch q)" if "q \<in> set ?rs" for q
  proof -
    have "rec_batch q \<in> set_mset (mset (map rec_batch ?rs))" using that by auto
    then have "rec_batch q \<in> set (map snd sched)" unfolding ms by simp
    with assms(8) show ?thesis by auto
  qed
  have src: "source_kind ?h = kind" "source_root ?h = root" by (simp_all add: source_header_def)
  have short: "short_entry e" if e: "e \<in> set ?es" for e
  proof -
    from e obtain q where q: "q \<in> set ?rs" "e \<in> set (rec_entries q)"
      unfolding set_concat set_map by blast
    with rec_entries_short [OF batches [OF q(1)]] show ?thesis by (simp add: list_all_iff)
  qed
  have entries: "\<forall>e \<in> set (map as_item ?es). copy_item_wf e \<and> keeps_source copy_put e"
    unfolding set_map using short keeps_source_copy by blast
  have hdr: "enc (source_kind ?h) = Inr k" "enc (source_root ?h) = Inr r"
    using assms(2,3) src by simp_all
  have magics: "length COPY_MAGIC + length k + length r \<le> 3874" "length MTIME_MAGIC + length k + length r \<le> 3874"
    using assms(4) by (simp_all add: COPY_MAGIC_def MTIME_MAGIC_def)
  from copy.short_file [OF assms(1) hdr magics(1) source_header_size entries] obtain cw cw' cf rest where
    c: "copy_writer_new enc ?h = Inr cw" "write_all copy_put cw (map as_item ?es) = Inr cw'"
    "copy_finish enc cw' = Inr cf" "copy_reader_open dec cf = Inr (rest, fold copy_count (map as_item ?es) ?h)"
    "read_entries copy_decode rest = map Inr ?es"
    by (auto simp: copy_writer_new_def copy_finish_def copy_reader_open_def comp_def)
  have "short_text (md_path (rec_mtime q))" if "q \<in> set ?rs" for q
    using batches [OF that] by (simp add: rec_mtime_def mtime_entry_of_def batch_ok_def)
  then have "\<forall>e \<in> set (map rec_mtime ?rs). mtime_wf e \<and> keeps_source mtime_write_dir e"
    unfolding set_map using keeps_source_mtime by blast
  from mt.short_file [OF assms(1) hdr magics(2) source_header_size this] obtain mw mw' mf mrest where
    m: "mtime_writer_new enc now kind root = Inr mw" "write_all mtime_write_dir mw (map rec_mtime ?rs) = Inr mw'"
    "mtime_finish enc mw' = Inr mf" "mtime_reader_open dec mf = Inr (mrest, fold mtime_count (map rec_mtime ?rs) ?h)"
    "read_entries mtime_decode mrest = map Inr (map rec_mtime ?rs)"
    by (auto simp: mtime_writer_new_def mtime_finish_def mtime_reader_open_def comp_def)
  have "for_dcache_entries fm (st_files st) (full_dir_step sha enc fm (st_files st)) (PlainCopy cw, mw)
      = Inr (PlainCopy cw', mw')"
    unfolding for_dcache_entries_def names
    by (rule full_control_loop [OF assms(5) ok small]) (use c(2) m(2) len nths in simp_all)
  then have gen: "full_control_files sha enc now fm so kind root (st_files st) ctrl
      = Inr (file_set (file_set ctrl (primary_control_file_name sha ''copy'') cf)
          (primary_control_file_name sha ''mtime'') mf)"
    using assms(7) c m by (simp add: full_control_files_def)
  have "lists_batch fm (st_files st) (rec_entries q) (rec_batch q)" if q: "q \<in> set ?rs" for q
  proof -
    from q obtain rs where rs: "rs \<in> set rss" "q \<in> set rs" by auto
    then obtain i where i: "i < length ts" "rs = rss ! i" using lrss len by (auto simp: in_set_conv_nth)
    with ok have "thread_ok fm sha256 (st_files st) (ts ! i) rs"
      by (simp add: writers_ok_def)
    then have "stored_from fm sha256 (st_files st) (wt_shard (ts ! i)) 0 rs"
      by (simp add: thread_ok_def)
    with all_stored [OF this rs(2)] stored_listed show ?thesis by blast
  qed
  then have "list_all2 (lists_batch fm (st_files st)) (map rec_entries ?rs) (map rec_batch ?rs)"
    unfolding list.rel_map list_all2_same by blast
  moreover have "list_all short_entry ?es"
    unfolding list_all_iff using short by blast
  ultimately show ?thesis
    using st gen c(4,5) m(4,5) ms
    by (intro exI [of _ st] exI [of _ cf] exI [of _ mf] exI [of _ rest] exI [of _ mrest]
        exI [of _ "fold copy_count (map as_item ?es) ?h"] exI [of _ "fold mtime_count (map rec_mtime ?rs) ?h"]
        exI [of _ "map rec_batch ?rs"] exI [of _ "map rec_entries ?rs"])
      (simp add: rec_mtime_def comp_def)
qed

text \<open>
  C6. A full backup copies what the scan found: whatever the order in which the writers take the
  batches, storing them and generating the control files succeeds. The copy control file, read back, lists
  every batch once, its directory followed by its files in the order of their inode numbers, all marked
  as new, with locators under which the stored metadata are those of the scan; and the mtime control file
  holds the times of exactly these directories.
\<close>

theorem full_backup_lists_scan:
  assumes "json_codec enc dec" and "enc kind = Inr k" and "enc root = Inr r" and "length k + length r \<le> 3800"
    and "formats_ok fm" and "n \<le> 2 ^ 16" and "\<not> so_enabled so"
    and "\<forall>(i, b) \<in> set sched. i < n \<and> batch_ok fm b"
    and "batches_size fm (map snd sched) < 2 ^ 46" and "scan_entries (map snd sched) * DIR_CACHE_SIZE < 2 ^ 32"
  shows "\<exists>st ctrl' copy_file mtime_file rest mrest h mh bs ess.
    write_scan fm sha256 hl n sched [] = Inr st
    \<and> full_control_files sha enc now fm so kind root (st_files st) ctrl = Inr ctrl'
    \<and> file_content ctrl' (primary_control_file_name sha ''copy'') = Some copy_file
    \<and> file_content ctrl' (primary_control_file_name sha ''mtime'') = Some mtime_file
    \<and> copy_reader_open dec copy_file = Inr (rest, h)
    \<and> read_entries copy_decode rest = map Inr (concat ess)
    \<and> list_all2 (lists_batch fm (st_files st)) ess bs \<and> mset bs = mset (map snd sched)
    \<and> mtime_reader_open dec mtime_file = Inr (mrest, mh)
    \<and> read_entries mtime_decode mrest = map (\<lambda>b. Inr (mtime_entry_of (db_dir b))) bs"
proof -
  have differ: "primary_control_file_name sha ''copy'' \<noteq> primary_control_file_name sha ''mtime''"
    by (simp add: primary_control_file_name_def control_file_name_def)
  obtain st cf mf rest mrest h mh bs ess where
    "write_scan fm sha256 hl n sched [] = Inr st"
    "full_control_files sha enc now fm so kind root (st_files st) ctrl
      = Inr (file_set (file_set ctrl (primary_control_file_name sha ''copy'') cf)
          (primary_control_file_name sha ''mtime'') mf)"
    "copy_reader_open dec cf = Inr (rest, h)" "read_entries copy_decode rest = map Inr (concat ess)"
    "list_all2 (lists_batch fm (st_files st)) ess bs" "mset bs = mset (map snd sched)"
    "mtime_reader_open dec mf = Inr (mrest, mh)"
    "read_entries mtime_decode mrest = map (\<lambda>b. Inr (mtime_entry_of (db_dir b))) bs"
    using full_backup_written [OF assms, of sha256 hl sha now ctrl] by blast
  with differ show ?thesis by (auto intro!: exI)
qed

text \<open>Formats as bincode's: the fields one after the other, little-endian.\<close>

definition u32_at :: "nat \<Rightarrow> byte list \<Rightarrow> u32" where
  "u32_at i bs = of_nat (le_val (take 4 (drop i bs)))"

definition u64_at :: "nat \<Rightarrow> byte list \<Rightarrow> u64" where
  "u64_at i bs = of_nat (le_val (take 8 (drop i bs)))"

definition plain_formats :: diff_formats where
  "plain_formats =
    \<lparr>fmt_meta = sample_bincode,
     fmt_dirs = \<lparr>fixed_size = DIR_CACHE_SIZE,
       fixed_enc = \<lambda>e. Inr (le_bytes 8 (unat (dce_id e)) @ le_bytes 4 (unat (dce_hash e))
         @ le_bytes 4 (unat (fst (dce_meta_loc e))) @ le_bytes 4 (unat (snd (dce_meta_loc e)))
         @ le_bytes 4 (unat (dce_files_count e)) @ le_bytes 4 (unat (dce_fcache_fid e))
         @ le_bytes 4 (unat (dce_fcache_offset e))),
       fixed_dec = \<lambda>bs. Some \<lparr>dce_id = u64_at 0 bs, dce_hash = u32_at 8 bs, dce_meta_loc = (u32_at 12 bs, u32_at 16 bs),
         dce_files_count = u32_at 20 bs, dce_fcache_fid = u32_at 24 bs, dce_fcache_offset = u32_at 28 bs\<rparr>\<rparr>,
     fmt_files = \<lparr>fixed_size = FILE_CACHE_SIZE,
       fixed_enc = \<lambda>e. Inr (le_bytes 8 (unat (fce_id e)) @ le_bytes 4 (unat (fce_hash e))
         @ le_bytes 4 (unat (fst (fce_meta_loc e))) @ le_bytes 4 (unat (snd (fce_meta_loc e)))),
       fixed_dec = \<lambda>bs. Some \<lparr>fce_id = u64_at 0 bs, fce_hash = u32_at 8 bs, fce_meta_loc = (u32_at 12 bs, u32_at 16 bs)\<rparr>\<rparr>\<rparr>"

lemma u32_at_bytes: "length pre = i \<Longrightarrow> u32_at i (pre @ le_bytes 4 (unat (v :: u32)) @ post) = v"
  using unsigned_less [of v, where ?'a = nat] by (simp add: u32_at_def le_val_le_bytes)

lemma u64_at_bytes: "length pre = i \<Longrightarrow> u64_at i (pre @ le_bytes 8 (unat (v :: u64)) @ post) = v"
  using unsigned_less [of v, where ?'a = nat] by (simp add: u64_at_def le_val_le_bytes)

lemma plain_formats_ok: "formats_ok plain_formats"
proof -
  have u32: "u32_at (length pre) (pre @ le_bytes 4 (unat (v :: u32)) @ post) = v" for pre post v
    by (rule u32_at_bytes) simp
  have u32_end: "u32_at (length pre) (pre @ le_bytes 4 (unat (v :: u32))) = v" for pre v
    using u32 [of pre v "[]"] by simp
  have d: "codec_ok (fmt_dirs plain_formats) e" for e
    using u64_at_bytes [of "[]" 0] u32 [of "le_bytes 8 (unat (dce_id e))"]
      u32 [of "le_bytes 8 (unat (dce_id e)) @ le_bytes 4 (unat (dce_hash e))"]
      u32 [of "le_bytes 8 (unat (dce_id e)) @ le_bytes 4 (unat (dce_hash e)) @ le_bytes 4 (unat (fst (dce_meta_loc e)))"]
      u32 [of "le_bytes 8 (unat (dce_id e)) @ le_bytes 4 (unat (dce_hash e)) @ le_bytes 4 (unat (fst (dce_meta_loc e)))
        @ le_bytes 4 (unat (snd (dce_meta_loc e)))"]
      u32 [of "le_bytes 8 (unat (dce_id e)) @ le_bytes 4 (unat (dce_hash e)) @ le_bytes 4 (unat (fst (dce_meta_loc e)))
        @ le_bytes 4 (unat (snd (dce_meta_loc e))) @ le_bytes 4 (unat (dce_files_count e))"]
      u32_end [of "le_bytes 8 (unat (dce_id e)) @ le_bytes 4 (unat (dce_hash e)) @ le_bytes 4 (unat (fst (dce_meta_loc e)))
        @ le_bytes 4 (unat (snd (dce_meta_loc e))) @ le_bytes 4 (unat (dce_files_count e))
        @ le_bytes 4 (unat (dce_fcache_fid e))"]
    by (simp add: codec_ok_def plain_formats_def DIR_CACHE_SIZE_def)
  have f: "codec_ok (fmt_files plain_formats) e" for e
    using u64_at_bytes [of "[]" 0] u32 [of "le_bytes 8 (unat (fce_id e))"]
      u32 [of "le_bytes 8 (unat (fce_id e)) @ le_bytes 4 (unat (fce_hash e))"]
      u32_end [of "le_bytes 8 (unat (fce_id e)) @ le_bytes 4 (unat (fce_hash e)) @ le_bytes 4 (unat (fst (fce_meta_loc e)))"]
    by (simp add: codec_ok_def plain_formats_def FILE_CACHE_SIZE_def)
  show ?thesis
    using d f by (simp add: formats_ok_def plain_formats_def)
qed

definition sample_sched :: "(nat \<times> dir_batch) list" where
  "sample_sched = [(1, sample_batch ''/srv'' [''b.txt'', ''a'']), (0, sample_batch ''/srv/d'' []), (1, sample_batch ''/srv/e'' [''x''])]"

lemma sample_batch_ok:
  assumes "list_all (\<lambda>s. list_all (\<lambda>c. of_char c < (128 :: nat)) s \<and> length s < 1000) (path # names)"
  shows "batch_ok plain_formats (sample_batch path names)"
proof -
  have "meta_ok sample_bincode (MetaDir (sample_dir p))" "meta_ok sample_bincode (MetaFile (sample_file p))"
    if "length p < 1000" for p
    using that sample_round_trips by (simp_all add: meta_ok_def meta_size_def META_ENTRY_MAX_def sample_bincode_def
        sample_dir_def sample_file_def sample_common_def)
  with assms show ?thesis
    by (auto simp: batch_ok_def sample_batch_def plain_formats_def list_all_iff sample_dir_def sample_file_def
        sample_common_def intro!: short_text_ascii)
qed

theorem full_backup_lists_scan_witness:
  "\<exists>st ctrl' copy_file rest h bs ess.
    write_scan plain_formats (\<lambda>bs. replicate 32 0) True 2 sample_sched [] = Inr st
    \<and> full_control_files (\<lambda>bs. replicate 32 0) plain_json_enc 7 plain_formats
        \<lparr>so_enabled = False, so_num_shards = 4, so_max_entries_copy = 10, so_max_entries_other = 10, so_max_size = 100\<rparr> ''local'' ''/srv''
        (st_files st) [] = Inr ctrl'
    \<and> file_content ctrl' (primary_control_file_name (\<lambda>bs. replicate 32 0) ''copy'') = Some copy_file
    \<and> copy_reader_open plain_json_dec copy_file = Inr (rest, h)
    \<and> read_entries copy_decode rest = map Inr (concat ess)
    \<and> list_all2 (lists_batch plain_formats (st_files st)) ess bs \<and> mset bs = mset (map snd sample_sched)"
proof -
  have ok: "\<forall>(i, b) \<in> set sample_sched. i < 2 \<and> batch_ok plain_formats b"
    by (simp add: sample_sched_def sample_batch_ok)
  have "batches_size plain_formats (map snd sample_sched) < 2 ^ 46"
    by (simp add: batches_size_def batch_size_def files_size_def meta_size_def sample_sched_def sample_batch_def
        plain_formats_def sample_bincode_def sample_dir_def sample_file_def sample_common_def)
  moreover have "scan_entries (map snd sample_sched) * DIR_CACHE_SIZE < 2 ^ 32"
    by (simp add: scan_entries_def sample_sched_def sample_batch_def DIR_CACHE_SIZE_def)
  moreover have "plain_json_enc ''local'' = Inr (CHR 0x22 # ''local'' @ [CHR 0x22])"
    "plain_json_enc ''/srv'' = Inr (CHR 0x22 # ''/srv'' @ [CHR 0x22])"
    by (simp_all add: plain_json_enc_def plain_json_char_def graph_char_def)
  ultimately show ?thesis
    using full_backup_lists_scan [OF plain_json_codec _ _ _ plain_formats_ok _ _ ok,
        of "''local''" _ "''/srv''" _ "\<lparr>so_enabled = False, so_num_shards = 4, so_max_entries_copy = 10, so_max_entries_other = 10, so_max_size = 100\<rparr>"
          "\<lambda>bs. replicate 32 0" True "\<lambda>bs. replicate 32 0" 7 "[]"]
    by fastforce
qed

end
