(* ===== verification/SyncScan.thy ===== *)
theory SyncScan
  imports FullBackup
begin

text \<open>
  Two scans and the incremental backup between them: what the writers of \<^verbatim>\<open>scanner/engine.rs\<close> store is
  what the diff of \<^verbatim>\<open>scanner/metadata/diff.rs\<close> needs, so the control files bring the backup from the
  first scan to the second.
\<close>

section \<open>Reading what the writers stored\<close>








section \<open>Loading the directory caches\<close>




section \<open>A stored scan as a snapshot\<close>














section \<open>Properties\<close>





end
