(* ===== verification/LocalScanner.thy ===== *)
theory LocalScanner
  imports ScanEngine ScanFilter Failure SpillQueue "HOL-Library.Multiset"
begin

text \<open>
  \<^verbatim>\<open>native/scanner.rs\<close>: the worker threads that walk a local tree. What the file system answers is
  the record \<open>scan_env\<close>, by path and attempt; a worker that processes a directory performs a list of
  effects on what the workers share (\<open>process_dir_entry\<close>), and \<open>worker_step\<close> is one atomic step of a
  worker: a queue operation, an access to the counter of active workers, or one of those effects. The
  directory queue is a parameter of the steps; \<open>work_queue\<close> says what the workers need of it.
\<close>

section \<open>Options and statistics\<close>

text \<open>\<^verbatim>\<open>MetaScanOption\<close>\<close>

record meta_scan_option =
  scan_acl :: bool
  scan_xattrs :: bool
  scan_hardlinks :: bool
  scan_hidden :: bool
  follow_symlinks :: bool
  skip_entries :: "string list"
  path_filters :: "scan_path_filter_set option"
  skip_block_devices :: bool
  enable_aggregation :: bool
  max_aggregate_blob_size :: u64
  aggregate_file_threshold :: u64

definition default_meta_scan_option :: meta_scan_option where
  "default_meta_scan_option =
    \<lparr>scan_acl = False, scan_xattrs = False, scan_hardlinks = False, scan_hidden = False, follow_symlinks = False,
     skip_entries = [], path_filters = None, skip_block_devices = True, enable_aggregation = False,
     max_aggregate_blob_size = 64 * 1024 * 1024, aggregate_file_threshold = 1024 * 1024\<rparr>"

text \<open>\<^verbatim>\<open>ScanOption\<close>, without the directories of the metadata and control files, which are lists of files.\<close>

record scan_option =
  max_depth :: "nat option"
  worker_count :: nat
  writer_count :: nat
  meta_option :: meta_scan_option
  shard_options :: shard_option
  control_path :: control_path_option
  stats_only :: bool
  failure_log :: bool
  scan_retry :: retry_policy

text \<open>\<^verbatim>\<open>ScanStatistics\<close>: every counter is an atomic word.\<close>

record scan_statistics =
  tot_size :: u64
  tot_files :: u64
  tot_dirs :: u64
  failed_files :: u64
  failed_dirs :: u64

definition scan_statistics_new :: scan_statistics where
  "scan_statistics_new = \<lparr>tot_size = 0, tot_files = 0, tot_dirs = 0, failed_files = 0, failed_dirs = 0\<rparr>"

definition add_file_size :: "u64 \<Rightarrow> scan_statistics \<Rightarrow> scan_statistics" where
  "add_file_size n s = s\<lparr>tot_size := tot_size s + n\<rparr>"

definition inc_files :: "scan_statistics \<Rightarrow> scan_statistics" where "inc_files s = s\<lparr>tot_files := tot_files s + 1\<rparr>"
definition inc_dirs :: "scan_statistics \<Rightarrow> scan_statistics" where "inc_dirs s = s\<lparr>tot_dirs := tot_dirs s + 1\<rparr>"

definition inc_failed_files :: "scan_statistics \<Rightarrow> scan_statistics" where
  "inc_failed_files s = s\<lparr>failed_files := failed_files s + 1\<rparr>"

definition inc_failed_dirs :: "scan_statistics \<Rightarrow> scan_statistics" where
  "inc_failed_dirs s = s\<lparr>failed_dirs := failed_dirs s + 1\<rparr>"

section \<open>What the file system answers\<close>

datatype entry_type = SymlinkEntry | DirEntry | RegularEntry | BlockDeviceEntry | SpecialEntry

text \<open>\<^verbatim>\<open>DirScanEntry\<close>\<close>

record dir_scan_entry =
  ds_path :: string
  ds_depth :: nat

text \<open>
  The result of every attempt of \<^verbatim>\<open>stat_dir\<close>, \<^verbatim>\<open>read_dir\<close>, \<^verbatim>\<open>file_type\<close> and
  \<^verbatim>\<open>stat_file\<close> on a path, and whether \<^verbatim>\<open>metadata\<close> finds a directory there. An entry of a
  directory is its name, or an error of the directory stream.
\<close>

record scan_env =
  env_stat_dir :: "string \<Rightarrow> nat \<Rightarrow> os_error + dir_meta"
  env_read_dir :: "string \<Rightarrow> nat \<Rightarrow> os_error + (os_error + string) list"
  env_file_type :: "string \<Rightarrow> nat \<Rightarrow> os_error + entry_type"
  env_stat_file :: "string \<Rightarrow> nat \<Rightarrow> os_error + file_meta"
  env_is_dir :: "string \<Rightarrow> bool"

section \<open>Processing a directory\<close>

text \<open>The loop of \<^verbatim>\<open>retry_scan_io\<close>, at an attempt.\<close>

function retry_from :: "retry_policy \<Rightarrow> (nat \<Rightarrow> os_error + 'a) \<Rightarrow> u32 \<Rightarrow> os_error + 'a \<times> u32" where
  "retry_from policy op attempts =
    (case op (unat attempts) of
       Inr v \<Rightarrow> Inr (v, attempts)
     | Inl e \<Rightarrow> if should_retry policy attempts then retry_from policy op (attempts + 1) else Inl e)"
  by pat_completeness auto

termination
  by (relation "measure (\<lambda>(policy, op, attempts). unat (max_attempts policy) - unat attempts)")
    (auto simp: should_retry_def unat_next word_less_nat_alt)

declare retry_from.simps [simp del]

definition retry_scan_io :: "scan_option \<Rightarrow> (nat \<Rightarrow> os_error + 'a) \<Rightarrow> os_error + 'a \<times> u32" where
  "retry_scan_io so op = retry_from (scan_retry so) op 1"

text \<open>The effects of a worker on what the workers share, in the order it performs them.\<close>

datatype scan_action =
    AddFileSize u64
  | IncFiles
  | IncFailedFiles
  | IncFailedDirs
  | Record string failure_item_type string string u32
  | PushDir dir_scan_entry bool
  | Emit dir_batch

text \<open>The path filter, which is not asked when there is none.\<close>

definition passes :: "scan_option \<Rightarrow> (scan_path_filter_set \<Rightarrow> string \<Rightarrow> bool) \<Rightarrow> string \<Rightarrow> bool" where
  "passes so decide path = (case path_filters (meta_option so) of
     None \<Rightarrow> True
   | Some filters \<Rightarrow> decide filters (logical_path_from_physical (control_path so) path))"

definition retried :: "scan_option \<Rightarrow> u32" where
  "retried so = max_retries (scan_retry so) + 1"

text \<open>Each of the following returns the effects and the file metadata that go into the batch.\<close>

definition process_symlink_entry ::
  "scan_env \<Rightarrow> scan_option \<Rightarrow> string \<Rightarrow> nat \<Rightarrow> scan_action list \<times> file_meta list" where
  "process_symlink_entry env so path depth =
    (case retry_scan_io so (env_stat_file env path) of
       Inr (file_meta, _) \<Rightarrow>
         if \<not> passes so should_emit_file path then ([], [])
         else ([AddFileSize (fm_size file_meta), IncFiles]
             @ (if follow_symlinks (meta_option so) \<and> env_is_dir env path \<and> passes so should_descend_dir path
                then [PushDir \<lparr>ds_path = path, ds_depth = depth + 1\<rparr> False] else []), [file_meta])
     | Inl e \<Rightarrow>
         let record = Record ''stat_symlink'' ItemSymlink path (os_message e) (retried so)
         in case env_stat_file env path (Suc (unat (max_attempts (scan_retry so)))) of
              Inr file_meta \<Rightarrow> ([IncFiles, record], [file_meta])
            | Inl _ \<Rightarrow> ([IncFailedFiles, record], []))"

definition process_dir_subentry :: "scan_option \<Rightarrow> string \<Rightarrow> nat \<Rightarrow> scan_action list" where
  "process_dir_subentry so path depth =
    (if \<not> passes so should_descend_dir path then []
     else [PushDir \<lparr>ds_path = path, ds_depth = depth + 1\<rparr> True])"

definition process_regular_file_entry ::
  "scan_env \<Rightarrow> scan_option \<Rightarrow> string \<Rightarrow> scan_action list \<times> file_meta list" where
  "process_regular_file_entry env so path =
    (if \<not> passes so should_emit_file path then ([], [])
     else case retry_scan_io so (env_stat_file env path) of
            Inr (file_meta, _) \<Rightarrow> ([AddFileSize (fm_size file_meta), IncFiles], [file_meta])
          | Inl e \<Rightarrow> ([IncFailedFiles, Record ''stat_file'' ItemFile path (os_message e) (retried so)], []))"

definition process_special_file_entry ::
  "scan_env \<Rightarrow> scan_option \<Rightarrow> string \<Rightarrow> entry_type \<Rightarrow> scan_action list \<times> file_meta list" where
  "process_special_file_entry env so path ft =
    (if \<not> passes so should_emit_file path then ([], [])
     else if ft = BlockDeviceEntry \<and> skip_block_devices (meta_option so) then ([], [])
     else case retry_scan_io so (env_stat_file env path) of
            Inr (file_meta, _) \<Rightarrow> ([AddFileSize (fm_size file_meta), IncFiles], [file_meta])
          | Inl e \<Rightarrow> ([IncFailedFiles, Record ''stat_special'' ItemSpecial path (os_message e) (retried so)], []))"

text \<open>On Unix an entry is hidden when its name starts with a dot.\<close>

definition is_hidden_entry :: "string \<Rightarrow> bool" where
  "is_hidden_entry name = prefix ''.'' name"

text \<open>One pass of the loop over the entries of a directory.\<close>

definition process_item ::
  "scan_env \<Rightarrow> scan_option \<Rightarrow> dir_scan_entry \<Rightarrow> os_error + string \<Rightarrow> scan_action list \<times> file_meta list" where
  "process_item env so d item =
    (case item of
       Inl e \<Rightarrow> ([IncFailedFiles, Record ''read_dir_entry'' ItemUnknown (ds_path d) (os_message e) 1], [])
     | Inr name \<Rightarrow>
         let path = path_join (ds_path d) name
         in case retry_scan_io so (env_file_type env path) of
              Inl e \<Rightarrow> ([IncFailedFiles, Record ''file_type'' ItemUnknown path (os_message e) (retried so)], [])
            | Inr (ft, _) \<Rightarrow>
                let entry_name = (case path_file_name path of Some n \<Rightarrow> n | None \<Rightarrow> [])
                in if entry_name = ''.'' \<or> entry_name = ''..'' then ([], [])
                   else if \<not> scan_hidden (meta_option so) \<and> is_hidden_entry entry_name then ([], [])
                   else if entry_name \<in> set (skip_entries (meta_option so)) then ([], [])
                   else case ft of
                          SymlinkEntry \<Rightarrow> process_symlink_entry env so path (ds_depth d)
                        | DirEntry \<Rightarrow> (process_dir_subentry so path (ds_depth d), [])
                        | RegularEntry \<Rightarrow> process_regular_file_entry env so path
                        | _ \<Rightarrow> process_special_file_entry env so path ft)"

fun process_items ::
  "scan_env \<Rightarrow> scan_option \<Rightarrow> dir_scan_entry \<Rightarrow> (os_error + string) list \<Rightarrow> scan_action list \<times> file_meta list" where
  "process_items env so d [] = ([], [])"
| "process_items env so d (item # items) =
    (let (acts, files) = process_item env so d item; (acts', files') = process_items env so d items
     in (acts @ acts', files @ files'))"

definition process_dir_entry :: "scan_env \<Rightarrow> scan_option \<Rightarrow> dir_scan_entry \<Rightarrow> scan_action list" where
  "process_dir_entry env so d =
    (if \<not> passes so should_descend_dir (ds_path d) then []
     else case retry_scan_io so (env_stat_dir env (ds_path d)) of
            Inl e \<Rightarrow> [IncFailedDirs, Record ''stat_dir'' ItemDirectory (ds_path d) (os_message e) (retried so)]
          | Inr (dir_meta, _) \<Rightarrow>
              let (acts, files) =
                (case retry_scan_io so (env_read_dir env (ds_path d)) of
                   Inr (entries, _) \<Rightarrow> process_items env so d entries
                 | Inl e \<Rightarrow>
                     ([IncFailedDirs, Record ''open_dir'' ItemDirectory (ds_path d) (os_message e) (retried so)], []))
              in if \<not> passes so should_emit_dir (ds_path d) \<and> files = [] then acts
                 else acts @ [Emit \<lparr>db_dir = dir_meta, db_files = files, db_partial = False, db_complete = True\<rparr>])"

section \<open>The workers\<close>

text \<open>
  What the workers share: the queue of directories, the batches pushed to the output queue, the
  statistics, the failure records and the counter of active workers.
\<close>

record 'q scan_shared =
  sh_queue :: 'q
  sh_output :: "dir_batch list"
  sh_stats :: scan_statistics
  sh_failures :: "failure_record list"
  sh_active :: int

text \<open>The operations of the directory queue, and the text of its errors.\<close>

record 'q dir_queue =
  q_push :: "'q \<Rightarrow> dir_scan_entry \<Rightarrow> 'q \<times> (spill_error + unit)"
  q_pop :: "'q \<Rightarrow> 'q \<times> (spill_error + dir_scan_entry option)"
  q_is_empty :: "'q \<Rightarrow> bool"
  q_message :: "spill_error \<Rightarrow> string"

text \<open>\<^verbatim>\<open>record_scan_failure\<close>; \<open>now\<close> is the text of the clock.\<close>

definition record_scan_failure ::
  "scan_option \<Rightarrow> string \<Rightarrow> string \<Rightarrow> failure_item_type \<Rightarrow> string \<Rightarrow> string \<Rightarrow> u32 \<Rightarrow> 'q scan_shared \<Rightarrow> 'q scan_shared" where
  "record_scan_failure so now operation item path detail attempts s =
    (if failure_log so
     then s\<lparr>sh_failures := sh_failures s @ [record_from_detail now ''scan'' operation item path detail attempts]\<rparr>
     else s)"

fun perform ::
  "'q dir_queue \<Rightarrow> scan_option \<Rightarrow> string \<Rightarrow> scan_action \<Rightarrow> 'q scan_shared \<Rightarrow> 'q scan_shared" where
  "perform qs so now (AddFileSize n) s = s\<lparr>sh_stats := add_file_size n (sh_stats s)\<rparr>"
| "perform qs so now IncFiles s = s\<lparr>sh_stats := inc_files (sh_stats s)\<rparr>"
| "perform qs so now IncFailedFiles s = s\<lparr>sh_stats := inc_failed_files (sh_stats s)\<rparr>"
| "perform qs so now IncFailedDirs s = s\<lparr>sh_stats := inc_failed_dirs (sh_stats s)\<rparr>"
| "perform qs so now (Record op item path detail n) s = record_scan_failure so now op item path detail n s"
| "perform qs so now (PushDir d recorded) s =
    (case q_push qs (sh_queue s) d of
       (q, Inr _) \<Rightarrow> s\<lparr>sh_queue := q, sh_stats := inc_dirs (sh_stats s)\<rparr>
     | (q, Inl e) \<Rightarrow>
         let s = s\<lparr>sh_queue := q, sh_stats := inc_failed_dirs (sh_stats s)\<rparr>
         in if recorded then record_scan_failure so now ''enqueue_dir'' ItemDirectory (ds_path d) (q_message qs e) 1 s
            else s)"
| "perform qs so now (Emit b) s = s\<lparr>sh_output := sh_output s @ [b]\<rparr>"

text \<open>
  Where a worker is: about to pop; with an entry it has popped but not yet counted itself active for;
  active with effects left; asleep after an empty pop; having read whether the queue is empty, but not
  yet the counter; asleep after an error of the queue; or gone.
\<close>

datatype worker =
    Popping
  | Popped dir_scan_entry
  | Active "scan_action list"
  | Sleeping
  | Checked bool
  | Recovering
  | Exited

fun worker_step ::
  "'q dir_queue \<Rightarrow> scan_env \<Rightarrow> scan_option \<Rightarrow> string \<Rightarrow> 'q scan_shared \<times> worker \<Rightarrow> 'q scan_shared \<times> worker" where
  "worker_step qs env so now (s, Popping) =
    (case q_pop qs (sh_queue s) of
       (q, Inr (Some d)) \<Rightarrow> (s\<lparr>sh_queue := q\<rparr>, Popped d)
     | (q, Inr None) \<Rightarrow> (s\<lparr>sh_queue := q\<rparr>, Sleeping)
     | (q, Inl _) \<Rightarrow> (s\<lparr>sh_queue := q\<rparr>, Recovering))"
| "worker_step qs env so now (s, Popped d) = (s\<lparr>sh_active := sh_active s + 1\<rparr>, Active (process_dir_entry env so d))"
| "worker_step qs env so now (s, Active (a # as)) = (perform qs so now a s, Active as)"
| "worker_step qs env so now (s, Active []) = (s\<lparr>sh_active := sh_active s - 1\<rparr>, Popping)"
| "worker_step qs env so now (s, Sleeping) = (s, Checked (q_is_empty qs (sh_queue s)))"
| "worker_step qs env so now (s, Checked queue_empty) = (s, if queue_empty \<and> sh_active s = 0 then Exited else Popping)"
| "worker_step qs env so now (s, Recovering) = (s, Popping)"
| "worker_step qs env so now (s, Exited) = (s, Exited)"

text \<open>The threads run in any interleaving; the clock may show anything.\<close>

inductive scan_step ::
  "'q dir_queue \<Rightarrow> scan_env \<Rightarrow> scan_option \<Rightarrow> 'q scan_shared \<times> worker list \<Rightarrow> 'q scan_shared \<times> worker list \<Rightarrow> bool"
  for qs env so where
  "i < length ws \<Longrightarrow> worker_step qs env so now (s, ws ! i) = (s', w) \<Longrightarrow> scan_step qs env so (s, ws) (s', ws[i := w])"

text \<open>\<^verbatim>\<open>start_workers\<close>, after the paths are enqueued.\<close>

definition scan_started :: "'q \<Rightarrow> nat \<Rightarrow> 'q scan_shared \<times> worker list" where
  "scan_started q n =
    (\<lparr>sh_queue = q, sh_output = [], sh_stats = scan_statistics_new, sh_failures = [], sh_active = 0\<rparr>, replicate n Popping)"

inductive scan_reached ::
  "'q dir_queue \<Rightarrow> scan_env \<Rightarrow> scan_option \<Rightarrow> 'q scan_shared \<times> worker list \<Rightarrow> 'q scan_shared \<times> worker list \<Rightarrow> bool"
  for qs env so start where
  "scan_reached qs env so start start"
| "scan_reached qs env so start c \<Longrightarrow> scan_step qs env so c c' \<Longrightarrow> scan_reached qs env so start c'"

inductive_cases scan_stepE: "scan_step qs env so c c'"


section \<open>What a scan has to find\<close>

fun pushed_entry :: "scan_action \<Rightarrow> dir_scan_entry list" where
  "pushed_entry (PushDir d _) = [d]"
| "pushed_entry _ = []"

fun emitted_batch :: "scan_action \<Rightarrow> dir_batch list" where
  "emitted_batch (Emit b) = [b]"
| "emitted_batch _ = []"

fun recorded_failure :: "scan_action \<Rightarrow> failure_record list" where
  "recorded_failure (Record op item path detail n) = [record_from_detail [] ''scan'' op item path detail n]"
| "recorded_failure _ = []"

fun count_action :: "scan_action \<Rightarrow> scan_statistics \<Rightarrow> scan_statistics" where
  "count_action (AddFileSize n) s = add_file_size n s"
| "count_action IncFiles s = inc_files s"
| "count_action IncFailedFiles s = inc_failed_files s"
| "count_action IncFailedDirs s = inc_failed_dirs s"
| "count_action (PushDir d recorded) s = inc_dirs s"
| "count_action _ s = s"

abbreviation pushed :: "scan_action list \<Rightarrow> dir_scan_entry list" where "pushed acts \<equiv> concat (map pushed_entry acts)"
abbreviation emitted :: "scan_action list \<Rightarrow> dir_batch list" where "emitted acts \<equiv> concat (map emitted_batch acts)"

definition counted :: "scan_action list \<Rightarrow> scan_statistics" where
  "counted acts = fold count_action acts scan_statistics_new"

definition recorded :: "scan_option \<Rightarrow> scan_action list \<Rightarrow> failure_record list" where
  "recorded so acts = (if failure_log so then concat (map recorded_failure acts) else [])"

definition untimed :: "failure_record \<Rightarrow> failure_record" where
  "untimed r = r\<lparr>fr_time := []\<rparr>"

text \<open>
  The effects of a directory and of all directories below it, by plain recursion to a depth, and
  whether the tree below a directory ends above that depth.
\<close>

primrec found :: "scan_env \<Rightarrow> scan_option \<Rightarrow> nat \<Rightarrow> dir_scan_entry \<Rightarrow> scan_action list" where
  "found env so 0 d = []"
| "found env so (Suc n) d =
    process_dir_entry env so d @ concat (map (found env so n) (pushed (process_dir_entry env so d)))"

primrec ends_above :: "scan_env \<Rightarrow> scan_option \<Rightarrow> nat \<Rightarrow> dir_scan_entry \<Rightarrow> bool" where
  "ends_above env so 0 d = False"
| "ends_above env so (Suc n) d = list_all (ends_above env so n) (pushed (process_dir_entry env so d))"

definition found_all :: "scan_env \<Rightarrow> scan_option \<Rightarrow> nat \<Rightarrow> dir_scan_entry list \<Rightarrow> scan_action list" where
  "found_all env so n ds = concat (map (found env so n) ds)"

lemma ends_above_Suc: "ends_above env so n d \<Longrightarrow> ends_above env so (Suc n) d"
proof (induction n arbitrary: d)
  case (Suc n)
  from Suc.prems have "list_all (ends_above env so n) (pushed (process_dir_entry env so d))" by simp
  then have "list_all (ends_above env so (Suc n)) (pushed (process_dir_entry env so d))"
    by (rule list.pred_mono_strong) (rule Suc.IH)
  then show ?case by (simp only: ends_above.simps(2) [of _ _ "Suc n"])
qed simp

lemma found_Suc: "ends_above env so n d \<Longrightarrow> found env so (Suc n) d = found env so n d"
proof (induction n arbitrary: d)
  case (Suc n)
  then have "map (found env so (Suc n)) (pushed (process_dir_entry env so d))
      = map (found env so n) (pushed (process_dir_entry env so d))"
    by (intro map_cong refl Suc.IH) (auto simp: list_all_iff)
  then show ?case by (simp only: found.simps(2) [of _ _ "Suc n"] found.simps(2) [of _ _ n])
qed simp

lemma found_unfold:
  assumes "ends_above env so n d"
  shows "found env so n d = process_dir_entry env so d @ found_all env so n (pushed (process_dir_entry env so d))"
    and "\<forall>c \<in> set (pushed (process_dir_entry env so d)). ends_above env so n c"
proof -
  show "found env so n d = process_dir_entry env so d @ found_all env so n (pushed (process_dir_entry env so d))"
    using found_Suc [OF assms] by (simp add: found_all_def)
  show "\<forall>c \<in> set (pushed (process_dir_entry env so d)). ends_above env so n c"
    using ends_above_Suc [OF assms] by (simp add: list_all_iff)
qed

section \<open>What the workers need of the queue\<close>

text \<open>
  A queue that holds a multiset of entries, takes at least \<open>cap\<close> of them, and answers one of them as
  long as it holds any; in which order does not matter.
\<close>

locale work_queue =
  fixes qs :: "'q dir_queue" and rep :: "'q \<Rightarrow> dir_scan_entry multiset \<Rightarrow> bool" and cap :: nat
  assumes push: "rep q M \<Longrightarrow> size M < cap \<Longrightarrow> \<exists>q'. q_push qs q d = (q', Inr ()) \<and> rep q' (add_mset d M)"
    and pop_none: "rep q {#} \<Longrightarrow> \<exists>q'. q_pop qs q = (q', Inr None) \<and> rep q' {#}"
    and pop_some: "rep q M \<Longrightarrow> M \<noteq> {#} \<Longrightarrow>
      \<exists>q' d. d \<in># M \<and> q_pop qs q = (q', Inr (Some d)) \<and> rep q' (M - {#d#})"
    and is_empty: "rep q M \<Longrightarrow> q_is_empty qs q \<longleftrightarrow> M = {#}"

text \<open>The workers' share of the work: what is left to do for a worker.\<close>

fun remaining :: "scan_env \<Rightarrow> scan_option \<Rightarrow> nat \<Rightarrow> worker \<Rightarrow> scan_action multiset" where
  "remaining env so n (Popped d) = mset (found env so n d)"
| "remaining env so n (Active as) = mset as + mset (found_all env so n (pushed as))"
| "remaining env so n _ = {#}"

fun worker_ok :: "scan_env \<Rightarrow> scan_option \<Rightarrow> nat \<Rightarrow> worker \<Rightarrow> bool" where
  "worker_ok env so n (Popped d) = ends_above env so n d"
| "worker_ok env so n (Active as) = (\<forall>d \<in> set (pushed as). ends_above env so n d)"
| "worker_ok env so n Recovering = False"
| "worker_ok env so n _ = True"

fun is_active :: "worker \<Rightarrow> bool" where
  "is_active (Active _) = True"
| "is_active _ = False"

text \<open>A worker that will pop again before it can exit.\<close>

fun is_working :: "worker \<Rightarrow> bool" where
  "is_working Popping = True"
| "is_working (Popped _) = True"
| "is_working (Active _) = True"
| "is_working _ = False"

definition left_in :: "scan_env \<Rightarrow> scan_option \<Rightarrow> nat \<Rightarrow> dir_scan_entry multiset \<Rightarrow> scan_action multiset" where
  "left_in env so n Q = (\<Sum>d \<in># Q. mset (found env so n d))"

definition pushes :: "scan_action multiset \<Rightarrow> nat" where
  "pushes M = size (filter_mset (\<lambda>a. pushed_entry a \<noteq> []) M)"

definition log_facts :: "scan_option \<Rightarrow> scan_action list \<Rightarrow> 'q scan_shared \<Rightarrow> bool" where
  "log_facts so log s \<longleftrightarrow> sh_output s = emitted log \<and> sh_stats s = counted log
    \<and> map untimed (sh_failures s) = recorded so log"

text \<open>
  The invariant, for the queue's contents \<open>Q\<close> and the list \<open>log\<close> of the effects performed so far:
  what is done, what waits in the queue and what the workers hold is the whole work \<open>R\<close>; and while the
  queue holds anything, some worker will pop again.
\<close>

definition scan_inv ::
  "('q \<Rightarrow> dir_scan_entry multiset \<Rightarrow> bool) \<Rightarrow> scan_env \<Rightarrow> scan_option \<Rightarrow> nat \<Rightarrow> scan_action multiset \<Rightarrow> nat \<Rightarrow>
   dir_scan_entry multiset \<Rightarrow> scan_action list \<Rightarrow> 'q scan_shared \<times> worker list \<Rightarrow> bool" where
  "scan_inv rep env so n R k Q log c \<longleftrightarrow> (case c of (s, ws) \<Rightarrow>
     rep (sh_queue s) Q
     \<and> mset log + left_in env so n Q + sum_list (map (remaining env so n) ws) = R
     \<and> (\<forall>d \<in># Q. ends_above env so n d) \<and> (\<forall>w \<in> set ws. worker_ok env so n w)
     \<and> size Q \<le> k + pushes (mset log) \<and> log_facts so log s
     \<and> sh_active s = (\<Sum>w \<leftarrow> ws. if is_active w then 1 else 0)
     \<and> (Q \<noteq> {#} \<longrightarrow> (\<exists>w \<in> set ws. is_working w)))"

lemma sum_list_update:
  fixes f :: "'b \<Rightarrow> 'a :: comm_monoid_add"
  assumes "i < length ws"
  shows "\<exists>r. sum_list (map f ws) = r + f (ws ! i) \<and> (\<forall>w. sum_list (map f (ws[i := w])) = r + f w)"
proof -
  let ?r = "sum_list (map f (take i ws)) + sum_list (map f (drop (Suc i) ws))"
  have "sum_list (map f ws) = ?r + f (ws ! i)"
    using arg_cong [OF id_take_nth_drop [OF assms], of "\<lambda>ws. sum_list (map f ws)"] by (simp add: ac_simps)
  moreover have "sum_list (map f (ws[i := w])) = ?r + f w" for w
    using assms by (simp add: upd_conv_take_nth_drop ac_simps)
  ultimately show ?thesis by blast
qed

lemma scan_inv_worker: "scan_inv rep env so n R k Q log (s, ws) \<Longrightarrow> i < length ws \<Longrightarrow> worker_ok env so n (ws ! i)"
  by (simp add: scan_inv_def)

text \<open>A step of one worker keeps the invariant when its own part is accounted for.\<close>

lemma scan_inv_update:
  assumes inv: "scan_inv rep env so n R k Q log (s, ws)" and i: "i < length ws"
    and "rep (sh_queue s') Q'"
    and work: "mset log' + left_in env so n Q' + remaining env so n w
      = mset log + left_in env so n Q + remaining env so n (ws ! i)"
    and "\<forall>d \<in># Q'. ends_above env so n d" and "worker_ok env so n w"
    and "size Q' \<le> k + pushes (mset log')" and "log_facts so log' s'"
    and act: "sh_active s' = sh_active s + (if is_active w then 1 else 0) - (if is_active (ws ! i) then 1 else 0)"
    and pops: "Q' \<noteq> {#} \<Longrightarrow> is_working w \<or> Q \<noteq> {#} \<and> \<not> is_working (ws ! i)"
  shows "scan_inv rep env so n R k Q' log' (s', ws[i := w])"
proof -
  obtain r where r: "sum_list (map (remaining env so n) ws) = r + remaining env so n (ws ! i)"
    "sum_list (map (remaining env so n) (ws[i := w])) = r + remaining env so n w"
    using sum_list_update [OF i, of "remaining env so n"] by blast
  have "mset log' + left_in env so n Q' + (r + remaining env so n w)
      = (mset log + left_in env so n Q + remaining env so n (ws ! i)) + r"
    unfolding work [symmetric] by (simp add: ac_simps)
  then have total: "mset log' + left_in env so n Q' + sum_list (map (remaining env so n) (ws[i := w])) = R"
    using inv by (simp add: scan_inv_def r ac_simps)
  obtain r' :: int where r': "(\<Sum>w \<leftarrow> ws. if is_active w then 1 else 0) = r' + (if is_active (ws ! i) then 1 else 0)"
    "(\<Sum>w \<leftarrow> ws[i := w]. if is_active w then 1 else 0) = r' + (if is_active w then 1 else 0)"
    using sum_list_update [OF i, of "\<lambda>w. if is_active w then 1 else 0 :: int"] by blast
  have active: "sh_active s' = (\<Sum>w \<leftarrow> ws[i := w]. if is_active w then 1 else 0)"
    unfolding act r'(2) using inv by (simp add: scan_inv_def r'(1))
  have "\<exists>w \<in> set (ws[i := w]). is_working w" if Q': "Q' \<noteq> {#}"
  proof (cases "is_working w")
    case True
    then show ?thesis using i by (metis set_update_memI)
  next
    case False
    with pops [OF Q'] inv obtain j where j: "j < length ws" "is_working (ws ! j)" "\<not> is_working (ws ! i)"
      by (auto simp: scan_inv_def in_set_conv_nth)
    then have "ws[i := w] ! j = ws ! j" by (cases "i = j") auto
    with j show ?thesis by (metis length_list_update nth_mem)
  qed
  moreover have "\<forall>v \<in> set (ws[i := w]). worker_ok env so n v"
    using inv assms(6) set_update_subset_insert [of ws i w] by (auto simp: scan_inv_def)
  ultimately show ?thesis
    using assms(3,5,7,8) total active by (simp add: scan_inv_def)
qed


lemma counted_snoc: "counted (log @ [a]) = count_action a (counted log)"
  by (simp add: counted_def)

lemma log_facts_snoc:
  assumes "log_facts so log s" and "\<And>d r. a \<noteq> PushDir d r"
  shows "log_facts so (log @ [a]) (perform qs so now a s)"
proof (cases a)
  case (PushDir d r)
  with assms(2) show ?thesis by blast
qed (use assms(1) in \<open>auto simp: log_facts_def counted_snoc recorded_def record_scan_failure_def untimed_def
      record_from_detail_def\<close>)

lemma perform_rest:
  assumes "\<And>d r. a \<noteq> PushDir d r"
  shows "sh_queue (perform qs so now a s) = sh_queue s" and "sh_active (perform qs so now a s) = sh_active s"
proof -
  have "sh_queue (perform qs so now a s) = sh_queue s \<and> sh_active (perform qs so now a s) = sh_active s"
  proof (cases a)
    case (PushDir d r)
    with assms show ?thesis by blast
  qed (simp_all add: record_scan_failure_def)
  then show "sh_queue (perform qs so now a s) = sh_queue s" "sh_active (perform qs so now a s) = sh_active s"
    by simp_all
qed

lemma pushes_simps [simp]:
  "pushes {#} = 0" "pushes (add_mset (PushDir d r) M) = Suc (pushes M)" "pushes (M + N) = pushes M + pushes N"
  by (simp_all add: pushes_def)

lemma pushes_other: "pushed_entry a = [] \<Longrightarrow> pushes (add_mset a M) = pushes M"
  by (simp add: pushes_def)

lemma left_in_simps [simp]:
  "left_in env so n {#} = {#}" "left_in env so n (add_mset d Q) = mset (found env so n d) + left_in env so n Q"
  by (simp_all add: left_in_def)

lemma mset_concat_map: "mset (concat (map f xs)) = (\<Sum>x \<in># mset xs. mset (f x))"
  by (induction xs) simp_all

lemma left_in_mset: "left_in env so n (mset ds) = mset (found_all env so n ds)"
  by (simp add: left_in_def found_all_def mset_concat_map)

lemma count_action_adds:
  "count_action a s =
    \<lparr>tot_size = tot_size s + (case a of AddFileSize n \<Rightarrow> n | _ \<Rightarrow> 0), tot_files = tot_files s + (if a = IncFiles then 1 else 0),
     tot_dirs = tot_dirs s + (if pushed_entry a = [] then 0 else 1),
     failed_files = failed_files s + (if a = IncFailedFiles then 1 else 0),
     failed_dirs = failed_dirs s + (if a = IncFailedDirs then 1 else 0)\<rparr>"
  by (cases s; cases a) (simp_all add: add_file_size_def inc_files_def inc_dirs_def inc_failed_files_def inc_failed_dirs_def)

lemma count_action_commute: "count_action a \<circ> count_action b = count_action b \<circ> count_action a"
  by (simp add: fun_eq_iff count_action_adds ac_simps)

lemma counted_mset: "mset as = mset bs \<Longrightarrow> counted as = counted bs"
  unfolding counted_def by (rule fun_cong [OF fold_multiset_equiv]) (simp_all only: count_action_commute)

lemma recorded_mset: "mset as = mset bs \<Longrightarrow> mset (recorded so as) = mset (recorded so bs)"
  by (simp add: recorded_def mset_concat_map)

text \<open>The effects of a scan, in whatever order they were performed.\<close>

definition scan_result :: "scan_option \<Rightarrow> scan_action list \<Rightarrow> 'q scan_shared \<Rightarrow> bool" where
  "scan_result so acts s \<longleftrightarrow> mset (sh_output s) = mset (emitted acts) \<and> sh_stats s = counted acts
    \<and> mset (map untimed (sh_failures s)) = mset (recorded so acts)"

lemma log_facts_result:
  assumes "log_facts so log s" and "mset log = mset acts"
  shows "scan_result so acts s"
  using assms counted_mset [OF assms(2)] recorded_mset [OF assms(2)]
  by (simp add: log_facts_def scan_result_def mset_concat_map)

abbreviation all_exited :: "worker list \<Rightarrow> bool" where "all_exited ws \<equiv> list_all (\<lambda>w. w = Exited) ws"

lemma scan_reached_trans: "scan_reached qs env so b c \<Longrightarrow> scan_reached qs env so a b \<Longrightarrow> scan_reached qs env so a c"
  by (induction rule: scan_reached.induct) (auto intro: scan_reached.intros)

lemma sum_exited:
  "list_all (\<lambda>w. w = Exited) ws \<Longrightarrow> sum_list (map (remaining env so n) ws) = {#}"
  by (induction ws) simp_all

text \<open>How far a worker is from its exit when no work is left.\<close>

fun stage :: "worker \<Rightarrow> nat" where
  "stage (Popped _) = 7"
| "stage (Active _) = 6"
| "stage (Checked queue_empty) = (if queue_empty then 1 else 5)"
| "stage Popping = 4"
| "stage Sleeping = 3"
| "stage _ = 0"

context work_queue
begin

text \<open>The steps of a worker, one lemma for each of its states.\<close>

lemma step_active_done:
  assumes inv: "scan_inv rep env so n R k Q log (s, ws)" and i: "i < length ws" "ws ! i = Active []"
  shows "scan_inv rep env so n R k Q log (s\<lparr>sh_active := sh_active s - 1\<rparr>, ws[i := Popping])"
  by (rule scan_inv_update [OF inv i(1)])
    (use inv in \<open>auto simp: scan_inv_def i(2) log_facts_def found_all_def\<close>)

lemma step_popped:
  assumes inv: "scan_inv rep env so n R k Q log (s, ws)" and i: "i < length ws" "ws ! i = Popped d"
  shows "scan_inv rep env so n R k Q log (s\<lparr>sh_active := sh_active s + 1\<rparr>, ws[i := Active (process_dir_entry env so d)])"
proof (rule scan_inv_update [OF inv i(1)])
  have "ends_above env so n d"
    using scan_inv_worker [OF inv i(1)] by (simp add: i(2))
  note unfold = found_unfold [OF this]
  show "worker_ok env so n (Active (process_dir_entry env so d))" using unfold(2) by simp
  show "mset log + left_in env so n Q + remaining env so n (Active (process_dir_entry env so d))
      = mset log + left_in env so n Q + remaining env so n (ws ! i)"
    by (simp add: i(2) unfold(1))
qed (use inv in \<open>auto simp: scan_inv_def i(2) log_facts_def\<close>)

lemma step_perform:
  assumes inv: "scan_inv rep env so n R k Q log (s, ws)" and i: "i < length ws" "ws ! i = Active (a # as)"
    and room: "k + pushes R \<le> cap"
  shows "\<exists>Q'. scan_inv rep env so n R k Q' (log @ [a]) (perform qs so now a s, ws[i := Active as])"
proof -
  have ok: "\<forall>d \<in> set (pushed (a # as)). ends_above env so n d"
    using scan_inv_worker [OF inv i(1)] by (simp add: i(2))
  show ?thesis
  proof (cases "\<exists>d r. a = PushDir d r")
    case True
    then obtain d r where a: "a = PushDir d r" by blast
    obtain rest where "sum_list (map (remaining env so n) ws) = rest + remaining env so n (ws ! i)"
      using sum_list_update [OF i(1)] by blast
    then have "R = add_mset a (mset log + left_in env so n Q + (rest + mset as + mset (found_all env so n (pushed (a # as)))))"
      using inv by (simp add: scan_inv_def i(2) ac_simps)
    then have "pushes (mset log) < pushes R" by (simp add: a)
    with inv room have "size Q < cap" by (simp add: scan_inv_def)
    with inv obtain q' where q': "q_push qs (sh_queue s) d = (q', Inr ())" "rep q' (add_mset d Q)"
      using push by (fastforce simp: scan_inv_def)
    have "scan_inv rep env so n R k (add_mset d Q) (log @ [a]) (perform qs so now a s, ws[i := Active as])"
      by (rule scan_inv_update [OF inv i(1)])
        (use inv ok q' in \<open>auto simp: scan_inv_def i(2) a log_facts_def counted_snoc recorded_def found_all_def\<close>)
    then show ?thesis by blast
  next
    case False
    then have n: "\<And>d r. a \<noteq> PushDir d r" by blast
    have p: "pushed_entry a = []" using n by (cases a) auto
    have "log_facts so (log @ [a]) (perform qs so now a s)"
      using inv by (intro log_facts_snoc n) (simp add: scan_inv_def)
    then have "scan_inv rep env so n R k Q (log @ [a]) (perform qs so now a s, ws[i := Active as])"
      by - (rule scan_inv_update [OF inv i(1)],
        use inv ok in
          \<open>auto simp: scan_inv_def i(2) perform_rest [OF n] p pushes_other simp del: perform.simps\<close>)
    then show ?thesis by blast
  qed
qed

lemma step_pop_some:
  assumes inv: "scan_inv rep env so n R k Q log (s, ws)" and i: "i < length ws" "ws ! i = Popping" and Q: "Q \<noteq> {#}"
  shows "\<exists>d q'. d \<in># Q \<and> q_pop qs (sh_queue s) = (q', Inr (Some d))
    \<and> scan_inv rep env so n R k (Q - {#d#}) log (s\<lparr>sh_queue := q'\<rparr>, ws[i := Popped d])"
proof -
  obtain q' d where d: "d \<in># Q" "q_pop qs (sh_queue s) = (q', Inr (Some d))" "rep q' (Q - {#d#})"
    using pop_some [OF _ Q, of "sh_queue s"] inv by (auto simp: scan_inv_def)
  obtain Q' where Q': "Q = add_mset d Q'" using d(1) by (metis insert_DiffM)
  have "scan_inv rep env so n R k Q' log (s\<lparr>sh_queue := q'\<rparr>, ws[i := Popped d])"
    by (rule scan_inv_update [OF inv i(1)]) (use inv d(3) in \<open>auto simp: scan_inv_def i(2) log_facts_def Q'\<close>)
  with d show ?thesis by (auto simp: Q')
qed

lemma step_pop_none:
  assumes inv: "scan_inv rep env so n R k {#} log (s, ws)" and i: "i < length ws" "ws ! i = Popping"
  shows "\<exists>q'. q_pop qs (sh_queue s) = (q', Inr None) \<and> scan_inv rep env so n R k {#} log (s\<lparr>sh_queue := q'\<rparr>, ws[i := Sleeping])"
proof -
  obtain q' where q': "q_pop qs (sh_queue s) = (q', Inr None)" "rep q' {#}"
    using pop_none [of "sh_queue s"] inv by (auto simp: scan_inv_def)
  moreover have "scan_inv rep env so n R k {#} log (s\<lparr>sh_queue := q'\<rparr>, ws[i := Sleeping])"
    by (rule scan_inv_update [OF inv i(1)]) (use inv q'(2) in \<open>auto simp: scan_inv_def i(2) log_facts_def\<close>)
  ultimately show ?thesis by blast
qed

text \<open>A worker that leaves the queue and the counter alone and holds no work.\<close>

lemma step_idle:
  assumes inv: "scan_inv rep env so n R k Q log (s, ws)" and i: "i < length ws"
    and "ws ! i = Sleeping \<and> (\<exists>b. w = Checked b) \<or> (\<exists>b. ws ! i = Checked b) \<and> (w = Exited \<or> w = Popping)
      \<or> ws ! i = Exited \<and> w = Exited"
  shows "scan_inv rep env so n R k Q log (s, ws[i := w])"
  by (rule scan_inv_update [OF inv i]) (use inv assms(3) in \<open>auto simp: scan_inv_def\<close>)

lemma scan_inv_step:
  assumes inv: "scan_inv rep env so n R k Q log c" and step: "scan_step qs env so c c'" and room: "k + pushes R \<le> cap"
  shows "\<exists>Q' log'. scan_inv rep env so n R k Q' log' c'"
proof -
  from step obtain i ws now s s' w where c: "c = (s, ws)" "c' = (s', ws[i := w])" and i: "i < length ws"
    and w: "worker_step qs env so now (s, ws ! i) = (s', w)"
    by (auto elim: scan_stepE)
  note inv = inv [unfolded c]
  show ?thesis
  proof (cases "ws ! i")
    case Popping
    show ?thesis
    proof (cases "Q = {#}")
      case True
      with step_pop_none [OF _ i Popping] inv obtain q' where q': "q_pop qs (sh_queue s) = (q', Inr None)"
        "scan_inv rep env so n R k {#} log (s\<lparr>sh_queue := q'\<rparr>, ws[i := Sleeping])" by blast
      then have "c' = (s\<lparr>sh_queue := q'\<rparr>, ws[i := Sleeping])" using w by (simp add: Popping c)
      with q'(2) show ?thesis by blast
    next
      case False
      from step_pop_some [OF inv i Popping False] obtain d q' where q': "q_pop qs (sh_queue s) = (q', Inr (Some d))"
        "scan_inv rep env so n R k (Q - {#d#}) log (s\<lparr>sh_queue := q'\<rparr>, ws[i := Popped d])" by blast
      then have "c' = (s\<lparr>sh_queue := q'\<rparr>, ws[i := Popped d])" using w by (simp add: Popping c)
      with q'(2) show ?thesis by blast
    qed
  next
    case (Popped d)
    from step_popped [OF inv i this] w show ?thesis by (auto simp: Popped c)
  next
    case (Active as)
    show ?thesis
    proof (cases as)
      case Nil
      from step_active_done [OF inv i] Active w show ?thesis by (auto simp: Nil c)
    next
      case (Cons a as')
      from step_perform [OF inv i _ room, of a as' now] Active w show ?thesis by (auto simp: Cons c)
    qed
  next
    case Recovering
    then show ?thesis using scan_inv_worker [OF inv i] by simp
  qed (use step_idle [OF inv i, of w] w c in \<open>auto split: if_splits\<close>)
qed

lemma scan_inv_started:
  assumes "rep q (mset ds)" and "0 < m" and "list_all (ends_above env so n) ds"
  shows "scan_inv rep env so n (mset (found_all env so n ds)) (length ds) (mset ds) [] (scan_started q m)"
proof -
  have "sum_list (replicate m {#}) = {#}" by (induction m) simp_all
  with assms show ?thesis
    by (auto simp: scan_inv_def scan_started_def left_in_mset log_facts_def counted_def recorded_def list_all_iff
        sum_list_replicate)
qed

lemma scan_inv_reached:
  assumes "scan_reached qs env so c c'" and "scan_inv rep env so n R k Q log c" and "k + pushes R \<le> cap"
  shows "\<exists>Q' log'. scan_inv rep env so n R k Q' log' c'"
  using assms by (induction rule: scan_reached.induct) (blast dest: scan_inv_step)+

lemma scan_inv_exited:
  assumes inv: "scan_inv rep env so n (mset acts) k Q log (s, ws)" and "all_exited ws"
  shows "q_is_empty qs (sh_queue s)" and "scan_result so acts s"
proof -
  have Q: "Q = {#}" using assms by (auto simp: scan_inv_def list_all_iff)
  then show "q_is_empty qs (sh_queue s)" using inv is_empty [of "sh_queue s" Q] by (simp add: scan_inv_def)
  have "mset log = mset acts" using inv Q sum_exited [OF assms(2)] by (simp add: scan_inv_def)
  then show "scan_result so acts s" using log_facts_result inv by (auto simp: scan_inv_def)
qed

lemma scan_complete:
  assumes "rep q (mset ds)" and "0 < m" and "list_all (ends_above env so n) ds"
    and "length ds + pushes (mset (found_all env so n ds)) \<le> cap"
    and "scan_reached qs env so (scan_started q m) (s, ws)" and "all_exited ws"
  shows "q_is_empty qs (sh_queue s) \<and> scan_result so (found_all env so n ds) s"
  using scan_inv_reached [OF assms(5) scan_inv_started [OF assms(1-3)] assms(4)] scan_inv_exited [OF _ assms(6)]
  by blast

lemma scan_inv_finishes:
  assumes "scan_inv rep env so n R k Q log (s, ws)" and room: "k + pushes R \<le> cap"
  shows "\<exists>s' ws'. scan_reached qs env so (s, ws) (s', ws') \<and> all_exited ws'"
  using assms(1)
proof (induction "(size R - length log, size Q, sum_list (map stage ws))" arbitrary: Q log s ws
    rule: wf_induct_rule [OF wf_lex_prod [OF wf_less_than wf_lex_prod [OF wf_less_than wf_less_than]]])
  case 1
  note IH = 1(1) and inv = 1(2)
  have go: ?case if i: "i < length ws" and w: "worker_step qs env so [] (s, ws ! i) = (s', w)"
    and inv': "scan_inv rep env so n R k Q' log' (s', ws[i := w])"
    and less: "length log < length log' \<and> length log' \<le> size R
      \<or> length log' = length log \<and> (size Q' < size Q \<or> size Q' = size Q \<and> stage w < stage (ws ! i))"
    for i s' w Q' log'
  proof -
    obtain r where "sum_list (map stage ws) = r + stage (ws ! i)" "sum_list (map stage (ws[i := w])) = r + stage w"
      using sum_list_update [OF i, of stage] by blast
    with less have "((size R - length log', size Q', sum_list (map stage (ws[i := w]))),
        (size R - length log, size Q, sum_list (map stage ws))) \<in> less_than <*lex*> (less_than <*lex*> less_than)"
      by auto
    from IH [OF this inv'] obtain s'' ws'' where "scan_reached qs env so (s', ws[i := w]) (s'', ws'')" "all_exited ws''"
      by blast
    moreover have "scan_reached qs env so (s, ws) (s', ws[i := w])"
      using scan_step.intros [of i ws qs env so "[]" s s' w, OF i w] by (blast intro: scan_reached.intros)
    ultimately show ?thesis using scan_reached_trans by blast
  qed
  have log: "length log' \<le> size R" if "scan_inv rep env so n R k Q' log' c" for Q' log' c
  proof -
    from that have "size (mset log') \<le> size R" by (intro size_mset_mono) (auto simp: scan_inv_def)
    then show ?thesis by simp
  qed
  show ?case
  proof (cases "\<exists>i < length ws. ws ! i \<noteq> Exited")
    case False
    then have "all_exited ws" by (auto simp: list_all_length)
    then show ?thesis by (blast intro: scan_reached.intros)
  next
    case True
    then obtain i where i: "i < length ws" "ws ! i \<noteq> Exited" by blast
    show ?thesis
    proof (cases "\<exists>i < length ws. is_working (ws ! i)")
      case True
      then obtain i where i: "i < length ws" "is_working (ws ! i)" by blast
      show ?thesis
      proof (cases "ws ! i")
        case Popping
        show ?thesis
        proof (cases "Q = {#}")
          case True
          from step_pop_none [OF inv [unfolded True] i(1) Popping] obtain q' where
            "q_pop qs (sh_queue s) = (q', Inr None)" "scan_inv rep env so n R k {#} log (s\<lparr>sh_queue := q'\<rparr>, ws[i := Sleeping])"
            by blast
          then show ?thesis by (intro go [OF i(1) _]) (auto simp: Popping True)
        next
          case False
          from step_pop_some [OF inv i(1) Popping False] obtain d q' where
            "d \<in># Q" "q_pop qs (sh_queue s) = (q', Inr (Some d))"
            "scan_inv rep env so n R k (Q - {#d#}) log (s\<lparr>sh_queue := q'\<rparr>, ws[i := Popped d])"
            by blast
          then show ?thesis by (intro go [OF i(1) _]) (auto simp: Popping size_Diff1_less dest: size_Diff1_less)
        qed
      next
        case (Popped d)
        from step_popped [OF inv i(1) this] show ?thesis by (intro go [OF i(1) _]) (auto simp: Popped)
      next
        case (Active as)
        show ?thesis
        proof (cases as)
          case Nil
          from step_active_done [OF inv i(1)] Active show ?thesis
            by (intro go [OF i(1) _]) (auto simp: Nil)
        next
          case (Cons a as')
          from step_perform [OF inv i(1) _ room, of a as' "[]"] Active obtain Q' where
            inv': "scan_inv rep env so n R k Q' (log @ [a]) (perform qs so [] a s, ws[i := Active as'])"
            by (auto simp: Cons)
          show ?thesis
            using log [OF inv'] by (intro go [OF i(1) _ inv']) (auto simp: Active Cons)
        qed
      qed (use i in simp_all)
    next
      case False
      then have idle: "\<forall>w \<in> set ws. \<not> is_working w" by (auto simp: in_set_conv_nth)
      then have Q: "Q = {#}" using inv by (auto simp: scan_inv_def)
      have "(\<Sum>w \<leftarrow> ws. if is_active w then 1 else 0 :: int) = 0"
        using idle by (induction ws) (auto elim: is_active.elims)
      then have act: "sh_active s = 0" using inv by (simp add: scan_inv_def)
      have empty: "q_is_empty qs (sh_queue s)" using inv is_empty [of "sh_queue s" Q] by (simp add: Q scan_inv_def)
      show ?thesis
      proof (cases "ws ! i")
        case Sleeping
        show ?thesis
          using step_idle [OF inv i(1), of "Checked True"] Sleeping empty by (intro go [OF i(1) _]) auto
      next
        case (Checked b)
        show ?thesis
          using step_idle [OF inv i(1), of "if b then Exited else Popping"] Checked act
          by (intro go [OF i(1) _]) auto
      qed (use i idle nth_mem [OF i(1)] scan_inv_worker [OF inv i(1)] in auto)
    qed
  qed
qed

end


section \<open>The queue of the scanner\<close>

definition spill_dir_queue ::
  "dir_scan_entry ser \<Rightarrow> dir_scan_entry des \<Rightarrow> (spill_error \<Rightarrow> string) \<Rightarrow> dir_scan_entry spill_queue dir_queue" where
  "spill_dir_queue ser des message =
    \<lparr>q_push = spill_push ser, q_pop = spill_pop des, q_is_empty = spill_is_empty, q_message = message\<rparr>"

text \<open>The queue while everything in it fits into memory.\<close>

definition in_memory :: "nat \<Rightarrow> 'a spill_queue \<Rightarrow> 'a multiset \<Rightarrow> bool" where
  "in_memory cap q M \<longleftrightarrow> in_disk_batch_count q = 0 \<and> item_count q = length (memory_queue q)
    \<and> memory_upper_bound q = cap \<and> mset (memory_queue q) = M"

interpretation spill: work_queue "spill_dir_queue ser des message" "in_memory cap" cap for ser des message cap
proof unfold_locales
  fix q :: "dir_scan_entry spill_queue" and M :: "dir_scan_entry multiset" and d
  assume q: "in_memory cap q M"
  show "size M < cap \<Longrightarrow>
      \<exists>q'. q_push (spill_dir_queue ser des message) q d = (q', Inr ()) \<and> in_memory cap q' (add_mset d M)"
    using q by (auto simp: spill_dir_queue_def spill_push_def in_memory_def Let_def)
  show "q_is_empty (spill_dir_queue ser des message) q \<longleftrightarrow> M = {#}"
    using q by (auto simp: spill_dir_queue_def spill_is_empty_def spill_len_def in_memory_def)
  show "\<exists>q' d. d \<in># M \<and> q_pop (spill_dir_queue ser des message) q = (q', Inr (Some d)) \<and> in_memory cap q' (M - {#d#})"
    if "M \<noteq> {#}"
  proof (cases "memory_queue q")
    case (Cons d items)
    with q show ?thesis
      by (intro exI [of _ "q\<lparr>memory_queue := items, item_count := item_count q - 1\<rparr>"] exI [of _ d])
        (auto simp: spill_dir_queue_def spill_pop_def pop_front_def in_memory_def)
  qed (use q that in \<open>auto simp: in_memory_def\<close>)
next
  fix q :: "dir_scan_entry spill_queue"
  assume "in_memory cap q {#}"
  then show "\<exists>q'. q_pop (spill_dir_queue ser des message) q = (q', Inr None) \<and> in_memory cap q' {#}"
    by (auto simp: spill_dir_queue_def spill_pop_def in_memory_def)
qed

text \<open>The paths of a scan are enqueued before the workers start (\<^verbatim>\<open>Scanner::start\<close>).\<close>

abbreviation root_entry :: "string \<Rightarrow> dir_scan_entry" where
  "root_entry path \<equiv> \<lparr>ds_path = path, ds_depth = 0\<rparr>"

fun enqueue_paths :: "'q dir_queue \<Rightarrow> string list \<Rightarrow> 'q \<Rightarrow> spill_error + 'q" where
  "enqueue_paths qs [] q = Inr q"
| "enqueue_paths qs (path # paths) q =
    (case q_push qs q (root_entry path) of
       (q, Inr _) \<Rightarrow> enqueue_paths qs paths q
     | (q, Inl e) \<Rightarrow> Inl e)"

context work_queue
begin

lemma enqueue_paths_rep:
  "rep q M \<Longrightarrow> size M + length paths \<le> cap \<Longrightarrow>
    \<exists>q'. enqueue_paths qs paths q = Inr q' \<and> rep q' (M + mset (map root_entry paths))"
proof (induction paths arbitrary: q M)
  case (Cons path paths)
  then have "size M < cap" by simp
  from push [OF Cons.prems(1) this] obtain q' where
    q': "q_push qs q (root_entry path) = (q', Inr ())" "rep q' (add_mset (root_entry path) M)" by blast
  with Cons.IH [OF q'(2)] Cons.prems(2) show ?case by simp
qed simp

end

lemma new_in_memory: "spill_queue_new [] upper lower batch = Inr q \<Longrightarrow> in_memory upper q {#}"
  by (auto simp: spill_queue_new_def in_memory_def split: if_splits)


text \<open>
  \<^verbatim>\<open>Scanner::from\<close>, which panics when the queue cannot be made, and the part of
  \<^verbatim>\<open>Scanner::start\<close> up to the start of the workers.
\<close>

datatype scan_error = EmptyEnqueue | InvalidEnqueue string | QueuePanic spill_error

definition scanner_start ::
  "dir_scan_entry ser \<Rightarrow> dir_scan_entry des \<Rightarrow> (spill_error \<Rightarrow> string) \<Rightarrow> nat \<Rightarrow> nat \<Rightarrow> nat \<Rightarrow> scan_option \<Rightarrow> string list \<Rightarrow>
   scan_error + dir_scan_entry spill_queue scan_shared \<times> worker list" where
  "scanner_start ser des message upper lower batch so paths =
    (case spill_queue_new [] upper lower batch of
       Inl e \<Rightarrow> Inl (QueuePanic e)
     | Inr q \<Rightarrow>
         if paths = [] then Inl EmptyEnqueue
         else case enqueue_paths (spill_dir_queue ser des message) paths q of
                Inl e \<Rightarrow> Inl (InvalidEnqueue (message e))
              | Inr q \<Rightarrow> Inr (scan_started q (worker_count so)))"

lemma scanner_start_rep:
  assumes "scanner_start ser des message upper lower batch so paths = Inr start" and "length paths \<le> upper"
  shows "\<exists>q. in_memory upper q (mset (map root_entry paths)) \<and> start = scan_started q (worker_count so)"
proof -
  obtain q0 :: "dir_scan_entry spill_queue" where q0: "spill_queue_new [] upper lower batch = Inr q0"
    using assms(1) by (cases "spill_queue_new [] upper lower batch :: spill_error + dir_scan_entry spill_queue")
      (auto simp: scanner_start_def)
  obtain q where "enqueue_paths (spill_dir_queue ser des message) paths q0 = Inr q"
    "in_memory upper q (mset (map root_entry paths))"
    using spill.enqueue_paths_rep [OF new_in_memory [OF q0], of paths ser des message] assms(2) by auto
  with assms(1) q0 show ?thesis by (auto simp: scanner_start_def split: if_splits)
qed

end
