(* ===== verification/ScannedTree.thy ===== *)
theory ScannedTree
  imports LocalScanner
begin

text \<open>
  What the workers of \<^verbatim>\<open>native/scanner.rs\<close> make of a file system tree: a tree whose files and
  directories can be read gives one batch for each of its directories, with the files in it.
\<close>

section \<open>Trees and what a scan of them has to hand over\<close>








section \<open>Reading a tree\<close>








text \<open>What the statistics of a scan come to.\<close>

definition add_stats :: "scan_statistics \<Rightarrow> scan_statistics \<Rightarrow> scan_statistics" where
  "add_stats a b = \<lparr>tot_size = tot_size a + tot_size b, tot_files = tot_files a + tot_files b, tot_dirs = tot_dirs a + tot_dirs b,
     failed_files = failed_files a + failed_files b, failed_dirs = failed_dirs a + failed_dirs b\<rparr>"

definition files_stats :: "file_meta list \<Rightarrow> scan_statistics" where
  "files_stats files = \<lparr>tot_size = (\<Sum>f \<leftarrow> files. fm_size f), tot_files = of_nat (length files), tot_dirs = 0,
     failed_files = 0, failed_dirs = 0\<rparr>"

definition batches_stats :: "dir_batch list \<Rightarrow> scan_statistics" where
  "batches_stats bs = (files_stats (concat (map db_files bs)))\<lparr>tot_dirs := of_nat (length bs)\<rparr>"









lemma empty_stats [simp]: "add_stats (files_stats []) a = a" "add_stats a (files_stats []) = a"
  by (cases a; simp add: add_stats_def files_stats_def)+

lemma no_stats [simp]: "counted [] = files_stats []"
  by (simp add: counted_def scan_statistics_new_def files_stats_def)

lemma no_batches_stats [simp]: "batches_stats [] = files_stats []"
  by (simp add: batches_stats_def files_stats_def)









section \<open>Properties\<close>









section \<open>Witnesses\<close>













end
