(* ===== verification/NormalizeControl.thy ===== *)
theory NormalizeControl
  imports ControlWriting ControlFiles ScanFilter
begin

text \<open>
  \<^verbatim>\<open>scanner.rs\<close>: after a scan the control files are rewritten with logical paths. Every file is read
  to its end, written again to a temporary file next to it with the paths mapped, and the temporary file is
  renamed over it. A failing file stops the rewriting; the temporary file a failure may leave behind is not
  recorded. The clock of the headers and JSON are parameters.
\<close>

section \<open>Paths\<close>


section \<open>Rewriting a file\<close>

text \<open>\<^verbatim>\<open>collect\<close> of results: the first error, or all values.\<close>

fun collect_io :: "'a io list \<Rightarrow> 'a list io" where
  "collect_io [] = Inr []"
| "collect_io (Inl e # items) = Inl e"
| "collect_io (Inr x # items) = andThen (collect_io items) (\<lambda>xs. Inr (x # xs))"











section \<open>Rewriting the files of a directory\<close>












section \<open>A rewritten file\<close>

definition copy_holds :: "json_dec \<Rightarrow> byte list \<Rightarrow> control_entry list \<Rightarrow> bool" where
  "copy_holds dec content es \<longleftrightarrow>
    (\<exists>rest h. copy_reader_open dec content = Inr (rest, h) \<and> read_entries copy_decode rest = map Inr es)"

definition delete_holds :: "json_dec \<Rightarrow> byte list \<Rightarrow> delete_entry list \<Rightarrow> bool" where
  "delete_holds dec content es \<longleftrightarrow>
    (\<exists>rest h. delete_reader_open dec content = Inr (rest, h) \<and> read_entries delete_decode rest = map Inr es)"

definition mtime_holds :: "json_dec \<Rightarrow> byte list \<Rightarrow> mtime_dir_entry list \<Rightarrow> bool" where
  "mtime_holds dec content es \<longleftrightarrow>
    (\<exists>rest h. mtime_reader_open dec content = Inr (rest, h) \<and> read_entries mtime_decode rest = map Inr es)"

definition hardlink_holds :: "json_dec \<Rightarrow> byte list \<Rightarrow> hardlink_entry list \<Rightarrow> bool" where
  "hardlink_holds dec content es \<longleftrightarrow>
    (\<exists>rest h. hardlink_reader_open dec content = Inr (rest, h) \<and> read_entries hardlink_decode rest = map Inr es)"

lemmas holds_defs = copy_holds_def delete_holds_def mtime_holds_def hardlink_holds_def



lemma collect_Inr [simp]: "collect_io (map Inr xs) = Inr xs"
  by (induction xs) simp_all











section \<open>A rewritten directory\<close>

lemma file_stem_dot: "file_stem n @ ''.'' @ ext \<noteq> ''.''" if "ext \<noteq> []"
  using that by (cases "file_stem n") auto

















section \<open>Properties\<close>


















end
