(* ===== verification/LocalScan.thy ===== *)
theory LocalScan
  imports ScannedTree FullBackup NormalizeControl
begin

text \<open>
  \<^verbatim>\<open>native.rs\<close>: a local scan from the enqueued paths to the control files. The workers walk the tree
  (\<^verbatim>\<open>LocalScanner\<close>), the writers store what they hand over (\<^verbatim>\<open>ScanEngine\<close>), and when both have ended the
  terminator thread generates the control files and makes their paths logical (\<^verbatim>\<open>NormalizeControl\<close>).
\<close>

section \<open>The end of a scan\<close>



section \<open>Properties\<close>











end
