(* ===== verification/Locations.thy ===== *)
theory Locations
  imports PathUtil BTree
begin

text \<open>
  \<^verbatim>\<open>frame/location.rs\<close>, and what it needs of \<^verbatim>\<open>nfs.rs\<close> and \<^verbatim>\<open>smb.rs\<close>: where the
  source or the target of a job lives, the URLs that name it, and the two roots that come with it, the
  physical prefix of the paths in the metadata and the logical root of the paths in control files. A
  manifest keeps a location as the text it is shown as; what a restore reads from that text is related to
  the location it was made from. The network clients themselves are not part of the model.
\<close>

section \<open>Locations on an NFS server\<close>

record nfs_location =
  nl_host :: string
  nl_export :: string
  nl_sub_path :: string
  nl_uid :: u32
  nl_gid :: u32
  nl_port :: "u16 option"
  nl_read_chunk :: u32
  nl_write_chunk :: u32
  nl_connections :: nat

definition nfs_default :: nfs_location where
  "nfs_default =
    \<lparr>nl_host = [], nl_export = [], nl_sub_path = [], nl_uid = 0, nl_gid = 0, nl_port = None,
     nl_read_chunk = 128 * 1024, nl_write_chunk = 128 * 1024, nl_connections = 4\<rparr>"

definition nfs_new :: "string \<Rightarrow> string \<Rightarrow> nfs_location" where
  "nfs_new host export = nfs_default\<lparr>nl_host := host, nl_export := export\<rparr>"

definition nfs_credentials :: "nfs_location \<Rightarrow> u32 \<Rightarrow> u32 \<Rightarrow> nfs_location" where
  "nfs_credentials l uid gid = l\<lparr>nl_uid := uid, nl_gid := gid\<rparr>"

text \<open>\<^verbatim>\<open>rfind\<close> and the two sides of what it finds.\<close>

definition rsplit_once :: "char \<Rightarrow> string \<Rightarrow> (string \<times> string) option" where
  "rsplit_once c s = map_option (\<lambda>(b, a). (rev a, rev b)) (split_once c (rev s))"

text \<open>A port after the last colon; anything else after it belongs to the host.\<close>

definition parse_host_port :: "string \<Rightarrow> string \<times> u16 option" where
  "parse_host_port authority =
    (case rsplit_once CHR '':'' authority of
       Some (host, port) \<Rightarrow>
         (case parse_uint 16 port of Some p \<Rightarrow> (host, Some (of_nat p)) | None \<Rightarrow> (authority, None))
     | None \<Rightarrow> (authority, None))"

definition nfs_query_step :: "string \<Rightarrow> string \<times> u32 \<times> u32 \<Rightarrow> string + string \<times> u32 \<times> u32" where
  "nfs_query_step kv s =
    (let (sub, uid, gid) = s
     in case strip_prefix ''sub='' kv of
          Some v \<Rightarrow> Inr (v, uid, gid)
        | None \<Rightarrow>
            (case strip_prefix ''uid='' kv of
               Some v \<Rightarrow>
                 (case parse_uint 32 v of
                    Some n \<Rightarrow> Inr (sub, of_nat n, gid)
                  | None \<Rightarrow> Inl (''invalid uid in NFS URL: '' @ v))
             | None \<Rightarrow>
                 (case strip_prefix ''gid='' kv of
                    Some v \<Rightarrow>
                      (case parse_uint 32 v of
                         Some n \<Rightarrow> Inr (sub, uid, of_nat n)
                       | None \<Rightarrow> Inl (''invalid gid in NFS URL: '' @ v))
                  | None \<Rightarrow> Inr s)))"

definition nfs_from_url :: "string \<Rightarrow> string + nfs_location" where
  "nfs_from_url url =
    (case strip_prefix ''nfs://'' url of
       None \<Rightarrow> Inl (''NFS URL must start with nfs://, got: '' @ url)
     | Some rest \<Rightarrow>
         (case split_once CHR ''/'' rest of
            None \<Rightarrow> Inl (''NFS URL must include an export path, got: '' @ url)
          | Some (authority, after) \<Rightarrow>
              if authority = [] then Inl (''NFS URL missing host: '' @ url)
              else
                let (host, port) = parse_host_port authority; path_and_query = CHR ''/'' # after
                in andThen (case split_once CHR ''?'' path_and_query of
                       Some (export, query) \<Rightarrow>
                         andThen (fold_err nfs_query_step (split_on CHR ''&'' query) ([], 0, 0)) (\<lambda>(sub, uid, gid).
                           Inr (export, sub, uid, gid))
                     | None \<Rightarrow> Inr (path_and_query, [], 0, 0)) (\<lambda>(export, sub, uid, gid).
                   if export = ''/'' \<or> export = [] then Inl (''NFS URL export path must be non-empty, got: '' @ url)
                   else Inr ((nfs_credentials ((nfs_new host export)\<lparr>nl_sub_path := sub\<rparr>) uid gid)\<lparr>nl_port := port\<rparr>))))"

definition nfs_display :: "nfs_location \<Rightarrow> string" where
  "nfs_display l =
    (if nl_sub_path l = [] then ''nfs://'' @ nl_host l @ nl_export l
     else ''nfs://'' @ nl_host l @ nl_export l @ ''/'' @ trim_start CHR ''/'' (nl_sub_path l))"

definition nfs_base_path :: "nfs_location \<Rightarrow> string" where
  "nfs_base_path l =
    (if nl_sub_path l = [] then nl_export l else path_join (nl_export l) (trim_start CHR ''/'' (nl_sub_path l)))"

section \<open>Locations on an SMB share\<close>

record smb_location =
  sl_host :: string
  sl_share :: string
  sl_sub_path :: string
  sl_port :: "u16 option"
  sl_username :: "string option"
  sl_password :: "string option"

definition smb_new :: "string \<Rightarrow> string \<Rightarrow> smb_location" where
  "smb_new host share =
    \<lparr>sl_host = host, sl_share = share, sl_sub_path = [], sl_port = None, sl_username = None, sl_password = None\<rparr>"

definition normalize_segmentish_path :: "string \<Rightarrow> string" where
  "normalize_segmentish_path path = trim_both CHR ''/'' (to_slash path)"

definition smb_sub_path :: "smb_location \<Rightarrow> string \<Rightarrow> smb_location" where
  "smb_sub_path l sub = l\<lparr>sl_sub_path := normalize_segmentish_path sub\<rparr>"

definition smb_credentials :: "smb_location \<Rightarrow> string option \<Rightarrow> string option \<Rightarrow> smb_location" where
  "smb_credentials l username password = l\<lparr>sl_username := username, sl_password := password\<rparr>"

definition split_optional :: "char \<Rightarrow> string \<Rightarrow> string \<times> string option" where
  "split_optional c s = (case split_once c s of Some (a, b) \<Rightarrow> (a, Some b) | None \<Rightarrow> (s, None))"

definition credential_step :: "string \<Rightarrow> string option \<times> string option \<Rightarrow> string option \<times> string option" where
  "credential_step pair s =
    (let (username, password) = s
     in case split_once CHR ''='' pair of
          None \<Rightarrow> s
        | Some (key, v) \<Rightarrow>
            if key = ''username'' then (Some v, password)
            else if key = ''password'' then (username, Some v) else s)"

definition parse_query_credentials :: "string option \<Rightarrow> string option \<times> string option" where
  "parse_query_credentials query =
    (case query of
       None \<Rightarrow> (None, None)
     | Some q \<Rightarrow>
         fold credential_step
           (filter (\<lambda>s. s \<noteq> []) (split_on CHR ''&'' (map (\<lambda>c. if c = CHR ''?'' then CHR ''&'' else c) q)))
           (None, None))"

text \<open>Both forms of an SMB connect string differ in the separators and in the texts of their errors.\<close>

definition parse_slash_form :: "string \<Rightarrow> string + smb_location" where
  "parse_slash_form rest =
    (case split_once CHR ''/'' rest of
       None \<Rightarrow> Inl ''SMB URL missing share path''
     | Some (authority, path_and_query) \<Rightarrow>
         if authority = [] then Inl ''SMB URL missing host''
         else
           let (host, port) = parse_host_port authority;
               (path_part, query_part) = split_optional CHR ''?'' path_and_query
           in case filter (\<lambda>s. s \<noteq> []) (split_on CHR ''/'' path_part) of
                [] \<Rightarrow> Inl ''SMB URL missing share name''
              | share # segments \<Rightarrow>
                  let (username, password) = parse_query_credentials query_part
                  in Inr ((smb_credentials (smb_sub_path (smb_new host share) (join_with CHR ''/'' segments))
                       username password)\<lparr>sl_port := port\<rparr>))"

definition parse_uncish_form :: "string \<Rightarrow> string + smb_location" where
  "parse_uncish_form rest =
    (let normalized = to_slash rest
     in case split_once CHR ''/'' normalized of
          None \<Rightarrow> Inl ''SMB UNC path missing share path''
        | Some (authority, path_and_query) \<Rightarrow>
            if authority = [] then Inl ''SMB UNC path missing host''
            else
              let (host, port) = parse_host_port authority;
                  (path_part, query_part) = split_optional CHR ''?'' path_and_query
              in case filter (\<lambda>s. s \<noteq> []) (split_on CHR ''/'' path_part) of
                   [] \<Rightarrow> Inl ''SMB UNC path missing share name''
                 | share # segments \<Rightarrow>
                     let (username, password) = parse_query_credentials query_part
                     in Inr ((smb_credentials (smb_sub_path (smb_new host share) (join_with CHR ''/'' segments))
                          username password)\<lparr>sl_port := port\<rparr>))"

definition SMB_SLASH :: string where
  "SMB_SLASH = ''smb://''"

definition SMB_UNC :: string where
  "SMB_UNC = ''smb:'' @ [CHR 0x5C, CHR 0x5C]"

definition smb_from_url :: "string \<Rightarrow> string + smb_location" where
  "smb_from_url spec =
    (case strip_prefix SMB_SLASH spec of
       Some rest \<Rightarrow> parse_slash_form rest
     | None \<Rightarrow>
         (case strip_prefix SMB_UNC spec of
            Some rest \<Rightarrow> parse_uncish_form rest
          | None \<Rightarrow> Inl (''SMB URL must start with smb://, got: '' @ spec)))"

definition smb_display :: "smb_location \<Rightarrow> string" where
  "smb_display l =
    (let base = (if sl_sub_path l = [] then ''smb://'' @ sl_host l @ ''/'' @ sl_share l
                 else ''smb://'' @ sl_host l @ ''/'' @ sl_share l @ ''/'' @ sl_sub_path l)
     in case sl_username l of Some u \<Rightarrow> base @ ''?username='' @ u | None \<Rightarrow> base)"

definition synthetic_root :: "smb_location \<Rightarrow> string" where
  "synthetic_root l =
    (let root = ''/__smb/'' @ sl_host l @ ''/'' @ sl_share l
     in if sl_sub_path l = [] then root else path_join root (sl_sub_path l))"

text \<open>The path below the share, with the separators of SMB.\<close>

definition to_backslash :: "string \<Rightarrow> string" where
  "to_backslash s = map (\<lambda>c. if c = CHR ''/'' then CHR 0x5C else c) s"

definition share_relative_path :: "smb_location \<Rightarrow> string \<Rightarrow> string" where
  "share_relative_path l relative_path =
    (let relative_path = normalize_relative_path relative_path
     in if sl_sub_path l = [] then to_backslash relative_path
        else if relative_path = [] then to_backslash (sl_sub_path l)
        else to_backslash (sl_sub_path l) @ [CHR 0x5C] @ to_backslash relative_path)"

section \<open>Locations\<close>

datatype data_location = LocalAt string | NfsAt nfs_location | SmbAt smb_location

text \<open>Both features are compiled in.\<close>

definition from_nfs_url :: "string \<Rightarrow> string + data_location" where
  "from_nfs_url url = andThen (nfs_from_url url) (\<lambda>l. Inr (NfsAt l))"

definition from_smb_url :: "string \<Rightarrow> string + data_location" where
  "from_smb_url url = andThen (smb_from_url url) (\<lambda>l. Inr (SmbAt l))"

fun is_local :: "data_location \<Rightarrow> bool" where
  "is_local (LocalAt p) = True"
| "is_local _ = False"

fun local_path :: "data_location \<Rightarrow> string option" where
  "local_path (LocalAt p) = Some p"
| "local_path _ = None"

fun display_string :: "data_location \<Rightarrow> string" where
  "display_string (LocalAt p) = p"
| "display_string (NfsAt l) = nfs_display l"
| "display_string (SmbAt l) = smb_display l"

fun base_path :: "data_location \<Rightarrow> string" where
  "base_path (LocalAt p) = p"
| "base_path (NfsAt l) = nfs_base_path l"
| "base_path (SmbAt l) = synthetic_root l"

definition control_path_base :: "data_location \<Rightarrow> string" where
  "control_path_base loc =
    (case loc of
       LocalAt p \<Rightarrow> p
     | _ \<Rightarrow> (case path_parent (base_path loc) of Some p \<Rightarrow> p | None \<Rightarrow> base_path loc))"

definition logical_source_root :: "data_location \<Rightarrow> string" where
  "logical_source_root loc =
    (if is_local loc then ''/''
     else (case path_file_name (base_path loc) of Some name \<Rightarrow> ''/'' @ name | None \<Rightarrow> ''/''))"

fun kind_name :: "data_location \<Rightarrow> string" where
  "kind_name (LocalAt p) = ''local''"
| "kind_name (NfsAt l) = ''nfs''"
| "kind_name (SmbAt l) = ''smb''"

text \<open>\<^verbatim>\<open>parse_manifest_source_base\<close> of \<^verbatim>\<open>frame/restore_job.rs\<close>\<close>

definition parse_manifest_source_base :: "string \<Rightarrow> string" where
  "parse_manifest_source_base spec =
    (if prefix ''nfs://'' spec then (case from_nfs_url spec of Inr loc \<Rightarrow> base_path loc | Inl e \<Rightarrow> spec)
     else if prefix SMB_SLASH spec \<or> prefix SMB_UNC spec
     then (case from_smb_url spec of Inr loc \<Rightarrow> base_path loc | Inl e \<Rightarrow> spec)
     else spec)"

section \<open>What a manifest says of its source\<close>

lemma split_once_None: "split_once c s = None \<longleftrightarrow> c \<notin> set s"
  by (induction s) auto

lemma piece_comp_Nil [simp]: "piece_comp b [] = []"
  by (simp add: piece_comp_def)

text \<open>Joining and writing a slash between two paths mean the same path.\<close>

lemma components_join_abs:
  assumes "prefix ''/'' p" and "\<not> prefix ''/'' q"
  shows "path_components (path_join p q) = path_components (p @ ''/'' @ q)"
proof -
  have abs: "prefix ''/'' (p @ r)" for r using assms(1) by (auto simp: prefix_def)
  show ?thesis
  proof (cases "last p = CHR ''/''")
    case True
    with assms(1) obtain p' where p: "p = p' @ ''/''" by (cases p rule: rev_cases) auto
    have "path_join p q = p @ q" using True assms by (simp add: path_join_def)
    then show ?thesis
      using abs [of q] abs [of "''/'' @ q"] by (simp add: path_components_def p split_on_at)
  qed (use assms in \<open>auto simp: path_join_def\<close>)
qed

lemma trim_start_head: "\<not> prefix [c] (trim_start c s)"
  by (induction s) (auto simp: trim_start_def)

text \<open>A text that is a host and no port.\<close>

definition plain_host :: "string \<Rightarrow> bool" where
  "plain_host h \<longleftrightarrow> h \<noteq> [] \<and> CHR ''/'' \<notin> set h \<and> parse_host_port h = (h, None)"

definition segments_ok :: "string \<Rightarrow> bool" where
  "segments_ok s \<longleftrightarrow> s = [] \<or> [] \<notin> set (split_on CHR ''/'' s)"

fun location_ok :: "data_location \<Rightarrow> bool" where
  "location_ok (LocalAt p) \<longleftrightarrow> \<not> prefix ''nfs://'' p \<and> \<not> prefix SMB_SLASH p \<and> \<not> prefix SMB_UNC p"
| "location_ok (NfsAt l) \<longleftrightarrow> plain_host (nl_host l) \<and> prefix ''/'' (nl_export l) \<and> nl_export l \<noteq> ''/''
     \<and> CHR ''?'' \<notin> set (nl_export l) \<and> CHR ''?'' \<notin> set (nl_sub_path l)"
| "location_ok (SmbAt l) \<longleftrightarrow> plain_host (sl_host l) \<and> sl_share l \<noteq> [] \<and> CHR ''/'' \<notin> set (sl_share l)
     \<and> CHR ''?'' \<notin> set (sl_share l) \<and> segments_ok (sl_sub_path l) \<and> CHR ''?'' \<notin> set (sl_sub_path l)
     \<and> CHR 0x5C \<notin> set (sl_sub_path l)
     \<and> (case sl_username l of None \<Rightarrow> True | Some u \<Rightarrow> CHR ''&'' \<notin> set u \<and> CHR ''?'' \<notin> set u)"

lemma nfs_url_of_path:
  assumes "plain_host host" and "prefix ''/'' path" and "path \<noteq> ''/''" and "CHR ''?'' \<notin> set path"
  shows "nfs_from_url (''nfs://'' @ host @ path) = Inr (nfs_new host path)"
proof -
  obtain after where after: "path = CHR ''/'' # after" using assms(2) by (cases path) auto
  have "split_once CHR ''/'' (host @ path) = Some (host, after)"
    using assms(1) by (simp add: plain_host_def after split_once_append)
  moreover have "split_once CHR ''?'' path = None" using assms(4) by (simp add: split_once_None)
  moreover have "strip_prefix ''nfs://'' (''nfs://'' @ host @ path) = Some (host @ path)"
    by (rule strip_prefix_append)
  ultimately show ?thesis
    using assms(1,3) by (simp add: nfs_from_url_def plain_host_def after nfs_credentials_def nfs_new_def nfs_default_def)
qed

lemma trim_both_segments: "segments_ok s \<Longrightarrow> trim_both CHR ''/'' s = s"
proof (cases "s = []")
  case False
  assume "segments_ok s"
  with False have ne: "[] \<notin> set (split_on CHR ''/'' s)" by (simp add: segments_ok_def)
  have "hd s \<noteq> CHR ''/''"
  proof
    assume "hd s = CHR ''/''"
    with False obtain t where "s = CHR ''/'' # t" by (cases s) auto
    with ne show False by simp
  qed
  moreover have "last s \<noteq> CHR ''/''"
  proof
    assume "last s = CHR ''/''"
    with False obtain t where "s = t @ CHR ''/'' # []" by (cases s rule: rev_cases) auto
    with ne show False by (simp add: split_on_at del: append_Cons)
  qed
  ultimately show ?thesis by (simp add: trim_both_def trim_end_id trim_start_id)
qed (simp add: trim_both_def trim_end_id trim_start_id)

lemma credentials_of_username:
  assumes "CHR ''&'' \<notin> set u" and "CHR ''?'' \<notin> set u"
  shows "parse_query_credentials (Some (''username='' @ u)) = (Some u, None)"
proof -
  let ?q = "''username='' @ u"
  have "map (\<lambda>c. if c = CHR ''?'' then CHR ''&'' else c) ?q = ?q"
    using assms(2) by (intro map_idI) auto
  moreover have "split_on CHR ''&'' ?q = [?q]" using assms(1) by (intro split_on_id) auto
  moreover have "split_once CHR ''='' ?q = Some (''username'', u)"
    using split_once_append [of "CHR ''=''" "''username''" u] by simp
  ultimately show ?thesis by (simp add: parse_query_credentials_def credential_step_def)
qed

lemma parse_slash_form_eq:
  assumes "plain_host host" and "split_optional CHR ''?'' rest = (path, query)"
    and "filter (\<lambda>s. s \<noteq> []) (split_on CHR ''/'' path) = share # segs"
  shows "parse_slash_form (host @ CHR ''/'' # rest) = Inr ((smb_credentials (smb_sub_path (smb_new host share)
    (join_with CHR ''/'' segs)) (fst (parse_query_credentials query)) (snd (parse_query_credentials query)))\<lparr>sl_port := None\<rparr>)"
  using assms by (simp add: parse_slash_form_def plain_host_def split_once_append split_beta)

text \<open>What is shown of an SMB location names it again, without the port and without the password.\<close>

lemma smb_url_of_display:
  assumes "location_ok (SmbAt l)"
  shows "smb_from_url (smb_display l) = Inr (l\<lparr>sl_port := None, sl_password := None\<rparr>)"
proof -
  let ?path = "sl_share l @ (if sl_sub_path l = [] then [] else CHR ''/'' # sl_sub_path l)"
  let ?q = "case sl_username l of Some u \<Rightarrow> CHR ''?'' # ''username='' @ u | None \<Rightarrow> []"
  from assms have host: "sl_host l \<noteq> []" "CHR ''/'' \<notin> set (sl_host l)" "parse_host_port (sl_host l) = (sl_host l, None)"
    and share: "sl_share l \<noteq> []" "CHR ''/'' \<notin> set (sl_share l)"
    and sub: "segments_ok (sl_sub_path l)" "CHR 0x5C \<notin> set (sl_sub_path l)"
    and quest: "CHR ''?'' \<notin> set ?path"
    and user: "\<And>u. sl_username l = Some u \<Longrightarrow> CHR ''&'' \<notin> set u \<and> CHR ''?'' \<notin> set u"
    by (auto simp: plain_host_def)
  have shown: "smb_display l = SMB_SLASH @ sl_host l @ CHR ''/'' # ?path @ ?q"
    by (auto simp: smb_display_def SMB_SLASH_def split: option.splits)
  have query: "split_optional CHR ''?'' (?path @ ?q)
      = (?path, map_option (\<lambda>u. ''username='' @ u) (sl_username l))"
    using split_once_append [OF quest] iffD2 [OF split_once_None quest]
    by (cases "sl_username l") (simp_all add: split_optional_def)
  have creds: "parse_query_credentials (map_option (\<lambda>u. ''username='' @ u) (sl_username l)) = (sl_username l, None)"
    using credentials_of_username user by (cases "sl_username l") (auto simp: parse_query_credentials_def)
  have segs: "filter (\<lambda>s. s \<noteq> []) (split_on CHR ''/'' ?path)
      = sl_share l # (if sl_sub_path l = [] then [] else split_on CHR ''/'' (sl_sub_path l))"
    using share sub(1) by (auto simp: split_on_id split_on_append_sep segments_ok_def filter_id_conv)
  have norm: "normalize_segmentish_path (sl_sub_path l) = sl_sub_path l"
    using sub by (simp add: normalize_segmentish_path_def to_slash_id trim_both_segments)
  have rejoin: "join_with CHR ''/'' (if sl_sub_path l = [] then [] else split_on CHR ''/'' (sl_sub_path l)) = sl_sub_path l"
    by simp
  have "plain_host (sl_host l)" using assms by simp
  from parse_slash_form_eq [OF this query segs] have
    "parse_slash_form (sl_host l @ CHR ''/'' # ?path @ ?q) = Inr (l\<lparr>sl_port := None, sl_password := None\<rparr>)"
    unfolding rejoin creds by (simp add: norm smb_credentials_def smb_sub_path_def smb_new_def)
  then show ?thesis
    unfolding smb_from_url_def shown by (simp only: strip_prefix_append option.case)
qed

text \<open>
  C31. The base path of a source survives the manifest: what a restore reads from the text a backup has
  written for its source, a local path, an NFS export with a path below it or an SMB share, means the
  same path as the base the backup worked with, although port, credentials and the split into export and
  path are not kept.
\<close>

theorem manifest_source_base:
  assumes "location_ok loc"
  shows "path_components (parse_manifest_source_base (display_string loc)) = path_components (base_path loc)"
proof (cases loc)
  case (LocalAt p)
  with assms show ?thesis by (simp add: parse_manifest_source_base_def)
next
  case (NfsAt l)
  let ?path = "nl_export l @ (if nl_sub_path l = [] then [] else ''/'' @ trim_start CHR ''/'' (nl_sub_path l))"
  from assms NfsAt have host: "plain_host (nl_host l)" and path: "prefix ''/'' (nl_export l)" "nl_export l \<noteq> ''/''"
    and quest: "CHR ''?'' \<notin> set (nl_export l)" "CHR ''?'' \<notin> set (nl_sub_path l)"
    by auto
  have "set (trim_start CHR ''/'' (nl_sub_path l)) \<subseteq> set (nl_sub_path l)"
    unfolding trim_start_def by (rule set_dropWhileD [THEN subsetI])
  with quest have "CHR ''?'' \<notin> set ?path" by auto
  moreover have "prefix ''/'' ?path" "?path \<noteq> ''/''" using path by (auto simp: prefix_def)
  ultimately have url: "nfs_from_url (''nfs://'' @ nl_host l @ ?path) = Inr (nfs_new (nl_host l) ?path)"
    using nfs_url_of_path [OF host, of ?path] by blast
  have shown: "nfs_display l = ''nfs://'' @ nl_host l @ ?path" by (simp add: nfs_display_def)
  have "prefix ''nfs://'' (nfs_display l)" by (simp add: nfs_display_def)
  then have "parse_manifest_source_base (nfs_display l)
      = (case andThen (nfs_from_url (nfs_display l)) (\<lambda>l. Inr (NfsAt l)) of Inr loc \<Rightarrow> base_path loc | Inl e \<Rightarrow> nfs_display l)"
    unfolding parse_manifest_source_base_def from_nfs_url_def by (simp only: if_True)
  then have "parse_manifest_source_base (nfs_display l) = ?path"
    unfolding shown url by (simp add: nfs_base_path_def nfs_new_def nfs_default_def)
  moreover have "path_components ?path = path_components (nfs_base_path l)"
    using components_join_abs [OF path(1) trim_start_head] by (simp add: nfs_base_path_def)
  ultimately show ?thesis using NfsAt by simp
next
  case (SmbAt l)
  have "prefix SMB_SLASH (smb_display l)" "\<not> prefix ''nfs://'' (smb_display l)"
    by (auto simp: smb_display_def SMB_SLASH_def Let_def split: option.splits)
  moreover have "synthetic_root (l\<lparr>sl_port := None, sl_password := None\<rparr>) = synthetic_root l"
    by (simp add: synthetic_root_def Let_def)
  ultimately show ?thesis
    using SmbAt smb_url_of_display [of l] assms by (simp add: parse_manifest_source_base_def from_smb_url_def)
qed

definition sample_share :: smb_location where
  "sample_share = \<lparr>sl_host = ''srv'', sl_share = ''data'', sl_sub_path = ''a/b'', sl_port = Some 445,
     sl_username = Some ''u'', sl_password = Some ''p''\<rparr>"

theorem manifest_source_base_witness:
  "path_components (parse_manifest_source_base (display_string (SmbAt sample_share)))
    = path_components (base_path (SmbAt sample_share))"
  by (rule manifest_source_base)
    (simp add: sample_share_def plain_host_def parse_host_port_def rsplit_once_def segments_ok_def)

end
