(* ===== verification/ControlPlan.thy ===== *)
theory ControlPlan
  imports Locations FullBackup ScanFilter "HOL-Library.Product_Lexorder"
begin

text \<open>
  \<^verbatim>\<open>scanner/metadata/control_plan.rs\<close>: the control files of a restore, made from the metadata of
  a backup. A full plan lists every directory of the scan with all its files, in the order of the logical
  paths; a fine-grained one what lies at or below the requested paths; the third mode is the incremental
  diff of \<^theory_text>\<open>Diff\<close>. The metadata directory and the directory of the control files are lists of
  files, a failure anywhere leaves the function with an error.
\<close>

section \<open>Data\<close>

datatype control_plan_mode = PlanFull | PlanDiff "files option" | PlanFineGrain "string list"

record generated_control_plan =
  gp_copy_files :: "string list"
  gp_hardlink_file :: "string option"
  gp_mtime_file :: "string option"
  gp_delete_file :: "string option"

record source_layout =
  la_source_kind :: string
  la_physical_base :: string
  la_logical_root :: string

record dir_record =
  dr_logical_path :: string
  dr_dcache :: dir_cache_entry
  dr_atime :: u64
  dr_mtime :: u64
  dr_mode :: u32
  dr_uid :: u32
  dr_gid :: u32

record file_selection =
  fsel_meta_fid :: u32
  fsel_meta_offset :: u32
  fsel_name :: string
  fsel_logical_path :: string
  fsel_inode :: u64
  fsel_devno :: u64
  fsel_links :: u64

text \<open>The two hash sets are only asked for their members.\<close>

record fine_grain_selection =
  requested_dirs :: "string list"
  requested_files :: "string list"

section \<open>Paths\<close>

definition source_layout_from_spec :: "string \<Rightarrow> source_layout" where
  "source_layout_from_spec spec =
    (let location =
       (if prefix ''nfs://'' spec
        then (case from_nfs_url spec of Inr l \<Rightarrow> l | Inl _ \<Rightarrow> LocalAt spec)
        else if prefix SMB_SLASH spec \<or> prefix SMB_UNC spec
        then (case from_smb_url spec of Inr l \<Rightarrow> l | Inl _ \<Rightarrow> LocalAt spec)
        else LocalAt spec)
     in \<lparr>la_source_kind = kind_name location, la_physical_base = control_path_base location,
         la_logical_root = logical_source_root location\<rparr>)"

definition normalize_metadata_path :: "source_layout \<Rightarrow> string \<Rightarrow> string" where
  "normalize_metadata_path la path =
    (if \<not> path_starts_with path (la_physical_base la) \<and> path_starts_with path (la_logical_root la)
     then normalize_logical path
     else let rel = (case path_strip_prefix path (la_physical_base la) of Some p \<Rightarrow> p | None \<Rightarrow> path)
       in normalize_logical (''/'' @ trim_start CHR ''/'' rel))"

definition path_prefix_matches :: "string \<Rightarrow> string \<Rightarrow> bool" where
  "path_prefix_matches pre candidate =
    (let pre = normalize_logical pre; candidate = normalize_logical candidate
     in pre = ''/'' \<or> candidate = pre \<or> strip_prefix (pre @ ''/'') candidate \<noteq> None)"

definition path_is_ancestor :: "string \<Rightarrow> string \<Rightarrow> bool" where
  "path_is_ancestor dpath file_path =
    (let dpath = normalize_logical dpath; file_path = normalize_logical file_path
     in dpath = ''/'' \<or> strip_prefix (dpath @ ''/'') file_path \<noteq> None)"

definition normalize_requested_path :: "source_layout \<Rightarrow> string \<Rightarrow> string" where
  "normalize_requested_path la raw =
    (if prefix ''/'' raw \<and> path_starts_with raw (la_physical_base la) then normalize_metadata_path la raw
     else let normalized = normalize_logical raw
       in if la_logical_root la = ''/'' then normalized
          else if normalized = la_logical_root la \<or> path_prefix_matches (la_logical_root la) normalized then normalized
          else normalize_logical (trim_end CHR ''/'' (la_logical_root la) @ ''/'' @ trim_start CHR ''/'' normalized))"

definition join_logical_child :: "string \<Rightarrow> string \<Rightarrow> string" where
  "join_logical_child dpath name =
    (if dpath = ''/'' then normalize_logical (''/'' @ name)
     else normalize_logical (trim_end CHR ''/'' dpath @ ''/'' @ name))"

definition include_dir :: "fine_grain_selection \<Rightarrow> string \<Rightarrow> bool" where
  "include_dir sel dpath =
    (list_ex (\<lambda>pre. path_prefix_matches pre dpath) (requested_dirs sel)
     \<or> list_ex (\<lambda>f. path_is_ancestor dpath f) (requested_files sel))"

definition include_file :: "fine_grain_selection \<Rightarrow> string \<Rightarrow> bool" where
  "include_file sel file_path =
    (file_path \<in> set (requested_files sel)
     \<or> list_ex (\<lambda>pre. path_prefix_matches pre file_path) (requested_dirs sel))"

section \<open>Reading the metadata\<close>

definition parse_cache_fid :: "string \<Rightarrow> string \<Rightarrow> u32 io" where
  "parse_cache_fid file_name pre =
    (case strip_prefix pre file_name of
       None \<Rightarrow> Inl InvalidData
     | Some s \<Rightarrow>
         (case strip_suffix ''.dat'' s of
            None \<Rightarrow> Inl InvalidData
          | Some raw \<Rightarrow> (case parse_uint 32 raw of Some n \<Rightarrow> Inr (of_nat n) | None \<Rightarrow> Inl InvalidData)))"

definition dir_record_of :: "source_layout \<Rightarrow> dir_cache_entry \<Rightarrow> dir_meta \<Rightarrow> dir_record" where
  "dir_record_of la dcache dmeta =
    \<lparr>dr_logical_path = normalize_metadata_path la (dm_path dmeta), dr_dcache = dcache,
     dr_atime = ucast (mc_atime (dm_common dmeta)), dr_mtime = ucast (mc_mtime (dm_common dmeta)),
     dr_mode = mc_mode (dm_common dmeta), dr_uid = 0, dr_gid = 0\<rparr>"

definition load_dir_record ::
  "diff_formats \<Rightarrow> source_layout \<Rightarrow> files \<Rightarrow> bin_reader \<Rightarrow> nat \<Rightarrow> dir_record list \<Rightarrow> meta_error + dir_record list" where
  "load_dir_record fm la fs r idx dirs =
    andThen (lift_io (read_object (fmt_dirs fm) r (of_nat idx))) (\<lambda>dcache.
    andThen (get_dmeta (fmt_meta fm) fs (dce_meta_loc dcache)) (\<lambda>dmeta.
      Inr (dirs @ [dir_record_of la dcache dmeta])))"

definition load_dir_shard ::
  "diff_formats \<Rightarrow> source_layout \<Rightarrow> files \<Rightarrow> string \<Rightarrow> dir_record list \<Rightarrow> meta_error + dir_record list" where
  "load_dir_shard fm la fs file_name dirs =
    (if \<not> prefix ''dcache_'' file_name \<or> suffix ''.tmp'' file_name then Inr dirs
     else andThen (lift_io (parse_cache_fid file_name ''dcache_'')) (\<lambda>shard_id.
       if file_content fs (dir_cache_name shard_id) = None then Inr dirs
       else andThen (lift_io (bin_reader_open fs (dir_cache_name shard_id))) (\<lambda>r.
         fold_err (load_dir_record fm la fs r) [0..<unat (total_count (fmt_dirs fm) r)] dirs)))"

definition load_sorted_dirs :: "diff_formats \<Rightarrow> source_layout \<Rightarrow> files \<Rightarrow> meta_error + dir_record list" where
  "load_sorted_dirs fm la fs =
    andThen (fold_err (load_dir_shard fm la fs) (map fst fs) []) (\<lambda>dirs.
      Inr (sort_key dr_logical_path dirs))"

definition file_selection_of :: "dir_record \<Rightarrow> file_cache_entry \<Rightarrow> file_meta \<Rightarrow> file_selection" where
  "file_selection_of dir e f =
    \<lparr>fsel_meta_fid = fst (fce_meta_loc e), fsel_meta_offset = snd (fce_meta_loc e), fsel_name = mc_name (fm_common f),
     fsel_logical_path = join_logical_child (dr_logical_path dir) (mc_name (fm_common f)),
     fsel_inode = mc_id (fm_common f), fsel_devno = mc_devno (fm_common f), fsel_links = fm_links f\<rparr>"

definition selection_takes :: "fine_grain_selection option \<Rightarrow> file_selection \<Rightarrow> bool" where
  "selection_takes sel f = (case sel of Some s \<Rightarrow> include_file s (fsel_logical_path f) | None \<Rightarrow> True)"

definition select_file ::
  "diff_formats \<Rightarrow> files \<Rightarrow> fine_grain_selection option \<Rightarrow> dir_record \<Rightarrow> bin_reader \<Rightarrow> nat \<Rightarrow> file_selection list \<Rightarrow>
   meta_error + file_selection list" where
  "select_file fm fs sel dir r i selected =
    andThen (lift_io (read_object (fmt_files fm) r (start_idx (dr_dcache dir) + of_nat i))) (\<lambda>e.
    andThen (get_fmeta (fmt_meta fm) fs (fce_meta_loc e)) (\<lambda>fmeta.
      let f = file_selection_of dir e fmeta
      in if selection_takes sel f then Inr (selected @ [f]) else Inr selected))"

definition collect_selected_files ::
  "diff_formats \<Rightarrow> files \<Rightarrow> dir_record \<Rightarrow> fine_grain_selection option \<Rightarrow> meta_error + file_selection list" where
  "collect_selected_files fm fs dir sel =
    andThen (lift_io (bin_reader_open fs (file_cache_name (dce_fcache_fid (dr_dcache dir))))) (\<lambda>r.
      fold_err (select_file fm fs sel dir r) [0..<unat (dce_files_count (dr_dcache dir))] [])"

section \<open>What a fine-grained request names\<close>

text \<open>The loops over directories and files end as soon as nothing is unresolved.\<close>

fun resolve_files :: "file_selection list \<Rightarrow> string list \<Rightarrow> string list \<Rightarrow> string list \<times> string list" where
  "resolve_files [] unresolved found = (unresolved, found)"
| "resolve_files (f # fs) unresolved found =
    (let lp = fsel_logical_path f;
         (unresolved, found) =
           (if lp \<in> set unresolved then (removeAll lp unresolved, List.insert lp found) else (unresolved, found))
     in if unresolved = [] then (unresolved, found) else resolve_files fs unresolved found)"

fun resolve_dirs ::
  "diff_formats \<Rightarrow> files \<Rightarrow> dir_record list \<Rightarrow> string list \<Rightarrow> fine_grain_selection \<Rightarrow>
   meta_error + string list \<times> fine_grain_selection" where
  "resolve_dirs fm fs [] unresolved sel = Inr (unresolved, sel)"
| "resolve_dirs fm fs (dir # dirs) unresolved sel =
    (let lp = dr_logical_path dir;
         (unresolved, sel) =
           (if lp \<in> set unresolved
            then (removeAll lp unresolved, sel\<lparr>requested_dirs := List.insert lp (requested_dirs sel)\<rparr>)
            else (unresolved, sel))
     in if unresolved = [] then Inr (unresolved, sel)
        else andThen (collect_selected_files fm fs dir None) (\<lambda>files.
          let (unresolved, found) = resolve_files files unresolved (requested_files sel);
              sel = sel\<lparr>requested_files := found\<rparr>
          in if unresolved = [] then Inr (unresolved, sel) else resolve_dirs fm fs dirs unresolved sel))"

text \<open>The message of the error lists the paths that are missing, which are not kept here.\<close>

definition classify_fine_grain_selection ::
  "diff_formats \<Rightarrow> files \<Rightarrow> string \<Rightarrow> string list \<Rightarrow> meta_error + fine_grain_selection" where
  "classify_fine_grain_selection fm fs source_spec requested_paths =
    (let la = source_layout_from_spec source_spec
     in andThen (load_sorted_dirs fm la fs) (\<lambda>dirs.
        andThen (resolve_dirs fm fs dirs (remdups (map (normalize_requested_path la) requested_paths))
            \<lparr>requested_dirs = [], requested_files = []\<rparr>) (\<lambda>(unresolved, sel).
          if unresolved \<noteq> [] then Inl (MetaIo NotFound) else Inr sel)))"

section \<open>Writing the plan\<close>

record plan_state =
  pl_copy :: shard_manager
  pl_mtime :: control_writer
  pl_hardlinks :: "((u64 \<times> u64) \<times> hardlink_file_entry list) list"
  pl_emitted_copy :: bool
  pl_emitted_mtime :: bool

definition plan_dir_entry :: "dir_record \<Rightarrow> file_selection list \<Rightarrow> dir_control_entry" where
  "plan_dir_entry dir fs =
    \<lparr>dc_path = dr_logical_path dir, dc_diff = DirNew, dc_meta_fid = fst (dce_meta_loc (dr_dcache dir)),
     dc_meta_offset = snd (dce_meta_loc (dr_dcache dir)), dc_files_count = of_nat (length fs)\<rparr>"

definition plan_file_entry :: "file_selection \<Rightarrow> file_control_entry" where
  "plan_file_entry f =
    \<lparr>fc_name = fsel_name f, fc_diff = FileNew, fc_meta_fid = fsel_meta_fid f, fc_meta_offset = fsel_meta_offset f\<rparr>"

definition plan_mtime_entry :: "dir_record \<Rightarrow> mtime_dir_entry" where
  "plan_mtime_entry dir =
    \<lparr>md_path = dr_logical_path dir, md_mode = dr_mode dir, md_uid = dr_uid dir, md_gid = dr_gid dir,
     md_atime = dr_atime dir, md_mtime = dr_mtime dir\<rparr>"

text \<open>\<^verbatim>\<open>entry(key).or_default().push(x)\<close>\<close>

definition bt_push :: "'k::linorder \<Rightarrow> 'v \<Rightarrow> ('k \<times> 'v list) list \<Rightarrow> ('k \<times> 'v list) list" where
  "bt_push k v m = bt_insert k ((case map_of m k of Some vs \<Rightarrow> vs | None \<Rightarrow> []) @ [v]) m"

definition plan_hardlink_entry :: "file_selection \<Rightarrow> hardlink_file_entry" where
  "plan_hardlink_entry f =
    \<lparr>hf_meta_fid = fsel_meta_fid f, hf_meta_offset = fsel_meta_offset f, hf_path = fsel_logical_path f\<rparr>"

definition plan_file ::
  "(byte list \<Rightarrow> byte list) \<Rightarrow> json_enc \<Rightarrow> dir_record \<Rightarrow> file_selection \<Rightarrow> plan_state \<Rightarrow> meta_error + plan_state" where
  "plan_file sha256 enc dir f st =
    andThen (lift_io (shard_write_file sha256 enc (pl_copy st) (dr_logical_path dir) (plan_file_entry f))) (\<lambda>m.
      Inr (st\<lparr>pl_copy := m, pl_emitted_copy := True,
        pl_hardlinks := (if 1 < fsel_links f
          then bt_push (fsel_inode f, fsel_devno f) (plan_hardlink_entry f) (pl_hardlinks st) else pl_hardlinks st)\<rparr>))"

definition plan_dir ::
  "(byte list \<Rightarrow> byte list) \<Rightarrow> json_enc \<Rightarrow> diff_formats \<Rightarrow> files \<Rightarrow> fine_grain_selection option \<Rightarrow> dir_record \<Rightarrow>
   plan_state \<Rightarrow> meta_error + plan_state" where
  "plan_dir sha256 enc fm fs sel dir st =
    (let inc = (case sel of Some s \<Rightarrow> include_dir s (dr_logical_path dir) | None \<Rightarrow> True)
     in andThen (collect_selected_files fm fs dir sel) (\<lambda>file_entries.
        if \<not> (inc \<or> file_entries \<noteq> []) then Inr st
        else
          andThen (lift_io (write_directory sha256 enc (pl_copy st) (plan_dir_entry dir file_entries) None)) (\<lambda>m.
          andThen (lift_io (mtime_write_dir (pl_mtime st) (plan_mtime_entry dir))) (\<lambda>mw.
            fold_err (plan_file sha256 enc dir) file_entries
              (st\<lparr>pl_copy := m, pl_emitted_copy := True, pl_mtime := mw, pl_emitted_mtime := True\<rparr>)))))"

definition plan_hardlink_group ::
  "(u64 \<times> u64) \<times> hardlink_file_entry list \<Rightarrow> control_writer \<times> bool \<Rightarrow> meta_error + control_writer \<times> bool" where
  "plan_hardlink_group g s =
    (let ((inode, device), fs) = g; (w, emitted) = s
     in if length fs < 2 then Inr (w, emitted)
        else andThen (lift_io (hardlink_write_inode w
               \<lparr>hi_inode = inode, hi_device = device, hi_link_count = of_nat (length fs)\<rparr>)) (\<lambda>w.
             andThen (fold_err (\<lambda>f w. lift_io (hardlink_write_file w f)) fs w) (\<lambda>w. Inr (w, True))))"

text \<open>An optional control file: kept when something was written to it, removed otherwise.\<close>

definition keep_or_remove :: "bool \<Rightarrow> string \<Rightarrow> byte list io \<Rightarrow> files \<Rightarrow> meta_error + files \<times> string option" where
  "keep_or_remove emitted path finish ctrl =
    (if emitted then andThen (lift_io finish) (\<lambda>c. Inr (file_set ctrl path c, Some path))
     else Inr (AList.delete path ctrl, None))"

definition finish_copy_files ::
  "(byte list \<Rightarrow> byte list) \<Rightarrow> json_enc \<Rightarrow> control_file_header \<Rightarrow> plan_state \<Rightarrow> meta_error + files \<times> string list" where
  "finish_copy_files sha256 enc copy_header st =
    andThen (lift_io (shard_finish enc (pl_copy st))) (\<lambda>(ctrl, paths).
      if \<not> pl_emitted_copy st then Inr (ctrl, [])
      else if paths = [] then
        (let copy_path = primary_control_file_name sha256 ''copy''
         in andThen (lift_io (copy_writer_new enc copy_header)) (\<lambda>w.
            andThen (lift_io (copy_finish enc w)) (\<lambda>c. Inr (file_set ctrl copy_path c, [copy_path]))))
      else Inr (ctrl, sort paths))"

definition generate_restore_plan ::
  "(byte list \<Rightarrow> byte list) \<Rightarrow> json_enc \<Rightarrow> u64 \<Rightarrow> diff_formats \<Rightarrow> files \<Rightarrow> files \<Rightarrow> string \<Rightarrow> fine_grain_selection option \<Rightarrow>
   nat \<Rightarrow> meta_error + generated_control_plan \<times> files" where
  "generate_restore_plan sha256 enc now fm fs ctrl source_spec sel copy_shards =
    (let la = source_layout_from_spec source_spec;
         copy_header = source_header now (la_source_kind la) (la_logical_root la)
     in andThen (load_sorted_dirs fm la fs) (\<lambda>dirs.
        andThen (lift_io (hardlink_writer_new enc now (la_source_kind la) (la_logical_root la))) (\<lambda>hw.
        andThen (lift_io (mtime_writer_new enc now (la_source_kind la) (la_logical_root la))) (\<lambda>mw.
        andThen (fold_err (plan_dir sha256 enc fm fs sel) dirs
            \<lparr>pl_copy = new_with_header ctrl ''copy'' (max copy_shards 1) copy_header, pl_mtime = mw, pl_hardlinks = [],
             pl_emitted_copy = False, pl_emitted_mtime = False\<rparr>) (\<lambda>st.
        andThen (fold_err plan_hardlink_group (pl_hardlinks st) (hw, False)) (\<lambda>(hw, emitted_hardlink).
        andThen (finish_copy_files sha256 enc copy_header st) (\<lambda>(ctrl, copy_files).
        andThen (keep_or_remove emitted_hardlink (primary_control_file_name sha256 ''hardlink'')
            (hardlink_finish enc hw) ctrl) (\<lambda>(ctrl, hardlink_file).
        andThen (keep_or_remove (pl_emitted_mtime st) (primary_control_file_name sha256 ''mtime'')
            (mtime_finish enc (pl_mtime st)) ctrl) (\<lambda>(ctrl, mtime_file).
          Inr (\<lparr>gp_copy_files = copy_files, gp_hardlink_file = hardlink_file, gp_mtime_file = mtime_file,
                gp_delete_file = None\<rparr>, ctrl))))))))))"

definition generate_control_plan ::
  "(byte list \<Rightarrow> byte list) \<Rightarrow> json_enc \<Rightarrow> u64 \<Rightarrow> diff_formats \<Rightarrow> files \<Rightarrow> files \<Rightarrow> string \<Rightarrow> control_plan_mode \<Rightarrow>
   nat \<Rightarrow> meta_error + generated_control_plan \<times> files" where
  "generate_control_plan sha256 enc now fm fs ctrl source_spec mode copy_shards =
    (case mode of
       PlanFull \<Rightarrow> generate_restore_plan sha256 enc now fm fs ctrl source_spec None copy_shards
     | PlanFineGrain paths \<Rightarrow>
         andThen (classify_fine_grain_selection fm fs source_spec paths) (\<lambda>sel.
           generate_restore_plan sha256 enc now fm fs ctrl source_spec (Some sel) copy_shards)
     | PlanDiff prev \<Rightarrow>
         (let la = source_layout_from_spec source_spec;
              copy_path = primary_control_file_name sha256 ''copy'';
              delete_path = primary_control_file_name sha256 ''delete''
          in andThen (generate_incremental_control_files fm enc now prev fs (la_source_kind la) (la_logical_root la))
               (\<lambda>(copy_file, delete_file, _).
               Inr (\<lparr>gp_copy_files = [copy_path], gp_hardlink_file = None, gp_mtime_file = None,
                     gp_delete_file = Some delete_path\<rparr>,
                    file_set (file_set ctrl copy_path copy_file) delete_path delete_file))))"

end
