(* ===== verification/RestorePlan.thy ===== *)
theory RestorePlan
  imports ControlPlan
begin

text \<open>
  What the plans of \<^theory_text>\<open>ControlPlan\<close> contain, over the metadata that \<^theory_text>\<open>write_scan\<close> of
  \<^theory_text>\<open>FullBackup\<close> leaves: a full plan lists every directory of the scan with its files, ordered by
  logical path and split over the copy shards by the hash of the directory; a fine-grained one lists what
  lies at or below the requests, and fails when a request is in no directory. Both read back from the
  written control files.
\<close>


section \<open>Loading what a scan has stored\<close>

lemma fold_err_skip:
  assumes "\<And>x s. \<not> P x \<Longrightarrow> f x s = Inr s"
  shows "fold_err f xs s = fold_err f (filter P xs) s"
proof (induction xs arbitrary: s)
  case (Cons x xs)
  then show ?case using assms by (cases "f x s"; cases "P x") auto
qed simp

lemma selection_takes_None [simp]: "selection_takes None f"
  by (simp add: selection_takes_def)

lemma select_file_filter:
  "select_file fm fs sel dir r i (filter (selection_takes sel) acc)
    = andThen (select_file fm fs None dir r i acc) (\<lambda>fs. Inr (filter (selection_takes sel) fs))"
  unfolding select_file_def andThen_assoc
  by (intro arg_cong2 [where f = andThen] refl ext) (simp add: Let_def)

lemma collect_filter:
  "collect_selected_files fm fs dir sel
    = andThen (collect_selected_files fm fs dir None) (\<lambda>files. Inr (filter (selection_takes sel) files))"
proof -
  have "fold_err (select_file fm fs sel dir r) is (filter (selection_takes sel) acc)
      = andThen (fold_err (select_file fm fs None dir r) is acc) (\<lambda>files. Inr (filter (selection_takes sel) files))"
    for r "is" acc
  proof (induction "is" arbitrary: acc)
    case (Cons i "is")
    have ext: "fold_err (select_file fm fs sel dir r) is \<circ> filter (selection_takes sel)
        = (\<lambda>acc. andThen (fold_err (select_file fm fs None dir r) is acc) (\<lambda>files. Inr (filter (selection_takes sel) files)))"
      using Cons by (auto simp: fun_eq_iff)
    show ?case
      using fun_cong [OF ext]
      by (cases "select_file fm fs None dir r i acc") (simp_all add: select_file_filter andThen_assoc)
  qed simp
  from this [of _ _ "[]"] show ?thesis by (simp add: collect_selected_files_def andThen_assoc)
qed

text \<open>The files of a stored batch.\<close>

lemma collect_stored:
  assumes fm: "formats_ok fm" and stored: "batch_stored fm sha256 fs i k (de, fes, b)"
    and c: "file_content fs (file_cache_name i) = Some c" "holds_items (fmt_files fm) c xs"
    and at: "drop k xs = fes @ ys" and small: "length xs * FILE_CACHE_SIZE < 2 ^ 32" and dir: "dr_dcache dir = de"
  shows "collect_selected_files fm fs dir None = Inr (map2 (file_selection_of dir) fes (files_by_id b))"
proof -
  let ?r = "\<lparr>br_content = c, br_size = length c\<rparr>"
  from stored have d: "dce_files_count de = of_nat (length (db_files b))" "dce_fcache_fid de = i"
    "dce_fcache_offset de = of_nat (k * FILE_CACHE_SIZE)" "list_all2 (file_stored fm sha256 fs) fes (files_by_id b)"
    by simp_all
  have n: "length (files_by_id b) = length fes" "length (db_files b) = length fes"
    using list_all2_lengthD [OF d(4)] by (simp_all add: files_by_id_def)
  have len: "length xs - k = length fes + length ys" using arg_cong [OF at, of length] by simp
  have lt: "length xs < 2 ^ 32" using small by (simp add: FILE_CACHE_SIZE_def)
  have count: "unat (dce_files_count de) = length fes"
    using d(1) n(2) len lt by (simp add: unat_of_nat)
  have step: "select_file fm fs None dir ?r j acc = Inr (acc @ [file_selection_of dir (fes ! j) (files_by_id b ! j)])"
    if j: "j < length fes" for j acc
  proof -
    have kj: "k + j < length xs" using j len by linarith
    then have "k * FILE_CACHE_SIZE \<le> length xs * FILE_CACHE_SIZE" by (intro mult_le_mono1) simp
    then have "k * FILE_CACHE_SIZE < 2 ^ 32" using small by linarith
    from start_idx_at [OF this d(3)] have idx: "start_idx de + of_nat j = of_nat (k + j)" by simp
    have u: "unat (of_nat (k + j) :: u32) = k + j" using kj lt by (subst unat_of_nat) simp
    have "xs ! (k + j) = fes ! j"
      using at j kj by (metis nth_append nth_drop add.commute less_imp_le_nat add_leD1)
    then have "read_object (fmt_files fm) ?r (of_nat (k + j)) = Inr (fes ! j)"
      using read_object_held [OF c(2), of "of_nat (k + j)"] fm kj u
      by (simp add: formats_ok_def FILE_CACHE_SIZE_def)
    moreover have "get_fmeta (fmt_meta fm) fs (fce_meta_loc (fes ! j)) = Inr (files_by_id b ! j)"
      using list_all2_nthD [OF d(4) j] by (simp add: file_stored_def)
    ultimately show ?thesis by (simp add: select_file_def idx dir del: of_nat_add)
  qed
  have "fold_err (select_file fm fs None dir ?r) [0..<m] [] = Inr (take m (map2 (file_selection_of dir) fes (files_by_id b)))"
    if "m \<le> length fes" for m
    using that
  proof (induction m)
    case (Suc m)
    then show ?case
      using step [of m] n by (simp add: fold_err_append take_Suc_conv_app_nth)
  qed simp
  from this [of "length fes"] show ?thesis
    using c(1) d(2) count n by (simp add: collect_selected_files_def bin_reader_open_def dir)
qed

definition rec_record :: "source_layout \<Rightarrow> stored_batch \<Rightarrow> dir_record" where
  "rec_record la r = dir_record_of la (rec_dir r) (db_dir (rec_batch r))"

definition rec_selection :: "source_layout \<Rightarrow> stored_batch \<Rightarrow> file_selection list" where
  "rec_selection la r = map2 (file_selection_of (rec_record la r)) (rec_files r) (files_by_id (rec_batch r))"

lemma collect_all_stored:
  assumes fm: "formats_ok fm" and c: "file_content fs (file_cache_name i) = Some c" "holds_items (fmt_files fm) c xs"
    and small: "length xs * FILE_CACHE_SIZE < 2 ^ 32"
  shows "stored_from fm sha256 fs i k rs \<Longrightarrow> drop k xs = all_files rs \<Longrightarrow> r \<in> set rs \<Longrightarrow>
    collect_selected_files fm fs (rec_record la r) None = Inr (rec_selection la r)"
proof (induction rs arbitrary: k)
  case (Cons q rs)
  obtain de fes b where q: "q = (de, fes, b)" by (cases q)
  have at: "drop k xs = fes @ all_files rs" using Cons.prems(2) by (simp add: q)
  show ?case
  proof (cases "r = q")
    case True
    have "batch_stored fm sha256 fs i k (de, fes, b)" using Cons.prems(1) by (simp add: q)
    from collect_stored [OF fm this c at small, of "rec_record la q"] show ?thesis
      by (simp add: True rec_selection_def rec_record_def dir_record_of_def q)
  next
    case False
    have "drop (k + length fes) xs = all_files rs"
      using at by (metis append_eq_conv_conj drop_drop add.commute)
    with Cons.IH [of "k + length fes"] Cons.prems False show ?thesis by (simp add: q)
  qed
qed simp

lemma parse_dir_cache_name: "parse_cache_fid (dir_cache_name i) ''dcache_'' = Inr i"
proof -
  have "strip_suffix ''.dat'' (nat_str (unat i) @ ''.dat'') = Some (nat_str (unat i))"
    by (simp add: strip_suffix_def suffix_def)
  moreover have "parse_uint 32 (nat_str (unat i)) = Some (unat i)"
    using unsigned_less [of i, where ?'a = nat] by (simp add: parse_nat_str)
  moreover have "strip_prefix ''dcache_'' (dir_cache_name i) = Some (nat_str (unat i) @ ''.dat'')"
    unfolding dir_cache_name_def by (rule strip_prefix_append)
  ultimately show ?thesis by (simp add: parse_cache_fid_def)
qed

lemma load_dir_shard_stored:
  assumes fm: "formats_ok fm" and dc: "file_content fs (dir_cache_name i) = Some dc"
    and held: "holds_items (fmt_dirs fm) dc (map rec_dir rs)" and small: "length rs < 2 ^ 32"
    and stored: "\<forall>r \<in> set rs. \<exists>k. batch_stored fm sha256 fs i k r"
  shows "load_dir_shard fm la fs (dir_cache_name i) dirs = Inr (dirs @ map (rec_record la) rs)"
proof -
  let ?r = "\<lparr>br_content = dc, br_size = length dc\<rparr>"
  have sz: "fixed_size (fmt_dirs fm) = DIR_CACHE_SIZE" "0 < fixed_size (fmt_dirs fm)"
    using fm by (simp_all add: formats_ok_def DIR_CACHE_SIZE_def)
  have "length dc div DIR_CACHE_SIZE = length rs"
    using held sz(1) by (simp add: holds_items_def DIR_CACHE_SIZE_def)
  then have count: "unat (total_count (fmt_dirs fm) ?r) = length rs"
    using small by (simp add: total_count_def sz(1) unat_of_nat)
  have step: "load_dir_record fm la fs ?r j acc = Inr (acc @ [rec_record la (rs ! j)])" if j: "j < length rs" for j acc
  proof -
    have u: "unat (of_nat j :: u32) = j" using j small by (subst unat_of_nat) simp
    have "read_object (fmt_dirs fm) ?r (of_nat j) = Inr (rec_dir (rs ! j))"
      using read_object_held [OF held sz(2), of "of_nat j"] j u by simp
    moreover obtain de fes b k where "rs ! j = (de, fes, b)" "batch_stored fm sha256 fs i k (de, fes, b)"
      using stored nth_mem [OF j] by (metis prod_cases3)
    ultimately show ?thesis by (simp add: load_dir_record_def rec_record_def)
  qed
  have "fold_err (load_dir_record fm la fs ?r) [0..<m] dirs = Inr (dirs @ map (rec_record la) (take m rs))"
    if "m \<le> length rs" for m
    using that by (induction m) (simp_all add: step fold_err_append take_Suc_conv_app_nth)
  from this [of "length rs"] have
    "fold_err (load_dir_record fm la fs ?r) [0..<unat (total_count (fmt_dirs fm) ?r)] dirs = Inr (dirs @ map (rec_record la) rs)"
    by (simp add: count)
  moreover have "\<not> suffix ''.tmp'' (dir_cache_name i)"
    by (auto simp: dir_cache_name_def suffix_def dest!: arg_cong [where f = rev])
  ultimately show ?thesis
    using dc by (simp add: load_dir_shard_def dcache_prefix parse_dir_cache_name bin_reader_open_def)
qed

lemma load_shards_stored:
  assumes fm: "formats_ok fm" and ok: "writers_ok fm sha256 fs ts rss"
    and small: "\<forall>rs \<in> set rss. scan_entries (map rec_batch rs) * DIR_CACHE_SIZE < 2 ^ 32"
  shows "\<forall>i \<in> set is. i < length ts \<Longrightarrow>
    fold_err (load_dir_shard fm la fs) (map (\<lambda>i. dir_cache_name (of_nat i)) is) dirs
      = Inr (dirs @ map (rec_record la) (concat (map ((!) rss) is)))"
proof (induction "is" arbitrary: dirs)
  case (Cons i "is")
  let ?rs = "rss ! i"
  have i: "i < length ts" "?rs \<in> set rss"
    using Cons.prems ok by (simp_all add: writers_ok_def)
  then have t: "wt_shard (ts ! i) = of_nat i" "thread_ok fm sha256 fs (ts ! i) ?rs"
    using ok by (simp_all add: writers_ok_def)
  from t obtain dc where dc: "file_content fs (dir_cache_name (of_nat i)) = Some dc"
      "holds_items (fmt_dirs fm) dc (map rec_dir ?rs)"
    and stored: "stored_from fm sha256 fs (of_nat i) 0 ?rs"
    by (auto simp: thread_ok_def cache_holds_def)
  have "length ?rs * DIR_CACHE_SIZE \<le> scan_entries (map rec_batch ?rs) * DIR_CACHE_SIZE"
    using stored_entries [OF stored] by (intro mult_le_mono1) simp
  also have "\<dots> < 2 ^ 32" using small i(2) by blast
  finally have "length ?rs * DIR_CACHE_SIZE < 2 ^ 32" .
  then have "length ?rs < 2 ^ 32" by (simp add: DIR_CACHE_SIZE_def)
  moreover have "\<forall>r \<in> set ?rs. \<exists>k. batch_stored fm sha256 fs (of_nat i) k r"
    using all_stored [OF stored] by blast
  ultimately have "load_dir_shard fm la fs (dir_cache_name (of_nat i)) dirs = Inr (dirs @ map (rec_record la) ?rs)"
    by (rule load_dir_shard_stored [OF fm dc])
  with Cons show ?case by simp
qed simp

lemma load_sorted_stored:
  assumes fm: "formats_ok fm" and ok: "writers_ok fm sha256 fs ts rss"
    and names: "dcache_names fs = map (\<lambda>i. dir_cache_name (of_nat i)) [0..<length ts]"
    and small: "\<forall>rs \<in> set rss. scan_entries (map rec_batch rs) * DIR_CACHE_SIZE < 2 ^ 32"
  shows "load_sorted_dirs fm la fs = Inr (sort_key dr_logical_path (map (rec_record la) (concat rss)))"
proof -
  have "fold_err (load_dir_shard fm la fs) (map fst fs) []
      = fold_err (load_dir_shard fm la fs) (dcache_names fs) []"
    unfolding dcache_names_def by (rule fold_err_skip) (simp add: load_dir_shard_def)
  also have "\<dots> = Inr (map (rec_record la) (concat (map ((!) rss) [0..<length ts])))"
    unfolding names using load_shards_stored [OF fm ok small, of "[0..<length ts]"] by simp
  also have "map ((!) rss) [0..<length ts] = rss"
    using ok map_nth [of rss] by (simp add: writers_ok_def)
  finally show ?thesis by (simp add: load_sorted_dirs_def)
qed

section \<open>What a plan writes\<close>

text \<open>The directories with the files that are selected; a directory is left out when nothing asks for it.\<close>

definition dir_wanted :: "fine_grain_selection option \<Rightarrow> dir_record \<Rightarrow> bool" where
  "dir_wanted sel d = (case sel of Some s \<Rightarrow> include_dir s (dr_logical_path d) | None \<Rightarrow> True)"

type_synonym plan_group = "dir_record \<times> file_selection list"

definition plan_groups :: "fine_grain_selection option \<Rightarrow> plan_group list \<Rightarrow> plan_group list" where
  "plan_groups sel ds =
    filter (\<lambda>(d, fs). dir_wanted sel d \<or> fs \<noteq> []) (map (\<lambda>(d, fs). (d, filter (selection_takes sel) fs)) ds)"

fun group_ops :: "plan_group \<Rightarrow> shard_op list" where
  "group_ops (d, fs) = OpDir (plan_dir_entry d fs) None # map (\<lambda>f. OpFile (dr_logical_path d) (plan_file_entry f)) fs"

definition group_links :: "plan_group list \<Rightarrow> file_selection list" where
  "group_links gs = filter (\<lambda>f. 1 < fsel_links f) (concat (map snd gs))"

definition push_links :: "file_selection list \<Rightarrow> ((u64 \<times> u64) \<times> hardlink_file_entry list) list \<Rightarrow>
    ((u64 \<times> u64) \<times> hardlink_file_entry list) list" where
  "push_links fs m = fold (\<lambda>f. bt_push (fsel_inode f, fsel_devno f) (plan_hardlink_entry f)) fs m"

lemma plan_files_run:
  assumes "fold_err (shard_op_write sha256 enc) (map (\<lambda>f. OpFile (dr_logical_path d) (plan_file_entry f)) fs) (pl_copy st) = Inr m"
    and "pl_emitted_copy st"
  shows "fold_err (plan_file sha256 enc d) fs st
    = Inr (st\<lparr>pl_copy := m, pl_hardlinks := push_links (filter (\<lambda>f. 1 < fsel_links f) fs) (pl_hardlinks st)\<rparr>)"
  using assms
proof (induction fs arbitrary: st)
  case (Cons f fs)
  from Cons.prems obtain m1 where m1:
    "shard_write_file sha256 enc (pl_copy st) (dr_logical_path d) (plan_file_entry f) = Inr m1"
    "fold_err (shard_op_write sha256 enc) (map (\<lambda>f. OpFile (dr_logical_path d) (plan_file_entry f)) fs) m1 = Inr m"
    by (auto simp: andThen_Inr_iff)
  then show ?case
    using Cons.IH Cons.prems(2) by (simp add: plan_file_def push_links_def)
qed (simp add: push_links_def)

lemma plan_dirs_run:
  assumes "\<forall>d \<in> set ds. collect_selected_files fm fs d None = Inr (files d)"
    and "fold_err (shard_op_write sha256 enc) (concat (map group_ops (plan_groups sel (map (\<lambda>d. (d, files d)) ds)))) (pl_copy st) = Inr m"
    and "write_all mtime_write_dir (pl_mtime st) (map (\<lambda>g. plan_mtime_entry (fst g)) (plan_groups sel (map (\<lambda>d. (d, files d)) ds))) = Inr mw"
  shows "fold_err (plan_dir sha256 enc fm fs sel) ds st
    = Inr (st\<lparr>pl_copy := m, pl_mtime := mw,
        pl_hardlinks := push_links (group_links (plan_groups sel (map (\<lambda>d. (d, files d)) ds))) (pl_hardlinks st),
        pl_emitted_copy := (pl_emitted_copy st \<or> plan_groups sel (map (\<lambda>d. (d, files d)) ds) \<noteq> []),
        pl_emitted_mtime := (pl_emitted_mtime st \<or> plan_groups sel (map (\<lambda>d. (d, files d)) ds) \<noteq> [])\<rparr>)"
  using assms
proof (induction ds arbitrary: st)
  case (Cons d ds)
  let ?fs = "filter (selection_takes sel) (files d)"
  have collected: "collect_selected_files fm fs d sel = Inr ?fs"
    using Cons.prems(1) by (subst collect_filter) simp
  show ?case
  proof (cases "dir_wanted sel d \<or> ?fs \<noteq> []")
    case False
    then have "plan_groups sel (map (\<lambda>d. (d, files d)) (d # ds)) = plan_groups sel (map (\<lambda>d. (d, files d)) ds)"
      by (simp add: plan_groups_def)
    moreover have "plan_dir sha256 enc fm fs sel d st = Inr st"
      using False collected by (simp add: plan_dir_def dir_wanted_def)
    ultimately show ?thesis using Cons by simp
  next
    case True
    then have gs: "plan_groups sel (map (\<lambda>d. (d, files d)) (d # ds))
        = (d, ?fs) # plan_groups sel (map (\<lambda>d. (d, files d)) ds)"
      by (auto simp: plan_groups_def)
    from Cons.prems(2) gs obtain m1 m2 where m:
      "write_directory sha256 enc (pl_copy st) (plan_dir_entry d ?fs) None = Inr m1"
      "fold_err (shard_op_write sha256 enc) (map (\<lambda>f. OpFile (dr_logical_path d) (plan_file_entry f)) ?fs) m1 = Inr m2"
      "fold_err (shard_op_write sha256 enc) (concat (map group_ops (plan_groups sel (map (\<lambda>d. (d, files d)) ds)))) m2 = Inr m"
      by (auto simp: fold_err_append andThen_Inr_iff)
    from Cons.prems(3) gs obtain mw1 where mw: "mtime_write_dir (pl_mtime st) (plan_mtime_entry d) = Inr mw1"
      "write_all mtime_write_dir mw1 (map (\<lambda>g. plan_mtime_entry (fst g)) (plan_groups sel (map (\<lambda>d. (d, files d)) ds))) = Inr mw"
      by (auto simp: andThen_Inr_iff)
    let ?st = "st\<lparr>pl_copy := m1, pl_emitted_copy := True, pl_mtime := mw1, pl_emitted_mtime := True\<rparr>"
    have "fold_err (plan_file sha256 enc d) ?fs ?st
        = Inr (?st\<lparr>pl_copy := m2, pl_hardlinks := push_links (filter (\<lambda>f. 1 < fsel_links f) ?fs) (pl_hardlinks st)\<rparr>)"
      by (subst plan_files_run [where m = m2]) (use m(2) in simp_all)
    with True have step: "plan_dir sha256 enc fm fs sel d st
        = Inr (?st\<lparr>pl_copy := m2, pl_hardlinks := push_links (filter (\<lambda>f. 1 < fsel_links f) ?fs) (pl_hardlinks st)\<rparr>)"
      using collected m(1) mw(1) by (auto simp: plan_dir_def dir_wanted_def)
    show ?thesis
      unfolding fold_err.simps step gs
      using Cons.IH [of "?st\<lparr>pl_copy := m2, pl_hardlinks := push_links (filter (\<lambda>f. 1 < fsel_links f) ?fs) (pl_hardlinks st)\<rparr>"]
        Cons.prems(1) m(3) mw(2)
      by (simp add: group_links_def push_links_def)
  qed
qed (simp add: plan_groups_def push_links_def group_links_def)

section \<open>The files of a plan\<close>

fun plan_entries :: "plan_group \<Rightarrow> control_entry list" where
  "plan_entries (d, fs) = EntryDir (plan_dir_entry d fs) # map (\<lambda>f. EntryFile (plan_file_entry f)) fs"

definition shard_of :: "nat \<Rightarrow> string \<Rightarrow> nat" where
  "shard_of n path = unat (fnv_hash path mod of_nat n)"

definition link_items :: "((u64 \<times> u64) \<times> hardlink_file_entry list) list \<Rightarrow> hardlink_entry list" where
  "link_items m = concat (map (\<lambda>((i, dev), fs). if length fs < 2 then []
     else HardInode \<lparr>hi_inode = i, hi_device = dev, hi_link_count = of_nat (length fs)\<rparr> # map HardFile fs) m)"

lemma link_files_run:
  "fold_err (\<lambda>f w. lift_io (hardlink_write_file w f)) fs w = lift_io (write_all hardlink_put w (map HardFile fs))"
proof (induction fs arbitrary: w)
  case (Cons f fs)
  then show ?case by (cases "hardlink_write_file w f") (simp_all add: fun_eq_iff)
qed simp

lemma link_groups_run:
  assumes "write_all hardlink_put w (link_items m) = Inr w'"
  shows "fold_err plan_hardlink_group m (w, b) = Inr (w', b \<or> link_items m \<noteq> [])"
  using assms
proof (induction m arbitrary: w b)
  case (Cons g m)
  obtain i dev fs where g: "g = ((i, dev), fs)" by (metis surj_pair)
  show ?case
  proof (cases "length fs < 2")
    case True
    with Cons show ?thesis by (simp add: g link_items_def plan_hardlink_group_def)
  next
    case False
    let ?i = "\<lparr>hi_inode = i, hi_device = dev, hi_link_count = of_nat (length fs)\<rparr>"
    have items: "link_items (g # m) = HardInode ?i # map HardFile fs @ link_items m"
      using False by (simp add: g link_items_def)
    from Cons.prems obtain w1 w2 where "hardlink_write_inode w ?i = Inr w1"
      "write_all hardlink_put w1 (map HardFile fs) = Inr w2" "write_all hardlink_put w2 (link_items m) = Inr w'"
      unfolding items by (auto simp: write_all_append andThen_Inr_iff)
    have some: "link_items (g # m) \<noteq> []" unfolding items by simp
    have "plan_hardlink_group g (w, b) = Inr (w2, True)"
      using False \<open>hardlink_write_inode w ?i = Inr w1\<close> \<open>write_all hardlink_put w1 _ = Inr w2\<close>
      by (simp add: g plan_hardlink_group_def link_files_run)
    with Cons.IH [OF \<open>write_all hardlink_put w2 _ = Inr w'\<close>, of True] some show ?thesis by simp
  qed
qed (simp add: link_items_def)

lemma bt_push_lookup: "map_of (bt_push k v m) k' =
    (if k' = k then Some ((case map_of m k of Some vs \<Rightarrow> vs | None \<Rightarrow> []) @ [v]) else map_of m k')"
  by (simp add: bt_push_def)

text \<open>The names of an inode, in the order in which the plan lists them.\<close>

definition names_of_inode :: "file_selection list \<Rightarrow> u64 \<times> u64 \<Rightarrow> hardlink_file_entry list" where
  "names_of_inode fs k = map plan_hardlink_entry (filter (\<lambda>f. (fsel_inode f, fsel_devno f) = k) fs)"

lemma push_links_lookup:
  "map_of (push_links fs m) k = (if names_of_inode fs k = [] then map_of m k
     else Some ((case map_of m k of Some vs \<Rightarrow> vs | None \<Rightarrow> []) @ names_of_inode fs k))"
  by (induction fs arbitrary: m) (auto simp: push_links_def names_of_inode_def bt_push_lookup split: option.splits)

lemma push_links_ok: "bt_ok m \<Longrightarrow> bt_ok (push_links fs m)"
  unfolding push_links_def by (induction fs arbitrary: m) (simp_all add: bt_push_def)

lemma link_items_short:
  assumes "\<forall>f \<in> set fs. short_text (fsel_logical_path f)"
  shows "\<forall>e \<in> set (link_items (push_links fs [])). hardlink_wf e \<and> keeps_source hardlink_put e"
proof -
  have short: "short_text (hf_path e)" if "((i, dev), es) \<in> set (push_links fs [])" "e \<in> set es" for i dev es e
  proof -
    have "map_of (push_links fs []) (i, dev) = Some es"
      using that(1) bt_ok_in_set [OF push_links_ok [of "[]" fs]] by simp
    then have "es = names_of_inode fs (i, dev)"
      by (simp add: push_links_lookup split: if_splits)
    with that(2) assms show ?thesis by (auto simp: names_of_inode_def plan_hardlink_entry_def)
  qed
  have "\<forall>e \<in> set (link_items (push_links fs [])). short_hardlink e"
    unfolding link_items_def by (auto split: if_splits dest: short)
  then show ?thesis using keeps_source_hardlink by blast
qed

lemma file_content_dropped: "file_content (AList.delete n fs) name = (if name = n then None else file_content fs name)"
  by (simp add: file_content_def AList.delete_conv')

lemma entries_of_file_delete [simp]:
  "name \<noteq> n \<Longrightarrow> entries_of_file dec (AList.delete n fs) name = entries_of_file dec fs name"
  by (simp add: entries_of_file_def file_content_def AList.delete_conv')

lemma entries_kept:
  assumes "keep_or_remove em path fin ctrl = Inr (ctrl', f)" and "path \<noteq> name"
  shows "entries_of_file dec ctrl' name = entries_of_file dec ctrl name"
  using assms by (auto simp: keep_or_remove_def andThen_Inr_iff split: if_splits)

lemma content_kept:
  assumes "keep_or_remove em path fin ctrl = Inr (ctrl', f)" and "path \<noteq> name"
  shows "file_content ctrl' name = file_content ctrl name"
  using assms by (auto simp: keep_or_remove_def andThen_Inr_iff file_content_dropped split: if_splits)


definition group_short :: "plan_group \<Rightarrow> bool" where
  "group_short g \<longleftrightarrow> short_text (dr_logical_path (fst g))
    \<and> list_all (\<lambda>f. short_text (fsel_name f) \<and> short_text (fsel_logical_path f)) (snd g)"

abbreviation plan_name :: "(byte list \<Rightarrow> byte list) \<Rightarrow> nat \<Rightarrow> nat \<Rightarrow> string" where
  "plan_name sha s i \<equiv> shard_file_name sha ''copy'' s (of_nat i)"

definition copy_plan_manager :: "files \<Rightarrow> nat \<Rightarrow> control_file_header \<Rightarrow> shard_manager" where
  "copy_plan_manager ctrl n h = new_with_header ctrl ''copy'' (max n 1) h"

text \<open>Everything that the files of a shard hold, in the order of their index.\<close>

definition shard_lists ::
  "(byte list \<Rightarrow> byte list) \<Rightarrow> json_dec \<Rightarrow> files \<Rightarrow> nat \<Rightarrow> control_entry list \<Rightarrow> bool" where
  "shard_lists sha dec fs s es \<longleftrightarrow>
    (\<exists>k. concat (map (\<lambda>i. entries_of_file dec fs (plan_name sha s i)) [0..<k]) = map Inr es)"

lemma primary_differ:
  "primary_control_file_name sha ''hardlink'' \<noteq> primary_control_file_name sha ''mtime''"
  "primary_control_file_name sha ''hardlink'' \<noteq> plan_name sha s i"
  "primary_control_file_name sha ''mtime'' \<noteq> plan_name sha s i"
  by (simp_all add: primary_control_file_name_def control_file_name_def shard_file_name_def
      sharded_copy_control_file_name_def)

lemma keep_or_remove_run:
  assumes "finish = Inr c"
  shows "keep_or_remove em path finish ctrl = Inr (if em then (file_set ctrl path c, Some path) else (AList.delete path ctrl, None))"
  using assms by (simp add: keep_or_remove_def)

lemma group_ops_puts:
  assumes "group_short g" and "op \<in> set (group_ops g)"
  shows "copy_item_wf (op_item op) \<and> item_puts (op_item op)"
proof -
  obtain d fs where g: "g = (d, fs)" by fastforce
  have "short_entry (copy_view (op_item op)) \<and> op_item op = as_item (copy_view (op_item op))"
    using assms by (auto simp: g group_short_def plan_dir_entry_def plan_file_entry_def list_all_iff)
  then obtain e where "short_entry e" "op_item op = as_item e" by metis
  then show ?thesis
    using keeps_source_copy by (auto simp: keeps_source_def same_source_def item_puts_def)
qed

lemma group_ops_items:
  "map (\<lambda>op. copy_view (op_item op)) (filter (\<lambda>op. P (op_path op)) (group_ops g))
    = (if P (dr_logical_path (fst g)) then plan_entries g else [])"
proof -
  obtain d fs where g: "g = (d, fs)" by fastforce
  have "map (\<lambda>op. copy_view (op_item op)) (filter (\<lambda>op. P (op_path op)) (map (\<lambda>f. OpFile (dr_logical_path d) (plan_file_entry f)) fs))
      = (if P (dr_logical_path d) then map (\<lambda>f. EntryFile (plan_file_entry f)) fs else [])"
    by (induction fs) simp_all
  then show ?thesis by (simp add: g plan_dir_entry_def)
qed

lemma groups_ops_items:
  "map (\<lambda>op. copy_view (op_item op)) (filter (\<lambda>op. P (op_path op)) (concat (map group_ops gs)))
    = concat (map plan_entries (filter (\<lambda>g. P (dr_logical_path (fst g))) gs))"
  by (induction gs) (simp_all add: group_ops_items)

lemma fitting_short:
  assumes "enc kind = Inr k" and "enc root = Inr r" and "length k + length r \<le> 3800"
  shows "fitting_source enc kind root"
  using assms write_header_block_short [of enc _ k r COPY_MAGIC] by (auto simp: fitting_source_def COPY_MAGIC_def)

text \<open>The copy files.\<close>

lemma copy_plan_written:
  assumes codec: "json_codec enc dec" and "enc kind = Inr k" and "enc root = Inr r" and "length k + length r \<le> 3800"
    and short: "\<forall>g \<in> set gs. group_short g" and few: "length (concat (map group_ops gs)) < 2 ^ 32" and n: "n < 2 ^ 64"
    and names: "names_distinct sha (copy_plan_manager ctrl n (source_header now kind root)) (length (concat (map group_ops gs)))"
  shows "\<exists>m fs paths. fold_err (shard_op_write sha enc) (concat (map group_ops gs))
      (copy_plan_manager ctrl n (source_header now kind root)) = Inr m
    \<and> shard_finish enc m = Inr (fs, paths) \<and> (gs \<noteq> [] \<longrightarrow> paths \<noteq> [])
    \<and> (\<forall>s. shard_lists sha dec fs s
        (concat (map plan_entries (filter (\<lambda>g. shard_of (max n 1) (dr_logical_path (fst g)) = s) gs))))"
proof -
  let ?ops = "concat (map group_ops gs)" and ?m = "copy_plan_manager ctrl n (source_header now kind root)"
  have fit: "fitting_source enc kind root" using assms(2-4) by (rule fitting_short)
  have puts: "copy_item_wf (op_item op) \<and> item_puts (op_item op)" if "op \<in> set ?ops" for op
    using that short group_ops_puts by auto
  have "all_of_source kind root ?m"
    by (simp add: all_of_source_def of_source_def copy_plan_manager_def new_with_header_def with_policy_and_header_def
        source_header_def)
  then obtain m where m: "fold_err (shard_op_write sha enc) ?ops ?m = Inr m" "all_of_source kind root m"
    using sharded_run_total [OF fit] puts by blast
  have m0: "?m = with_policy_and_header ctrl ''copy'' (max n 1) copy_default (source_header now kind root)"
    by (simp add: copy_plan_manager_def new_with_header_def)
  have wf: "\<forall>op \<in> set ?ops. copy_item_wf (op_item op)" using puts by blast
  have n': "0 < max n 1" "max n 1 < 2 ^ 64" using n by simp_all
  have settings: "same_settings ?m m"
    unfolding m0
    by (rule conjunct2 [OF shard_ops_ok [OF codec names [unfolded m0] manager_ok_new [OF source_header_size n'] _ _ wf
          m(1) [unfolded m0]]]) simp_all
  have run: "manager_ok sha enc dec m (shard_items m ?ops)" "sm_base_name m = ''copy''"
    "names_distinct sha m (length ?ops)"
    using sharded_run_ok [OF codec source_header_size n' order_refl names [unfolded m0] wf m(1) [unfolded m0]] by blast+
  note mok = run(1)
  have "distinct (map fst (sm_shards m))" using mok by (simp add: manager_ok_def)
  then have "\<forall>(s, sw) \<in> set (sm_shards m). of_source kind root (header (sw_writer sw))"
    using m(2) by (auto simp: all_of_source_def)
  from shard_finish_total [OF fit this] obtain r where "shard_finish enc m = Inr r"
    unfolding shard_finish_def by blast
  then obtain fs paths where fin: "shard_finish enc m = Inr (fs, paths)" by (cases r) simp
  have "shard_lists sha dec fs s (concat (map plan_entries (filter (\<lambda>g. shard_of (max n 1) (dr_logical_path (fst g)) = s) gs)))" for s
  proof -
    have "sm_num_shards m = max n 1"
      using settings unfolding same_settings_def m0 with_policy_and_header_def by (elim conjE) (simp only: shard_manager.simps)
    then have id: "compute_shard_id m p = shard_of (max n 1) p" for p
      by (simp only: compute_shard_id_def shard_of_def)
    have "\<forall>s. \<forall>i \<in> set (shard_items m ?ops s). copy_item_wf i" "\<forall>s. length (shard_items m ?ops s) \<le> length ?ops"
      using wf by (auto simp: shard_items_def)
    from shard_finish_ok [OF codec run(3) mok this few fin, of s]
    have "concat (map (\<lambda>i. entries_of_file dec fs (plan_name sha s i)) [0..<unat (index_of_shard m s)])
        = map Inr (map (\<lambda>op. copy_view (op_item op)) (filter (\<lambda>op. compute_shard_id m (op_path op) = s) ?ops))"
      unfolding run(2) shard_items_def map_map comp_def .
    then show ?thesis
      unfolding shard_lists_def id groups_ops_items [where P = "\<lambda>p. shard_of (max n 1) p = s"] by blast
  qed
  moreover have "paths \<noteq> []" if "gs \<noteq> []"
  proof
    assume "paths = []"
    then have "sm_shards m = []" using finish_paths [OF fin [unfolded shard_finish_def]] by simp
    obtain g gs' where "gs = g # gs'" using \<open>gs \<noteq> []\<close> by (cases gs) auto
    then obtain op ops where ops: "?ops = op # ops" by (cases g) simp
    let ?s = "compute_shard_id m (op_path op)"
    have "shard_ok sha enc dec m ?s (shard_items m ?ops ?s)" using mok by (simp add: manager_ok_def)
    then have "shard_items m ?ops ?s = []" using \<open>sm_shards m = []\<close> by (simp add: shard_ok_def)
    then show False by (simp add: ops shard_items_def)
  qed
  ultimately show ?thesis using m(1) fin by blast
qed

definition records_held ::
  "(json_dec \<Rightarrow> byte list \<Rightarrow> (byte list \<times> control_file_header) io) \<Rightarrow> (byte list \<Rightarrow> 'a io) \<Rightarrow> json_dec \<Rightarrow> files \<Rightarrow> string \<Rightarrow>
   'a list \<Rightarrow> bool" where
  "records_held open_reader decode dec fs name es \<longleftrightarrow> (\<exists>c rest h. file_content fs name = Some c
     \<and> open_reader dec c = Inr (rest, h) \<and> read_entries decode rest = map Inr es)"

text \<open>The control files of a restore plan with the groups \<open>gs\<close>.\<close>

definition plan_holds ::
  "(byte list \<Rightarrow> byte list) \<Rightarrow> json_dec \<Rightarrow> nat \<Rightarrow> plan_group list \<Rightarrow> generated_control_plan \<Rightarrow> files \<Rightarrow> bool" where
  "plan_holds sha dec n gs plan fs \<longleftrightarrow>
    (\<forall>s. shard_lists sha dec fs s
      (concat (map plan_entries (filter (\<lambda>g. shard_of (max n 1) (dr_logical_path (fst g)) = s) gs))))
    \<and> (case gp_mtime_file plan of
         None \<Rightarrow> gs = []
       | Some f \<Rightarrow> records_held mtime_reader_open mtime_decode dec fs f (map (\<lambda>g. plan_mtime_entry (fst g)) gs))
    \<and> (case gp_hardlink_file plan of
         None \<Rightarrow> link_items (push_links (group_links gs) []) = []
       | Some f \<Rightarrow> records_held hardlink_reader_open hardlink_decode dec fs f (link_items (push_links (group_links gs) [])))"

lemma restore_plan_written:
  assumes codec: "json_codec enc dec" and k: "enc (la_source_kind la) = Inr k" and r: "enc (la_logical_root la) = Inr r"
    and kr: "length k + length r \<le> 3800" and la: "la = source_layout_from_spec spec"
    and ds: "load_sorted_dirs fm la fs = Inr ds"
    and files: "\<forall>d \<in> set ds. collect_selected_files fm fs d None = Inr (files d)"
    and gs: "gs = plan_groups sel (map (\<lambda>d. (d, files d)) ds)" and short: "\<forall>g \<in> set gs. group_short g"
    and few: "length (concat (map group_ops gs)) < 2 ^ 32" and n: "n < 2 ^ 64"
    and names: "names_distinct sha (copy_plan_manager ctrl n (source_header now (la_source_kind la) (la_logical_root la)))
      (length (concat (map group_ops gs)))"
  shows "\<exists>plan ctrl'. generate_restore_plan sha enc now fm fs ctrl spec sel n = Inr (plan, ctrl') \<and> plan_holds sha dec n gs plan ctrl'"
proof -
  let ?h = "source_header now (la_source_kind la) (la_logical_root la)"
  obtain m cfs paths where m: "fold_err (shard_op_write sha enc) (concat (map group_ops gs)) (copy_plan_manager ctrl n ?h) = Inr m"
    "shard_finish enc m = Inr (cfs, paths)" "gs \<noteq> [] \<longrightarrow> paths \<noteq> []"
    and lists: "\<And>s. shard_lists sha dec cfs s
        (concat (map plan_entries (filter (\<lambda>g. shard_of (max n 1) (dr_logical_path (fst g)) = s) gs)))"
    using copy_plan_written [OF codec k r kr short few n names] by blast
  have hdr: "enc (source_kind ?h) = Inr k" "enc (source_root ?h) = Inr r"
    using k r by (simp_all add: source_header_def)
  have magics: "length HARDLINK_MAGIC + length k + length r \<le> 3874" "length MTIME_MAGIC + length k + length r \<le> 3874"
    using kr by (simp_all add: HARDLINK_MAGIC_def MTIME_MAGIC_def)
  let ?me = "map (\<lambda>g. plan_mtime_entry (fst g)) gs"
  have "\<forall>e \<in> set ?me. mtime_wf e \<and> keeps_source mtime_write_dir e"
    using short keeps_source_mtime by (auto simp: group_short_def plan_mtime_entry_def)
  from mt.short_file [OF codec hdr magics(2) source_header_size this] obtain mw mw' mf mrest where
    mt: "mtime_writer_new enc now (la_source_kind la) (la_logical_root la) = Inr mw" "write_all mtime_write_dir mw ?me = Inr mw'"
    "mtime_finish enc mw' = Inr mf" "mtime_reader_open dec mf = Inr (mrest, fold mtime_count ?me ?h)"
    "read_entries mtime_decode mrest = map Inr ?me"
    by (auto simp: mtime_writer_new_def mtime_finish_def mtime_reader_open_def comp_def)
  let ?links = "push_links (group_links gs) []"
  have "\<forall>f \<in> set (group_links gs). short_text (fsel_logical_path f)"
    using short by (fastforce simp: group_links_def group_short_def list_all_iff)
  from hl.short_file [OF codec hdr magics(1) source_header_size link_items_short [OF this]] obtain hw hw' hf hrest where
    hl: "hardlink_writer_new enc now (la_source_kind la) (la_logical_root la) = Inr hw"
    "write_all hardlink_put hw (link_items ?links) = Inr hw'"
    "hardlink_finish enc hw' = Inr hf" "hardlink_reader_open dec hf = Inr (hrest, fold hardlink_count (link_items ?links) ?h)"
    "read_entries hardlink_decode hrest = map Inr (link_items ?links)"
    by (auto simp: hardlink_writer_new_def hardlink_finish_def hardlink_reader_open_def comp_def)
  let ?init = "\<lparr>pl_copy = copy_plan_manager ctrl n ?h, pl_mtime = mw, pl_hardlinks = [], pl_emitted_copy = False,
    pl_emitted_mtime = False\<rparr>"
  let ?st = "\<lparr>pl_copy = m, pl_mtime = mw', pl_hardlinks = ?links, pl_emitted_copy = gs \<noteq> [], pl_emitted_mtime = gs \<noteq> []\<rparr>"
  have dirs: "fold_err (plan_dir sha enc fm fs sel) ds ?init = Inr ?st"
    using plan_dirs_run [OF files, of sha enc sel ?init m mw'] m(1) mt(2) by (simp add: gs)
  have links: "fold_err plan_hardlink_group ?links (hw, False) = Inr (hw', link_items ?links \<noteq> [])"
    using link_groups_run [OF hl(2)] by simp
  have copies: "finish_copy_files sha enc ?h ?st = Inr (cfs, if gs = [] then [] else sort paths)"
    using m(2,3) by (simp add: finish_copy_files_def)
  let ?hn = "primary_control_file_name sha ''hardlink''" and ?mn = "primary_control_file_name sha ''mtime''"
  let ?fs1 = "if link_items ?links \<noteq> [] then file_set cfs ?hn hf else AList.delete ?hn cfs"
  let ?fs2 = "if gs \<noteq> [] then file_set ?fs1 ?mn mf else AList.delete ?mn ?fs1"
  let ?plan = "\<lparr>gp_copy_files = if gs = [] then [] else sort paths,
    gp_hardlink_file = if link_items ?links \<noteq> [] then Some ?hn else None,
    gp_mtime_file = if gs \<noteq> [] then Some ?mn else None, gp_delete_file = None\<rparr>"
  have kept: "entries_of_file dec ?fs2 (plan_name sha s i) = entries_of_file dec cfs (plan_name sha s i)" for s i
    using primary_differ(2,3) [of sha, THEN not_sym] entries_of_file_delete by (auto simp: entries_of_file_def)
  have "generate_restore_plan sha enc now fm fs ctrl spec sel n = Inr (?plan, ?fs2)"
    unfolding generate_restore_plan_def Let_def la [symmetric] copy_plan_manager_def [symmetric] ds hl(1) mt(1)
    by (simp add: dirs links copies hl(3) mt(3) keep_or_remove_run)
  moreover have "plan_holds sha dec n gs ?plan ?fs2"
    using lists mt(4,5) hl(4,5) primary_differ(1) [of sha]
    by (auto simp: plan_holds_def shard_lists_def kept records_held_def file_content_dropped)
  ultimately show ?thesis by blast
qed

section \<open>The batches of a plan\<close>

definition batch_path :: "source_layout \<Rightarrow> dir_batch \<Rightarrow> string" where
  "batch_path la b = normalize_metadata_path la (dm_path (db_dir b))"

definition batch_file_path :: "source_layout \<Rightarrow> dir_batch \<Rightarrow> file_meta \<Rightarrow> string" where
  "batch_file_path la b f = join_logical_child (batch_path la b) (mc_name (fm_common f))"

text \<open>A batch with the files that a selection takes from it.\<close>

definition batch_part :: "source_layout \<Rightarrow> fine_grain_selection option \<Rightarrow> dir_batch \<Rightarrow> dir_batch" where
  "batch_part la sel b = b\<lparr>db_files := filter (\<lambda>f. case sel of Some s \<Rightarrow> include_file s (batch_file_path la b f) | None \<Rightarrow> True) (db_files b)\<rparr>"

definition batch_wanted :: "source_layout \<Rightarrow> fine_grain_selection option \<Rightarrow> dir_batch \<Rightarrow> bool" where
  "batch_wanted la sel b \<longleftrightarrow> (case sel of Some s \<Rightarrow> include_dir s (batch_path la b) | None \<Rightarrow> True)"

definition selected_batches :: "source_layout \<Rightarrow> fine_grain_selection option \<Rightarrow> dir_batch list \<Rightarrow> dir_batch list" where
  "selected_batches la sel bs = filter (\<lambda>b. batch_wanted la sel b \<or> db_files b \<noteq> []) (map (batch_part la sel) bs)"

definition plan_batch_ok :: "source_layout \<Rightarrow> dir_batch \<Rightarrow> bool" where
  "plan_batch_ok la b \<longleftrightarrow> short_text (batch_path la b) \<and> list_all (\<lambda>f. short_text (batch_file_path la b f)) (db_files b)"

text \<open>The entries of a directory in a plan; the references find the metadata of the scan.\<close>

definition plans_batch :: "source_layout \<Rightarrow> diff_formats \<Rightarrow> files \<Rightarrow> control_entry list \<Rightarrow> dir_batch \<Rightarrow> bool" where
  "plans_batch la fm fs es b \<longleftrightarrow> (case es of
     EntryDir c # fes \<Rightarrow> dc_path c = batch_path la b \<and> dc_diff c = DirNew
       \<and> get_dmeta (fmt_meta fm) fs (dc_meta_fid c, dc_meta_offset c) = Inr (db_dir b)
       \<and> dc_files_count c = of_nat (length (db_files b))
       \<and> list_all2 (lists_file fm fs) fes (files_by_id b)
   | _ \<Rightarrow> False)"

definition batch_times :: "source_layout \<Rightarrow> dir_batch \<Rightarrow> mtime_dir_entry" where
  "batch_times la b =
    \<lparr>md_path = batch_path la b, md_mode = mc_mode (dm_common (db_dir b)), md_uid = 0, md_gid = 0,
     md_atime = ucast (mc_atime (dm_common (db_dir b))), md_mtime = ucast (mc_mtime (dm_common (db_dir b)))\<rparr>"

definition rec_group :: "source_layout \<Rightarrow> stored_batch \<Rightarrow> plan_group" where
  "rec_group la r = (rec_record la r, rec_selection la r)"

definition group_part :: "fine_grain_selection option \<Rightarrow> plan_group \<Rightarrow> plan_group" where
  "group_part sel g = (fst g, filter (selection_takes sel) (snd g))"

lemma plan_groups_alt:
  "plan_groups sel gs = filter (\<lambda>g. dir_wanted sel (fst g) \<or> snd g \<noteq> []) (map (group_part sel) gs)"
  by (simp add: plan_groups_def group_part_def [abs_def] case_prod_unfold)

lemma rec_path [simp]: "dr_logical_path (rec_record la r) = batch_path la (rec_batch r)"
  by (simp add: rec_record_def dir_record_of_def batch_path_def)

lemma rec_selection_nth:
  assumes "list_all2 (file_stored fm sha256 fs) fes (files_by_id b)" and "r = (de, fes, b)"
  shows "list_all2 (\<lambda>s f. fsel_name s = mc_name (fm_common f) \<and> fsel_logical_path s = batch_file_path la b f
    \<and> get_fmeta (fmt_meta fm) fs (fsel_meta_fid s, fsel_meta_offset s) = Inr f) (rec_selection la r) (files_by_id b)"
  using assms
  by (auto simp: rec_selection_def list_all2_conv_all_nth file_selection_of_def batch_file_path_def file_stored_def)

lemma list_all2_filter:
  assumes "list_all2 R xs ys" and "\<And>x y. R x y \<Longrightarrow> P x = Q y"
  shows "list_all2 R (filter P xs) (filter Q ys)"
  using assms(1) by (induction rule: list_all2_induct) (use assms(2) in auto)

lemma batch_part_by_id:
  "files_by_id (batch_part la sel b)
    = filter (\<lambda>f. case sel of Some s \<Rightarrow> include_file s (batch_file_path la b f) | None \<Rightarrow> True) (files_by_id b)"
  by (simp add: files_by_id_def batch_part_def filter_sort)

lemma batch_part_path [simp]: "batch_path la (batch_part la sel b) = batch_path la b"
  "db_dir (batch_part la sel b) = db_dir b"
  by (simp_all add: batch_path_def batch_part_def)

lemma group_part_planned:
  assumes stored: "batch_stored fm sha256 fs i k r"
  shows "plans_batch la fm fs (plan_entries (group_part sel (rec_group la r))) (batch_part la sel (rec_batch r))"
proof -
  obtain de fes b where r: "r = (de, fes, b)" by (cases r)
  let ?R = "\<lambda>s f. fsel_name s = mc_name (fm_common f) \<and> fsel_logical_path s = batch_file_path la b f
    \<and> get_fmeta (fmt_meta fm) fs (fsel_meta_fid s, fsel_meta_offset s) = Inr f"
  have all: "list_all2 ?R (filter (selection_takes sel) (rec_selection la r)) (files_by_id (batch_part la sel b))"
    unfolding batch_part_by_id
    by (rule list_all2_filter [OF rec_selection_nth]) (use stored r in \<open>auto simp: selection_takes_def split: option.splits\<close>)
  then have "list_all2 (lists_file fm fs) (map (\<lambda>f. EntryFile (plan_file_entry f)) (filter (selection_takes sel) (rec_selection la r)))
      (files_by_id (batch_part la sel b))"
    by (auto simp: list_all2_conv_all_nth lists_file_def plan_file_entry_def)
  moreover have "length (db_files (batch_part la sel b)) = length (filter (selection_takes sel) (rec_selection la r))"
    using list_all2_lengthD [OF all] by (simp add: files_by_id_def)
  ultimately show ?thesis
    using stored by (simp add: r plans_batch_def group_part_def rec_group_def plan_dir_entry_def)
      (simp add: rec_record_def dir_record_of_def)
qed

lemma group_part_wanted:
  assumes stored: "batch_stored fm sha256 fs i k r"
  shows "(dir_wanted sel (fst (group_part sel (rec_group la r))) \<or> snd (group_part sel (rec_group la r)) \<noteq> [])
    = (batch_wanted la sel (batch_part la sel (rec_batch r)) \<or> db_files (batch_part la sel (rec_batch r)) \<noteq> [])"
proof -
  obtain de fes b where r: "r = (de, fes, b)" by (cases r)
  have "snd (group_part sel (rec_group la r)) = [] \<longleftrightarrow> db_files (batch_part la sel b) = []"
    using group_part_planned [OF stored, of la sel]
    by (auto simp: r plans_batch_def group_part_def rec_group_def files_by_id_def list_all2_conv_all_nth
        dest!: arg_cong [where f = length])
  then show ?thesis
    by (simp add: r dir_wanted_def batch_wanted_def group_part_def rec_group_def split: option.splits)
qed

lemma sort_key_map: "sort_key g (map f xs) = map f (sort_key (\<lambda>x. g (f x)) xs)"
proof -
  have "insort_key g (f x) (map f ys) = map f (insort_key (\<lambda>x. g (f x)) x ys)" for x ys
    by (induction ys) simp_all
  then show ?thesis by (induction xs) simp_all
qed

lemma names_distinct_mono: "names_distinct sha m n \<Longrightarrow> k \<le> n \<Longrightarrow> names_distinct sha m k"
  unfolding names_distinct_def by (rule inj_on_subset) auto

lemma length_group_ops: "length (group_ops g) = 1 + length (snd g)"
  by (cases g) simp

lemma selected_groups:
  assumes "\<forall>r \<in> set rs. \<exists>i k. batch_stored fm sha256 fs i k r"
  shows "\<exists>rs'. plan_groups sel (map (rec_group la) rs) = map (\<lambda>r. group_part sel (rec_group la r)) rs'
    \<and> selected_batches la sel (map rec_batch rs) = map (\<lambda>r. batch_part la sel (rec_batch r)) rs' \<and> set rs' \<subseteq> set rs"
proof -
  let ?rs = "filter (\<lambda>r. dir_wanted sel (fst (group_part sel (rec_group la r))) \<or> snd (group_part sel (rec_group la r)) \<noteq> []) rs"
  have "plan_groups sel (map (rec_group la) rs) = map (\<lambda>r. group_part sel (rec_group la r)) ?rs"
    by (simp add: plan_groups_alt filter_map comp_def)
  moreover have "filter (\<lambda>r. batch_wanted la sel (batch_part la sel (rec_batch r)) \<or> db_files (batch_part la sel (rec_batch r)) \<noteq> []) rs = ?rs"
    using assms group_part_wanted by (intro filter_cong) blast+
  then have "selected_batches la sel (map rec_batch rs) = map (\<lambda>r. batch_part la sel (rec_batch r)) ?rs"
    by (simp add: selected_batches_def filter_map comp_def)
  ultimately show ?thesis by (intro exI [of _ ?rs]) simp
qed

lemma group_part_short:
  assumes "batch_stored fm sha256 fs i k r" and "batch_ok fm (rec_batch r)" and "plan_batch_ok la (rec_batch r)"
  shows "group_short (group_part sel (rec_group la r))"
proof -
  obtain de fes b where r: "r = (de, fes, b)" by (cases r)
  have "list_all2 (file_stored fm sha256 fs) fes (files_by_id b)" using assms(1) by (simp add: r)
  note all = rec_selection_nth [OF this r, of la]
  have "short_text (fsel_name s) \<and> short_text (fsel_logical_path s)" if "s \<in> set (rec_selection la r)" for s
  proof -
    from that obtain j where j: "j < length (rec_selection la r)" "s = rec_selection la r ! j"
      by (auto simp: in_set_conv_nth)
    with list_all2_nthD [OF all] list_all2_lengthD [OF all] obtain f where "f \<in> set (files_by_id b)"
      "fsel_name s = mc_name (fm_common f)" "fsel_logical_path s = batch_file_path la b f"
      by (metis nth_mem)
    then show ?thesis
      using assms(2,3) by (auto simp: r files_by_id_def batch_ok_def plan_batch_ok_def list_all_iff)
  qed
  then show ?thesis
    using assms(3) by (auto simp: r group_short_def group_part_def rec_group_def plan_batch_ok_def list_all_iff)
qed

text \<open>What the control files of a plan hold, read in the terms of the batches.\<close>

definition plan_lists ::
  "(byte list \<Rightarrow> byte list) \<Rightarrow> json_dec \<Rightarrow> source_layout \<Rightarrow> diff_formats \<Rightarrow> files \<Rightarrow> nat \<Rightarrow> dir_batch list \<Rightarrow>
   generated_control_plan \<Rightarrow> files \<Rightarrow> bool" where
  "plan_lists sha dec la fm fs n bs plan ctrl \<longleftrightarrow>
    (\<forall>s. \<exists>ess. shard_lists sha dec ctrl s (concat ess)
      \<and> list_all2 (plans_batch la fm fs) ess (filter (\<lambda>b. shard_of (max n 1) (batch_path la b) = s) bs))
    \<and> (case gp_mtime_file plan of
         None \<Rightarrow> bs = []
       | Some f \<Rightarrow> records_held mtime_reader_open mtime_decode dec ctrl f (map (batch_times la) bs))"

lemma plan_holds_lists:
  assumes held: "plan_holds sha dec n (map (\<lambda>r. group_part sel (rec_group la r)) rs) plan ctrl"
    and stored: "\<forall>r \<in> set rs. \<exists>i k. batch_stored fm sha256 fs i k r"
  shows "plan_lists sha dec la fm fs n (map (\<lambda>r. batch_part la sel (rec_batch r)) rs) plan ctrl"
proof -
  let ?g = "\<lambda>r. group_part sel (rec_group la r)" and ?b = "\<lambda>r. batch_part la sel (rec_batch r)"
  have each: "plans_batch la fm fs (plan_entries (?g r)) (?b r)" if "r \<in> set rs" for r
    using stored that group_part_planned by blast
  have path: "dr_logical_path (fst (?g r)) = batch_path la (?b r)" for r
    by (simp add: group_part_def rec_group_def)
  have times: "plan_mtime_entry (fst (?g r)) = batch_times la (?b r)" for r
    by (simp add: group_part_def rec_group_def plan_mtime_entry_def batch_times_def)
      (simp add: rec_record_def dir_record_of_def)
  have "\<exists>ess. shard_lists sha dec ctrl s (concat ess)
      \<and> list_all2 (plans_batch la fm fs) ess (filter (\<lambda>b. shard_of (max n 1) (batch_path la b) = s) (map ?b rs))" for s
  proof -
    let ?rs = "filter (\<lambda>r. shard_of (max n 1) (batch_path la (?b r)) = s) rs"
    have "shard_lists sha dec ctrl s (concat (map plan_entries (filter (\<lambda>g. shard_of (max n 1) (dr_logical_path (fst g)) = s) (map ?g rs))))"
      using held by (simp add: plan_holds_def)
    moreover have "filter (\<lambda>g. shard_of (max n 1) (dr_logical_path (fst g)) = s) (map ?g rs) = map ?g ?rs"
      by (simp only: filter_map comp_def path)
    moreover have "list_all2 (plans_batch la fm fs) (map (\<lambda>r. plan_entries (?g r)) ?rs) (map ?b ?rs)"
      unfolding list.rel_map list_all2_same using each by (simp only: set_filter mem_Collect_eq ball_simps) blast
    ultimately show ?thesis
      by (intro exI [of _ "map (\<lambda>r. plan_entries (?g r)) ?rs"]) (simp only: filter_map comp_def path map_map simp_thms)
  qed
  then show ?thesis
    using held by (auto simp: plan_lists_def plan_holds_def times comp_def split: option.splits)
qed

text \<open>The state of the metadata that both kinds of plan start from.\<close>

definition scan_loaded ::
  "source_layout \<Rightarrow> diff_formats \<Rightarrow> (byte list \<Rightarrow> byte list) \<Rightarrow> files \<Rightarrow> stored_batch list \<Rightarrow> bool" where
  "scan_loaded la fm sha256 fs rs \<longleftrightarrow>
    load_sorted_dirs fm la fs = Inr (map (rec_record la) rs)
    \<and> sorted (map (\<lambda>r. batch_path la (rec_batch r)) rs)
    \<and> (\<forall>r \<in> set rs. (\<exists>i k. batch_stored fm sha256 fs i k r)
        \<and> collect_selected_files fm fs (rec_record la r) None = Inr (rec_selection la r))"

lemma scan_is_loaded:
  assumes "formats_ok fm" and "n \<le> 2 ^ 16" and "\<forall>(i, b) \<in> set sched. i < n \<and> batch_ok fm b"
    and "batches_size fm (map snd sched) < 2 ^ 46" and small: "scan_entries (map snd sched) * DIR_CACHE_SIZE < 2 ^ 32"
  shows "\<exists>st rs. write_scan fm sha256 hl n sched [] = Inr st \<and> scan_loaded la fm sha256 (st_files st) rs
    \<and> mset (map rec_batch rs) = mset (map snd sched)"
proof -
  obtain st ts rss where st: "write_scan fm sha256 hl n sched [] = Inr st"
    and ok: "writers_ok fm sha256 (st_files st) ts rss" and len: "length ts = n"
    and ms: "mset (map rec_batch (concat rss)) = mset (map snd sched)"
    and names: "dcache_names (st_files st) = map (\<lambda>i. dir_cache_name (of_nat i)) [0..<n]"
    using write_scan_ok [OF assms(1-4)] by blast
  have part: "scan_entries (map rec_batch rs) * DIR_CACHE_SIZE < 2 ^ 32" if "rs \<in> set rss" for rs
  proof -
    from scan_entries_part [OF that] scan_entries_mset [OF ms]
    have "scan_entries (map rec_batch rs) * DIR_CACHE_SIZE \<le> scan_entries (map snd sched) * DIR_CACHE_SIZE"
      by (intro mult_le_mono1) simp
    with small show ?thesis by linarith
  qed
  let ?rs = "sort_key (\<lambda>r. batch_path la (rec_batch r)) (concat rss)"
  have "load_sorted_dirs fm la (st_files st) = Inr (sort_key dr_logical_path (map (rec_record la) (concat rss)))"
    by (rule load_sorted_stored [OF assms(1) ok]) (use names len part in auto)
  then have loaded: "load_sorted_dirs fm la (st_files st) = Inr (map (rec_record la) ?rs)"
    by (simp only: sort_key_map rec_path)
  have "(\<exists>i k. batch_stored fm sha256 (st_files st) i k r)
      \<and> collect_selected_files fm (st_files st) (rec_record la r) None = Inr (rec_selection la r)" if r: "r \<in> set ?rs" for r
  proof -
    from r obtain rs where rs: "rs \<in> set rss" "r \<in> set rs" by auto
    then obtain i where i: "i < length ts" "rs = rss ! i" using ok by (auto simp: in_set_conv_nth writers_ok_def)
    with ok have t: "thread_ok fm sha256 (st_files st) (ts ! i) rs" by (simp add: writers_ok_def)
    then obtain c where stored: "stored_from fm sha256 (st_files st) (wt_shard (ts ! i)) 0 rs"
      and c: "file_content (st_files st) (file_cache_name (wt_shard (ts ! i))) = Some c"
        "holds_items (fmt_files fm) c (all_files rs)"
      by (auto simp: thread_ok_def cache_holds_def)
    have "length (all_files rs) * FILE_CACHE_SIZE \<le> scan_entries (map rec_batch rs) * DIR_CACHE_SIZE"
      using stored_entries [OF stored] by (intro mult_le_mono) (simp_all add: FILE_CACHE_SIZE_def DIR_CACHE_SIZE_def)
    with part [OF rs(1)] have "length (all_files rs) * FILE_CACHE_SIZE < 2 ^ 32" by linarith
    from collect_all_stored [OF assms(1) c this stored _ rs(2)] all_stored [OF stored rs(2)] show ?thesis by auto
  qed
  moreover have "mset (map rec_batch ?rs) = mset (map snd sched)" using ms by simp
  moreover have "sorted (map (\<lambda>r. batch_path la (rec_batch r)) ?rs)" by (rule sorted_sort_key)
  ultimately show ?thesis using st loaded by (auto simp: scan_loaded_def)
qed

lemma scan_entries_part_le:
  "length (concat (map group_ops (plan_groups sel (map (rec_group la) rs)))) \<le> length (concat (map group_ops (map (rec_group la) rs)))"
  by (induction rs) (auto simp: plan_groups_alt length_group_ops group_part_def intro: add_le_mono le_SucI order_trans [OF length_filter_le])

lemma stored_group_ops:
  "\<forall>r \<in> set rs. \<exists>i k. batch_stored fm sha256 fs i k r \<Longrightarrow>
    length (concat (map group_ops (map (rec_group la) rs))) = scan_entries (map rec_batch rs)"
proof (induction rs)
  case (Cons r rs)
  then obtain i k where "batch_stored fm sha256 fs i k r" by auto
  then have "length (rec_selection la r) = length (db_files (rec_batch r))"
    by (cases r) (auto simp: rec_selection_def files_by_id_def dest: list_all2_lengthD)
  with Cons show ?case by (simp add: length_group_ops rec_group_def scan_entries_def)
qed (simp add: scan_entries_def)

lemma scan_plan_written:
  assumes codec: "json_codec enc dec" and k: "enc (la_source_kind la) = Inr k" and r: "enc (la_logical_root la) = Inr r"
    and kr: "length k + length r \<le> 3800" and la: "la = source_layout_from_spec spec" and n: "n < 2 ^ 64"
    and loaded: "scan_loaded la fm sha256 fs rs"
    and ok: "\<forall>r \<in> set rs. batch_ok fm (rec_batch r) \<and> plan_batch_ok la (rec_batch r)"
    and few: "scan_entries (map rec_batch rs) < 2 ^ 32"
    and names: "names_distinct sha (copy_plan_manager ctrl n (source_header now (la_source_kind la) (la_logical_root la)))
      (scan_entries (map rec_batch rs))"
  shows "\<exists>plan ctrl'. generate_restore_plan sha enc now fm fs ctrl spec sel n = Inr (plan, ctrl')
    \<and> plan_lists sha dec la fm fs n (selected_batches la sel (map rec_batch rs)) plan ctrl'"
proof -
  have ds: "load_sorted_dirs fm la fs = Inr (map (rec_record la) rs)"
    and stored: "\<forall>r \<in> set rs. \<exists>i k. batch_stored fm sha256 fs i k r"
    using loaded by (auto simp: scan_loaded_def)
  define files where "files d = (case collect_selected_files fm fs d None of Inr x \<Rightarrow> x | Inl _ \<Rightarrow> [])" for d
  have files: "\<forall>d \<in> set (map (rec_record la) rs). collect_selected_files fm fs d None = Inr (files d)"
    using loaded by (auto simp: scan_loaded_def files_def)
  have groups: "map (\<lambda>d. (d, files d)) (map (rec_record la) rs) = map (rec_group la) rs"
    using loaded by (auto simp: scan_loaded_def files_def rec_group_def)
  obtain rs' where rs': "plan_groups sel (map (rec_group la) rs) = map (\<lambda>r. group_part sel (rec_group la r)) rs'"
    "selected_batches la sel (map rec_batch rs) = map (\<lambda>r. batch_part la sel (rec_batch r)) rs'" "set rs' \<subseteq> set rs"
    using selected_groups [OF stored, of sel la] by blast
  let ?gs = "plan_groups sel (map (rec_group la) rs)"
  have short: "\<forall>g \<in> set ?gs. group_short g"
    unfolding rs'(1) set_map using rs'(3) stored ok group_part_short by blast
  have le: "length (concat (map group_ops ?gs)) \<le> scan_entries (map rec_batch rs)"
    using scan_entries_part_le [of sel la rs] stored_group_ops [OF stored, of la] by simp
  then have few': "length (concat (map group_ops ?gs)) < 2 ^ 32" using few by linarith
  have gs: "?gs = plan_groups sel (map (\<lambda>d. (d, files d)) (map (rec_record la) rs))" by (simp only: groups)
  from restore_plan_written [OF codec k r kr la ds files gs short few' n names_distinct_mono [OF names le]]
  obtain plan ctrl' where plan: "generate_restore_plan sha enc now fm fs ctrl spec sel n = Inr (plan, ctrl')"
    "plan_holds sha dec n ?gs plan ctrl'" by auto
  have "plan_lists sha dec la fm fs n (map (\<lambda>r. batch_part la sel (rec_batch r)) rs') plan ctrl'"
    by (rule plan_holds_lists) (use plan(2) rs'(1,3) stored in auto)
  with plan(1) rs'(2) show ?thesis by auto
qed

lemma selected_all [simp]: "selected_batches la None bs = bs"
proof -
  have "batch_part la None = id" by (auto simp: batch_part_def fun_eq_iff)
  then show ?thesis by (simp add: selected_batches_def batch_wanted_def)
qed

section \<open>Requests\<close>

lemma resolve_files_result:
  "resolve_files fs un found = (un', found') \<Longrightarrow>
    set un' = set un - fsel_logical_path ` set fs \<and> set found' = set found \<union> (set un \<inter> fsel_logical_path ` set fs)"
proof (induction fs arbitrary: un found)
  case (Cons f fs)
  let ?p = "fsel_logical_path f"
  let ?un = "if ?p \<in> set un then removeAll ?p un else un" and ?found = "if ?p \<in> set un then List.insert ?p found else found"
  have step: "(if ?un = [] then (?un, ?found) else resolve_files fs ?un ?found) = (un', found')"
    using Cons.prems by (simp add: Let_def split: if_splits)
  have sets: "set ?un = set un - {?p}" "set ?found = set found \<union> (set un \<inter> {?p})" by auto
  show ?case
  proof (cases "?un = []")
    case True
    with step have "un' = []" "found' = ?found" by simp_all
    moreover have "set un \<subseteq> {?p}" using sets(1) True by auto
    ultimately show ?thesis using sets(2) by auto
  next
    case False
    with step Cons.IH [of ?un ?found] show ?thesis unfolding sets by auto
  qed
qed simp

lemma resolve_dirs_result:
  assumes "\<forall>d \<in> set ds. collect_selected_files fm fs d None = Inr (files d)"
  shows "\<exists>un' sel'. resolve_dirs fm fs ds un sel = Inr (un', sel')
    \<and> set un' = set un - (dr_logical_path ` set ds \<union> (\<Union>d \<in> set ds. fsel_logical_path ` set (files d)))
    \<and> set (requested_dirs sel') \<union> set (requested_files sel') = set (requested_dirs sel) \<union> set (requested_files sel) \<union> (set un - set un')
    \<and> set (requested_dirs sel') \<subseteq> set (requested_dirs sel) \<union> dr_logical_path ` set ds
    \<and> set (requested_files sel') \<subseteq> set (requested_files sel) \<union> (\<Union>d \<in> set ds. fsel_logical_path ` set (files d))"
  using assms
proof (induction ds arbitrary: un sel)
  case (Cons d ds)
  let ?p = "dr_logical_path d"
  let ?un = "if ?p \<in> set un then removeAll ?p un else un"
  let ?sel = "if ?p \<in> set un then sel\<lparr>requested_dirs := List.insert ?p (requested_dirs sel)\<rparr> else sel"
  have sets: "set ?un = set un - {?p}" "set (requested_dirs ?sel) = set (requested_dirs sel) \<union> (set un \<inter> {?p})"
    "requested_files ?sel = requested_files sel" by auto
  have files: "collect_selected_files fm fs d None = Inr (files d)" using Cons.prems by simp
  obtain un1 found where f: "resolve_files (files d) ?un (requested_files sel) = (un1, found)" by fastforce
  note r = resolve_files_result [OF f, unfolded sets]
  have step: "resolve_dirs fm fs (d # ds) un sel =
      (if ?un = [] then Inr (?un, ?sel)
       else if un1 = [] then Inr (un1, ?sel\<lparr>requested_files := found\<rparr>)
       else resolve_dirs fm fs ds un1 (?sel\<lparr>requested_files := found\<rparr>))"
    using f by (cases "?p \<in> set un") (simp_all add: Let_def files)
  show ?case
  proof (cases "?un = [] \<or> un1 = []")
    case True
    show ?thesis
    proof (cases "?un = []")
      case True
      then have "set un \<subseteq> {?p}" using sets(1) by auto
      with True step sets(2,3) show ?thesis by auto
    next
      case False
      with True have "un1 = []" by simp
      with r have "set un - {?p} \<subseteq> fsel_logical_path ` set (files d)" by auto
      with False \<open>un1 = []\<close> step sets r show ?thesis by auto
    qed
  next
    case False
    let ?sel1 = "?sel\<lparr>requested_files := found\<rparr>"
    have d1: "set (requested_dirs ?sel1) = set (requested_dirs sel) \<union> (set un \<inter> {?p})" "requested_files ?sel1 = found" by auto
    from Cons.IH [of un1 ?sel1] Cons.prems obtain un' sel' where ih: "resolve_dirs fm fs ds un1 ?sel1 = Inr (un', sel')"
      "set un' = set un1 - (dr_logical_path ` set ds \<union> (\<Union>d \<in> set ds. fsel_logical_path ` set (files d)))"
      "set (requested_dirs sel') \<union> set (requested_files sel') = set (requested_dirs ?sel1) \<union> set (requested_files ?sel1) \<union> (set un1 - set un')"
      "set (requested_dirs sel') \<subseteq> set (requested_dirs ?sel1) \<union> dr_logical_path ` set ds"
      "set (requested_files sel') \<subseteq> set (requested_files ?sel1) \<union> (\<Union>d \<in> set ds. fsel_logical_path ` set (files d))"
      by auto
    from False step have "resolve_dirs fm fs (d # ds) un sel = Inr (un', sel')" using ih(1) by simp
    moreover have "set un' = set un - (dr_logical_path ` set (d # ds) \<union> (\<Union>d \<in> set (d # ds). fsel_logical_path ` set (files d)))"
      using ih(2) r by auto
    moreover have "set (requested_dirs sel') \<union> set (requested_files sel')
        = set (requested_dirs sel) \<union> set (requested_files sel) \<union> (set un - set un')"
      unfolding ih(3) d1 using r ih(2) by auto
    moreover have "set (requested_dirs sel') \<subseteq> set (requested_dirs sel) \<union> dr_logical_path ` set (d # ds)"
      using ih(4) d1 by auto
    moreover have "set (requested_files sel') \<subseteq> set (requested_files sel) \<union> (\<Union>d \<in> set (d # ds). fsel_logical_path ` set (files d))"
      using ih(5) d1 r by auto
    ultimately show ?thesis by blast
  qed
qed simp

lemma selection_paths:
  assumes "batch_stored fm sha256 fs i k r"
  shows "fsel_logical_path ` set (rec_selection la r) = batch_file_path la (rec_batch r) ` set (db_files (rec_batch r))"
proof -
  obtain de fes b where r: "r = (de, fes, b)" by (cases r)
  have "list_all2 (file_stored fm sha256 fs) fes (files_by_id b)" using assms by (simp add: r)
  from rec_selection_nth [OF this r, of la]
  have "map fsel_logical_path (rec_selection la r) = map (batch_file_path la b) (files_by_id b)"
    by (auto simp: list_all2_conv_all_nth intro!: nth_equalityI)
  from arg_cong [OF this, of set] show ?thesis by (simp add: r files_by_id_def)
qed

text \<open>The paths of the directories and of the files of a scan.\<close>

definition dir_paths :: "source_layout \<Rightarrow> dir_batch list \<Rightarrow> string set" where
  "dir_paths la bs = batch_path la ` set bs"

definition file_paths :: "source_layout \<Rightarrow> dir_batch list \<Rightarrow> string set" where
  "file_paths la bs = (\<Union>b \<in> set bs. batch_file_path la b ` set (db_files b))"

definition request_paths :: "source_layout \<Rightarrow> string list \<Rightarrow> string set" where
  "request_paths la reqs = normalize_requested_path la ` set reqs"

text \<open>What a selection must be: the requests, told apart into directories and files of the scan.\<close>

definition selection_of :: "source_layout \<Rightarrow> dir_batch list \<Rightarrow> string list \<Rightarrow> fine_grain_selection \<Rightarrow> bool" where
  "selection_of la bs reqs sel \<longleftrightarrow>
    set (requested_dirs sel) \<union> set (requested_files sel) = request_paths la reqs
    \<and> set (requested_dirs sel) \<subseteq> dir_paths la bs \<and> set (requested_files sel) \<subseteq> file_paths la bs"

lemma classify_loaded:
  assumes loaded: "scan_loaded la fm sha256 fs rs" and la: "la = source_layout_from_spec spec"
  shows "if request_paths la reqs \<subseteq> dir_paths la (map rec_batch rs) \<union> file_paths la (map rec_batch rs)
    then \<exists>sel. classify_fine_grain_selection fm fs spec reqs = Inr sel \<and> selection_of la (map rec_batch rs) reqs sel
    else classify_fine_grain_selection fm fs spec reqs = Inl (MetaIo NotFound)"
proof -
  let ?ds = "map (rec_record la) rs" and ?bs = "map rec_batch rs"
  define files where "files d = (case collect_selected_files fm fs d None of Inr x \<Rightarrow> x | Inl _ \<Rightarrow> [])" for d
  have files: "\<forall>d \<in> set ?ds. collect_selected_files fm fs d None = Inr (files d)"
    using loaded by (auto simp: scan_loaded_def files_def)
  have dirs: "dr_logical_path ` set ?ds = dir_paths la ?bs" by (simp add: dir_paths_def image_image)
  have "files (rec_record la r) = rec_selection la r" if "r \<in> set rs" for r
    using loaded that by (simp add: scan_loaded_def files_def)
  then have "(\<Union>d \<in> set ?ds. fsel_logical_path ` set (files d)) = (\<Union>r \<in> set rs. fsel_logical_path ` set (rec_selection la r))"
    by simp
  also have "\<dots> = (\<Union>r \<in> set rs. batch_file_path la (rec_batch r) ` set (db_files (rec_batch r)))"
  proof (rule SUP_cong [OF refl])
    fix r assume "r \<in> set rs"
    then obtain i k where "batch_stored fm sha256 fs i k r" using loaded unfolding scan_loaded_def by blast
    then show "fsel_logical_path ` set (rec_selection la r) = batch_file_path la (rec_batch r) ` set (db_files (rec_batch r))"
      by (rule selection_paths)
  qed
  also have "\<dots> = file_paths la ?bs" by (simp add: file_paths_def)
  finally have fpaths: "(\<Union>d \<in> set ?ds. fsel_logical_path ` set (files d)) = file_paths la ?bs" .
  obtain un sel where res: "resolve_dirs fm fs ?ds (remdups (map (normalize_requested_path la) reqs))
      \<lparr>requested_dirs = [], requested_files = []\<rparr> = Inr (un, sel)"
    and un: "set un = request_paths la reqs - (dir_paths la ?bs \<union> file_paths la ?bs)"
    and all: "set (requested_dirs sel) \<union> set (requested_files sel) = request_paths la reqs - set un"
    and sub: "set (requested_dirs sel) \<subseteq> dir_paths la ?bs" "set (requested_files sel) \<subseteq> file_paths la ?bs"
    using resolve_dirs_result [OF files, of "remdups (map (normalize_requested_path la) reqs)"
        "\<lparr>requested_dirs = [], requested_files = []\<rparr>", unfolded dirs fpaths]
    by (auto simp: request_paths_def)
  have "load_sorted_dirs fm la fs = Inr ?ds" using loaded by (simp add: scan_loaded_def)
  then have run: "classify_fine_grain_selection fm fs spec reqs = (if un \<noteq> [] then Inl (MetaIo NotFound) else Inr sel)"
    using res by (simp add: classify_fine_grain_selection_def la [symmetric] Let_def)
  have empty: "un = [] \<longleftrightarrow> request_paths la reqs \<subseteq> dir_paths la ?bs \<union> file_paths la ?bs"
    unfolding set_empty [symmetric] un by blast
  show ?thesis
  proof (cases "un = []")
    case True
    then have "selection_of la ?bs reqs sel" using all sub by (simp add: selection_of_def)
    with True run empty show ?thesis by simp
  next
    case False
    with run empty show ?thesis by simp
  qed
qed

text \<open>The hypotheses on a source, its scan and the names of the control files.\<close>

definition plan_source_ok :: "json_enc \<Rightarrow> string \<Rightarrow> bool" where
  "plan_source_ok enc spec \<longleftrightarrow> (\<exists>k r. enc (la_source_kind (source_layout_from_spec spec)) = Inr k
    \<and> enc (la_logical_root (source_layout_from_spec spec)) = Inr r \<and> length k + length r \<le> 3800)"

definition plan_scan_ok :: "diff_formats \<Rightarrow> source_layout \<Rightarrow> nat \<Rightarrow> (nat \<times> dir_batch) list \<Rightarrow> bool" where
  "plan_scan_ok fm la n sched \<longleftrightarrow> formats_ok fm \<and> n \<le> 2 ^ 16
    \<and> (\<forall>(i, b) \<in> set sched. i < n \<and> batch_ok fm b \<and> plan_batch_ok la b)
    \<and> batches_size fm (map snd sched) < 2 ^ 46 \<and> scan_entries (map snd sched) * DIR_CACHE_SIZE < 2 ^ 32"

definition plan_names_ok :: "(byte list \<Rightarrow> byte list) \<Rightarrow> nat \<Rightarrow> nat \<Rightarrow> bool" where
  "plan_names_ok sha n entries \<longleftrightarrow> n < 2 ^ 64 \<and> inj_on (\<lambda>(s, i). plan_name sha s i) ({..<max n 1} \<times> {..<entries})"

lemma plan_names: "plan_names_ok sha n m \<Longrightarrow> names_distinct sha (copy_plan_manager ctrl n h) m"
  by (simp add: plan_names_ok_def names_distinct_def copy_plan_manager_def new_with_header_def with_policy_and_header_def)

lemma scan_plan:
  assumes codec: "json_codec enc dec" and src: "plan_source_ok enc spec"
    and scan: "plan_scan_ok fm (source_layout_from_spec spec) n sched"
    and names: "plan_names_ok sha shards (scan_entries (map snd sched))"
  defines "la \<equiv> source_layout_from_spec spec"
  shows "\<exists>st rs. write_scan fm sha256 hl n sched [] = Inr st \<and> scan_loaded la fm sha256 (st_files st) rs
    \<and> mset (map rec_batch rs) = mset (map snd sched)
    \<and> (\<forall>sel. \<exists>plan ctrl'. generate_restore_plan sha enc now fm (st_files st) ctrl spec sel shards = Inr (plan, ctrl')
      \<and> plan_lists sha dec la fm (st_files st) shards (selected_batches la sel (map rec_batch rs)) plan ctrl')"
proof -
  note s = scan [unfolded plan_scan_ok_def, folded la_def]
  have "\<exists>st rs. write_scan fm sha256 hl n sched [] = Inr st \<and> scan_loaded la fm sha256 (st_files st) rs
    \<and> mset (map rec_batch rs) = mset (map snd sched)"
    by (rule scan_is_loaded) (use s in auto)
  then obtain st rs where st: "write_scan fm sha256 hl n sched [] = Inr st"
    and loaded: "scan_loaded la fm sha256 (st_files st) rs" and ms: "mset (map rec_batch rs) = mset (map snd sched)"
    by blast
  obtain k r where kr: "enc (la_source_kind la) = Inr k" "enc (la_logical_root la) = Inr r" "length k + length r \<le> 3800"
    using src by (auto simp: plan_source_ok_def la_def)
  have "batch_ok fm (rec_batch q) \<and> plan_batch_ok la (rec_batch q)" if "q \<in> set rs" for q
  proof -
    have "rec_batch q \<in> set_mset (mset (map rec_batch rs))" using that by auto
    then have "rec_batch q \<in> set (map snd sched)" unfolding ms by simp
    with s show ?thesis by auto
  qed
  then have ok: "\<forall>q \<in> set rs. batch_ok fm (rec_batch q) \<and> plan_batch_ok la (rec_batch q)" by blast
  have entries: "scan_entries (map rec_batch rs) = scan_entries (map snd sched)" by (rule scan_entries_mset [OF ms])
  then have few: "scan_entries (map rec_batch rs) < 2 ^ 32"
    using s by (simp add: DIR_CACHE_SIZE_def)
  have n: "shards < 2 ^ 64" using names by (simp add: plan_names_ok_def)
  have distinct: "names_distinct sha (copy_plan_manager ctrl shards (source_header now (la_source_kind la) (la_logical_root la)))
      (scan_entries (map rec_batch rs))"
    unfolding entries by (rule plan_names [OF names])
  show ?thesis
    using scan_plan_written [OF codec kr la_def [THEN meta_eq_to_obj_eq] n loaded ok few distinct] st loaded ms by blast
qed

text \<open>
  C7. A full restore plan lists the whole scan. After the metadata of any scan has been written, generating a
  plan succeeds, and the control files, read back, hold every directory exactly once, in the order of the logical
  paths: the files of copy shard \<open>s\<close>, in the order of their index, hold the directories that the hash sends to it,
  each followed by all its files with references that find their metadata, and the mtime file holds the
  times of all directories.
\<close>

theorem full_plan_lists_scan:
  assumes "json_codec enc dec" and "plan_source_ok enc spec" and "plan_scan_ok fm (source_layout_from_spec spec) n sched"
    and "plan_names_ok sha shards (scan_entries (map snd sched))"
  shows "\<exists>st plan ctrl' bs. write_scan fm sha256 hl n sched [] = Inr st
    \<and> generate_control_plan sha enc now fm (st_files st) ctrl spec PlanFull shards = Inr (plan, ctrl')
    \<and> mset bs = mset (map snd sched) \<and> sorted (map (batch_path (source_layout_from_spec spec)) bs)
    \<and> plan_lists sha dec (source_layout_from_spec spec) fm (st_files st) shards bs plan ctrl'"
proof -
  let ?la = "source_layout_from_spec spec"
  obtain st rs where st: "write_scan fm sha256 hl n sched [] = Inr st" "scan_loaded ?la fm sha256 (st_files st) rs"
    "mset (map rec_batch rs) = mset (map snd sched)"
    and plan: "\<And>sel. \<exists>plan ctrl'. generate_restore_plan sha enc now fm (st_files st) ctrl spec sel shards = Inr (plan, ctrl')
      \<and> plan_lists sha dec ?la fm (st_files st) shards (selected_batches ?la sel (map rec_batch rs)) plan ctrl'"
    using scan_plan [OF assms] by blast
  have "sorted (map (batch_path ?la) (map rec_batch rs))"
    using st(2) by (simp add: scan_loaded_def comp_def)
  moreover from plan [of None] obtain plan ctrl' where
    "generate_control_plan sha enc now fm (st_files st) ctrl spec PlanFull shards = Inr (plan, ctrl')"
    "plan_lists sha dec ?la fm (st_files st) shards (map rec_batch rs) plan ctrl'"
    by (auto simp: generate_control_plan_def)
  ultimately show ?thesis using st by blast
qed

text \<open>
  C8. A fine-grained restore plan takes what was asked for. When every request, brought to its logical form, is the path of a
  directory or a file of the scan, generating the plan succeeds; the selection behind it is exactly the requests, and
  the control files hold the directories that lie at, below or above a requested path, with exactly those of their
  files that are requested or lie below a requested directory. A request that is in no directory makes the plan
  fail with NotFound.
\<close>

theorem fine_grain_plan_selects:
  assumes "json_codec enc dec" and "plan_source_ok enc spec" and "plan_scan_ok fm (source_layout_from_spec spec) n sched"
    and "plan_names_ok sha shards (scan_entries (map snd sched))"
  defines "la \<equiv> source_layout_from_spec spec" and "paths \<equiv> dir_paths (source_layout_from_spec spec) (map snd sched)
      \<union> file_paths (source_layout_from_spec spec) (map snd sched)"
  shows "\<exists>st. write_scan fm sha256 hl n sched [] = Inr st \<and>
    (if request_paths la reqs \<subseteq> paths
     then \<exists>plan ctrl' bs sel. generate_control_plan sha enc now fm (st_files st) ctrl spec (PlanFineGrain reqs) shards
           = Inr (plan, ctrl')
         \<and> mset bs = mset (map snd sched) \<and> sorted (map (batch_path la) bs) \<and> selection_of la bs reqs sel
         \<and> plan_lists sha dec la fm (st_files st) shards (selected_batches la (Some sel) bs) plan ctrl'
     else generate_control_plan sha enc now fm (st_files st) ctrl spec (PlanFineGrain reqs) shards = Inl (MetaIo NotFound))"
proof -
  obtain st rs where st: "write_scan fm sha256 hl n sched [] = Inr st" and loaded: "scan_loaded la fm sha256 (st_files st) rs"
    and ms: "mset (map rec_batch rs) = mset (map snd sched)"
    and plan: "\<And>sel. \<exists>plan ctrl'. generate_restore_plan sha enc now fm (st_files st) ctrl spec sel shards = Inr (plan, ctrl')
      \<and> plan_lists sha dec la fm (st_files st) shards (selected_batches la sel (map rec_batch rs)) plan ctrl'"
    using scan_plan [OF assms(1-4)] unfolding la_def by blast
  have "set (map rec_batch rs) = set (map snd sched)" using mset_eq_setD [OF ms] .
  then have paths: "paths = dir_paths la (map rec_batch rs) \<union> file_paths la (map rec_batch rs)"
    by (simp only: paths_def la_def dir_paths_def file_paths_def)
  note classified = classify_loaded [OF loaded la_def [THEN meta_eq_to_obj_eq], of reqs, folded paths]
  show ?thesis
  proof (cases "request_paths la reqs \<subseteq> paths")
    case True
    with classified obtain sel where sel: "classify_fine_grain_selection fm (st_files st) spec reqs = Inr sel"
      "selection_of la (map rec_batch rs) reqs sel" by auto
    from plan [of "Some sel"] sel(1) obtain plan ctrl' where
      "generate_control_plan sha enc now fm (st_files st) ctrl spec (PlanFineGrain reqs) shards = Inr (plan, ctrl')"
      "plan_lists sha dec la fm (st_files st) shards (selected_batches la (Some sel) (map rec_batch rs)) plan ctrl'"
      by (auto simp: generate_control_plan_def)
    moreover have "sorted (map (batch_path la) (map rec_batch rs))"
      using loaded by (simp add: scan_loaded_def comp_def)
    ultimately have "\<exists>plan ctrl' bs sel. generate_control_plan sha enc now fm (st_files st) ctrl spec (PlanFineGrain reqs) shards
           = Inr (plan, ctrl')
         \<and> mset bs = mset (map snd sched) \<and> sorted (map (batch_path la) bs) \<and> selection_of la bs reqs sel
         \<and> plan_lists sha dec la fm (st_files st) shards (selected_batches la (Some sel) bs) plan ctrl'"
      using ms sel(2) by blast
    with True st show ?thesis by simp
  next
    case False
    with classified st show ?thesis by (simp add: generate_control_plan_def)
  qed
qed

text \<open>The scan of \<^theory_text>\<open>FullBackup\<close>, in one copy shard.\<close>

lemma sample_plan_ok:
  "plan_source_ok plain_json_enc ''/srv''"
  "plan_scan_ok plain_formats (source_layout_from_spec ''/srv'') 2 sample_sched"
  "plan_names_ok rev 1 (scan_entries (map snd sample_sched))"
proof -
  have la: "source_layout_from_spec ''/srv'' = \<lparr>la_source_kind = ''local'', la_physical_base = ''/srv'', la_logical_root = ''/''\<rparr>"
    by code_simp
  show "plan_source_ok plain_json_enc ''/srv''"
    by (simp add: plan_source_ok_def la plain_json_enc_def plain_json_char_def graph_char_def)
  have "short_text (batch_path (source_layout_from_spec ''/srv'') b) \<and> list_all (\<lambda>f. short_text (batch_file_path (source_layout_from_spec ''/srv'') b f)) (db_files b)"
    if "(i, b) \<in> set sample_sched" for i b
  proof -
    from that have b: "b \<in> set (map snd sample_sched)" by force
    have "list_all (\<lambda>b. list_all (\<lambda>s. list_all (\<lambda>c. of_char c < (128 :: nat)) s \<and> length s < 1000)
        (batch_path (source_layout_from_spec ''/srv'') b # map (batch_file_path (source_layout_from_spec ''/srv'') b) (db_files b)))
        (map snd sample_sched)"
      by code_simp
    with b show ?thesis by (auto simp: list_all_iff intro!: short_text_ascii)
  qed
  moreover have "batches_size plain_formats (map snd sample_sched) < 2 ^ 46"
    by (simp add: batches_size_def batch_size_def files_size_def meta_size_def sample_sched_def sample_batch_def
        plain_formats_def sample_bincode_def sample_dir_def sample_file_def sample_common_def)
  moreover have "scan_entries (map snd sample_sched) * DIR_CACHE_SIZE < 2 ^ 32"
    by (simp add: scan_entries_def sample_sched_def sample_batch_def DIR_CACHE_SIZE_def)
  moreover have "\<forall>(i, b) \<in> set sample_sched. i < 2 \<and> batch_ok plain_formats b"
    by (simp add: sample_sched_def sample_batch_ok)
  ultimately show "plan_scan_ok plain_formats (source_layout_from_spec ''/srv'') 2 sample_sched"
    unfolding plan_scan_ok_def plan_batch_ok_def using plain_formats_ok by auto
  have six: "scan_entries (map snd sample_sched) = 6"
    by (simp add: scan_entries_def sample_sched_def sample_batch_def)
  have "distinct (map (plan_name rev 0) [0..<6])" by code_simp
  then have "inj_on (plan_name rev 0) {0..<6}" by (simp add: distinct_map)
  then show "plan_names_ok rev 1 (scan_entries (map snd sample_sched))"
    unfolding plan_names_ok_def six by (auto simp: inj_on_def)
qed

theorem full_plan_lists_scan_witness:
  "\<exists>st plan ctrl' bs. write_scan plain_formats (\<lambda>bs. replicate 32 0) True 2 sample_sched [] = Inr st
    \<and> generate_control_plan rev plain_json_enc 7 plain_formats (st_files st) [] ''/srv'' PlanFull 1 = Inr (plan, ctrl')
    \<and> mset bs = mset (map snd sample_sched) \<and> sorted (map (batch_path (source_layout_from_spec ''/srv'')) bs)
    \<and> plan_lists rev plain_json_dec (source_layout_from_spec ''/srv'') plain_formats (st_files st) 1 bs plan ctrl'"
  by (rule full_plan_lists_scan [OF plain_json_codec sample_plan_ok])

theorem fine_grain_plan_selects_witness:
  "\<exists>st plan ctrl' bs sel. write_scan plain_formats (\<lambda>bs. replicate 32 0) True 2 sample_sched [] = Inr st
    \<and> generate_control_plan rev plain_json_enc 7 plain_formats (st_files st) [] ''/srv'' (PlanFineGrain [''d'', ''/e/x'']) 1
      = Inr (plan, ctrl')
    \<and> selection_of (source_layout_from_spec ''/srv'') bs [''d'', ''/e/x''] sel
    \<and> plan_lists rev plain_json_dec (source_layout_from_spec ''/srv'') plain_formats (st_files st) 1
        (selected_batches (source_layout_from_spec ''/srv'') (Some sel) bs) plan ctrl'"
proof -
  have "request_paths (source_layout_from_spec ''/srv'') [''d'', ''/e/x'']
      \<subseteq> dir_paths (source_layout_from_spec ''/srv'') (map snd sample_sched)
        \<union> file_paths (source_layout_from_spec ''/srv'') (map snd sample_sched)"
    unfolding request_paths_def dir_paths_def file_paths_def by code_simp
  with fine_grain_plan_selects [OF plain_json_codec sample_plan_ok, of "\<lambda>bs. replicate 32 0" True "[''d'', ''/e/x'']" 7 "[]"]
  show ?thesis by (simp only: if_True) blast
qed

section \<open>The paths of a plan\<close>

lemma render_nonroot: "\<forall>p \<in> set ps. clean_part p \<Longrightarrow> render ps = ''/'' \<longleftrightarrow> ps = []"
  using render_inj [of ps "[]"] by (simp add: render_def)

lemma prefix_test:
  assumes "norm_parts pre \<noteq> []"
  shows "strip_prefix (normalize_logical pre @ ''/'') (normalize_logical q) \<noteq> None
    \<longleftrightarrow> strict_prefix (norm_parts pre) (norm_parts q)"
  using render_slash_prefix_iff [OF assms norm_parts_clean norm_parts_clean, of q]
  by (simp add: normalize_logical_def strip_prefix_def)

text \<open>
  C30. What a fine-grained request covers is decided by whole path components: a path matches a requested
  directory exactly when the components of the directory are a prefix of its own, whatever slashes, dots
  or backslashes either is written with, and a directory is an ancestor of a requested file exactly when its
  components are a proper prefix of the file's; the root is an ancestor of everything, itself included.
  So \<open>/d1\<close> never selects \<open>/d10\<close>.
\<close>

theorem requests_match_components:
  "path_prefix_matches pre q = prefix (norm_parts pre) (norm_parts q)
    \<and> path_is_ancestor d f = (norm_parts d = [] \<or> strict_prefix (norm_parts d) (norm_parts f))"
proof
  have "path_prefix_matches pre q = (norm_parts pre = [] \<or> norm_parts q = norm_parts pre
      \<or> strip_prefix (normalize_logical pre @ ''/'') (normalize_logical q) \<noteq> None)"
    unfolding path_prefix_matches_def Let_def normalize_eq_root normalize_eq_iff by blast
  also have "\<dots> = prefix (norm_parts pre) (norm_parts q)"
  proof (cases "norm_parts pre = []")
    case False
    show ?thesis
      unfolding prefix_test [OF False] prefix_order.le_less using False by metis
  qed simp
  finally show "path_prefix_matches pre q = prefix (norm_parts pre) (norm_parts q)" .
  show "path_is_ancestor d f = (norm_parts d = [] \<or> strict_prefix (norm_parts d) (norm_parts f))"
    unfolding path_is_ancestor_def Let_def normalize_eq_root using prefix_test [of d f] by blast
qed



end
