(* ===== verification/Spec2Isabelle.thy ===== *)
theory Spec2Isabelle
  imports PathUtil CopyControl DeleteControl MtimeControl HardlinkControl SpillQueue ScanFilter
    MetaStorage CacheStorage Diff DiffSync ShardedControl BlockingQueue LocalTransport FollowupPhases
    AggregateRestore LocalExecutor SyncScan LocalScan RestorePlan
begin

text \<open>
  \<^bold>\<open>A verification library for fpt-rs\<close>, a file backup tool written in Rust.

  The program scans a source tree into metadata and cache files, derives control files from them (what
  to copy, to delete, to link, whose times to set), and then a backup or restore executes the control
  files against a target. This library translates that core into executable definitions, one theory per
  source file where possible, and proves what the parts promise to one another. All paths below are
  under \<^verbatim>\<open>src/src/\<close>.

  \<^bold>\<open>Conventions.\<close>
  A Rust string is the list of its UTF-8 bytes (\<open>string\<close>), \<^verbatim>\<open>u8\<close> to
  \<^verbatim>\<open>u64\<close> are words of that width, \<^verbatim>\<open>Result\<close> is a sum with the error on the left. A
  file is the list of its bytes. An operation on shared or mutable state returns the new state. Failures
  of the operating system are part of the state: a list of faults, one for each call still to come, over
  which the theorems quantify; a fault may leave a write done in part, and a read may be short. The
  lemma collections and machine-integer facts all theories share are in \<^theory_text>\<open>Prelude\<close> and
  \<^theory_text>\<open>RustStr\<close>; \<^theory_text>\<open>BTree\<close> is the ordered map, \<^theory_text>\<open>Files\<close> a directory as
  names with contents.

  \<^bold>\<open>Paths and filters.\<close>
  \<^theory_text>\<open>PathUtil\<close> (\<^verbatim>\<open>utility/path_util.rs\<close>) models the functions on logical paths and
  gives a path its meaning, the list of its components. \<^theory_text>\<open>ScanFilter\<close>
  (\<^verbatim>\<open>scanner/filter.rs\<close>, the control path of \<^verbatim>\<open>scanner/options.rs\<close>) models the compiled
  patterns; a segment pattern is compared with the usual meaning of the star, and pruning a directory is
  shown to lose nothing the filter would emit.

  \<^bold>\<open>Queues.\<close>
  \<^theory_text>\<open>SpillQueue\<close> (\<^verbatim>\<open>utility/spill_queue.rs\<close>) is the queue that spills to disk, with a
  refinement to the abstract FIFO queue and the condition under which it holds. \<^theory_text>\<open>BlockingQueue\<close>
  (\<^verbatim>\<open>utility/blocking_queue.rs\<close>) has one function per critical section and a step relation in which
  threads take them in any order; the invariants are proved by rule induction over it.

  \<^bold>\<open>Control files.\<close>
  \<^theory_text>\<open>ControlCodec\<close> and \<^theory_text>\<open>ControlHeader\<close> (\<^verbatim>\<open>scanner/metadata/control_codec.rs\<close>) are
  the record layer and the header block. What the four kinds of control file share is the locale
  \<open>record_file\<close>: an encoder, a decoder and a count of the entries, with the law that decoding inverts
  encoding. Round trip, truncation and header lemmas are proved once inside it; \<^theory_text>\<open>CopyControl\<close>
  (\<^verbatim>\<open>filecontrol.rs\<close>), \<^theory_text>\<open>DeleteControl\<close> (\<^verbatim>\<open>delete.rs\<close>),
  \<^theory_text>\<open>MtimeControl\<close> (\<^verbatim>\<open>mtime.rs\<close>) and \<^theory_text>\<open>HardlinkControl\<close>
  (\<^verbatim>\<open>hardlink.rs\<close>) interpret it as \<open>copy\<close>, \<open>del\<close>, \<open>mt\<close> and \<open>hl\<close>.
  \<^theory_text>\<open>HardlinkControl\<close> also has the index that groups names by inode.
  \<^theory_text>\<open>ControlFiles\<close> (\<^verbatim>\<open>frame/control_files.rs\<close>) names and finds the files,
  \<^theory_text>\<open>ShardedControl\<close> (\<^verbatim>\<open>sharded_control.rs\<close>) splits the copy control file into shards that
  roll over.

  \<^bold>\<open>Metadata and diff.\<close>
  \<^theory_text>\<open>MetaStorage\<close> (\<^verbatim>\<open>filemeta.rs\<close>, \<^verbatim>\<open>meta_storage.rs\<close>) and
  \<^theory_text>\<open>CacheStorage\<close> (\<^verbatim>\<open>filecache.rs\<close>, \<^verbatim>\<open>cache_storage.rs\<close>) are the stores a scan
  writes, with round trips. \<^theory_text>\<open>Diff\<close> (\<^verbatim>\<open>diff.rs\<close>) is the incremental diff of two scans;
  \<^theory_text>\<open>DiffSync\<close> relates the control files it writes to trees: applied to the tree of the previous
  scan they give the tree of the current one, under named conditions, and two theorems show what happens
  without these.

  \<^bold>\<open>Scanning.\<close>
  \<^theory_text>\<open>LocalScanner\<close> (\<^verbatim>\<open>native/scanner.rs\<close>, \<^verbatim>\<open>scanner/models.rs\<close>) is the walk of the
  local tree by worker threads: one function for what a worker does with a directory, a step relation for the workers over
  any queue that keeps the locale \<open>work_queue\<close>, interpreted as \<open>spill\<close> on the spilling queue. No directory
  is lost and all workers leave, in every interleaving. \<^theory_text>\<open>ScannedTree\<close> says what the batches of the scan
  are for a tree that can be read. \<^theory_text>\<open>ScanEngine\<close> (\<^verbatim>\<open>scanner/engine.rs\<close>) has the threads that
  write the batches and the generation of the control files; \<^theory_text>\<open>ControlWriting\<close> and
  \<^theory_text>\<open>FullBackup\<close> show that the control files of a full scan list exactly its batches,
  \<^theory_text>\<open>SyncScan\<close> carries the theorem of \<^theory_text>\<open>DiffSync\<close> over to the scans behind the two
  snapshots. \<^theory_text>\<open>NormalizeControl\<close> (\<^verbatim>\<open>scanner.rs\<close>) rewrites the control files with logical paths,
  and \<^theory_text>\<open>LocalScan\<close> (\<^verbatim>\<open>native.rs\<close>) puts start, walk, writing and rewriting together, from the
  file system to the control files.

  \<^bold>\<open>Restore plans.\<close>
  \<^theory_text>\<open>Locations\<close> (\<^verbatim>\<open>frame/location.rs\<close>, the parsers of \<^verbatim>\<open>nfs.rs\<close> and \<^verbatim>\<open>smb.rs\<close>)
  prints and parses where data lives. \<^theory_text>\<open>ControlPlan\<close> (\<^verbatim>\<open>scanner/metadata/control_plan.rs\<close>)
  derives the control files of a restore from the metadata of a backup; \<^theory_text>\<open>RestorePlan\<close> shows what they
  contain: the whole scan for a full plan, what the requests cover for a fine-grained one.

  \<^bold>\<open>Copying.\<close>
  \<^theory_text>\<open>Failure\<close> (\<^verbatim>\<open>failure.rs\<close>) has the retry loops, the classes of errors and the failure
  log. \<^theory_text>\<open>EntryProducer\<close> (\<^verbatim>\<open>backup/fcb.rs\<close>, \<^verbatim>\<open>backup/aio/entry.rs\<close>) turns a copy
  control file into control blocks with mapped paths, \<^theory_text>\<open>CopyPlan\<close>
  (\<^verbatim>\<open>backup/copy_block.rs\<close>, \<^verbatim>\<open>copy_plan.rs\<close>, \<^verbatim>\<open>stats.rs\<close>) these into plans and counters.
  \<^theory_text>\<open>CopyExecutor\<close> (\<^verbatim>\<open>backup/aio/executor.rs\<close>) copies a file block by block over any
  transport: the locale \<open>block_transport\<close> states what it needs of one, and
  \<^theory_text>\<open>LocalTransport\<close> (\<^verbatim>\<open>backup/aio/local_fs.rs\<close>, \<^verbatim>\<open>transport.rs\<close>) interprets it as
  \<open>loc\<close> on a disk with short reads and failures. \<^theory_text>\<open>LocalExecutor\<close>
  (\<^verbatim>\<open>native/backup/local_executor.rs\<close>, \<^verbatim>\<open>local_block.rs\<close>, \<^verbatim>\<open>local_metadata.rs\<close>,
  \<^verbatim>\<open>local_copy.rs\<close>) is the executor of the local backup with its producer and workers as a step
  relation: accounting and termination hold in every interleaving.

  \<^bold>\<open>Phases after the copy.\<close>
  \<^theory_text>\<open>TargetTree\<close> is the target as a tree of names with the calls of \<^verbatim>\<open>std::fs\<close> on it.
  \<^theory_text>\<open>DeletePhase\<close>, \<^theory_text>\<open>HardlinkPhase\<close> and \<^theory_text>\<open>MtimePhase\<close>
  (\<^verbatim>\<open>native/backup/delete.rs\<close>, \<^verbatim>\<open>hardlink.rs\<close>, \<^verbatim>\<open>mtime.rs\<close>) execute the other three
  control files, \<^theory_text>\<open>FollowupPhases\<close> (\<^verbatim>\<open>native/backup/phases.rs\<close>) puts them in order.

  \<^bold>\<open>Aggregation of small files.\<close>
  \<^theory_text>\<open>Snowflake\<close> (the generator of \<^verbatim>\<open>backup/aggregate/mod.rs\<close>) names blobs,
  \<^theory_text>\<open>AggregateIndex\<close> and \<^theory_text>\<open>AggregateDirIndex\<close> are the two indexes,
  \<^theory_text>\<open>AggregateEngine\<close> and \<^theory_text>\<open>AggregateLocal\<close> buffer files and write blobs and indexes on
  the disk of \<^theory_text>\<open>DiskOps\<close>, \<^theory_text>\<open>AggregateRestore\<close> (also the source of
  \<^verbatim>\<open>backup/restore_pipeline.rs\<close> and the policies of \<^verbatim>\<open>backup.rs\<close>) reads them back.

  \<^bold>\<open>Bounds and fuel.\<close>
  Every loop is total: retry loops by the measure of attempts left, block loops by the bytes left, merges by
  the lengths. Only the wait for the next millisecond in \<^theory_text>\<open>Snowflake\<close> may not end and is a
  \<^theory_text>\<open>partial_function\<close> with the result \<open>None\<close>. Links are followed at most 40 times, as Linux does.
  The header block is 4096 bytes, so header texts are bounded by 3874 bytes; generated blob names are
  bounded by the 41 bits of the clock. What a scan writes is bounded by the widths of its references: metadata below
  2^46 bytes for a writer, cache files below 2^32 bytes, fewer than 2^32 entries; the walk assumes that
  the memory bound of its queue is not zero.

  \<^bold>\<open>Parameters.\<close>
  Code that is not under \<^verbatim>\<open>src/\<close> is an argument of the definitions: the printers and parsers of
  bincode and serde_json, SHA-256, SQLite, the order of a hash map, the readings of the clock; the answers of the file system to a scan are the record
  \<open>scan_env\<close>. The named
  hypotheses about them (\<open>bincode_ok\<close> and its like) state that parsing inverts printing.

  \<^bold>\<open>Not modelled.\<close>
  The NFS and SMB clients and their scanners, readers, writers and phases (\<^verbatim>\<open>nfs/\<close>, \<^verbatim>\<open>smb/\<close>) are
  sequences of calls of foreign client libraries over the network; the model has the parts they share with the
  local side: locations, entries, plans, the block executor. The conversions between operating system structures and metadata
  (\<^verbatim>\<open>native/fstat.rs\<close>, \<^verbatim>\<open>native/fwrite_meta.rs\<close>) are foreign calls too. Of
  \<^verbatim>\<open>backup.rs\<close>, \<^verbatim>\<open>backup/restore_pipeline.rs\<close> and \<^verbatim>\<open>backup/aio/\<close> the dispatch of
  tasks and the asynchronous pipelines around the executor are left out, of \<^verbatim>\<open>frame/\<close> the jobs, which schedule
  the parts above. The programs under \<^verbatim>\<open>bin/\<close> parse options and print; logging has no effect on
  results. Delays are not modelled, only what happens between them.
\<close>

end
